(* ===== verification/Prelude.thy ===== *)
theory Prelude
  imports Main "HOL-Library.Word"
begin

text \<open>
  Shared vocabulary of the Aerogel development: the integer types of
  \<^verbatim>\<open>kernel/include/types.h\<close>, the outcome type of code that may call \<^verbatim>\<open>kpanic\<close>, the
  collections of simplification rules the component theories fill, and the generic lemmas on
  lists, folds and words that the component proofs share.

  The width of \<^verbatim>\<open>uptr\<close>, \<^verbatim>\<open>size_t\<close> and \<^verbatim>\<open>unsigned long\<close> differs between the two targets
  (32 bits on x86, 64 bits on x86\_64).  Code that is compiled for both is modelled with
  addresses of type \<open>'w word\<close> for an arbitrary width \<open>'w\<close>, so that one definition
  covers both builds and their differences stay visible.
\<close>

unbundle bit_operations_syntax

section \<open>Integer types\<close>

type_synonym u8 = "8 word"
type_synonym u16 = "16 word"
type_synonym u32 = "32 word"
type_synonym u64 = "64 word"
type_synonym i32 = "32 word"

text \<open>The two build targets, where a definition depends on sizes rather than on widths.\<close>

datatype arch = X86 | X86_64

fun ptr_bytes :: "arch \<Rightarrow> nat" where
  "ptr_bytes X86 = 4"
| "ptr_bytes X86_64 = 8"

text \<open>The bytes of a string literal, without the terminating zero.\<close>

definition c_string :: "string \<Rightarrow> u8 list" where
  "c_string s = map of_char s"

section \<open>Code that may panic\<close>

text \<open>
  \<^verbatim>\<open>kpanic\<close> prints a message and halts for ever: a call that panics has no result and no
  successor state.  \<open>Panic\<close> carries the constant part of the message.
\<close>

datatype 'a outcome = Done 'a | Panic string

fun bind_outcome :: "'a outcome \<Rightarrow> ('a \<Rightarrow> 'b outcome) \<Rightarrow> 'b outcome" where
  "bind_outcome (Done a) f = f a"
| "bind_outcome (Panic m) f = Panic m"

section \<open>Rule collections\<close>

named_theorems frame_simps \<open>what an operation leaves unchanged\<close>
named_theorems repr_simps \<open>how an operation acts on the abstraction of a state\<close>
named_theorems inv_intros \<open>which operations keep an invariant\<close>

section \<open>Step relations\<close>

text \<open>
  A property that every step of a state machine keeps holds in every state that is reached from one
  where it holds.  The scheduler, the idle loop and the spin lock are such machines.
\<close>

locale invariant_of =
  fixes step :: "'s \<Rightarrow> 's \<Rightarrow> bool" and inv :: "'s \<Rightarrow> bool"
  assumes step_inv: "step s t \<Longrightarrow> inv s \<Longrightarrow> inv t"
begin

lemma reach: "step\<^sup>*\<^sup>* s t \<Longrightarrow> inv s \<Longrightarrow> inv t"
  by (induction rule: rtranclp_induct) (auto intro: step_inv)

end

section \<open>Words\<close>

lemma bit_push_bit_one [simp]:
  "bit (push_bit k (1 :: 'a::len word)) n \<longleftrightarrow> n = k \<and> n < LENGTH('a)"
  by (auto simp: bit_simps)

lemma drop_bit_and_one_eq_bit:
  fixes w :: "'a::len word"
  shows "drop_bit k w AND 1 \<noteq> 0 \<longleftrightarrow> bit w k"
proof -
  have "drop_bit k w AND 1 = of_bool (bit w k)"
    by (simp add: and_one_eq bit_iff_odd_drop_bit mod_2_eq_odd)
  then show ?thesis by simp
qed

lemma unat_push_bit_of_nat:
  assumes "i * 2 ^ k < 2 ^ LENGTH('a)"
  shows "unat (push_bit k (of_nat i :: 'a::len word)) = i * 2 ^ k"
proof -
  have "push_bit k (of_nat i :: 'a word) = of_nat (i * 2 ^ k)"
    by (simp add: push_bit_eq_mult)
  with assms show ?thesis by (simp only: unat_of_nat mod_less)
qed

lemma unat_drop_bit_div: "unat (drop_bit k w) = unat w div 2 ^ k"
  by (subst unat_drop_bit_eq) (simp add: drop_bit_eq_div)

lemma unat_bound: "unat (w :: 'a::len word) < 2 ^ LENGTH('a)"
  by (rule unsigned_less)

lemma unat_ucast_u64: "unat (ucast (w :: u32) :: u64) = unat w"
proof -
  have "unat w < 2 ^ 64" using unat_bound [of w] by simp
  then show ?thesis by (simp add: unsigned_ucast_eq take_bit_nat_eq_self)
qed

lemma unat_inj: "unat x = unat y \<Longrightarrow> x = y"
  by (simp add: unat_arith_simps(3))

lemma ucast_add_u32: "(ucast (a + b :: u64) :: u32) = ucast a + ucast b"
proof (transfer, goal_cases)
  case (1 a b)
  have "take_bit 32 (take_bit 64 a + take_bit 64 b) =
      take_bit 32 (take_bit 32 (take_bit 64 a) + take_bit 32 (take_bit 64 b))"
    by (simp only: take_bit_add)
  also have "\<dots> = take_bit 32 (take_bit 32 a + take_bit 32 b)" by simp
  finally show ?case by (simp add: take_bit_add)
qed

lemma and_ucast_u32: "(x :: u64) AND ucast (m :: u32) = ucast ((ucast x :: u32) AND m)"
  by (intro bit_word_eqI) (auto simp: bit_simps dest: bit_imp_le_length)

lemma ucast_multiple_4GiB: "(ucast ((of_nat k :: u64) * 2 ^ 32) :: u32) = 0"
  by transfer (simp add: take_bit_eq_mod mod_mod_cancel)

lemma and_power_iff_bit:
  fixes w :: "'a::len word"
  assumes "k < LENGTH('a)"
  shows "w AND 2 ^ k = 0 \<longleftrightarrow> \<not> bit w k"
proof -
  have "w AND 2 ^ k = (if bit w k then 2 ^ k else 0)"
    using assms by (intro bit_word_eqI) (auto simp: bit_simps)
  with assms show ?thesis by simp
qed

section \<open>Lists and folds\<close>

lemma fold_invariant:
  assumes "P s" and "\<And>x s. x \<in> set xs \<Longrightarrow> P s \<Longrightarrow> P (f x s)"
  shows "P (fold f xs s)"
  using assms by (induction xs arbitrary: s) auto

lemma fold_unchanged:
  assumes "\<And>x s. x \<in> set xs \<Longrightarrow> g (f x s) = g s"
  shows "g (fold f xs s) = g s"
  using assms by (induction xs arbitrary: s) auto

lemma fold_update_nth:
  assumes "j < length xs"
  shows "fold (\<lambda>i d. d[i := f i]) [0 ..< k] xs ! j = (if j < k then f j else xs ! j)"
proof -
  have len: "length (fold (\<lambda>i d. d[i := f i]) [0 ..< k] xs) = length xs" for k
    by (rule fold_unchanged) simp
  show ?thesis using assms by (induction k) (auto simp: len nth_list_update less_Suc_eq)
qed

lemma fold_update_length: "length (fold (\<lambda>i d. d[i := f i]) is xs) = length xs"
  by (rule fold_unchanged) simp

end
