(* ===== verification/Pmm.thy ===== *)
theory Pmm
  imports Prelude
begin

text \<open>
  The physical memory manager, \<^verbatim>\<open>kernel/mm/pmm.c\<close> and \<^verbatim>\<open>kernel/mm/pmm.h\<close>: a bitmap with
  one bit per 4 KiB page (set = in use) for the first 2 GiB of physical memory, a first-fit
  single-page and multi-page allocator, and byte counters.

  The file is compiled for both targets: \<^verbatim>\<open>uptr\<close> and \<^verbatim>\<open>unsigned long\<close> (the type of
  \<^verbatim>\<open>PAGE_SIZE\<close>) are \<open>'w word\<close>.  Page indices are \<open>nat\<close>: every index the code forms
  is compared with \<open>MAX_PAGES\<close> = \<open>2\<^sup>1\<^sup>9\<close> before it is used or incremented, so none wraps.
\<close>

section \<open>State and data\<close>

definition MAX_PAGES :: nat where
  "MAX_PAGES = 512 * 1024"

definition BITMAP_BYTES :: nat where
  "BITMAP_BYTES = MAX_PAGES div 8"

definition PAGE_SIZE :: u64 where
  "PAGE_SIZE = 4096"

definition PAGE_SHIFT :: nat where
  "PAGE_SHIFT = 12"

definition E820_TYPE_USABLE :: u32 where
  "E820_TYPE_USABLE = 1"

record e820_entry =
  e820_base :: u64
  e820_length :: u64
  e820_type :: u32
  e820_acpi :: u32

record pmm =
  bitmap :: "u8 list"
  total_bytes :: u64
  used_bytes :: u64

section \<open>Bitmap primitives\<close>

definition set_page :: "nat \<Rightarrow> pmm \<Rightarrow> pmm" where
  "set_page idx s =
     s\<lparr>bitmap := (bitmap s)[idx div 8 := (bitmap s ! (idx div 8)) OR push_bit (idx mod 8) 1]\<rparr>"

definition clear_page :: "nat \<Rightarrow> pmm \<Rightarrow> pmm" where
  "clear_page idx s =
     s\<lparr>bitmap := (bitmap s)[idx div 8 := (bitmap s ! (idx div 8)) AND NOT (push_bit (idx mod 8) 1)]\<rparr>"

definition test_page :: "pmm \<Rightarrow> nat \<Rightarrow> bool" where
  "test_page s idx \<longleftrightarrow> drop_bit (idx mod 8) (bitmap s ! (idx div 8)) AND 1 \<noteq> 0"

text \<open>
  \<^verbatim>\<open>ALIGN_UP\<close>, \<^verbatim>\<open>ALIGN_DOWN\<close> and \<^verbatim>\<open>PAGE_ALIGN\<close>.  The mask \<^verbatim>\<open>~(PAGE_SIZE - 1)\<close> is an
  \<^verbatim>\<open>unsigned long\<close>: it is complemented at the width of \<open>'w\<close> and only then zero-extended
  to the 64 bits of the other operand.
\<close>

definition page_mask :: "'w::len itself \<Rightarrow> u64" where
  "page_mask w = ucast (NOT (4095 :: 'w word))"

definition page_align_u64 :: "'w::len itself \<Rightarrow> u64 \<Rightarrow> u64" where
  "page_align_u64 w a = (a + PAGE_SIZE - 1) AND page_mask w"

definition page_align :: "'w::len word \<Rightarrow> 'w word" where
  "page_align a = (a + 4096 - 1) AND NOT 4095"

definition addr_to_page :: "'w::len itself \<Rightarrow> u64 \<Rightarrow> nat" where
  "addr_to_page w a = unat (ucast (drop_bit PAGE_SHIFT a) :: 'w word)"

section \<open>Marking, allocating, freeing\<close>

definition mark_page :: "nat \<Rightarrow> pmm \<Rightarrow> pmm" where
  "mark_page p s =
     (if \<not> test_page s p then (set_page p s)\<lparr>used_bytes := used_bytes s + PAGE_SIZE\<rparr> else s)"

definition pmm_mark_used :: "'w::len word \<Rightarrow> 'w word \<Rightarrow> pmm \<Rightarrow> pmm" where
  "pmm_mark_used start end s =
     (let p = addr_to_page TYPE('w) (ucast start);
          p_end = addr_to_page TYPE('w) (ucast (page_align end))
      in fold mark_page [p ..< min p_end MAX_PAGES] s)"

definition pmm_init_entry :: "'w::len itself \<Rightarrow> e820_entry \<Rightarrow> pmm \<Rightarrow> pmm" where
  "pmm_init_entry w e s =
     (if e820_type e \<noteq> E820_TYPE_USABLE then s
      else
        let start = page_align_u64 w (e820_base e);
            end = (e820_base e + e820_length e) AND page_mask w
        in if end \<le> start then s
           else
             let s = s\<lparr>total_bytes := total_bytes s + (end - start)\<rparr>;
                 p = addr_to_page w start;
                 p_end = addr_to_page w end
             in fold clear_page [p ..< min p_end MAX_PAGES] s)"

definition count_page :: "nat \<Rightarrow> pmm \<Rightarrow> pmm" where
  "count_page i s = (if test_page s i then s\<lparr>used_bytes := used_bytes s + PAGE_SIZE\<rparr> else s)"

text \<open>
  \<open>pmm_init mmap bss_end bm s\<close>: the memory map the loader left, the linker symbol
  \<^verbatim>\<open>_bss_end\<close>, the address of \<^verbatim>\<open>bitmap\<close> and the state before.  Its last statement prints two
  numbers and changes nothing.
\<close>

definition pmm_init :: "e820_entry list \<Rightarrow> 'w::len word \<Rightarrow> 'w word \<Rightarrow> pmm \<Rightarrow> pmm" where
  "pmm_init mmap bss_end bm s =
     (let s = s\<lparr>bitmap := replicate BITMAP_BYTES 0xFF\<rparr>;
          s = fold (pmm_init_entry TYPE('w)) mmap s;
          s = pmm_mark_used (0 :: 'w word) 0x100000 s;
          s = pmm_mark_used 0x10000 (page_align bss_end) s;
          s = pmm_mark_used bm (page_align (bm + of_nat BITMAP_BYTES)) s;
          s = s\<lparr>used_bytes := 0\<rparr>
      in fold count_page [0 ..< MAX_PAGES] s)"

function pmm_alloc_from :: "nat \<Rightarrow> pmm \<Rightarrow> 'w::len word \<times> pmm" where
  "pmm_alloc_from i s =
     (if i < MAX_PAGES then
        (if \<not> test_page s i then
           (push_bit PAGE_SHIFT (of_nat i),
            (set_page i s)\<lparr>used_bytes := used_bytes s + PAGE_SIZE\<rparr>)
         else pmm_alloc_from (Suc i) s)
      else (0, s))"
  by pat_completeness auto
termination
  by (relation "measure (\<lambda>(i, s). MAX_PAGES - i)") auto

definition pmm_alloc :: "pmm \<Rightarrow> 'w::len word \<times> pmm" where
  "pmm_alloc s = pmm_alloc_from 1 s"

definition take_page :: "nat \<Rightarrow> pmm \<Rightarrow> pmm" where
  "take_page j s = (set_page j s)\<lparr>used_bytes := used_bytes s + PAGE_SIZE\<rparr>"

function pmm_alloc_n_from :: "nat \<Rightarrow> nat \<Rightarrow> nat \<Rightarrow> nat \<Rightarrow> pmm \<Rightarrow> 'w::len word \<times> pmm" where
  "pmm_alloc_n_from n i run start s =
     (if i < MAX_PAGES then
        (if \<not> test_page s i then
           let start = (if run = 0 then i else start); run = Suc run
           in if run = n then
                (push_bit PAGE_SHIFT (of_nat start), fold take_page [start ..< start + n] s)
              else pmm_alloc_n_from n (Suc i) run start s
         else pmm_alloc_n_from n (Suc i) 0 start s)
      else (0, s))"
  by pat_completeness auto
termination
  by (relation "measure (\<lambda>(n, i, run, start, s). MAX_PAGES - i)") auto

definition pmm_alloc_n :: "u32 \<Rightarrow> pmm \<Rightarrow> 'w::len word \<times> pmm" where
  "pmm_alloc_n n s = (if n = 0 then (0, s) else pmm_alloc_n_from (unat n) 1 0 0 s)"

definition pmm_free :: "'w::len word \<Rightarrow> pmm \<Rightarrow> pmm" where
  "pmm_free phys s =
     (let idx = unat (drop_bit PAGE_SHIFT phys)
      in if idx \<ge> MAX_PAGES \<or> \<not> test_page s idx then s
         else (clear_page idx s)\<lparr>used_bytes := used_bytes s - PAGE_SIZE\<rparr>)"

definition pmm_free_n :: "'w::len word \<Rightarrow> u32 \<Rightarrow> pmm \<Rightarrow> pmm" where
  "pmm_free_n phys n s =
     fold (\<lambda>i. pmm_free (phys + ucast (push_bit PAGE_SHIFT (of_nat i :: u32)))) [0 ..< unat n] s"

definition pmm_total :: "pmm \<Rightarrow> u64" where
  "pmm_total s = total_bytes s"

definition pmm_used :: "pmm \<Rightarrow> u64" where
  "pmm_used s = used_bytes s"

definition pmm_available :: "pmm \<Rightarrow> u64" where
  "pmm_available s = total_bytes s - used_bytes s"

declare pmm_alloc_from.simps [simp del] pmm_alloc_n_from.simps [simp del]

section \<open>Abstraction and invariant\<close>

text \<open>
  The set of pages in use.  The invariant: the bitmap has its declared size and the byte
  counter agrees with the bitmap.
\<close>

definition used_pages :: "pmm \<Rightarrow> nat set" where
  "used_pages s = {i. i < MAX_PAGES \<and> test_page s i}"

definition pmm_wf :: "pmm \<Rightarrow> bool" where
  "pmm_wf s \<longleftrightarrow> length (bitmap s) = BITMAP_BYTES"

definition pmm_inv :: "pmm \<Rightarrow> bool" where
  "pmm_inv s \<longleftrightarrow> pmm_wf s \<and> unat (used_bytes s) = 4096 * card (used_pages s)"

section \<open>Bitmap lemmas\<close>

lemma page_index [simp]: "unat (drop_bit PAGE_SHIFT p) = unat p div 4096"
  by (simp add: PAGE_SHIFT_def unat_drop_bit_div)

lemma MAX_PAGES_bounds: "MAX_PAGES < 2 ^ 20" "1 < MAX_PAGES" "MAX_PAGES * 4096 = 2 ^ 31"
  by (simp_all add: MAX_PAGES_def)

lemma bitmap_index: "i < MAX_PAGES \<Longrightarrow> i div 8 < BITMAP_BYTES"
  by (simp add: MAX_PAGES_def BITMAP_BYTES_def)

lemma test_page_iff_bit: "test_page s i \<longleftrightarrow> bit (bitmap s ! (i div 8)) (i mod 8)"
  by (simp add: test_page_def drop_bit_and_one_eq_bit)

lemma set_page_frame [frame_simps]:
  "total_bytes (set_page i s) = total_bytes s"
  "used_bytes (set_page i s) = used_bytes s"
  "total_bytes (clear_page i s) = total_bytes s"
  "used_bytes (clear_page i s) = used_bytes s"
  "pmm_wf (set_page i s) = pmm_wf s"
  "pmm_wf (clear_page i s) = pmm_wf s"
  "pmm_wf (s\<lparr>used_bytes := u\<rparr>) = pmm_wf s"
  "pmm_wf (s\<lparr>total_bytes := u\<rparr>) = pmm_wf s"
  "used_pages (s\<lparr>used_bytes := u\<rparr>) = used_pages s"
  "used_pages (s\<lparr>total_bytes := u\<rparr>) = used_pages s"
  "test_page (s\<lparr>used_bytes := u\<rparr>) = test_page s"
  "test_page (s\<lparr>total_bytes := u\<rparr>) = test_page s"
  "clear_page i (s\<lparr>used_bytes := u\<rparr>) = (clear_page i s)\<lparr>used_bytes := u\<rparr>"
  by (simp_all add: set_page_def clear_page_def pmm_wf_def used_pages_def test_page_def fun_eq_iff)

lemma same_page: "(i::nat) div 8 = j div 8 \<Longrightarrow> i mod 8 = j mod 8 \<longleftrightarrow> i = j"
  by (metis div_mult_mod_eq)

lemma test_set_page [repr_simps]:
  assumes "pmm_wf s" "i < MAX_PAGES"
  shows "test_page (set_page i s) j \<longleftrightarrow> i = j \<or> test_page s j"
proof (cases "i div 8 = j div 8")
  case True
  with assms bitmap_index [of i] show ?thesis
    by (auto simp: test_page_iff_bit set_page_def pmm_wf_def bit_simps same_page)
next
  case False
  then show ?thesis by (auto simp: test_page_iff_bit set_page_def)
qed

lemma test_clear_page [repr_simps]:
  assumes "pmm_wf s" "i < MAX_PAGES"
  shows "test_page (clear_page i s) j \<longleftrightarrow> i \<noteq> j \<and> test_page s j"
proof (cases "i div 8 = j div 8")
  case True
  with assms bitmap_index [of i] show ?thesis
    by (auto simp: test_page_iff_bit clear_page_def pmm_wf_def bit_simps same_page)
next
  case False
  then show ?thesis by (auto simp: test_page_iff_bit clear_page_def)
qed

lemma used_set_page [repr_simps]:
  "pmm_wf s \<Longrightarrow> i < MAX_PAGES \<Longrightarrow> used_pages (set_page i s) = insert i (used_pages s)"
  by (auto simp: used_pages_def test_set_page)

lemma used_clear_page [repr_simps]:
  "pmm_wf s \<Longrightarrow> i < MAX_PAGES \<Longrightarrow> used_pages (clear_page i s) = used_pages s - {i}"
  by (auto simp: used_pages_def test_clear_page)

lemma mem_used_pages: "i \<in> used_pages s \<longleftrightarrow> i < MAX_PAGES \<and> test_page s i"
  by (simp add: used_pages_def)

lemma finite_used_pages [simp]: "finite (used_pages s)"
  by (simp add: used_pages_def)

lemma card_used_pages: "card (used_pages s) \<le> MAX_PAGES"
  using card_mono [of "{..<MAX_PAGES}" "used_pages s"] by (auto simp: used_pages_def)

lemma set_clear_page:
  assumes "pmm_wf s" "i < MAX_PAGES" "\<not> test_page s i"
  shows "clear_page i (set_page i s) = s"
proof -
  let ?k = "i div 8"
  have k: "?k < length (bitmap s)" using assms bitmap_index by (simp add: pmm_wf_def)
  have "((bitmap s ! ?k) OR push_bit (i mod 8) 1) AND NOT (push_bit (i mod 8) 1) = bitmap s ! ?k"
    using assms(3) by (intro bit_word_eqI) (auto simp: bit_simps test_page_iff_bit)
  with k show ?thesis by (simp add: set_page_def clear_page_def)
qed

section \<open>The byte counter follows the bitmap\<close>

lemma used_bytes_plus:
  assumes "unat u = 4096 * c" "c < MAX_PAGES"
  shows "unat (u + PAGE_SIZE) = 4096 * Suc c"
proof -
  have "unat u + 4096 < 2 ^ 64" using assms MAX_PAGES_bounds by simp
  then show ?thesis using assms by (simp add: PAGE_SIZE_def unat_word_ariths)
qed

lemma used_bytes_minus:
  assumes "unat u = 4096 * Suc c"
  shows "unat (u - PAGE_SIZE) = 4096 * c"
proof -
  have "PAGE_SIZE \<le> u" using assms by (simp add: word_le_nat_alt PAGE_SIZE_def)
  then show ?thesis using assms by (simp add: unat_sub PAGE_SIZE_def)
qed

lemma pmm_inv_wf [dest, simp]: "pmm_inv s \<Longrightarrow> pmm_wf s"
  by (simp add: pmm_inv_def)

lemma free_page_card: "i < MAX_PAGES \<Longrightarrow> i \<notin> used_pages s \<Longrightarrow> card (used_pages s) < MAX_PAGES"
  using psubset_card_mono [of "{..<MAX_PAGES}" "used_pages s"] by (auto simp: used_pages_def)

lemma take_page_inv [inv_intros]:
  assumes "pmm_inv s" "i < MAX_PAGES" "\<not> test_page s i"
  shows "pmm_inv (take_page i s)" "used_pages (take_page i s) = insert i (used_pages s)"
proof -
  have fresh: "i \<notin> used_pages s" using assms by (simp add: mem_used_pages)
  show used: "used_pages (take_page i s) = insert i (used_pages s)"
    using assms by (simp add: take_page_def frame_simps repr_simps)
  have "unat (used_bytes s + PAGE_SIZE) = 4096 * Suc (card (used_pages s))"
    using assms fresh by (intro used_bytes_plus free_page_card) (auto simp: pmm_inv_def)
  then show "pmm_inv (take_page i s)"
    using assms used fresh by (simp add: pmm_inv_def take_page_def frame_simps)
qed

section \<open>Single pages\<close>

lemma pmm_alloc_from_cases:
  "(\<exists>j. i \<le> j \<and> j < MAX_PAGES \<and> \<not> test_page s j \<and> (\<forall>k. i \<le> k \<and> k < j \<longrightarrow> test_page s k) \<and>
      pmm_alloc_from i s = (push_bit PAGE_SHIFT (of_nat j) :: 'w::len word, take_page j s)) \<or>
   (\<forall>k. i \<le> k \<and> k < MAX_PAGES \<longrightarrow> test_page s k) \<and> pmm_alloc_from i s = (0 :: 'w word, s)"
proof (induction i s rule: pmm_alloc_from.induct)
  case (1 i s)
  consider (over) "\<not> i < MAX_PAGES" | (free) "i < MAX_PAGES" "\<not> test_page s i"
    | (busy) "i < MAX_PAGES" "test_page s i" by blast
  then show ?case
  proof cases
    case over
    then show ?thesis by (intro disjI2) (auto simp: pmm_alloc_from.simps [of i])
  next
    case free
    then show ?thesis by (intro disjI1 exI [of _ i]) (auto simp: pmm_alloc_from.simps [of i] take_page_def)
  next
    case busy
    then have step: "pmm_alloc_from i s = (pmm_alloc_from (Suc i) s :: 'w word \<times> pmm)"
      by (simp add: pmm_alloc_from.simps [of i])
    have split: "i \<le> k \<longleftrightarrow> k = i \<or> Suc i \<le> k" for k by auto
    show ?thesis using "1.IH" busy unfolding step split by auto
  qed
qed

lemma unat_page_addr:
  assumes "i < MAX_PAGES" "32 \<le> LENGTH('w::len)"
  shows "unat (push_bit PAGE_SHIFT (of_nat i :: 'w word)) = i * 4096"
proof -
  have "i * 2 ^ 12 < (2::nat) ^ 32" using assms MAX_PAGES_bounds by simp
  also have "\<dots> \<le> 2 ^ LENGTH('w)" using assms(2) by (intro power_increasing) auto
  finally show ?thesis using unat_push_bit_of_nat [of i 12, where 'a='w] by (simp add: PAGE_SHIFT_def)
qed

lemma page_addr_nonzero:
  assumes "0 < i" "i < MAX_PAGES" "32 \<le> LENGTH('w::len)"
  shows "push_bit PAGE_SHIFT (of_nat i :: 'w word) \<noteq> 0"
  using unat_page_addr [OF assms(2,3)] assms(1) by auto

lemma page_index_addr:
  assumes "i < MAX_PAGES" "32 \<le> LENGTH('w::len)"
  shows "unat (push_bit PAGE_SHIFT (of_nat i :: 'w word)) div 4096 = i"
  using unat_page_addr [OF assms] by simp

lemma pmm_free_inv [inv_intros]:
  assumes "pmm_inv s"
  shows "pmm_inv (pmm_free p s)"
    and "used_pages (pmm_free p s) = used_pages s - {unat p div 4096}"
proof -
  define i where "i = unat p div 4096"
  have "pmm_inv (pmm_free p s) \<and> used_pages (pmm_free p s) = used_pages s - {i}"
  proof (cases "i \<in> used_pages s")
    case False
    then have "pmm_free p s = s" by (auto simp: pmm_free_def i_def mem_used_pages)
    with assms False show ?thesis by simp
  next
    case True
    then have eq: "pmm_free p s = (clear_page i s)\<lparr>used_bytes := used_bytes s - PAGE_SIZE\<rparr>"
      by (simp add: pmm_free_def i_def mem_used_pages)
    from True have card: "card (used_pages s) = Suc (card (used_pages s - {i}))"
      by (metis card.remove finite_used_pages)
    have "unat (used_bytes s - PAGE_SIZE) = 4096 * card (used_pages s - {i})"
      using assms card by (intro used_bytes_minus) (simp add: pmm_inv_def)
    with assms True show ?thesis
      by (simp add: eq pmm_inv_def frame_simps repr_simps mem_used_pages)
  qed
  then show "pmm_inv (pmm_free p s)"
    and "used_pages (pmm_free p s) = used_pages s - {unat p div 4096}"
    by (simp_all add: i_def)
qed

lemma pmm_free_take_page:
  assumes "pmm_inv s" "i < MAX_PAGES" "\<not> test_page s i" "unat p div 4096 = i"
  shows "pmm_free p (take_page i s) = s"
  using assms
  by (simp add: pmm_free_def take_page_def frame_simps repr_simps set_clear_page)

section \<open>Runs of pages\<close>

definition free_run :: "pmm \<Rightarrow> nat \<Rightarrow> nat \<Rightarrow> bool" where
  "free_run s a n \<longleftrightarrow> (\<forall>k. a \<le> k \<and> k < a + n \<longrightarrow> \<not> test_page s k)"

lemma free_run_0 [simp]: "free_run s a 0"
  by (auto simp: free_run_def)

lemma free_run_Suc: "free_run s a (Suc n) \<longleftrightarrow> free_run s a n \<and> \<not> test_page s (a + n)"
  by (auto simp: free_run_def less_Suc_eq)

lemma free_run_blocked: "test_page s k \<Longrightarrow> a \<le> k \<Longrightarrow> k < a + n \<Longrightarrow> \<not> free_run s a n"
  by (auto simp: free_run_def)

lemma take_run_inv [inv_intros]:
  assumes "pmm_inv s" "a + n \<le> MAX_PAGES" "free_run s a n"
  shows "pmm_inv (fold take_page [a ..< a + n] s) \<and>
    used_pages (fold take_page [a ..< a + n] s) = used_pages s \<union> {a ..< a + n} \<and>
    total_bytes (fold take_page [a ..< a + n] s) = total_bytes s"
  using assms(2,3)
proof (induction n)
  case 0
  with assms(1) show ?case by simp
next
  case (Suc n)
  let ?t = "fold take_page [a ..< a + n] s"
  from Suc have IH: "pmm_inv ?t" "used_pages ?t = used_pages s \<union> {a ..< a + n}"
    "total_bytes ?t = total_bytes s" by (auto simp: free_run_Suc)
  have "a + n \<notin> used_pages ?t" using Suc.prems IH(2) by (auto simp: free_run_Suc mem_used_pages)
  with Suc.prems have free: "a + n < MAX_PAGES" "\<not> test_page ?t (a + n)"
    by (auto simp: mem_used_pages)
  have "total_bytes (take_page (a + n) ?t) = total_bytes ?t"
    by (simp add: take_page_def frame_simps)
  with take_page_inv [OF IH(1) free] IH show ?case by auto
qed

text \<open>
  The scan keeps: the current run \<open>[i - run, i)\<close> is free and begins at \<open>start\<close>, and no run of
  \<open>n\<close> free pages begins before it.
\<close>

lemma pmm_alloc_n_from_cases:
  assumes "run < n" "run < i" "0 < run \<longrightarrow> start = i - run" "free_run s (i - run) run"
    and "\<forall>b. 1 \<le> b \<and> b < i - run \<longrightarrow> \<not> free_run s b n"
  shows
  "(\<exists>a. 1 \<le> a \<and> a + n \<le> MAX_PAGES \<and> free_run s a n \<and> (\<forall>b. 1 \<le> b \<and> b < a \<longrightarrow> \<not> free_run s b n) \<and>
      pmm_alloc_n_from n i run start s =
        (push_bit PAGE_SHIFT (of_nat a) :: 'w::len word, fold take_page [a ..< a + n] s)) \<or>
   (\<forall>a. 1 \<le> a \<and> a + n \<le> MAX_PAGES \<longrightarrow> \<not> free_run s a n) \<and>
     pmm_alloc_n_from n i run start s = (0 :: 'w word, s)"
  using assms
proof (induction n i run start s rule: pmm_alloc_n_from.induct)
  case (1 n i run start s)
  consider (over) "\<not> i < MAX_PAGES"
    | (busy) "i < MAX_PAGES" "test_page s i"
    | (hit) "i < MAX_PAGES" "\<not> test_page s i" "Suc run = n"
    | (more) "i < MAX_PAGES" "\<not> test_page s i" "Suc run < n"
    using "1.prems"(1) by linarith
  then show ?case
  proof cases
    case over
    have "\<not> free_run s a n" if "1 \<le> a" "a + n \<le> MAX_PAGES" for a
      using that over "1.prems" by auto
    with over show ?thesis by (intro disjI2) (simp add: pmm_alloc_n_from.simps [of n i])
  next
    case busy
    have "\<not> free_run s b n" if "1 \<le> b" "b < Suc i" for b
    proof (cases "b < i - run")
      case False
      with that "1.prems"(1,2) busy show ?thesis by (intro free_run_blocked [of s i]) auto
    qed (use that "1.prems"(5) in blast)
    with "1.IH"(2) busy "1.prems"(1) show ?thesis by (simp add: pmm_alloc_n_from.simps [of n i])
  next
    case hit
    define a where "a = i - run"
    have a: "(if run = 0 then i else start) = a" "1 \<le> a" "a + n = Suc i"
      using hit "1.prems"(1-3) by (auto simp: a_def)
    have "free_run s a n" using hit "1.prems"(2,4) free_run_Suc [of s a run] by (simp add: a_def)
    moreover have "pmm_alloc_n_from n i run start s =
        (push_bit PAGE_SHIFT (of_nat a) :: 'w::len word, fold take_page [a ..< a + n] s)"
      using hit a by (simp add: pmm_alloc_n_from.simps [of n i] Let_def)
    ultimately show ?thesis using a hit "1.prems"(5) by (intro disjI1 exI [of _ a]) (auto simp: a_def)
  next
    case more
    have "free_run s (i - run) (Suc run)"
      using more "1.prems"(2,4) by (simp add: free_run_Suc)
    moreover have start: "(if run = 0 then i else start) = i - run" using "1.prems"(3) by auto
    moreover have "pmm_alloc_n_from n i run start s =
        (pmm_alloc_n_from n (Suc i) (Suc run) (i - run) s :: 'w word \<times> pmm)"
      using more start by (simp add: pmm_alloc_n_from.simps [of n i] Let_def)
    ultimately show ?thesis using "1.IH"(1) [OF more(1,2) refl refl] more "1.prems" by simp
  qed
qed

section \<open>States are determined by the pages in use\<close>

lemma bitmap_ext:
  assumes "pmm_wf s" "pmm_wf t" "used_pages s = used_pages t"
  shows "bitmap s = bitmap t"
proof (rule nth_equalityI)
  show "length (bitmap s) = length (bitmap t)" using assms by (simp add: pmm_wf_def)
  fix k assume "k < length (bitmap s)"
  then have k: "8 * k + j < MAX_PAGES" if "j < 8" for j
    using assms(1) that by (simp add: pmm_wf_def BITMAP_BYTES_def MAX_PAGES_def)
  show "bitmap s ! k = bitmap t ! k"
  proof (rule bit_word_eqI)
    fix j assume "j < LENGTH(8)"
    then have "j < 8" by simp
    with k assms(3) have "test_page s (8 * k + j) = test_page t (8 * k + j)"
      by (auto simp: set_eq_iff mem_used_pages)
    with \<open>j < 8\<close> show "bit (bitmap s ! k) j = bit (bitmap t ! k) j"
      by (simp add: test_page_iff_bit)
  qed
qed

lemma pmm_ext:
  assumes "pmm_inv s" "pmm_inv t" "used_pages s = used_pages t" "total_bytes s = total_bytes t"
  shows "s = t"
proof -
  have "used_bytes s = used_bytes t"
    using assms by (intro unat_inj) (simp add: pmm_inv_def)
  with assms bitmap_ext [of s t] show ?thesis by simp
qed

section \<open>Freeing runs\<close>

lemma run_page_addr:
  assumes "a + i < MAX_PAGES" "32 \<le> LENGTH('w::len)" "unat (p :: 'w word) = a * 4096"
  shows "unat (p + ucast (push_bit PAGE_SHIFT (of_nat i :: u32))) div 4096 = a + i"
proof -
  have i: "unat (push_bit PAGE_SHIFT (of_nat i :: u32)) = i * 4096"
    using assms(1) by (intro unat_page_addr) auto
  have le: "(2::nat) ^ 32 \<le> 2 ^ LENGTH('w)" using assms(2) by (intro power_increasing) auto
  have small: "(a + i) * 4096 < (2::nat) ^ 32" using assms(1) by (simp add: MAX_PAGES_def)
  have "i * 4096 \<le> (a + i) * 4096" by simp
  also note small
  also note le
  finally have "i * 4096 < 2 ^ LENGTH('w)" .
  then have u: "unat (ucast (push_bit PAGE_SHIFT (of_nat i :: u32)) :: 'w word) = i * 4096"
    by (simp only: unsigned_ucast_eq i take_bit_nat_eq_self)
  have "unat p + i * 4096 = (a + i) * 4096" using assms(3) by (simp add: algebra_simps)
  also note small
  also note le
  finally have "unat p + i * 4096 < 2 ^ LENGTH('w)" .
  then have "unat (p + ucast (push_bit PAGE_SHIFT (of_nat i :: u32))) = (a + i) * 4096"
    using u assms(3) by (subst unat_plus_simple [THEN iffD1])
      (auto simp: no_olen_add_nat algebra_simps)
  then show ?thesis by simp
qed

lemma pmm_free_total [frame_simps]: "total_bytes (pmm_free p s) = total_bytes s"
  by (simp add: pmm_free_def Let_def frame_simps)

lemma pmm_free_n_inv [inv_intros]:
  assumes "pmm_inv s" "a + unat n \<le> MAX_PAGES" "32 \<le> LENGTH('w::len)" "unat (p :: 'w word) = a * 4096"
  shows "pmm_inv (pmm_free_n p n s) \<and> used_pages (pmm_free_n p n s) = used_pages s - {a ..< a + unat n} \<and>
    total_bytes (pmm_free_n p n s) = total_bytes s"
proof -
  let ?f = "\<lambda>i. pmm_free (p + ucast (push_bit PAGE_SHIFT (of_nat i :: u32)))"
  have "pmm_inv (fold ?f [0 ..< k] s) \<and> used_pages (fold ?f [0 ..< k] s) = used_pages s - {a ..< a + k} \<and>
    total_bytes (fold ?f [0 ..< k] s) = total_bytes s" if "k \<le> unat n" for k
    using that
  proof (induction k)
    case 0
    with assms(1) show ?case by simp
  next
    case (Suc k)
    with assms(2) have "a + k < MAX_PAGES" by simp
    note addr = run_page_addr [OF this assms(3,4)]
    let ?t = "fold ?f [0 ..< k] s"
    from Suc have IH: "pmm_inv ?t" "used_pages ?t = used_pages s - {a ..< a + k}"
      "total_bytes ?t = total_bytes s" by simp_all
    have "fold ?f [0 ..< Suc k] s = ?f k ?t" by simp
    moreover have "{a ..< a + Suc k} = insert (a + k) {a ..< a + k}" by auto
    ultimately show ?case
      using pmm_free_inv [OF IH(1), of "p + ucast (push_bit PAGE_SHIFT (of_nat k :: u32))"] IH
      by (simp only: addr frame_simps) auto
  qed
  then show ?thesis unfolding pmm_free_n_def by blast
qed

section \<open>Marking and initialisation\<close>

lemma mark_page_spec:
  assumes "pmm_wf s" "p < MAX_PAGES"
  shows "pmm_wf (mark_page p s)" "used_pages (mark_page p s) = insert p (used_pages s)"
    "pmm_inv s \<Longrightarrow> pmm_inv (mark_page p s)" "total_bytes (mark_page p s) = total_bytes s"
proof -
  have take: "mark_page p s = (if test_page s p then s else take_page p s)"
    by (simp add: mark_page_def take_page_def)
  show "pmm_wf (mark_page p s)" "used_pages (mark_page p s) = insert p (used_pages s)"
    "total_bytes (mark_page p s) = total_bytes s"
    using assms by (auto simp: take take_page_def frame_simps repr_simps mem_used_pages)
  show "pmm_inv (mark_page p s)" if "pmm_inv s"
    using that assms(2) by (simp add: take take_page_inv)
qed

lemma mark_pages_spec:
  assumes "pmm_wf s" "set ps \<subseteq> {..<MAX_PAGES}"
  shows "pmm_wf (fold mark_page ps s)" "used_pages (fold mark_page ps s) = used_pages s \<union> set ps"
    "pmm_inv s \<Longrightarrow> pmm_inv (fold mark_page ps s)" "total_bytes (fold mark_page ps s) = total_bytes s"
  using assms by (induction ps arbitrary: s) (auto simp: mark_page_spec)

lemma clear_pages_spec:
  assumes "pmm_wf s" "set ps \<subseteq> {..<MAX_PAGES}"
  shows "pmm_wf (fold clear_page ps s)" "used_pages (fold clear_page ps s) = used_pages s - set ps"
    "total_bytes (fold clear_page ps s) = total_bytes s"
  using assms by (induction ps arbitrary: s) (auto simp: frame_simps repr_simps)

lemma page_range_below: "set [a ..< min b MAX_PAGES] \<subseteq> {..<MAX_PAGES}"
  by auto

text \<open>The pages a range marks used and the pages a memory-map entry releases.\<close>

definition range_pages :: "'w::len word \<Rightarrow> 'w word \<Rightarrow> nat set" where
  "range_pages start end = {addr_to_page TYPE('w) (ucast start) ..<
     min (addr_to_page TYPE('w) (ucast (page_align end))) MAX_PAGES}"

definition usable_pages :: "'w::len itself \<Rightarrow> e820_entry \<Rightarrow> nat set" where
  "usable_pages w e =
     (let start = page_align_u64 w (e820_base e);
          end = (e820_base e + e820_length e) AND page_mask w
      in if e820_type e = E820_TYPE_USABLE \<and> start < end
         then {addr_to_page w start ..< min (addr_to_page w end) MAX_PAGES} else {})"

lemma pmm_mark_used_spec:
  assumes "pmm_wf s"
  shows "pmm_wf (pmm_mark_used a b s)" "used_pages (pmm_mark_used a b s) = used_pages s \<union> range_pages a b"
    "pmm_inv s \<Longrightarrow> pmm_inv (pmm_mark_used a b s)" "total_bytes (pmm_mark_used a b s) = total_bytes s"
  using mark_pages_spec [OF assms page_range_below]
  by (simp_all add: pmm_mark_used_def range_pages_def Let_def)

lemma pmm_init_entry_spec:
  assumes "pmm_wf s"
  shows "pmm_wf (pmm_init_entry w e s)" "used_pages (pmm_init_entry w e s) = used_pages s - usable_pages w e"
  using clear_pages_spec [OF _ page_range_below] assms
  by (simp_all add: pmm_init_entry_def usable_pages_def Let_def frame_simps not_le)

lemma pmm_init_entries_spec:
  assumes "pmm_wf s"
  shows "pmm_wf (fold (pmm_init_entry w) es s) \<and>
    used_pages (fold (pmm_init_entry w) es s) = used_pages s - (\<Union>e\<in>set es. usable_pages w e)"
  using assms by (induction es arbitrary: s) (auto simp: pmm_init_entry_spec)

lemma count_pages_spec:
  assumes "k \<le> MAX_PAGES" "used_bytes s = 0" "pmm_wf s"
  shows "pmm_wf (fold count_page [0 ..< k] s) \<and> used_pages (fold count_page [0 ..< k] s) = used_pages s \<and>
    unat (used_bytes (fold count_page [0 ..< k] s)) = 4096 * card (used_pages s \<inter> {..<k})"
  using assms(1)
proof (induction k)
  case 0
  with assms show ?case by simp
next
  case (Suc k)
  let ?t = "fold count_page [0 ..< k] s"
  from Suc have IH: "pmm_wf ?t" "used_pages ?t = used_pages s"
    "unat (used_bytes ?t) = 4096 * card (used_pages s \<inter> {..<k})" by auto
  have lt: "card (used_pages s \<inter> {..<k}) < MAX_PAGES"
    using card_mono [of "{..<k}" "used_pages s \<inter> {..<k}"] Suc.prems by simp
  have test: "test_page ?t k \<longleftrightarrow> k \<in> used_pages s"
    using mem_used_pages [of k ?t] Suc.prems unfolding IH(2) by simp
  have ins: "used_pages s \<inter> {..<Suc k} =
      (if k \<in> used_pages s then insert k (used_pages s \<inter> {..<k}) else used_pages s \<inter> {..<k})"
    by (auto simp: less_Suc_eq)
  have step: "fold count_page [0 ..< Suc k] s =
      (if k \<in> used_pages s then ?t\<lparr>used_bytes := used_bytes ?t + PAGE_SIZE\<rparr> else ?t)"
    by (simp add: count_page_def test)
  show ?case
  proof (cases "k \<in> used_pages s")
    case True
    show ?thesis unfolding step ins if_P [OF True] frame_simps
      using IH used_bytes_plus [OF IH(3) lt] by simp
  next
    case False
    show ?thesis unfolding step ins if_not_P [OF False] using IH by simp
  qed
qed

lemma used_pages_all_ones: "used_pages (s\<lparr>bitmap := replicate BITMAP_BYTES 0xFF\<rparr>) = {..<MAX_PAGES}"
proof -
  have "bit (0xFF :: u8) (i mod 8)" for i :: nat
  proof -
    have "(0xFF :: u8) = NOT 0" by simp
    then show ?thesis by (simp only: bit_not_iff) (simp add: bit_simps)
  qed
  then show ?thesis by (auto simp: used_pages_def test_page_iff_bit bitmap_index)
qed

lemma pmm_init_spec:
  fixes bss_end bm :: "'w::len word"
  shows "pmm_inv (pmm_init mmap bss_end bm s)"
    and "used_pages (pmm_init mmap bss_end bm s) =
      ({..<MAX_PAGES} - (\<Union>e\<in>set mmap. usable_pages TYPE('w) e)) \<union>
      range_pages (0 :: 'w word) 0x100000 \<union> range_pages 0x10000 (page_align bss_end) \<union>
      range_pages bm (page_align (bm + of_nat BITMAP_BYTES))"
proof -
  define s1 where "s1 = s\<lparr>bitmap := replicate BITMAP_BYTES 0xFF\<rparr>"
  define s2 where "s2 = fold (pmm_init_entry TYPE('w)) mmap s1"
  define s3 where "s3 = pmm_mark_used bm (page_align (bm + of_nat BITMAP_BYTES))
    (pmm_mark_used 0x10000 (page_align bss_end) (pmm_mark_used (0 :: 'w word) 0x100000 s2))"
  have 1: "pmm_wf s1" "used_pages s1 = {..<MAX_PAGES}"
    by (simp_all add: s1_def pmm_wf_def used_pages_all_ones)
  have 2: "pmm_wf s2" "used_pages s2 = {..<MAX_PAGES} - (\<Union>e\<in>set mmap. usable_pages TYPE('w) e)"
    using pmm_init_entries_spec [OF 1(1), of "TYPE('w)" mmap] 1(2) by (simp_all add: s2_def)
  have 3: "pmm_wf (s3\<lparr>used_bytes := 0\<rparr>)"
    using 2 by (simp add: s3_def pmm_mark_used_spec frame_simps)
  have init: "pmm_init mmap bss_end bm s = fold count_page [0 ..< MAX_PAGES] (s3\<lparr>used_bytes := 0\<rparr>)"
    by (simp add: pmm_init_def Let_def s1_def s2_def s3_def)
  have "used_pages s3 \<inter> {..<MAX_PAGES} = used_pages s3" by (auto simp: used_pages_def)
  with count_pages_spec [OF order_refl _ 3]
  show "pmm_inv (pmm_init mmap bss_end bm s)"
    by (simp add: init pmm_inv_def frame_simps)
  from count_pages_spec [OF order_refl _ 3]
  have "used_pages (pmm_init mmap bss_end bm s) = used_pages s3"
    by (simp add: init frame_simps)
  then show "used_pages (pmm_init mmap bss_end bm s) =
      ({..<MAX_PAGES} - (\<Union>e\<in>set mmap. usable_pages TYPE('w) e)) \<union>
      range_pages (0 :: 'w word) 0x100000 \<union> range_pages 0x10000 (page_align bss_end) \<union>
      range_pages bm (page_align (bm + of_nat BITMAP_BYTES))"
    using 2 by (simp add: s3_def pmm_mark_used_spec)
qed

section \<open>The contract its clients rely on\<close>

text \<open>
  What the virtual memory managers and the drivers assume of the page allocator: a page that
  was not in use, page-aligned and non-null, or failure with the state unchanged.
\<close>

locale page_allocator =
  fixes inv :: "'s \<Rightarrow> bool"
    and used :: "'s \<Rightarrow> nat set"
    and alloc :: "'s \<Rightarrow> 'w::len word \<times> 's"
    and free :: "'w word \<Rightarrow> 's \<Rightarrow> 's"
    and limit :: nat
  assumes alloc_page: "inv s \<Longrightarrow> alloc s = (p, t) \<Longrightarrow> p \<noteq> 0 \<Longrightarrow>
      inv t \<and> unat p div 4096 \<notin> used s \<and> used t = insert (unat p div 4096) (used s) \<and>
      unat p mod 4096 = 0 \<and> unat p div 4096 < limit"
    and alloc_none: "inv s \<Longrightarrow> alloc s = (0, t) \<Longrightarrow> t = s \<and> {1 ..< limit} \<subseteq> used s"
    and free_page: "inv s \<Longrightarrow> inv (free p s) \<and> used (free p s) = used s - {unat p div 4096}"
begin

lemma alloc_inv_mono:
  assumes "inv s" "alloc s = (p, t)"
  shows "inv t" "used s \<subseteq> used t"
  using alloc_page [OF assms] alloc_none [of s t] assms by (cases "p = 0"; auto)+

lemma alloc_distinct:
  assumes "inv s" "alloc s = (p, t)" "p \<noteq> 0" "inv t'" "used t \<subseteq> used t'" "alloc t' = (q, u)" "q \<noteq> 0"
  shows "unat p div 4096 \<noteq> unat q div 4096"
proof
  assume eq: "unat p div 4096 = unat q div 4096"
  have "unat p div 4096 \<in> used t'" using alloc_page [OF assms(1-3)] assms(5) by blast
  moreover have "unat q div 4096 \<notin> used t'" using alloc_page [OF assms(4,6,7)] by blast
  ultimately show False using eq by simp
qed

lemma alloc_free:
  assumes "inv s" "alloc s = (p, t)" "p \<noteq> 0"
  shows "used (free p t) = used s"
  using alloc_page [OF assms] free_page [of t p] by auto

lemma alloc_addr:
  assumes "inv s" "alloc s = (p, t)" "p \<noteq> 0"
  shows "unat p = 4096 * (unat p div 4096)"
  using alloc_page [OF assms] mult_div_mod_eq [of 4096 "unat p"] by linarith

lemma alloc_none_iff:
  assumes "inv s" "alloc s = (p, t)"
  shows "p = 0 \<longleftrightarrow> {1 ..< limit} \<subseteq> used s"
proof
  show "{1 ..< limit} \<subseteq> used s" if "p = 0"
    using alloc_none [OF assms(1)] assms(2) that by blast
  show "p = 0" if full: "{1 ..< limit} \<subseteq> used s"
  proof (rule ccontr)
    assume p: "p \<noteq> 0"
    note page = alloc_page [OF assms p]
    have "unat p \<noteq> 0" using p by (simp add: unat_eq_0)
    then have "unat p div 4096 \<noteq> 0" using alloc_addr [OF assms p] by linarith
    then have "unat p div 4096 \<in> {1 ..< limit}" using page by simp
    with full page show False by blast
  qed
qed

text \<open>As long as some frame is free an allocation succeeds, and uses up one of them.\<close>

lemma alloc_succeeds:
  assumes "inv s" "alloc s = (p, t)" "0 < card ({1 ..< limit} - used s)"
  shows "p \<noteq> 0" "card ({1 ..< limit} - used s) = Suc (card ({1 ..< limit} - used t))"
proof -
  have "\<not> {1 ..< limit} \<subseteq> used s" using assms(3) by (metis Diff_eq_empty_iff card.empty less_irrefl)
  with alloc_none_iff [OF assms(1,2)] show p: "p \<noteq> 0" by simp
  note page = alloc_page [OF assms(1,2) p]
  have "unat p \<noteq> 0" using p by (simp add: unat_eq_0)
  then have "unat p div 4096 \<noteq> 0" using alloc_addr [OF assms(1,2) p] by linarith
  then have "unat p div 4096 \<in> {1 ..< limit} - used s" using page by simp
  moreover have "{1 ..< limit} - used t = ({1 ..< limit} - used s) - {unat p div 4096}" using page by auto
  ultimately show "card ({1 ..< limit} - used s) = Suc (card ({1 ..< limit} - used t))"
    using assms(3) by (simp add: card_Diff_singleton)
qed

end

lemma pmm_alloc_contract:
  assumes "32 \<le> LENGTH('w::len)" "pmm_inv s" "pmm_alloc s = (p :: 'w word, t)"
  shows "p \<noteq> 0 \<Longrightarrow> pmm_inv t \<and> unat p div 4096 \<notin> used_pages s \<and>
      used_pages t = insert (unat p div 4096) (used_pages s) \<and> unat p mod 4096 = 0 \<and>
      unat p div 4096 < MAX_PAGES"
    and "p = 0 \<Longrightarrow> t = s \<and> {1 ..< MAX_PAGES} \<subseteq> used_pages s"
proof -
  consider (page) j where "1 \<le> j" "j < MAX_PAGES" "\<not> test_page s j"
      "p = push_bit PAGE_SHIFT (of_nat j)" "t = take_page j s"
    | (full) "\<forall>k. 1 \<le> k \<and> k < MAX_PAGES \<longrightarrow> test_page s k" "p = 0" "t = s"
    using pmm_alloc_from_cases [of 1 s, where 'w='w] assms(3) by (auto simp: pmm_alloc_def)
  then have "(p \<noteq> 0 \<longrightarrow> pmm_inv t \<and> unat p div 4096 \<notin> used_pages s \<and>
      used_pages t = insert (unat p div 4096) (used_pages s) \<and> unat p mod 4096 = 0 \<and>
      unat p div 4096 < MAX_PAGES) \<and> (p = 0 \<longrightarrow> t = s \<and> {1 ..< MAX_PAGES} \<subseteq> used_pages s)"
  proof cases
    case page
    with assms unat_page_addr [of j, where 'w='w] page_addr_nonzero [of j, where 'w='w]
    show ?thesis by (auto simp: take_page_inv mem_used_pages)
  next
    case full
    then show ?thesis by (auto simp: mem_used_pages)
  qed
  then show "p \<noteq> 0 \<Longrightarrow> pmm_inv t \<and> unat p div 4096 \<notin> used_pages s \<and>
      used_pages t = insert (unat p div 4096) (used_pages s) \<and> unat p mod 4096 = 0 \<and>
      unat p div 4096 < MAX_PAGES"
    and "p = 0 \<Longrightarrow> t = s \<and> {1 ..< MAX_PAGES} \<subseteq> used_pages s" by auto
qed

interpretation pmm32: page_allocator pmm_inv used_pages "pmm_alloc :: pmm \<Rightarrow> u32 \<times> pmm" pmm_free MAX_PAGES
proof
  show "\<And>s p t. pmm_inv s \<Longrightarrow> pmm_alloc s = (p :: u32, t) \<Longrightarrow> p \<noteq> 0 \<Longrightarrow>
      pmm_inv t \<and> unat p div 4096 \<notin> used_pages s \<and>
      used_pages t = insert (unat p div 4096) (used_pages s) \<and> unat p mod 4096 = 0 \<and>
      unat p div 4096 < MAX_PAGES"
    by (rule pmm_alloc_contract(1)) simp_all
  show "\<And>s t. pmm_inv s \<Longrightarrow> pmm_alloc s = (0 :: u32, t) \<Longrightarrow> t = s \<and> {1 ..< MAX_PAGES} \<subseteq> used_pages s"
    by (rule pmm_alloc_contract(2) [where 'w=32]) simp_all
qed (simp add: pmm_free_inv)

interpretation pmm64: page_allocator pmm_inv used_pages "pmm_alloc :: pmm \<Rightarrow> u64 \<times> pmm" pmm_free MAX_PAGES
proof
  show "\<And>s p t. pmm_inv s \<Longrightarrow> pmm_alloc s = (p :: u64, t) \<Longrightarrow> p \<noteq> 0 \<Longrightarrow>
      pmm_inv t \<and> unat p div 4096 \<notin> used_pages s \<and>
      used_pages t = insert (unat p div 4096) (used_pages s) \<and> unat p mod 4096 = 0 \<and>
      unat p div 4096 < MAX_PAGES"
    by (rule pmm_alloc_contract(1)) simp_all
  show "\<And>s t. pmm_inv s \<Longrightarrow> pmm_alloc s = (0 :: u64, t) \<Longrightarrow> t = s \<and> {1 ..< MAX_PAGES} \<subseteq> used_pages s"
    by (rule pmm_alloc_contract(2) [where 'w=64]) simp_all
qed (simp add: pmm_free_inv)

section \<open>Sequences of allocations\<close>

text \<open>After \<open>n\<close> first-fit allocations \<open>n\<close> more frames are in use, and none was left out below any of them.\<close>

definition grown :: "pmm \<Rightarrow> nat \<Rightarrow> pmm \<Rightarrow> bool" where
  "grown s n t \<longleftrightarrow> used_pages s \<subseteq> used_pages t \<and> card (used_pages t - used_pages s) = n \<and>
     (\<forall>x \<in> used_pages t - used_pages s. 1 \<le> x \<and> {1 ..< x} \<subseteq> used_pages t)"

lemma grown_refl [intro!, simp]: "grown s 0 s"
  by (simp add: grown_def)

lemma grown_trans:
  assumes "grown s n t" "grown t k u"
  shows "grown s (n + k) u"
proof -
  have eq: "used_pages u - used_pages s = (used_pages t - used_pages s) \<union> (used_pages u - used_pages t)"
    using assms by (auto simp: grown_def)
  then have "card (used_pages u - used_pages s) = n + k"
    using assms by (simp add: grown_def card_Un_disjoint Diff_Int_distrib2 disjoint_iff)
  moreover have "1 \<le> x \<and> {1 ..< x} \<subseteq> used_pages u" if "x \<in> used_pages u - used_pages s" for x
    using that assms unfolding eq grown_def by blast
  ultimately show ?thesis using assms unfolding grown_def by blast
qed

lemma grown_alloc:
  assumes "32 \<le> LENGTH('w::len)" "pmm_inv s" "pmm_alloc s = (p :: 'w word, t)" "p \<noteq> 0"
  shows "grown s 1 t"
proof -
  obtain j where j: "1 \<le> j" "j < MAX_PAGES" "\<not> test_page s j" "\<forall>k. 1 \<le> k \<and> k < j \<longrightarrow> test_page s k" "t = take_page j s"
    using pmm_alloc_from_cases [of 1 s, where 'w='w] assms(3,4) by (auto simp: pmm_alloc_def)
  then have "used_pages t = insert j (used_pages s)" using assms(2) by (simp add: take_page_inv mem_used_pages)
  moreover have "{1 ..< j} \<subseteq> used_pages s" "j \<notin> used_pages s" using j by (auto simp: mem_used_pages)
  ultimately show ?thesis using j(1) by (auto simp: grown_def insert_Diff_if)
qed

lemma grown_prefix:
  assumes "grown s n t" "{1 ..< a} \<subseteq> used_pages s" "{a ..< b} \<inter> used_pages s = {}" "b \<le> a + n" "1 \<le> a"
  shows "{a ..< b} \<subseteq> used_pages t"
proof
  fix z assume z: "z \<in> {a ..< b}"
  show "z \<in> used_pages t"
  proof (rule ccontr)
    assume free: "z \<notin> used_pages t"
    have "used_pages t - used_pages s \<subseteq> {a ..< z}"
    proof
      fix x assume x: "x \<in> used_pages t - used_pages s"
      then have pos: "1 \<le> x" and "{1 ..< x} \<subseteq> used_pages t" using assms(1) by (auto simp: grown_def)
      moreover have "z \<in> {1 ..< x}" if "z < x" using that z assms(5) by auto
      ultimately have "\<not> z < x" using free by blast
      moreover have "x \<noteq> z" using x free by blast
      moreover have "a \<le> x" using x assms(2) pos by (cases "x < a") auto
      ultimately show "x \<in> {a ..< z}" by auto
    qed
    then have "card (used_pages t - used_pages s) \<le> z - a" using card_mono [of "{a ..< z}"] by fastforce
    then show False using assms(1,4) z by (auto simp: grown_def)
  qed
qed

section \<open>Properties\<close>

text \<open>A memory map of a 128 MiB machine, and the allocator's state after start-up on it.\<close>

definition sample_map :: "e820_entry list" where
  "sample_map =
     [\<lparr>e820_base = 0, e820_length = 0x9FC00, e820_type = 1, e820_acpi = 0\<rparr>,
      \<lparr>e820_base = 0x100000, e820_length = 0x7F00000, e820_type = 1, e820_acpi = 0\<rparr>]"

definition sample_pmm :: pmm where
  "sample_pmm = pmm_init sample_map (0x60000 :: u64) 0x40000
     \<lparr>bitmap = replicate BITMAP_BYTES 0, total_bytes = 0, used_bytes = 0\<rparr>"

lemma sample_pmm_inv: "pmm_inv sample_pmm"
  by (simp add: sample_pmm_def pmm_init_spec)

lemma sample_pmm_used: "used_pages sample_pmm = {..<0x100} \<union> {0x8000..<MAX_PAGES}"
  unfolding sample_pmm_def pmm_init_spec(2)
  by (auto simp: sample_map_def usable_pages_def range_pages_def page_align_u64_def page_align_def
      page_mask_def addr_to_page_def PAGE_SIZE_def PAGE_SHIFT_def E820_TYPE_USABLE_def
      MAX_PAGES_def BITMAP_BYTES_def Let_def)

lemma sample_pmm_run: "free_run sample_pmm 0x100 3"
  unfolding free_run_def
proof (intro allI impI)
  fix k :: nat assume "0x100 \<le> k \<and> k < 0x100 + 3"
  then have "k < MAX_PAGES" "k \<notin> used_pages sample_pmm" by (simp_all add: sample_pmm_used MAX_PAGES_def)
  then show "\<not> test_page sample_pmm k" by (simp add: mem_used_pages)
qed

lemma sample_pmm_alloc:
  assumes "32 \<le> LENGTH('w::len)"
  shows "pmm_alloc sample_pmm \<noteq> (0 :: 'w word, t)"
proof
  assume "pmm_alloc sample_pmm = (0 :: 'w word, t)"
  then have "{1 ..< MAX_PAGES} \<subseteq> used_pages sample_pmm"
    using pmm_alloc_contract(2) [OF assms sample_pmm_inv] by blast
  moreover have "0x100 \<in> {1 ..< MAX_PAGES}" "0x100 \<notin> used_pages sample_pmm"
    by (simp_all add: sample_pmm_used MAX_PAGES_def)
  ultimately show False by blast
qed


text \<open>
  C15: \<^verbatim>\<open>pmm_alloc\<close> is first fit.  When every page but page 0 is in use it returns 0 and changes
  nothing; otherwise it returns the address of the lowest free page above page 0, marks
  exactly that page, and keeps the counter exact.
\<close>

theorem pmm_alloc_first_fit:
  assumes "32 \<le> LENGTH('w::len)" "pmm_inv s" "pmm_alloc s = (p :: 'w word, t)"
  shows "if {1 ..< MAX_PAGES} \<subseteq> used_pages s then p = 0 \<and> t = s
    else (\<exists>i. 1 \<le> i \<and> i < MAX_PAGES \<and> {1 ..< i} \<subseteq> used_pages s \<and> i \<notin> used_pages s \<and>
      unat p = 4096 * i \<and> used_pages t = insert i (used_pages s) \<and> pmm_inv t \<and>
      total_bytes t = total_bytes s)"
proof -
  consider (page) j where "1 \<le> j" "j < MAX_PAGES" "\<not> test_page s j"
      "\<forall>k. 1 \<le> k \<and> k < j \<longrightarrow> test_page s k" "p = push_bit PAGE_SHIFT (of_nat j)" "t = take_page j s"
    | (full) "\<forall>k. 1 \<le> k \<and> k < MAX_PAGES \<longrightarrow> test_page s k" "p = 0" "t = s"
    using pmm_alloc_from_cases [of 1 s, where 'w='w] assms(3) by (auto simp: pmm_alloc_def)
  then show ?thesis
  proof cases
    case page
    then have "j \<in> {1 ..< MAX_PAGES}" "j \<notin> used_pages s" "{1 ..< j} \<subseteq> used_pages s"
      by (auto simp: mem_used_pages)
    moreover from this have "\<not> {1 ..< MAX_PAGES} \<subseteq> used_pages s" by blast
    moreover have "total_bytes t = total_bytes s" using page by (simp add: take_page_def frame_simps)
    ultimately show ?thesis
      using page assms take_page_inv [of s j] unat_page_addr [of j, where 'w='w]
      by (simp only: if_False) (intro exI [of _ j], simp)
  next
    case full
    then show ?thesis by (auto simp: mem_used_pages)
  qed
qed

theorem pmm_alloc_first_fit_witness:
  "pmm_inv sample_pmm \<and> (\<exists>t. pmm_alloc sample_pmm = (0x100000 :: u64, t) \<and>
     used_pages t = insert 0x100 (used_pages sample_pmm) \<and> pmm_inv t)"
proof -
  obtain p t where eq: "pmm_alloc sample_pmm = (p :: u64, t)" by fastforce
  have free: "0x100 \<in> {1 ..< MAX_PAGES}" "0x100 \<notin> used_pages sample_pmm"
    by (simp_all add: sample_pmm_used MAX_PAGES_def)
  then have "\<not> {1 ..< MAX_PAGES} \<subseteq> used_pages sample_pmm" by blast
  with pmm_alloc_first_fit [OF _ sample_pmm_inv eq]
  obtain i where i: "1 \<le> i" "{1 ..< i} \<subseteq> used_pages sample_pmm" "i \<notin> used_pages sample_pmm"
    "unat p = 4096 * i" "used_pages t = insert i (used_pages sample_pmm)" "pmm_inv t" by auto
  have "\<not> 0x100 < i" using subsetD [OF i(2), of "0x100"] free(2) by auto
  with i(3) have "i = 0x100" by (auto simp: sample_pmm_used)
  then have "p = 0x100000" using i(4) by (intro unat_inj) simp 
  with eq i \<open>i = 0x100\<close> sample_pmm_inv show ?thesis by auto
qed

text \<open>
  C16: \<^verbatim>\<open>pmm_alloc_n\<close> is sound and complete first fit for runs.  For a non-zero request it either
  returns 0, changes nothing, and no run of that many free pages exists above page 0, or it
  returns the address of the lowest such run and marks exactly those pages.
\<close>

theorem pmm_alloc_n_first_fit:
  assumes "32 \<le> LENGTH('w::len)" "pmm_inv s" "n \<noteq> 0" "pmm_alloc_n n s = (p :: 'w word, t)"
  shows "(p = 0 \<and> t = s \<and> (\<forall>a. 1 \<le> a \<and> a + unat n \<le> MAX_PAGES \<longrightarrow> \<not> free_run s a (unat n))) \<or>
    (\<exists>a. 1 \<le> a \<and> a + unat n \<le> MAX_PAGES \<and> unat p = 4096 * a \<and> free_run s a (unat n) \<and>
      (\<forall>b. 1 \<le> b \<and> b < a \<longrightarrow> \<not> free_run s b (unat n)) \<and>
      used_pages t = used_pages s \<union> {a ..< a + unat n} \<and> pmm_inv t)"
proof -
  have n: "0 < unat n" using assms(3) by (simp add: unat_gt_0)
  have "(\<exists>a. 1 \<le> a \<and> a + unat n \<le> MAX_PAGES \<and> free_run s a (unat n) \<and>
      (\<forall>b. 1 \<le> b \<and> b < a \<longrightarrow> \<not> free_run s b (unat n)) \<and>
      p = push_bit PAGE_SHIFT (of_nat a) \<and> t = fold take_page [a ..< a + unat n] s) \<or>
    (\<forall>a. 1 \<le> a \<and> a + unat n \<le> MAX_PAGES \<longrightarrow> \<not> free_run s a (unat n)) \<and> p = 0 \<and> t = s"
    using pmm_alloc_n_from_cases [of 0 "unat n" 1 0 s, where 'w='w] n assms(3,4)
    by (simp add: pmm_alloc_n_def)
  then show ?thesis
  proof (elim disjE exE conjE)
    fix a assume a: "1 \<le> a" "a + unat n \<le> MAX_PAGES" "free_run s a (unat n)"
      "\<forall>b. 1 \<le> b \<and> b < a \<longrightarrow> \<not> free_run s b (unat n)"
      "p = push_bit PAGE_SHIFT (of_nat a)" "t = fold take_page [a ..< a + unat n] s"
    have "unat p = 4096 * a" using unat_page_addr [of a, where 'w='w] a n assms(1) by simp
    with a take_run_inv [OF assms(2) a(2,3)] show ?thesis by (intro disjI2 exI [of _ a]) simp
  qed blast
qed

theorem pmm_alloc_n_first_fit_witness:
  "pmm_inv sample_pmm \<and> (\<exists>t. pmm_alloc_n 3 sample_pmm = (0x100000 :: u32, t) \<and>
     used_pages t = used_pages sample_pmm \<union> {0x100 ..< 0x103} \<and> pmm_inv t)"
proof -
  obtain p t where eq: "pmm_alloc_n 3 sample_pmm = (p :: u32, t)" by fastforce
  have u: "unat (3 :: u32) = 3" by simp
  note run = sample_pmm_run
  moreover have "0x100 + 3 \<le> MAX_PAGES" by (simp add: MAX_PAGES_def)
  ultimately obtain a where a: "1 \<le> a" "a + 3 \<le> MAX_PAGES" "unat p = 4096 * a" "free_run sample_pmm a 3"
    "\<forall>b. 1 \<le> b \<and> b < a \<longrightarrow> \<not> free_run sample_pmm b 3"
    "used_pages t = used_pages sample_pmm \<union> {a ..< a + 3}" "pmm_inv t"
    using pmm_alloc_n_first_fit [OF _ sample_pmm_inv _ eq] unfolding u by auto
  from a(5) run have "\<not> 0x100 < a" by auto
  moreover have "a \<notin> used_pages sample_pmm"
    using a(4) [unfolded free_run_def, rule_format, of a] by (simp add: mem_used_pages)
  ultimately have "a = 0x100" by (auto simp: sample_pmm_used)
  then have "p = 0x100000" using a(3) by (intro unat_inj) simp
  with eq a \<open>a = 0x100\<close> sample_pmm_inv show ?thesis by auto
qed

text \<open>
  Freeing what \<^verbatim>\<open>pmm_alloc_n\<close> returned undoes it: the bitmap and both counters are again
  what they were.
\<close>

theorem pmm_alloc_n_free_n_roundtrip:
  assumes "32 \<le> LENGTH('w::len)" "pmm_inv s" "pmm_alloc_n n s = (p :: 'w word, t)" "p \<noteq> 0"
  shows "pmm_free_n p n t = s"
proof -
  have n: "n \<noteq> 0" using assms(3,4) by (auto simp: pmm_alloc_n_def)
  then have "0 < unat n" by (simp add: unat_gt_0)
  then obtain a where a: "1 \<le> a" "a + unat n \<le> MAX_PAGES" "free_run s a (unat n)"
    "p = push_bit PAGE_SHIFT (of_nat a)" "t = fold take_page [a ..< a + unat n] s"
    using pmm_alloc_n_from_cases [of 0 "unat n" 1 0 s, where 'w='w] n assms(3,4)
    by (auto simp: pmm_alloc_n_def)
  have t: "pmm_inv t" "used_pages t = used_pages s \<union> {a ..< a + unat n}" "total_bytes t = total_bytes s"
    using take_run_inv [OF assms(2) a(2,3)] a(5) by simp_all
  have "unat p = a * 4096"
    using unat_page_addr [of a, where 'w='w] a(2,4) \<open>0 < unat n\<close> assms(1) by simp
  note freed = pmm_free_n_inv [OF t(1) a(2) assms(1) this]
  have "used_pages s \<inter> {a ..< a + unat n} = {}"
    using a(3) by (auto simp: free_run_def mem_used_pages)
  then show ?thesis using freed t assms(2) by (intro pmm_ext) auto
qed

theorem pmm_alloc_n_free_n_roundtrip_witness:
  "\<exists>p t. pmm_alloc_n 3 sample_pmm = (p :: u64, t) \<and> p \<noteq> 0 \<and> pmm_free_n p 3 t = sample_pmm"
proof -
  obtain p t where eq: "pmm_alloc_n 3 sample_pmm = (p :: u64, t)" by fastforce
  have u: "unat (3 :: u32) = 3" by simp
  have "p \<noteq> 0"
    using sample_pmm_run pmm_alloc_n_from_cases [of 0 3 1 0 sample_pmm, where 'w=64] eq
      page_addr_nonzero [where 'w=64]
    by (force simp: pmm_alloc_n_def MAX_PAGES_def)
  with eq pmm_alloc_n_free_n_roundtrip [OF _ sample_pmm_inv eq] show ?thesis by auto
qed

text \<open>
  On the 32-bit build \<^verbatim>\<open>pmm_init\<close> ignores the upper half of a memory-map base: the mask
  \<^verbatim>\<open>~(PAGE_SIZE - 1)\<close> has 32 bits, so a usable entry at \<open>b + k * 4\<close> GiB releases the same
  low pages as an entry at \<open>b\<close>.  The 64-bit build releases nothing for such an entry.
\<close>

theorem pmm_init_x86_high_memory_aliases:
  "usable_pages TYPE(32) (e\<lparr>e820_base := e820_base e + of_nat k * 2 ^ 32\<rparr>) = usable_pages TYPE(32) e \<and>
   usable_pages TYPE(64) \<lparr>e820_base = 0x100000000, e820_length = 0x40000000, e820_type = 1, e820_acpi = 0\<rparr> = {} \<and>
   usable_pages TYPE(32) \<lparr>e820_base = 0x100000000, e820_length = 0x40000000, e820_type = 1, e820_acpi = 0\<rparr> = {0 ..< 0x40000}"
proof (intro conjI)
  define h where "h = (of_nat k :: u64) * 2 ^ 32"
  have h: "(ucast h :: u32) = 0" unfolding h_def by (rule ucast_multiple_4GiB)
  have drop: "(a + h) AND page_mask TYPE(32) = a AND page_mask TYPE(32)" for a
    unfolding page_mask_def and_ucast_u32 by (simp add: ucast_add_u32 h)
  have base: "page_align_u64 TYPE(32) (e820_base e + h) = page_align_u64 TYPE(32) (e820_base e)"
    using drop [of "e820_base e + PAGE_SIZE - 1"] by (simp add: page_align_u64_def algebra_simps)
  have top: "(e820_base e + h + e820_length e) AND page_mask TYPE(32) =
      (e820_base e + e820_length e) AND page_mask TYPE(32)"
    using drop [of "e820_base e + e820_length e"] by (simp add: algebra_simps)
  show "usable_pages TYPE(32) (e\<lparr>e820_base := e820_base e + of_nat k * 2 ^ 32\<rparr>) = usable_pages TYPE(32) e"
    unfolding h_def [symmetric] by (simp add: usable_pages_def Let_def base top)
qed (simp_all add: usable_pages_def page_align_u64_def page_mask_def addr_to_page_def PAGE_SIZE_def
    PAGE_SHIFT_def E820_TYPE_USABLE_def MAX_PAGES_def Let_def)

text \<open>
  \<^verbatim>\<open>pmm_used\<close> counts every set bit of the 2 GiB bitmap, also pages the machine does not
  have, while \<^verbatim>\<open>pmm_total\<close> counts usable memory only.  Whenever the former exceeds the latter
  the unsigned subtraction in \<^verbatim>\<open>pmm_available\<close> wraps around.
\<close>

theorem pmm_available_wraps:
  assumes "pmm_inv s" "unat (total_bytes s) < 4096 * card (used_pages s)"
  shows "unat (pmm_available s) = 2 ^ 64 + unat (pmm_total s) - 4096 * card (used_pages s) \<and>
    pmm_total s < pmm_available s"
proof -
  have used: "unat (used_bytes s) = 4096 * card (used_pages s)" using assms(1) by (simp add: pmm_inv_def)
  have small: "4096 * card (used_pages s) \<le> 2 ^ 31"
    using card_used_pages [of s] MAX_PAGES_bounds(3) by simp
  have "total_bytes s < used_bytes s" using assms(2) used by (simp add: word_less_nat_alt)
  then have "unat (pmm_available s) = 2 ^ 64 + unat (total_bytes s) - unat (used_bytes s)"
    by (simp add: pmm_available_def unat_sub_if' word_less_nat_alt not_le)
  with used small assms(2) show ?thesis by (simp add: pmm_total_def word_less_nat_alt)
qed

lemma usable_total:
  "total_bytes (pmm_init_entry w e s) = total_bytes s +
     (let start = page_align_u64 w (e820_base e); end = (e820_base e + e820_length e) AND page_mask w
      in if e820_type e = E820_TYPE_USABLE \<and> start < end then end - start else 0)"
proof -
  have "total_bytes (fold clear_page ps t) = total_bytes t" for ps t
    by (rule fold_unchanged) (simp add: frame_simps)
  then show ?thesis by (auto simp: pmm_init_entry_def Let_def not_le)
qed

lemma mark_count_total [frame_simps]:
  "total_bytes (pmm_mark_used a b s) = total_bytes s"
  "total_bytes (fold count_page ps s) = total_bytes s"
  by (auto simp: pmm_mark_used_def Let_def mark_page_def count_page_def frame_simps
      intro!: fold_unchanged)

lemma sample_pmm_total: "total_bytes sample_pmm = 0x7F9F000"
  by (simp add: sample_pmm_def pmm_init_def Let_def frame_simps sample_map_def usable_total
      page_align_u64_def page_mask_def PAGE_SIZE_def E820_TYPE_USABLE_def)

lemma sample_pmm_card: "card (used_pages sample_pmm) = 491776"
proof -
  have "card ({..<0x100} \<union> {0x8000..<MAX_PAGES}) = card {..<0x100::nat} + card {0x8000..<MAX_PAGES}"
    by (rule card_Un_disjoint) auto
  then show ?thesis by (simp add: sample_pmm_used MAX_PAGES_def)
qed

theorem pmm_available_wraps_witness:
  "unat (pmm_available sample_pmm) = 2 ^ 64 + 0x7F9F000 - 4096 * 491776 \<and>
   pmm_total sample_pmm < pmm_available sample_pmm"
  using pmm_available_wraps [OF sample_pmm_inv]
  by (simp add: sample_pmm_total sample_pmm_card pmm_total_def)

end
