(* ===== verification/Vmm32.thy ===== *)
theory Vmm32
  imports Pmm
begin

text \<open>
  The virtual memory manager of the x86 target, \<^verbatim>\<open>kernel/mm/vmm.c\<close> and \<^verbatim>\<open>kernel/mm/vmm.h\<close>:
  a two-level page directory whose first 32 entries identity-map 128 MiB with 4 MiB pages and
  whose other entries point at page tables taken from the physical memory manager.

  \<^verbatim>\<open>page_dir\<close> is a list of 1024 words.  Page tables live in physical memory and are reached
  through their frame address: \<open>ptab\<close> maps a frame address and an index to the entry there,
  so two directory entries with the same frame share a table.  The inline assembly of
  \<^verbatim>\<open>vmm_init\<close> writes \<open>cr0\<close>, \<open>cr3\<close> and \<open>cr4\<close>; \<^verbatim>\<open>invlpg\<close> is recorded in \<open>flushed\<close>.
\<close>

section \<open>State\<close>

definition PDE_PRESENT :: u32 where "PDE_PRESENT = 0x01"
definition PDE_WRITABLE :: u32 where "PDE_WRITABLE = 0x02"
definition PDE_PS :: u32 where "PDE_PS = 0x80"
definition PTE_PRESENT :: u32 where "PTE_PRESENT = 0x01"
definition LOW12 :: u32 where "LOW12 = 0xFFF" \<comment> \<open>the literal of the address masks\<close>
definition IDENTITY_MB :: nat where "IDENTITY_MB = 128"

record vmm32 =
  page_dir :: "u32 list"
  ptab :: "u32 \<Rightarrow> nat \<Rightarrow> u32"
  frames :: pmm
  cr0 :: u32
  cr3 :: u32
  cr4 :: u32
  flushed :: "u32 list"

section \<open>Operations\<close>

definition pd_index :: "u32 \<Rightarrow> nat" where
  "pd_index virt = unat (drop_bit 22 virt)"

definition pt_index :: "u32 \<Rightarrow> nat" where
  "pt_index virt = unat (drop_bit 12 virt AND 0x3FF)"

text \<open>\<open>dir_addr\<close> is the address of the static array \<^verbatim>\<open>page_dir\<close>.\<close>

definition vmm_init :: "u32 \<Rightarrow> vmm32 \<Rightarrow> vmm32" where
  "vmm_init dir_addr m =
     (let dir = fold (\<lambda>i d. d[i := (of_nat i * 0x400000) OR PDE_PRESENT OR PDE_WRITABLE OR PDE_PS])
                  [0 ..< IDENTITY_MB div 4] (replicate 1024 0)
      in m\<lparr>page_dir := dir,
           cr4 := cr4 m OR push_bit 4 1,
           cr3 := dir_addr,
           cr0 := cr0 m OR push_bit 31 1\<rparr>)"

definition vmm_flush_tlb :: "u32 \<Rightarrow> vmm32 \<Rightarrow> vmm32" where
  "vmm_flush_tlb virt m = m\<lparr>flushed := virt # flushed m\<rparr>"

definition pt_write :: "u32 \<Rightarrow> nat \<Rightarrow> u32 \<Rightarrow> vmm32 \<Rightarrow> vmm32" where
  "pt_write pt i v m = m\<lparr>ptab := (ptab m)(pt := (ptab m pt)(i := v))\<rparr>"

definition vmm_map :: "u32 \<Rightarrow> u32 \<Rightarrow> u32 \<Rightarrow> vmm32 \<Rightarrow> vmm32 outcome" where
  "vmm_map virt phys flags m =
     (let pdi = pd_index virt; pti = pt_index virt; pde = page_dir m ! pdi
      in if pde AND PDE_PS \<noteq> 0 then Panic ''vmm_map: cannot map within PSE region''
         else
           let store = (\<lambda>pt m. vmm_flush_tlb virt
                 (pt_write pt pti ((phys AND NOT LOW12) OR (flags AND LOW12) OR PTE_PRESENT) m))
           in if pde AND PDE_PRESENT = 0 then
                let (pa, f) = pmm_alloc (frames m); m = m\<lparr>frames := f\<rparr>
                in if pa = 0 then Panic ''vmm_map: out of physical memory''
                   else
                     let m = m\<lparr>ptab := (ptab m)(pa := (\<lambda>_. 0))\<rparr>;
                         m = m\<lparr>page_dir := (page_dir m)[pdi := pa OR PDE_PRESENT OR PDE_WRITABLE]\<rparr>
                     in Done (store pa m)
              else Done (store (pde AND NOT LOW12) m))"

definition vmm_unmap :: "u32 \<Rightarrow> vmm32 \<Rightarrow> vmm32" where
  "vmm_unmap virt m =
     (let pdi = pd_index virt; pti = pt_index virt; pde = page_dir m ! pdi
      in if pde AND PDE_PRESENT = 0 \<or> pde AND PDE_PS \<noteq> 0 then m
         else vmm_flush_tlb virt (pt_write (pde AND NOT LOW12) pti 0 m))"

definition vmm_phys :: "u32 \<Rightarrow> vmm32 \<Rightarrow> u32" where
  "vmm_phys virt m =
     (let pdi = pd_index virt; pti = pt_index virt; pde = page_dir m ! pdi
      in if pde AND PDE_PRESENT = 0 then 0
         else if pde AND PDE_PS \<noteq> 0 then (pde AND 0xFFC00000) OR (virt AND 0x3FFFFF)
         else
           let pte = ptab m (pde AND NOT LOW12) pti
           in if pte AND PTE_PRESENT = 0 then 0
              else (pte AND NOT LOW12) OR (virt AND LOW12))"

section \<open>Invariant\<close>

text \<open>A directory entry that points at a page table.\<close>

definition table_entry :: "u32 \<Rightarrow> bool" where
  "table_entry pde \<longleftrightarrow> pde AND PDE_PRESENT \<noteq> 0 \<and> pde AND PDE_PS = 0"

definition table_frame :: "u32 \<Rightarrow> u32" where
  "table_frame pde = pde AND NOT LOW12"

definition vmm_inv :: "vmm32 \<Rightarrow> bool" where
  "vmm_inv m \<longleftrightarrow> length (page_dir m) = 1024 \<and> pmm_inv (frames m) \<and>
     (\<forall>i < 1024. table_entry (page_dir m ! i) \<longrightarrow>
        unat (table_frame (page_dir m ! i)) div 4096 \<in> used_pages (frames m)) \<and>
     (\<forall>i < 1024. \<forall>j < 1024. table_entry (page_dir m ! i) \<longrightarrow> table_entry (page_dir m ! j) \<longrightarrow>
        table_frame (page_dir m ! i) = table_frame (page_dir m ! j) \<longrightarrow> i = j)"

section \<open>Index arithmetic\<close>

lemma pd_index_bound [simp]: "pd_index v < 1024"
proof -
  have "unat v < 2 ^ 32" by (rule order_less_le_trans [OF unsigned_less]) simp
  then show ?thesis by (simp add: pd_index_def unat_drop_bit_div)
qed

lemma pt_index_eq: "pt_index v = unat v div 4096 mod 1024"
proof -
  have "(0x3FF :: u32) = mask 10" by (simp add: mask_eq_exp_minus_1)
  then have "pt_index v = unat (take_bit 10 (drop_bit 12 v))"
    by (simp only: pt_index_def take_bit_eq_mask)
  also have "\<dots> = take_bit 10 (unat v div 4096)" by (simp add: unsigned_take_bit_eq unat_drop_bit_div)
  finally show ?thesis by (simp add: take_bit_eq_mod)
qed

lemma same_page_iff:
  "drop_bit 12 v = drop_bit 12 w \<longleftrightarrow> pd_index v = pd_index w \<and> pt_index v = pt_index w"
proof -
  have "drop_bit 12 v = drop_bit 12 w \<longleftrightarrow> unat v div 4096 = unat w div 4096"
    by (auto simp: unat_drop_bit_div dest: arg_cong [of _ _ unat] intro!: unat_inj)
  also have "\<dots> \<longleftrightarrow> unat v div 4096 div 1024 = unat w div 4096 div 1024 \<and>
      unat v div 4096 mod 1024 = unat w div 4096 mod 1024"
    by (metis div_mult_mod_eq)
  finally show ?thesis
    by (simp add: pt_index_eq pd_index_def unat_drop_bit_div flip: div_mult2_eq)
qed

lemma entry_bits [simp]:
  "w AND PDE_PRESENT = 0 \<longleftrightarrow> \<not> bit w 0"
  "w AND PTE_PRESENT = 0 \<longleftrightarrow> \<not> bit w 0"
  "w AND PDE_PS = 0 \<longleftrightarrow> \<not> bit w 7"
  using and_power_iff_bit [of 0 w] and_power_iff_bit [of 7 w]
  by (auto simp: PDE_PRESENT_def PTE_PRESENT_def PDE_PS_def)

lemma low12: "LOW12 = mask 12"
  by (simp add: LOW12_def mask_eq_exp_minus_1)

lemma flag_bits [simp]:
  "bit PDE_PRESENT n \<longleftrightarrow> n = 0" "bit PTE_PRESENT n \<longleftrightarrow> n = 0"
  "bit PDE_WRITABLE n \<longleftrightarrow> n = 1" "bit PDE_PS n \<longleftrightarrow> n = 7"
proof -
  have bit: "w = push_bit k 1 \<Longrightarrow> k < 32 \<Longrightarrow> bit w n \<longleftrightarrow> n = k" for w :: u32 and k
    by (simp only: bit_push_bit_one) auto
  show "bit PDE_PRESENT n \<longleftrightarrow> n = 0" "bit PTE_PRESENT n \<longleftrightarrow> n = 0"
    "bit PDE_WRITABLE n \<longleftrightarrow> n = 1" "bit PDE_PS n \<longleftrightarrow> n = 7"
    by (rule bit; simp add: PDE_PRESENT_def PTE_PRESENT_def PDE_WRITABLE_def PDE_PS_def)+
qed

lemma pte_bits:
  "bit ((phys AND NOT LOW12) OR (flags AND LOW12) OR PTE_PRESENT) 0"
  "((phys AND NOT LOW12) OR (flags AND LOW12) OR PTE_PRESENT) AND NOT LOW12 = phys AND NOT LOW12"
proof -
  show "bit ((phys AND NOT LOW12) OR (flags AND LOW12) OR PTE_PRESENT) 0" by (simp add: bit_or_iff)
  show "((phys AND NOT LOW12) OR (flags AND LOW12) OR PTE_PRESENT) AND NOT LOW12 = phys AND NOT LOW12"
    unfolding low12 by (intro bit_word_eqI) (auto simp: bit_simps)
qed

lemma frame_aligned:
  assumes "unat (p :: u32) mod 4096 = 0"
  shows "p AND NOT LOW12 = p" "\<And>k. k < 12 \<Longrightarrow> \<not> bit p k"
proof -
  have "take_bit 12 p = 0"
    using assms by (intro unat_inj) (simp only: unsigned_take_bit_eq, simp add: take_bit_eq_mod)
  then show low: "\<not> bit p k" if "k < 12" for k
    using bit_take_bit_iff [of 12 p k] that by simp
  then show "p AND NOT LOW12 = p"
    unfolding low12 by (intro bit_word_eqI) (auto simp: bit_simps)
qed

lemma pde_bits:
  assumes "unat p mod 4096 = 0"
  shows "bit (p OR PDE_PRESENT OR PDE_WRITABLE) 0" "\<not> bit (p OR PDE_PRESENT OR PDE_WRITABLE) 7"
    "(p OR PDE_PRESENT OR PDE_WRITABLE) AND NOT LOW12 = p"
proof -
  note low = frame_aligned(2) [OF assms]
  show "bit (p OR PDE_PRESENT OR PDE_WRITABLE) 0" "\<not> bit (p OR PDE_PRESENT OR PDE_WRITABLE) 7"
    using low [of 7] by (simp_all add: bit_or_iff)
  show "(p OR PDE_PRESENT OR PDE_WRITABLE) AND NOT LOW12 = p"
    unfolding low12 using low by (intro bit_word_eqI) (auto simp: bit_simps)
qed

section \<open>Walks\<close>

text \<open>What a translation depends on, in terms of entries rather than masks.\<close>

lemma table_entry_iff [simp]: "table_entry pde \<longleftrightarrow> bit pde 0 \<and> \<not> bit pde 7"
  by (simp add: table_entry_def)

definition walk :: "u32 \<Rightarrow> vmm32 \<Rightarrow> u32" where
  "walk v m = ptab m (table_frame (page_dir m ! pd_index v)) (pt_index v)"

lemma vmm_phys_walk:
  "vmm_phys v m = (let pde = page_dir m ! pd_index v
     in if \<not> bit pde 0 then 0
        else if bit pde 7 then (pde AND 0xFFC00000) OR (v AND 0x3FFFFF)
        else if \<not> bit (walk v m) 0 then 0 else (walk v m AND NOT LOW12) OR (v AND LOW12))"
  by (simp add: vmm_phys_def walk_def table_frame_def Let_def)

lemma vmm_map_cases:
  assumes "vmm_map v p f m = Done m'" "vmm_inv m"
  obtains (old) "table_entry (page_dir m ! pd_index v)"
      "m' = vmm_flush_tlb v (pt_write (table_frame (page_dir m ! pd_index v)) (pt_index v)
         ((p AND NOT LOW12) OR (f AND LOW12) OR PTE_PRESENT) m)"
  | (new) pa fr where "\<not> bit (page_dir m ! pd_index v) 0" "\<not> bit (page_dir m ! pd_index v) 7"
      "pmm_alloc (frames m) = (pa, fr)" "pa \<noteq> 0"
      "m' = vmm_flush_tlb v (pt_write pa (pt_index v) ((p AND NOT LOW12) OR (f AND LOW12) OR PTE_PRESENT)
         (m\<lparr>frames := fr, ptab := (ptab m)(pa := (\<lambda>_. 0)),
            page_dir := (page_dir m)[pd_index v := pa OR PDE_PRESENT OR PDE_WRITABLE]\<rparr>))"
  using assms
  by (auto simp: vmm_map_def Let_def table_frame_def split: if_splits prod.splits)

lemma table_frame_page:
  "unat (table_frame p) div 4096 = unat (table_frame q) div 4096 \<longleftrightarrow> table_frame p = table_frame q"
proof -
  have "unat (table_frame p) mod 4096 = 0" for p
  proof -
    have "take_bit 12 (table_frame p) = 0"
      unfolding table_frame_def low12 by (intro bit_word_eqI) (auto simp: bit_simps)
    then have "unat (take_bit 12 (table_frame p)) = 0" by simp
    then show ?thesis by (simp only: unsigned_take_bit_eq) (simp add: take_bit_eq_mod)
  qed
  then show ?thesis by (metis div_mult_mod_eq unat_inj)
qed

text \<open>A fresh frame differs from every frame a table lives in.\<close>

lemma fresh_frame:
  assumes "vmm_inv m" "pmm_alloc (frames m) = (pa, fr)" "pa \<noteq> 0" "i < 1024" "table_entry (page_dir m ! i)"
  shows "table_frame (page_dir m ! i) \<noteq> pa"
proof
  assume eq: "table_frame (page_dir m ! i) = pa"
  have "unat pa div 4096 \<in> used_pages (frames m)"
    using assms(1,4,5) unfolding vmm_inv_def eq [symmetric] by blast
  moreover have "unat pa div 4096 \<notin> used_pages (frames m)"
    using pmm32.alloc_page [of "frames m" pa fr] assms(1-3) by (simp add: vmm_inv_def)
  ultimately show False by contradiction
qed

lemma vmm_map_old_inv:
  assumes "vmm_inv m"
  shows "vmm_inv (vmm_flush_tlb v (pt_write fr i e m))"
  using assms by (simp add: vmm_inv_def vmm_flush_tlb_def pt_write_def)

lemma vmm_map_inv:
  assumes "vmm_inv m" "vmm_map v p f m = Done m'"
  shows "vmm_inv m'"
proof (cases rule: vmm_map_cases [OF assms(2,1)])
  case 1
  with assms(1) show ?thesis by (simp add: vmm_map_old_inv)
next
  case (2 pa fr)
  have len: "length (page_dir m) = 1024" and inv: "pmm_inv (frames m)"
    using assms(1) by (simp_all add: vmm_inv_def)
  note page = pmm32.alloc_page [OF inv 2(3,4)]
  define d where "d = (page_dir m)[pd_index v := pa OR PDE_PRESENT OR PDE_WRITABLE]"
  have al: "unat pa mod 4096 = 0" using page by simp
  have new: "table_frame (d ! pd_index v) = pa"
    using len pde_bits(3) [OF al] by (simp add: d_def table_frame_def)
  have old: "d ! i = page_dir m ! i" if "i \<noteq> pd_index v" for i
    using that by (simp add: d_def)
  have used: "unat (table_frame (d ! i)) div 4096 \<in> used_pages fr"
    if "i < 1024" "table_entry (d ! i)" for i
  proof (cases "i = pd_index v")
    case True
    then show ?thesis using new page by simp
  next
    case False
    then show ?thesis using that old page assms(1) unfolding vmm_inv_def by auto
  qed
  have inj: "i = j" if "i < 1024" "j < 1024" "table_entry (d ! i)" "table_entry (d ! j)"
    "table_frame (d ! i) = table_frame (d ! j)" for i j
  proof (cases "i = pd_index v \<or> j = pd_index v")
    case True
    then show ?thesis using that old new fresh_frame [OF assms(1) 2(3,4)] by metis
  next
    case False
    then show ?thesis using that old assms(1) unfolding vmm_inv_def by metis
  qed
  show ?thesis
    unfolding vmm_inv_def
    using len page used inj 2(5) by (simp add: vmm_flush_tlb_def pt_write_def d_def [symmetric]) (simp add: d_def)
qed

lemma vmm_map_keeps_ps:
  assumes "vmm_inv m" "vmm_map v p f m = Done m'"
  shows "bit (page_dir m' ! i) 7 = bit (page_dir m ! i) 7"
proof (cases rule: vmm_map_cases [OF assms(2,1)])
  case 1
  then show ?thesis by (simp add: vmm_flush_tlb_def pt_write_def)
next
  case (2 pa fr)
  have len: "length (page_dir m) = 1024" and inv: "pmm_inv (frames m)"
    using assms(1) by (simp_all add: vmm_inv_def)
  have "unat pa mod 4096 = 0" using pmm32.alloc_page [OF inv 2(3,4)] by simp
  then have "\<not> bit (pa OR PDE_PRESENT OR PDE_WRITABLE) 7" by (rule pde_bits(2))
  with 2 len show ?thesis
    by (cases "i = pd_index v") (simp_all add: vmm_flush_tlb_def pt_write_def)
qed

lemma walk_map_old:
  assumes "vmm_inv m" "table_entry (page_dir m ! pd_index v)" "table_entry (page_dir m ! pd_index w)"
  shows "walk w (vmm_flush_tlb v (pt_write (table_frame (page_dir m ! pd_index v)) (pt_index v) e m)) =
    (if drop_bit 12 w = drop_bit 12 v then e else walk w m)"
proof -
  have "table_frame (page_dir m ! pd_index w) = table_frame (page_dir m ! pd_index v) \<longleftrightarrow>
      pd_index w = pd_index v"
    using assms unfolding vmm_inv_def by (metis pd_index_bound)
  then show ?thesis by (auto simp: walk_def vmm_flush_tlb_def pt_write_def same_page_iff)
qed

lemma same_page_pd_index: "drop_bit 12 w = drop_bit 12 v \<Longrightarrow> pd_index w = pd_index v"
  by (simp add: same_page_iff)

lemma vmm_map_phys:
  assumes "vmm_inv m" "vmm_map v p f m = Done m'"
  shows "vmm_phys w m' =
    (if drop_bit 12 w = drop_bit 12 v then (p AND NOT LOW12) OR (w AND LOW12) else vmm_phys w m)"
proof (cases rule: vmm_map_cases [OF assms(2,1)])
  case 1
  have dir: "page_dir m' = page_dir m" using 1(2) by (simp add: vmm_flush_tlb_def pt_write_def)
  show ?thesis
  proof (cases "table_entry (page_dir m ! pd_index w)")
    case True
    have "walk w m' = (if drop_bit 12 w = drop_bit 12 v
        then (p AND NOT LOW12) OR (f AND LOW12) OR PTE_PRESENT else walk w m)"
      unfolding 1(2) by (rule walk_map_old [OF assms(1) 1(1) True])
    with True show ?thesis by (simp add: vmm_phys_walk dir pte_bits Let_def)
  next
    case False
    with 1(1) have "drop_bit 12 w \<noteq> drop_bit 12 v" by (metis same_page_pd_index)
    with False show ?thesis by (auto simp: vmm_phys_walk dir Let_def)
  qed
next
  case (2 pa fr)
  have len: "length (page_dir m) = 1024" and inv: "pmm_inv (frames m)"
    using assms(1) by (simp_all add: vmm_inv_def)
  have al: "unat pa mod 4096 = 0" using pmm32.alloc_page [OF inv 2(3,4)] by simp
  show ?thesis
  proof (cases "pd_index w = pd_index v")
    case True
    have "page_dir m' ! pd_index w = pa OR PDE_PRESENT OR PDE_WRITABLE"
      using True len 2(5) by (simp add: vmm_flush_tlb_def pt_write_def)
    moreover from this have "walk w m' =
        (if drop_bit 12 w = drop_bit 12 v then (p AND NOT LOW12) OR (f AND LOW12) OR PTE_PRESENT else 0)"
      using True 2(5) pde_bits(3) [OF al]
      by (simp add: walk_def table_frame_def vmm_flush_tlb_def pt_write_def same_page_iff)
    ultimately show ?thesis
      using pde_bits [OF al] 2(1) True by (simp add: vmm_phys_walk pte_bits Let_def)
  next
    case False
    have dir: "page_dir m' ! pd_index w = page_dir m ! pd_index w"
      using False 2(5) by (simp add: vmm_flush_tlb_def pt_write_def)
    have "walk w m' = walk w m" if "table_entry (page_dir m ! pd_index w)"
      using fresh_frame [OF assms(1) 2(3,4) _ that] 2(5) False
      by (simp add: walk_def vmm_flush_tlb_def pt_write_def)
    with dir False show ?thesis by (auto simp: vmm_phys_walk Let_def same_page_iff)
  qed
qed

section \<open>Initialisation and unmapping\<close>

lemma vmm_init_dir:
  assumes "i < 1024"
  shows "page_dir (vmm_init a m) ! i =
    (if i < 32 then (of_nat i * 0x400000) OR PDE_PRESENT OR PDE_WRITABLE OR PDE_PS else 0)"
  using assms by (simp add: vmm_init_def Let_def fold_update_nth IDENTITY_MB_def)

lemma vmm_init_inv:
  assumes "pmm_inv (frames m)"
  shows "vmm_inv (vmm_init a m)"
proof -
  have "\<not> table_entry (page_dir (vmm_init a m) ! i)" if "i < 1024" for i
    using that by (simp add: vmm_init_dir bit_or_iff)
  moreover have "length (page_dir (vmm_init a m)) = 1024" "frames (vmm_init a m) = frames m"
    by (simp_all add: vmm_init_def Let_def fold_update_length)
  ultimately show ?thesis using assms unfolding vmm_inv_def by auto
qed

lemma vmm_init_phys: "vmm_phys v (vmm_init a m) = (if unat v < 128 * 2 ^ 20 then v else 0)"
proof (cases "unat v < 128 * 2 ^ 20")
  case True
  then have i: "pd_index v < 32" by (simp add: pd_index_def unat_drop_bit_div)
  define e where "e = push_bit 22 (drop_bit 22 v) OR PDE_PRESENT OR PDE_WRITABLE OR PDE_PS"
  have "of_nat (pd_index v) * 0x400000 = push_bit 22 (drop_bit 22 v)"
    by (simp add: pd_index_def push_bit_eq_mult)
  with i have dir: "page_dir (vmm_init a m) ! pd_index v = e"
    by (simp add: vmm_init_dir e_def)
  have m: "(0xFFC00000 :: u32) = NOT (mask 22)" "(0x3FFFFF :: u32) = mask 22"
    by (simp_all add: mask_eq_exp_minus_1)
  have "(e AND 0xFFC00000) OR (v AND 0x3FFFFF) = v"
    unfolding m e_def by (intro bit_word_eqI) (auto simp: bit_simps)
  moreover have "bit e 0" "bit e 7" by (simp_all add: e_def bit_or_iff)
  ultimately show ?thesis using True by (simp add: vmm_phys_walk dir Let_def)
next
  case False
  then have "\<not> pd_index v < 32" by (simp add: pd_index_def unat_drop_bit_div)
  with False show ?thesis by (simp add: vmm_phys_walk vmm_init_dir Let_def)
qed

lemma vmm_unmap_inv: "vmm_inv m \<Longrightarrow> vmm_inv (vmm_unmap v m)"
  by (simp add: vmm_unmap_def Let_def vmm_map_old_inv)

lemma vmm_unmap_phys:
  assumes "vmm_inv m"
  shows "vmm_phys w (vmm_unmap v m) =
    (if drop_bit 12 w = drop_bit 12 v \<and> \<not> bit (page_dir m ! pd_index v) 7 then 0 else vmm_phys w m)"
proof (cases "table_entry (page_dir m ! pd_index v)")
  case False
  then have same: "vmm_unmap v m = m" by (auto simp: vmm_unmap_def Let_def)
  have "vmm_phys w m = 0" if "drop_bit 12 w = drop_bit 12 v" "\<not> bit (page_dir m ! pd_index v) 7"
    using that False same_page_pd_index [of w v] by (simp add: vmm_phys_walk Let_def)
  with same show ?thesis by simp
next
  case True
  define m' where "m' = vmm_unmap v m"
  have eq: "m' = vmm_flush_tlb v (pt_write (table_frame (page_dir m ! pd_index v)) (pt_index v) 0 m)"
    using True by (simp add: m'_def vmm_unmap_def Let_def table_frame_def)
  have dir: "page_dir m' = page_dir m" by (simp add: eq vmm_flush_tlb_def pt_write_def)
  have "vmm_phys w m' = (if drop_bit 12 w = drop_bit 12 v then 0 else vmm_phys w m)"
  proof (cases "table_entry (page_dir m ! pd_index w)")
    case tw: True
    have "walk w m' = (if drop_bit 12 w = drop_bit 12 v then 0 else walk w m)"
      unfolding eq by (rule walk_map_old [OF assms True tw])
    with tw show ?thesis by (simp add: vmm_phys_walk dir Let_def)
  next
    case fw: False
    with True have "drop_bit 12 w \<noteq> drop_bit 12 v" by (metis same_page_pd_index)
    with fw show ?thesis by (auto simp: vmm_phys_walk dir Let_def)
  qed
  with True show ?thesis by (simp add: m'_def)
qed

section \<open>Properties\<close>

definition sample_vmm32 :: vmm32 where
  "sample_vmm32 = vmm_init 0x20000
     \<lparr>page_dir = [], ptab = (\<lambda>_ _. 0), frames = sample_pmm, cr0 = 0x11, cr3 = 0, cr4 = 0, flushed = []\<rparr>"

lemma sample_vmm32_inv: "vmm_inv sample_vmm32"
  unfolding sample_vmm32_def by (rule vmm_init_inv) (simp add: sample_pmm_inv)

lemma sample_vmm32_map: "\<exists>m'. vmm_map 0x40001000 0x123000 2 sample_vmm32 = Done m'"
proof -
  have "pd_index 0x40001000 = 256" by (simp add: pd_index_def)
  then have "page_dir sample_vmm32 ! pd_index 0x40001000 = 0"
    by (simp add: sample_vmm32_def vmm_init_dir)
  moreover have "frames sample_vmm32 = sample_pmm" by (simp add: sample_vmm32_def vmm_init_def Let_def)
  ultimately show ?thesis
    using sample_pmm_alloc [where 'w=32]
    by (cases "pmm_alloc sample_pmm :: u32 \<times> pmm") (auto simp: vmm_map_def Let_def)
qed

text \<open>
  X86 \<^verbatim>\<open>vmm_init\<close> identity-maps exactly the first 128 MiB, for every address in them, leaves
  everything above unmapped, turns paging on with 4 MiB pages and establishes the invariant
  that page tables sit in distinct frames the frame allocator has marked used.
\<close>

theorem vmm_init_identity:
  assumes "pmm_inv (frames m)"
  shows "vmm_inv (vmm_init dir m) \<and>
    (\<forall>v. vmm_phys v (vmm_init dir m) = (if unat v < 128 * 2 ^ 20 then v else 0)) \<and>
    bit (cr0 (vmm_init dir m)) 31 \<and> bit (cr4 (vmm_init dir m)) 4 \<and> cr3 (vmm_init dir m) = dir"
proof -
  have "bit (cr0 (vmm_init dir m)) 31" "bit (cr4 (vmm_init dir m)) 4" "cr3 (vmm_init dir m) = dir"
    by (simp_all add: vmm_init_def Let_def bit_or_iff del: push_bit_of_1)
  with vmm_init_inv [OF assms] vmm_init_phys show ?thesis by simp
qed

theorem vmm_init_identity_witness:
  "pmm_inv (frames sample_vmm32) \<and> vmm_phys 0x7FFFFFF (vmm_init 0x20000 sample_vmm32) = 0x7FFFFFF \<and>
   vmm_phys 0x8000000 (vmm_init 0x20000 sample_vmm32) = 0"
proof -
  have "pmm_inv (frames sample_vmm32)" using sample_vmm32_inv by (simp add: vmm_inv_def)
  with vmm_init_identity [OF this, of "0x20000"] show ?thesis by simp
qed

text \<open>
  C7: a successful \<^verbatim>\<open>vmm_map\<close> maps the page of \<open>v\<close> to the page of \<open>p\<close>, leaves the translation of
  every address outside that page alone (also when it had to allocate and install a page
  table), keeps the invariant and invalidates the TLB entry of \<open>v\<close>.
\<close>

theorem vmm_map_translates:
  assumes "vmm_inv m" "vmm_map v p f m = Done m'"
  shows "vmm_inv m' \<and> flushed m' = v # flushed m \<and>
    (\<forall>w. vmm_phys w m' = (if drop_bit 12 w = drop_bit 12 v then (p AND NOT LOW12) OR (w AND LOW12)
                          else vmm_phys w m))"
proof -
  have "flushed m' = v # flushed m"
    by (cases rule: vmm_map_cases [OF assms(2,1)]) (simp_all add: vmm_flush_tlb_def pt_write_def)
  with vmm_map_inv [OF assms] vmm_map_phys [OF assms] show ?thesis by simp
qed

theorem vmm_map_translates_witness:
  "\<exists>m'. vmm_inv sample_vmm32 \<and> vmm_map 0x40001000 0x123000 2 sample_vmm32 = Done m' \<and>
     vmm_phys 0x40001234 m' = 0x123234 \<and> vmm_phys 0x5000 m' = 0x5000"
proof -
  obtain m' where m': "vmm_map 0x40001000 0x123000 2 sample_vmm32 = Done m'"
    using sample_vmm32_map by blast
  have low: "vmm_phys 0x5000 sample_vmm32 = 0x5000"
    by (simp add: sample_vmm32_def vmm_init_phys)
  note all = vmm_map_translates [OF sample_vmm32_inv m', THEN conjunct2, THEN conjunct2, rule_format]
  have "vmm_phys 0x40001234 m' = 0x123234" by (simp add: all LOW12_def)
  moreover have "vmm_phys 0x5000 m' = 0x5000" by (simp add: all low)
  ultimately show ?thesis using m' sample_vmm32_inv by blast
qed

text \<open>
  C23: \<^verbatim>\<open>vmm_map\<close> panics in exactly two cases: the address lies in a 4 MiB page, or its page
  table is missing and no frame is free.
\<close>

theorem vmm_map_panics_iff:
  assumes "vmm_inv m"
  shows "(\<exists>msg. vmm_map v p f m = Panic msg) \<longleftrightarrow>
    bit (page_dir m ! pd_index v) 7 \<or>
    \<not> bit (page_dir m ! pd_index v) 0 \<and> {1 ..< MAX_PAGES} \<subseteq> used_pages (frames m)"
proof -
  obtain pa fr where eq: "pmm_alloc (frames m) = (pa :: u32, fr)" by fastforce
  have inv: "pmm_inv (frames m)" using assms by (simp add: vmm_inv_def)
  from pmm32.alloc_none_iff [OF inv eq] show ?thesis by (simp add: vmm_map_def Let_def eq)
qed

theorem vmm_map_panics_iff_witness:
  "vmm_inv sample_vmm32 \<and> (\<exists>msg. vmm_map 0x1000 0x5000 2 sample_vmm32 = Panic msg)"
proof -
  have "pd_index 0x1000 = 0" by (simp add: pd_index_def)
  then have "bit (page_dir sample_vmm32 ! pd_index 0x1000) 7"
    by (simp add: sample_vmm32_def vmm_init_dir bit_or_iff)
  with vmm_map_panics_iff [OF sample_vmm32_inv, of "0x1000" "0x5000" 2] sample_vmm32_inv
  show ?thesis by blast
qed

text \<open>
  \<^verbatim>\<open>vmm_unmap\<close> removes the translation of exactly one 4 KiB page and is without effect inside
  the 4 MiB identity pages; it keeps the invariant.
\<close>

theorem vmm_unmap_removes:
  assumes "vmm_inv m"
  shows "vmm_inv (vmm_unmap v m) \<and>
    (\<forall>w. vmm_phys w (vmm_unmap v m) =
      (if drop_bit 12 w = drop_bit 12 v \<and> \<not> bit (page_dir m ! pd_index v) 7 then 0 else vmm_phys w m))"
  using vmm_unmap_inv [OF assms] vmm_unmap_phys [OF assms] by blast

theorem vmm_unmap_removes_witness:
  "\<exists>m'. vmm_map 0x40001000 0x123000 2 sample_vmm32 = Done m' \<and> vmm_inv m' \<and>
     vmm_phys 0x40001234 (vmm_unmap 0x40001000 m') = 0 \<and> vmm_phys 0x5000 (vmm_unmap 0x5000 m') = 0x5000"
proof -
  obtain m' where m': "vmm_map 0x40001000 0x123000 2 sample_vmm32 = Done m'"
    using sample_vmm32_map by blast
  have inv: "vmm_inv m'" by (rule vmm_map_inv [OF sample_vmm32_inv m'])
  note un = vmm_unmap_removes [OF inv, THEN conjunct2, rule_format]
  note phys = vmm_map_phys [OF sample_vmm32_inv m']
  have low: "vmm_phys 0x5000 m' = 0x5000"
    by (simp add: phys) (simp add: sample_vmm32_def vmm_init_phys)
  have idx: "pd_index 0x40001000 = 256" "pd_index 0x5000 = 0" by (simp_all add: pd_index_def)
  have ps: "\<not> bit (page_dir m' ! 256) 7" "bit (page_dir m' ! 0) 7"
    unfolding vmm_map_keeps_ps [OF sample_vmm32_inv m']
    by (simp_all add: sample_vmm32_def vmm_init_dir bit_or_iff)
  have "vmm_phys 0x40001234 (vmm_unmap 0x40001000 m') = 0" by (simp add: un idx ps)
  moreover have "vmm_phys 0x5000 (vmm_unmap 0x5000 m') = 0x5000" by (simp add: un idx ps low)
  ultimately show ?thesis using m' inv by blast
qed

end
