(* ===== verification/Vmm64.thy ===== *)
theory Vmm64
  imports Pmm
begin

text \<open>
  The virtual memory manager of the x86\_64 target, \<^verbatim>\<open>arch/x86_64/mm/vmm.c\<close>: four levels of tables of 512
  entries.  Every table, the static \<^verbatim>\<open>pml4\<close> included, is reached through its address: \<open>tab\<close> maps a
  table address and an index to the entry there, so that a pointer computed from an entry is an
  ordinary address and a null pointer reads and writes the table at address 0, as it does on
  the identity-mapped machine.  \<^verbatim>\<open>cr3\<close> and the flushed TLB entries are recorded.
\<close>

section \<open>State and operations\<close>

definition PTE_PRESENT :: u64 where "PTE_PRESENT = 0x01"
definition PTE_WRITABLE :: u64 where "PTE_WRITABLE = 0x02"
definition PTE_HUGE :: u64 where "PTE_HUGE = 0x80"
definition LOW12 :: u64 where "LOW12 = 0xFFF" \<comment> \<open>the literals of the address masks\<close>
definition LOW21 :: u64 where "LOW21 = 0x1FFFFF"
definition PTE_NX :: u64 where "PTE_NX = push_bit 63 1"

record vmm64 =
  pml4 :: u64 \<comment> \<open>the address of the static array\<close>
  tab :: "u64 \<Rightarrow> nat \<Rightarrow> u64"
  frames :: pmm
  cr3 :: u64
  flushed :: "u64 list"

definition pml4i :: "u64 \<Rightarrow> nat" where "pml4i virt = unat (drop_bit 39 virt AND 0x1FF)"
definition pdpti :: "u64 \<Rightarrow> nat" where "pdpti virt = unat (drop_bit 30 virt AND 0x1FF)"
definition pdi :: "u64 \<Rightarrow> nat" where "pdi virt = unat (drop_bit 21 virt AND 0x1FF)"
definition pti :: "u64 \<Rightarrow> nat" where "pti virt = unat (drop_bit 12 virt AND 0x1FF)"

definition tab_write :: "u64 \<Rightarrow> nat \<Rightarrow> u64 \<Rightarrow> vmm64 \<Rightarrow> vmm64" where
  "tab_write t i e m = m\<lparr>tab := (tab m)(t := (tab m t)(i := e))\<rparr>"

definition tab_clear :: "u64 \<Rightarrow> vmm64 \<Rightarrow> vmm64" where
  "tab_clear t m = m\<lparr>tab := (tab m)(t := (\<lambda>_. 0))\<rparr>"

definition link_table :: "u64 \<Rightarrow> u64 \<Rightarrow> nat \<Rightarrow> vmm64 \<Rightarrow> vmm64" where
  "link_table p t i m = tab_write t i (p OR PTE_PRESENT OR PTE_WRITABLE) (tab_clear p m)"

definition get_or_create :: "u64 \<Rightarrow> nat \<Rightarrow> vmm64 \<Rightarrow> u64 \<times> vmm64" where
  "get_or_create t i m =
     (if tab m t i AND PTE_PRESENT = 0 then
        let (p, f) = pmm_alloc (frames m); m = m\<lparr>frames := f\<rparr>
        in if p = 0 then (0, m)
           else let m = link_table p t i m in (tab m t i AND NOT LOW12, m)
      else (tab m t i AND NOT LOW12, m))"

definition huge_entry :: "nat \<Rightarrow> nat \<Rightarrow> nat \<Rightarrow> u64" where
  "huge_entry i j k =
     (of_nat i * 512 * 512 * 0x200000 + of_nat j * 512 * 0x200000 + of_nat k * 0x200000)
     OR PTE_PRESENT OR PTE_WRITABLE OR PTE_HUGE"

definition init_pd :: "nat \<Rightarrow> u64 \<Rightarrow> nat \<Rightarrow> vmm64 \<Rightarrow> vmm64" where
  "init_pd i pdpt j m =
     (let (pd, f) = pmm_alloc (frames m);
          m = link_table pd pdpt j (m\<lparr>frames := f\<rparr>)
      in fold (\<lambda>k. tab_write pd k (huge_entry i j k)) [0 ..< 512] m)"

definition init_pdpt :: "nat \<Rightarrow> vmm64 \<Rightarrow> vmm64" where
  "init_pdpt i m =
     (let (pdpt, f) = pmm_alloc (frames m);
          m = link_table pdpt (pml4 m) i (m\<lparr>frames := f\<rparr>)
      in fold (init_pd i pdpt) [0 ..< 512] m)"

definition vmm_init :: "vmm64 \<Rightarrow> vmm64" where
  "vmm_init m =
     (let m = fold init_pdpt [0 ..< 4] (tab_clear (pml4 m) m) in m\<lparr>cr3 := pml4 m\<rparr>)"

definition vmm_flush_tlb :: "u64 \<Rightarrow> vmm64 \<Rightarrow> vmm64" where
  "vmm_flush_tlb virt m = m\<lparr>flushed := virt # flushed m\<rparr>"

definition vmm_map :: "u64 \<Rightarrow> u64 \<Rightarrow> u64 \<Rightarrow> vmm64 \<Rightarrow> vmm64" where
  "vmm_map virt phys flags m =
     (let (pdpt, m) = get_or_create (pml4 m) (pml4i virt) m;
          (pd, m) = get_or_create pdpt (pdpti virt) m
      in if tab m pd (pdi virt) AND PTE_HUGE \<noteq> 0 then m
         else let (pt, m) = get_or_create pd (pdi virt) m
              in vmm_flush_tlb virt
                   (tab_write pt (pti virt) ((phys AND NOT LOW12) OR flags OR PTE_PRESENT) m))"

definition vmm_unmap :: "u64 \<Rightarrow> vmm64 \<Rightarrow> vmm64" where
  "vmm_unmap virt m =
     (let e4 = tab m (pml4 m) (pml4i virt)
      in if e4 AND PTE_PRESENT = 0 then m
         else let e3 = tab m (e4 AND NOT LOW12) (pdpti virt)
              in if e3 AND PTE_PRESENT = 0 then m
                 else let e2 = tab m (e3 AND NOT LOW12) (pdi virt)
                      in if e2 AND PTE_PRESENT = 0 \<or> e2 AND PTE_HUGE \<noteq> 0 then m
                         else vmm_flush_tlb virt (tab_write (e2 AND NOT LOW12) (pti virt) 0 m))"

definition vmm_phys :: "u64 \<Rightarrow> vmm64 \<Rightarrow> u64" where
  "vmm_phys virt m =
     (let e4 = tab m (pml4 m) (pml4i virt)
      in if e4 AND PTE_PRESENT = 0 then 0
         else let e3 = tab m (e4 AND NOT LOW12) (pdpti virt)
              in if e3 AND PTE_PRESENT = 0 then 0
                 else let e2 = tab m (e3 AND NOT LOW12) (pdi virt)
                      in if e2 AND PTE_PRESENT = 0 then 0
                         else if e2 AND PTE_HUGE \<noteq> 0 then (e2 AND NOT LOW21) OR (virt AND LOW21)
                         else let e1 = tab m (e2 AND NOT LOW12) (pti virt)
                              in if e1 AND PTE_PRESENT = 0 then 0
                                 else (e1 AND NOT LOW12) OR (virt AND LOW12))"

section \<open>The tree of tables\<close>

text \<open>
  The table a path of indices leads to, the last index first: the entry of its parent is present
  and, in a page directory, not a 2 MiB page.  \<open>entry\<close> is the entry with an index in the table of a
  path; a missing table reads as zeros, which is what every operation makes of it.
\<close>

definition points :: "nat \<Rightarrow> u64 \<Rightarrow> bool" where
  "points n e \<longleftrightarrow> n < 3 \<and> bit e 0 \<and> \<not> (n = 2 \<and> bit e 7)"

fun tbl :: "vmm64 \<Rightarrow> nat list \<Rightarrow> u64 option" where
  "tbl m [] = Some (pml4 m)"
| "tbl m (i # p) =
     (case tbl m p of None \<Rightarrow> None
      | Some t \<Rightarrow> if i < 512 \<and> points (length p) (tab m t i) then Some (tab m t i AND NOT LOW12) else None)"

definition entry :: "vmm64 \<Rightarrow> nat list \<Rightarrow> nat \<Rightarrow> u64" where
  "entry m p i = (case tbl m p of None \<Rightarrow> 0 | Some t \<Rightarrow> tab m t i)"

definition vmm_inv :: "vmm64 \<Rightarrow> bool" where
  "vmm_inv m \<longleftrightarrow> pmm_inv (frames m) \<and> unat (pml4 m) mod 4096 = 0 \<and>
     (\<forall>p t. tbl m p = Some t \<longrightarrow> unat t div 4096 \<in> used_pages (frames m)) \<and>
     (\<forall>p q t. tbl m p = Some t \<longrightarrow> tbl m q = Some t \<longrightarrow> p = q)"

definition free_frames :: "vmm64 \<Rightarrow> nat" where
  "free_frames m = card ({1 ..< MAX_PAGES} - used_pages (frames m))"

lemma pte_bits64 [simp]:
  "w AND PTE_PRESENT = 0 \<longleftrightarrow> \<not> bit w 0" "w AND PTE_HUGE = 0 \<longleftrightarrow> \<not> bit w 7"
  using and_power_iff_bit [of 0 w] and_power_iff_bit [of 7 w]
  by (auto simp: PTE_PRESENT_def PTE_HUGE_def)

lemma flag_bits64 [simp]:
  "bit PTE_PRESENT n \<longleftrightarrow> n = 0" "bit PTE_WRITABLE n \<longleftrightarrow> n = 1" "bit PTE_HUGE n \<longleftrightarrow> n = 7"
  "bit PTE_NX n \<longleftrightarrow> n = 63"
proof -
  have bit: "w = push_bit k 1 \<Longrightarrow> k < 64 \<Longrightarrow> bit w n \<longleftrightarrow> n = k" for w :: u64 and k
    by (simp only: bit_push_bit_one) auto
  show "bit PTE_PRESENT n \<longleftrightarrow> n = 0" "bit PTE_WRITABLE n \<longleftrightarrow> n = 1" "bit PTE_HUGE n \<longleftrightarrow> n = 7"
    by (rule bit; simp add: PTE_PRESENT_def PTE_WRITABLE_def PTE_HUGE_def)+
  show "bit PTE_NX n \<longleftrightarrow> n = 63" by (rule bit) (simp_all add: PTE_NX_def)
qed

lemma low12_mask: "LOW12 = mask 12" and low21_mask: "LOW21 = mask 21"
  by (simp_all add: LOW12_def LOW21_def mask_eq_exp_minus_1)

lemma frame_aligned64: "unat (p :: u64) mod 4096 = 0 \<Longrightarrow> k < 12 \<Longrightarrow> \<not> bit p k"
proof -
  assume "unat p mod 4096 = 0"
  then have "take_bit 12 p = 0"
    by (intro unat_inj) (simp only: unsigned_take_bit_eq, simp add: take_bit_eq_mod)
  then show "k < 12 \<Longrightarrow> \<not> bit p k" using bit_take_bit_iff [of 12 p k] by simp
qed

lemma link_bits:
  assumes "unat p mod 4096 = 0"
  shows "points n (p OR PTE_PRESENT OR PTE_WRITABLE) \<longleftrightarrow> n < 3"
    "(p OR PTE_PRESENT OR PTE_WRITABLE) AND NOT LOW12 = p"
proof -
  note low = frame_aligned64 [OF assms]
  show "points n (p OR PTE_PRESENT OR PTE_WRITABLE) \<longleftrightarrow> n < 3"
    using low [of 7] by (simp add: points_def bit_or_iff)
  show "(p OR PTE_PRESENT OR PTE_WRITABLE) AND NOT LOW12 = p"
    unfolding low12_mask using low by (intro bit_word_eqI) (auto simp: bit_simps)
qed

lemma tbl_Cons:
  "tbl m (i # p) = (if i < 512 \<and> points (length p) (entry m p i) then Some (entry m p i AND NOT LOW12) else None)"
  by (simp add: entry_def points_def split: option.split)

lemma tbl_inj: "vmm_inv m \<Longrightarrow> tbl m p = Some t \<Longrightarrow> tbl m q = Some t \<Longrightarrow> p = q"
  by (auto simp: vmm_inv_def)

section \<open>Writes to the tree\<close>

lemma tab_write_tab: "tab (tab_write t i e m) u j = (if u = t \<and> j = i then e else tab m u j)"
  by (simp add: tab_write_def)

lemma tab_link:
  "pa \<noteq> t \<Longrightarrow> tab (link_table pa t i m) u j =
    (if u = t \<and> j = i then pa OR PTE_PRESENT OR PTE_WRITABLE else if u = pa then 0 else tab m u j)"
  by (simp add: link_table_def tab_write_def tab_clear_def)

lemma table_ops_frame [frame_simps, simp]:
  "pml4 (tab_write t i e m) = pml4 m" "frames (tab_write t i e m) = frames m"
  "pml4 (link_table pa t i m) = pml4 m" "frames (link_table pa t i m) = frames m"
  "flushed (tab_write t i e m) = flushed m" "flushed (link_table pa t i m) = flushed m"
  by (simp_all add: link_table_def tab_write_def tab_clear_def)

text \<open>Two kinds of writes occur: a new empty table is linked in, or an entry that leads to no table is
  replaced by another such entry.  Either changes the one entry and, by injectivity, nothing else.\<close>

lemma tbl_link:
  assumes "vmm_inv m" "tbl m p = Some t" "i < 512" "length p < 3" "\<not> points (length p) (tab m t i)"
    and "\<And>q. tbl m q \<noteq> Some pa" "unat pa mod 4096 = 0"
  shows "tbl (link_table pa t i m) q = (if q = i # p then Some pa else tbl m q)"
proof (induction q)
  case Nil
  then show ?case by simp
next
  case (Cons j r)
  have pa: "pa \<noteq> t" using assms(2,6) by metis
  have none: "tbl m (i # p) = None" using assms(2,5) by simp
  show ?case
  proof (cases "r = i # p")
    case True
    with pa have "tab (link_table pa t i m) pa j = 0" by (simp add: tab_link)
    with True Cons.IH have "tbl (link_table pa t i m) (j # r) = None" by (simp add: points_def)
    with True none show ?thesis by simp
  next
    case False
    with Cons.IH have IH: "tbl (link_table pa t i m) r = tbl m r" by simp
    show ?thesis
    proof (cases "tbl m r")
      case None
      with IH assms(2) show ?thesis by auto
    next
      case (Some u)
      have u: "u \<noteq> pa" using Some assms(6) by metis
      have new: "tab (link_table pa t i m) u j =
          (if u = t \<and> j = i then pa OR PTE_PRESENT OR PTE_WRITABLE else tab m u j)"
        using u pa by (simp add: tab_link)
      have "u = t \<longleftrightarrow> r = p" using tbl_inj [OF assms(1)] Some assms(2) by auto
      with IH Some new assms(3,4) link_bits [OF assms(7)] show ?thesis by (cases "u = t \<and> j = i") auto
    qed
  qed
qed

lemma entry_link:
  assumes "vmm_inv m" "tbl m p = Some t" "i < 512" "length p < 3" "\<not> points (length p) (tab m t i)"
    and "\<And>q. tbl m q \<noteq> Some pa" "unat pa mod 4096 = 0"
  shows "entry (link_table pa t i m) q j =
    (if q = p \<and> j = i then pa OR PTE_PRESENT OR PTE_WRITABLE else entry m q j)"
proof (cases "q = i # p")
  case True
  have "pa \<noteq> t" using assms(2,6) by metis
  then have "entry (link_table pa t i m) q j = 0"
    unfolding entry_def tbl_link [OF assms] using True by (simp add: tab_link)
  moreover have "tbl m q = None" using True assms(2,5) by simp
  ultimately show ?thesis using True by (simp add: entry_def)
next
  case False
  then have "tbl (link_table pa t i m) q = tbl m q" using tbl_link [OF assms] by simp
  moreover have "u = t \<longleftrightarrow> q = p" "u \<noteq> pa" if "tbl m q = Some u" for u
    using that tbl_inj [OF assms(1)] assms(2,6) by auto
  moreover have "pa \<noteq> t" using assms(2,6) by metis
  ultimately show ?thesis
    using assms(2) by (cases "tbl m q") (auto simp: entry_def tab_link)
qed

lemma tbl_write:
  assumes "vmm_inv m" "tbl m p = Some t" "\<not> points (length p) (tab m t i)" "\<not> points (length p) e"
  shows "tbl (tab_write t i e m) q = tbl m q"
proof (induction q)
  case (Cons j r)
  show ?case
  proof (cases "tbl m r")
    case (Some u)
    have "u = t \<longleftrightarrow> r = p" using tbl_inj [OF assms(1)] Some assms(2) by auto
    with Some Cons assms(3,4) show ?thesis by (auto simp: tab_write_tab)
  qed (use Cons in simp)
qed simp

lemma entry_write:
  assumes "vmm_inv m" "tbl m p = Some t" "\<not> points (length p) (tab m t i)" "\<not> points (length p) e"
  shows "entry (tab_write t i e m) q j = (if q = p \<and> j = i then e else entry m q j)"
proof -
  have "u = t \<longleftrightarrow> q = p" if "tbl m q = Some u" for u using that tbl_inj [OF assms(1)] assms(2) by auto
  then show ?thesis
    unfolding entry_def tbl_write [OF assms] using assms(2) by (cases "tbl m q") (auto simp: tab_write_tab)
qed

lemma write_inv:
  assumes "vmm_inv m" "tbl m p = Some t" "\<not> points (length p) (tab m t i)" "\<not> points (length p) e"
  shows "vmm_inv (tab_write t i e m)"
  using assms(1) by (simp add: vmm_inv_def tbl_write [OF assms])

section \<open>Taking a frame for a table\<close>

lemma tbl_frames [simp]: "tbl (m\<lparr>frames := f\<rparr>) q = tbl m q"
  by (induction q) (simp_all split: option.split)

lemma entry_frames [simp]: "entry (m\<lparr>frames := f\<rparr>) q j = entry m q j"
  by (simp add: entry_def split: option.split)

lemma vmm_inv_frames:
  assumes "vmm_inv m" "pmm_inv f" "used_pages (frames m) \<subseteq> used_pages f"
  shows "vmm_inv (m\<lparr>frames := f\<rparr>)"
  using assms by (auto simp: vmm_inv_def)

lemma alloc_fresh:
  assumes "vmm_inv m" "pmm_alloc (frames m) = (pa, f)" "pa \<noteq> 0"
  shows "tbl m q \<noteq> Some pa"
proof
  assume "tbl m q = Some pa"
  then have "unat pa div 4096 \<in> used_pages (frames m)" using assms(1) by (simp add: vmm_inv_def)
  with pmm64.alloc_page [of "frames m"] assms show False by (auto simp: vmm_inv_def)
qed

lemma link_alloc:
  assumes "vmm_inv m" "tbl m p = Some t" "i < 512" "length p < 3" "\<not> points (length p) (tab m t i)"
    and "pmm_alloc (frames m) = (pa, f)" "pa \<noteq> 0"
  defines "m' \<equiv> link_table pa t i (m\<lparr>frames := f\<rparr>)"
  shows "vmm_inv m'" "tbl m' q = (if q = i # p then Some pa else tbl m q)"
    "entry m' q j = (if q = p \<and> j = i then pa OR PTE_PRESENT OR PTE_WRITABLE else entry m q j)"
proof -
  have "pmm_inv (frames m)" using assms(1) by (simp add: vmm_inv_def)
  note page = pmm64.alloc_page [OF this assms(6,7)]
  have inv: "vmm_inv (m\<lparr>frames := f\<rparr>)" using page by (intro vmm_inv_frames [OF assms(1)]) auto
  note fresh = alloc_fresh [OF assms(1,6,7)]
  have al: "unat pa mod 4096 = 0" using page by blast
  have args: "tbl (m\<lparr>frames := f\<rparr>) p = Some t" "\<not> points (length p) (tab (m\<lparr>frames := f\<rparr>) t i)"
    "\<And>q. tbl (m\<lparr>frames := f\<rparr>) q \<noteq> Some pa" using assms(2,5) fresh by simp_all
  show tbl: "tbl m' q = (if q = i # p then Some pa else tbl m q)" for q
    using tbl_link [OF inv args(1) assms(3,4) args(2,3) al] by (simp add: m'_def)
  show "entry m' q j = (if q = p \<and> j = i then pa OR PTE_PRESENT OR PTE_WRITABLE else entry m q j)"
    using entry_link [OF inv args(1) assms(3,4) args(2,3) al] by (simp add: m'_def)
  have m': "frames m' = f" "pml4 m' = pml4 m" by (simp_all add: m'_def)
  show "vmm_inv m'"
    unfolding vmm_inv_def tbl m'
    using assms(1) page fresh by (auto simp: vmm_inv_def split: if_splits)
qed

section \<open>Translation\<close>

lemma idx_bound [simp]: "pml4i v < 512" "pdpti v < 512" "pdi v < 512" "pti v < 512"
proof -
  have "unat (w AND 0x1FF :: u64) < 512" for w
  proof -
    have "unat (w AND 0x1FF) \<le> unat (0x1FF :: u64)" by (rule word_and_le1 [THEN word_le_nat_alt [THEN iffD1]])
    then show ?thesis by simp
  qed
  then show "pml4i v < 512" "pdpti v < 512" "pdi v < 512" "pti v < 512"
    by (simp_all add: pml4i_def pdpti_def pdi_def pti_def)
qed

definition pd_path :: "u64 \<Rightarrow> nat list" where "pd_path v = [pdpti v, pml4i v]"
definition pt_path :: "u64 \<Rightarrow> nat list" where "pt_path v = pdi v # pd_path v"

text \<open>A translation depends on two entries only.\<close>

definition translate :: "u64 \<Rightarrow> u64 \<Rightarrow> u64 \<Rightarrow> u64" where
  "translate e2 e1 v =
     (if \<not> bit e2 0 then 0 else if bit e2 7 then (e2 AND NOT LOW21) OR (v AND LOW21)
      else if \<not> bit e1 0 then 0 else (e1 AND NOT LOW12) OR (v AND LOW12))"

lemma vmm_phys_entry:
  "vmm_phys v m = translate (entry m (pd_path v) (pdi v)) (entry m (pt_path v) (pti v)) v"
  by (auto simp: vmm_phys_def translate_def pt_path_def pd_path_def entry_def points_def Let_def)

lemma tbl_pt_path:
  "tbl m (pt_path v) =
    (let e2 = entry m (pd_path v) (pdi v) in if points 2 e2 then Some (e2 AND NOT LOW12) else None)"
  unfolding pt_path_def tbl_Cons by (simp add: pd_path_def Let_def numeral_2_eq_2)

lemma get_or_create_cases:
  assumes "vmm_inv m" "0 < free_frames m" "get_or_create t i m = (u, m')"
  obtains (old) "bit (tab m t i) 0" "u = tab m t i AND NOT LOW12" "m' = m"
  | (new) f where "\<not> bit (tab m t i) 0" "pmm_alloc (frames m) = (u, f)" "u \<noteq> 0"
      "m' = link_table u t i (m\<lparr>frames := f\<rparr>)" "free_frames m = Suc (free_frames m')"
proof (cases "bit (tab m t i) 0")
  case True
  with assms(3) show ?thesis by (intro old) (auto simp: get_or_create_def)
next
  case False
  obtain pa f where pa: "pmm_alloc (frames m) = (pa :: u64, f)" by fastforce
  have inv: "pmm_inv (frames m)" using assms(1) by (simp add: vmm_inv_def)
  note ok = pmm64.alloc_succeeds [OF inv pa assms(2) [unfolded free_frames_def]]
  have al: "unat pa mod 4096 = 0" using pmm64.alloc_page [OF inv pa ok(1)] by blast
  define m1 where "m1 = link_table pa t i (m\<lparr>frames := f\<rparr>)"
  have "tab m1 t i = pa OR PTE_PRESENT OR PTE_WRITABLE" by (simp add: m1_def link_table_def tab_write_def)
  then have "u = pa" "m' = m1"
    using assms(3) False pa ok(1) link_bits(2) [OF al] by (auto simp: get_or_create_def m1_def Let_def)
  then show ?thesis using new [of f] False pa ok by (simp add: m1_def free_frames_def)
qed

lemma get_or_create_spec:
  assumes "vmm_inv m" "tbl m p = Some t" "i < 512" "length p < 3" "\<not> (length p = 2 \<and> bit (tab m t i) 7)"
    and "0 < free_frames m" "get_or_create t i m = (u, m')"
  shows "vmm_inv m'" "tbl m' (i # p) = Some u" "pml4 m' = pml4 m" "flushed m' = flushed m"
    and "free_frames m \<le> Suc (free_frames m')"
    and "q \<noteq> p \<or> j \<noteq> i \<Longrightarrow> entry m' q j = entry m q j"
    and "vmm_phys w m' = vmm_phys w m"
proof -
  have "vmm_inv m' \<and> tbl m' (i # p) = Some u \<and> pml4 m' = pml4 m \<and> flushed m' = flushed m \<and>
      free_frames m \<le> Suc (free_frames m') \<and> (\<forall>q j. q \<noteq> p \<or> j \<noteq> i \<longrightarrow> entry m' q j = entry m q j) \<and>
      vmm_phys w m' = vmm_phys w m"
  proof (cases rule: get_or_create_cases [OF assms(1,6,7)])
    case 1
    with assms(1-5) show ?thesis by (simp add: points_def)
  next
    case (2 f)
    have np: "\<not> points (length p) (tab m t i)" using 2(1) by (simp add: points_def)
    note link = link_alloc [OF assms(1-4) np 2(2,3), folded 2(4)]
    have e: "entry m p i = tab m t i" using assms(2) by (simp add: entry_def)
    have "vmm_phys w m' = vmm_phys w m"
    proof (cases "pd_path w = p \<and> pdi w = i")
      case True
      have "unat u mod 4096 = 0" using pmm64.alloc_page [of "frames m"] assms(1) 2(2,3) by (auto simp: vmm_inv_def)
      moreover have "pt_path w = i # p" using True by (simp add: pt_path_def)
      moreover have "entry m (i # p) j = 0" for j using assms(2) np by (simp add: entry_def)
      ultimately show ?thesis
        using True 2(1) e link_bits(1) [of u 2] unfolding vmm_phys_entry link(3) translate_def
        by (simp add: points_def)
    next
      case False
      moreover have "pt_path w \<noteq> p" using assms(4) by (auto simp: pt_path_def pd_path_def)
      ultimately show ?thesis unfolding vmm_phys_entry link(3) by auto
    qed
    with link 2 show ?thesis by (simp del: tbl.simps(2))
  qed
  then show "vmm_inv m'" "tbl m' (i # p) = Some u" "pml4 m' = pml4 m" "flushed m' = flushed m"
    "free_frames m \<le> Suc (free_frames m')" "q \<noteq> p \<or> j \<noteq> i \<Longrightarrow> entry m' q j = entry m q j"
    "vmm_phys w m' = vmm_phys w m" by blast+
qed

section \<open>Pages\<close>

text \<open>Two addresses lie in the same page when they agree in bits 12 to 47; the bits above take no part
  in a translation.\<close>

definition vpage :: "u64 \<Rightarrow> u64" where "vpage v = take_bit 36 (drop_bit 12 v)"

lemma take_drop_eq_iff:
  "take_bit n (drop_bit k v) = take_bit n (drop_bit k (w :: u64)) \<longleftrightarrow> (\<forall>j<n. bit v (k + j) \<longleftrightarrow> bit w (k + j))"
proof -
  have "j < 64" if "bit x (k + j)" for j and x :: u64 using bit_imp_le_length [OF that] by simp
  then show ?thesis by (auto simp: bit_eq_iff bit_take_bit_iff bit_drop_bit_eq)
qed

lemma idx_eq_iff:
  "pml4i v = pml4i w \<longleftrightarrow> (\<forall>j<9. bit v (39 + j) \<longleftrightarrow> bit w (39 + j))"
  "pdpti v = pdpti w \<longleftrightarrow> (\<forall>j<9. bit v (30 + j) \<longleftrightarrow> bit w (30 + j))"
  "pdi v = pdi w \<longleftrightarrow> (\<forall>j<9. bit v (21 + j) \<longleftrightarrow> bit w (21 + j))"
  "pti v = pti w \<longleftrightarrow> (\<forall>j<9. bit v (12 + j) \<longleftrightarrow> bit w (12 + j))"
proof -
  have "(0x1FF :: u64) = mask 9" by (simp add: mask_eq_exp_minus_1)
  then have "drop_bit k x AND 0x1FF = take_bit 9 (drop_bit k x)" for k and x :: u64
    by (simp only: take_bit_eq_mask)
  then have "unat (drop_bit k v AND 0x1FF) = unat (drop_bit k w AND 0x1FF) \<longleftrightarrow>
      (\<forall>j<9. bit v (k + j) \<longleftrightarrow> bit w (k + j))" for k
    unfolding take_drop_eq_iff [symmetric] by (auto dest: unat_inj)
  then show "pml4i v = pml4i w \<longleftrightarrow> (\<forall>j<9. bit v (39 + j) \<longleftrightarrow> bit w (39 + j))"
    "pdpti v = pdpti w \<longleftrightarrow> (\<forall>j<9. bit v (30 + j) \<longleftrightarrow> bit w (30 + j))"
    "pdi v = pdi w \<longleftrightarrow> (\<forall>j<9. bit v (21 + j) \<longleftrightarrow> bit w (21 + j))"
    "pti v = pti w \<longleftrightarrow> (\<forall>j<9. bit v (12 + j) \<longleftrightarrow> bit w (12 + j))"
    by (simp_all add: pml4i_def pdpti_def pdi_def pti_def)
qed

lemma range_split: "(\<forall>j < m + n. P (j :: nat)) \<longleftrightarrow> (\<forall>j<m. P j) \<and> (\<forall>j<n. P (m + j))"
  by (metis add_diff_inverse_nat add_less_cancel_left trans_less_add1)

lemma vpage_eq_iff: "vpage v = vpage w \<longleftrightarrow> pt_path v = pt_path w \<and> pti v = pti w"
proof -
  let ?P = "\<lambda>j. bit v (12 + j) \<longleftrightarrow> bit w (12 + j)"
  have "vpage v = vpage w \<longleftrightarrow> (\<forall>j < 9 + (9 + (9 + 9)). ?P j)" by (simp add: vpage_def take_drop_eq_iff)
  also have "\<dots> \<longleftrightarrow> (\<forall>j<9. ?P j) \<and> (\<forall>j<9. ?P (9 + j)) \<and> (\<forall>j<9. ?P (18 + j)) \<and> (\<forall>j<9. ?P (27 + j))"
    unfolding range_split by (simp add: add.assoc [symmetric])
  finally show ?thesis
    by (auto simp: pt_path_def pd_path_def idx_eq_iff add.assoc [symmetric])
qed

section \<open>Mapping and unmapping\<close>

text \<open>Whether an address lies in a 2 MiB page.\<close>

definition in_huge :: "u64 \<Rightarrow> vmm64 \<Rightarrow> bool" where
  "in_huge v m \<longleftrightarrow> bit (entry m (pd_path v) (pdi v)) 7"

lemma vmm_flush_tlb_frame [frame_simps, simp]:
  "tbl (vmm_flush_tlb v m) q = tbl m q" "entry (vmm_flush_tlb v m) q j = entry m q j"
  "frames (vmm_flush_tlb v m) = frames m" "pml4 (vmm_flush_tlb v m) = pml4 m"
  "flushed (vmm_flush_tlb v m) = v # flushed m"
proof -
  show "tbl (vmm_flush_tlb v m) q = tbl m q" for q
    by (induction q) (simp_all add: vmm_flush_tlb_def split: option.split)
  then show "entry (vmm_flush_tlb v m) q j = entry m q j"
    by (simp add: entry_def vmm_flush_tlb_def split: option.split)
qed (simp_all add: vmm_flush_tlb_def)

lemma vmm_flush_tlb_inv: "vmm_inv (vmm_flush_tlb v m) = vmm_inv m"
  by (simp add: vmm_inv_def)

lemma pt_store:
  fixes e :: u64
  assumes "vmm_inv m" "tbl m (pt_path v) = Some t"
  defines "m' \<equiv> vmm_flush_tlb v (tab_write t (pti v) e m)"
  shows "vmm_inv m'"
    and "vmm_phys w m' = (if vpage w = vpage v then if bit e 0 then (e AND NOT LOW12) OR (w AND LOW12) else 0
                          else vmm_phys w m)"
proof -
  have len: "length (pt_path v) = 3" by (simp add: pt_path_def pd_path_def)
  then have np: "\<not> points (length (pt_path v)) x" for x by (simp add: points_def)
  show "vmm_inv m'" unfolding m'_def vmm_flush_tlb_inv by (rule write_inv [OF assms(1,2) np np])
  have ent: "entry m' q j = (if q = pt_path v \<and> j = pti v then e else entry m q j)" for q j
    unfolding m'_def vmm_flush_tlb_frame by (rule entry_write [OF assms(1,2) np np])
  have pd: "entry m' (pd_path w) (pdi w) = entry m (pd_path w) (pdi w)"
  proof -
    have "pd_path w \<noteq> pt_path v" using len by (auto simp: pd_path_def dest: arg_cong [of _ _ length])
    then show ?thesis by (simp add: ent)
  qed
  show "vmm_phys w m' = (if vpage w = vpage v then if bit e 0 then (e AND NOT LOW12) OR (w AND LOW12) else 0
                          else vmm_phys w m)"
  proof (cases "vpage w = vpage v")
    case True
    then have eq: "pt_path w = pt_path v" "pti w = pti v" by (simp_all add: vpage_eq_iff)
    with assms(2) have "points 2 (entry m (pd_path w) (pdi w))"
      unfolding eq(1) [symmetric] tbl_pt_path by (simp add: Let_def split: if_splits)
    with True eq pd show ?thesis by (simp add: vmm_phys_entry translate_def ent points_def)
  next
    case False
    then have "entry m' (pt_path w) (pti w) = entry m (pt_path w) (pti w)" by (auto simp: ent vpage_eq_iff)
    with False pd show ?thesis by (simp add: vmm_phys_entry)
  qed
qed

lemma vmm_map_exec:
  assumes "vmm_inv m" "3 \<le> free_frames m"
  shows "vmm_inv (vmm_map v p f m)"
    and "flushed (vmm_map v p f m) = (if in_huge v m then flushed m else v # flushed m)"
    and "vmm_phys w (vmm_map v p f m) =
      (if vpage w = vpage v \<and> \<not> in_huge v m then ((p OR f) AND NOT LOW12) OR (w AND LOW12) else vmm_phys w m)"
proof -
  obtain pdpt m1 where r1: "get_or_create (pml4 m) (pml4i v) m = (pdpt, m1)" by fastforce
  have "length [] < 3" "\<not> (length [] = 2 \<and> bit (tab m (pml4 m) (pml4i v)) 7)" "0 < free_frames m"
    using assms(2) by simp_all
  note s1 = get_or_create_spec [OF assms(1) tbl.simps(1) idx_bound(1) this r1]
  obtain pd m2 where r2: "get_or_create pdpt (pdpti v) m1 = (pd, m2)" by fastforce
  have "length [pml4i v] < 3" "\<not> (length [pml4i v] = 2 \<and> bit (tab m1 pdpt (pdpti v)) 7)" "0 < free_frames m1"
    using s1(5) assms(2) by simp_all
  note s2 = get_or_create_spec [OF s1(1,2) idx_bound(2) this r2]
  have free: "0 < free_frames m2" using s1(5) s2(5) assms(2) by simp
  have pd: "tbl m2 (pd_path v) = Some pd" using s2(2) by (simp add: pd_path_def)
  have "entry m2 (pd_path v) (pdi v) = entry m (pd_path v) (pdi v)"
    using s1(6) s2(6) by (simp add: pd_path_def)
  then have huge: "bit (tab m2 pd (pdi v)) 7 \<longleftrightarrow> in_huge v m" using pd by (simp add: in_huge_def entry_def)
  have all: "vmm_inv (vmm_map v p f m) \<and> flushed (vmm_map v p f m) = (if in_huge v m then flushed m else v # flushed m) \<and>
     vmm_phys w (vmm_map v p f m) =
      (if vpage w = vpage v \<and> \<not> in_huge v m then ((p OR f) AND NOT LOW12) OR (w AND LOW12) else vmm_phys w m)"
  proof (cases "in_huge v m")
    case True
    then have "vmm_map v p f m = m2" using huge by (simp add: vmm_map_def r1 r2)
    with True s1(4,7) s2(1,4,7) show ?thesis by simp
  next
    case False
    obtain pt m3 where r3: "get_or_create pd (pdi v) m2 = (pt, m3)" by fastforce
    have "length (pd_path v) = 2" by (simp add: pd_path_def)
    with False huge have c: "length (pd_path v) < 3" "\<not> (length (pd_path v) = 2 \<and> bit (tab m2 pd (pdi v)) 7)" by simp_all
    note s3 = get_or_create_spec [OF s2(1) pd idx_bound(3) c free r3]
    define e where "e = (p AND NOT LOW12) OR f OR PTE_PRESENT"
    have m': "vmm_map v p f m = vmm_flush_tlb v (tab_write pt (pti v) e m3)"
      using False huge by (simp add: vmm_map_def r1 r2 r3 e_def)
    have e: "bit e 0" "e AND NOT LOW12 = (p OR f) AND NOT LOW12"
    proof -
      show "bit e 0" by (simp add: e_def bit_or_iff)
      show "e AND NOT LOW12 = (p OR f) AND NOT LOW12"
        unfolding e_def low12_mask by (intro bit_word_eqI) (auto simp: bit_simps)
    qed
    note st = pt_store [OF s3(1,2) [folded pt_path_def], where e = e, folded m']
    from False st(1) st(2) [of w, unfolded m'] e s1(4,7) s2(4,7) s3(4,7) show ?thesis by (simp add: m')
  qed
  from all show "vmm_inv (vmm_map v p f m)"
    and "flushed (vmm_map v p f m) = (if in_huge v m then flushed m else v # flushed m)"
    and "vmm_phys w (vmm_map v p f m) =
      (if vpage w = vpage v \<and> \<not> in_huge v m then ((p OR f) AND NOT LOW12) OR (w AND LOW12) else vmm_phys w m)"
    by blast+
qed

lemma vmm_unmap_cases:
  "vmm_unmap v m =
     (case tbl m (pt_path v) of None \<Rightarrow> m | Some t \<Rightarrow> vmm_flush_tlb v (tab_write t (pti v) 0 m))"
  by (auto simp: vmm_unmap_def pt_path_def pd_path_def points_def Let_def)

lemma vmm_unmap_exec:
  assumes "vmm_inv m"
  shows "vmm_inv (vmm_unmap v m)"
    and "vmm_phys w (vmm_unmap v m) = (if vpage w = vpage v \<and> \<not> in_huge v m then 0 else vmm_phys w m)"
proof -
  have "vmm_inv (vmm_unmap v m) \<and>
    vmm_phys w (vmm_unmap v m) = (if vpage w = vpage v \<and> \<not> in_huge v m then 0 else vmm_phys w m)"
  proof (cases "tbl m (pt_path v)")
    case None
    have "vmm_phys w m = 0" if "vpage w = vpage v" "\<not> in_huge v m"
    proof -
      have eq: "pt_path w = pt_path v" "pd_path w = pd_path v" "pdi w = pdi v"
        using that(1) by (auto simp: vpage_eq_iff pt_path_def pd_path_def)
      have "\<not> points 2 (entry m (pd_path v) (pdi v))"
        using None by (simp add: tbl_pt_path Let_def split: if_splits)
      with that(2) eq show ?thesis by (simp add: vmm_phys_entry translate_def in_huge_def points_def)
    qed
    with None assms show ?thesis by (simp add: vmm_unmap_cases)
  next
    case (Some t)
    then have "points 2 (entry m (pd_path v) (pdi v))"
      by (simp add: tbl_pt_path Let_def split: if_splits)
    then have "\<not> in_huge v m" by (simp add: points_def in_huge_def)
    with pt_store [OF assms Some, where e = 0] Some show ?thesis by (simp add: vmm_unmap_cases)
  qed
  then show "vmm_inv (vmm_unmap v m)"
    and "vmm_phys w (vmm_unmap v m) = (if vpage w = vpage v \<and> \<not> in_huge v m then 0 else vmm_phys w m)" by blast+
qed

section \<open>The identity map\<close>

declare tbl.simps(2) [simp del]

text \<open>What a sequence of table creations does to the frames: it takes the lowest free ones, and every frame
  it takes holds a table.\<close>

definition tables :: "vmm64 \<Rightarrow> nat set" where
  "tables m = {unat t div 4096 | t q. tbl m q = Some t}"

definition owned :: "vmm64 \<Rightarrow> nat \<Rightarrow> vmm64 \<Rightarrow> bool" where
  "owned m n r \<longleftrightarrow> grown (frames m) n (frames r) \<and> tables m \<subseteq> tables r \<and>
     used_pages (frames r) \<subseteq> used_pages (frames m) \<union> tables r"

lemma owned_same: "tbl r = tbl m \<Longrightarrow> frames r = frames m \<Longrightarrow> owned m 0 r"
  by (auto simp: owned_def tables_def)

lemma owned_trans: "owned m n r \<Longrightarrow> owned r k u \<Longrightarrow> owned m (n + k) u"
  unfolding owned_def using grown_trans by blast

lemma link_owned:
  assumes "vmm_inv m" "tbl m p = Some t" "i < 512" "length p < 3" "\<not> points (length p) (tab m t i)"
    and "pmm_alloc (frames m) = (pa, f)" "pa \<noteq> 0"
  shows "owned m 1 (link_table pa t i (m\<lparr>frames := f\<rparr>))"
proof -
  let ?r = "link_table pa t i (m\<lparr>frames := f\<rparr>)"
  have inv: "pmm_inv (frames m)" using assms(1) by (simp add: vmm_inv_def)
  have none: "tbl m (i # p) = None" using assms(2,5) by (simp add: tbl.simps)
  have tbl: "tbl ?r q = (if q = i # p then Some pa else tbl m q)" for q by (rule link_alloc(2) [OF assms])
  have "tbl ?r q = Some u" if "tbl m q = Some u" for q u using that none by (auto simp: tbl)
  then have "tables m \<subseteq> tables ?r" unfolding tables_def by blast
  moreover have "tbl ?r (i # p) = Some pa" by (simp add: tbl)
  then have "unat pa div 4096 \<in> tables ?r" unfolding tables_def by blast
  moreover have "grown (frames m) 1 f" using grown_alloc [OF _ inv assms(6,7)] by simp
  ultimately show ?thesis using pmm64.alloc_page [OF inv assms(6,7)] by (auto simp: owned_def)
qed

lemma fill_table:
  assumes "vmm_inv m" "tbl m p = Some t" "\<And>k. \<not> points (length p) (entry m p k)" "\<And>k. \<not> points (length p) (h k)"
  defines "r n \<equiv> fold (\<lambda>k. tab_write t k (h k)) [0 ..< n] m"
  shows "vmm_inv (r n) \<and> tbl (r n) = tbl m \<and> frames (r n) = frames m \<and>
    entry (r n) = (\<lambda>q k. if q = p \<and> k < n then h k else entry m q k)"
proof (induction n)
  case 0
  then show ?case using assms(1) by (simp add: r_def)
next
  case (Suc n)
  then have t: "tbl (r n) p = Some t" and inv: "vmm_inv (r n)" using assms(2) by simp_all
  have "entry (r n) p n = entry m p n" using Suc by simp
  moreover have "entry (r n) p n = tab (r n) t n" using t by (simp add: entry_def)
  ultimately have np: "\<not> points (length p) (tab (r n) t n)" using assms(3) [of n] by simp
  have step: "r (Suc n) = tab_write t n (h n) (r n)" by (simp add: r_def)
  have "tbl (r (Suc n)) = tbl m" using tbl_write [OF inv t np assms(4)] Suc by (auto simp: step)
  moreover have "entry (r (Suc n)) = (\<lambda>q k. if q = p \<and> k < Suc n then h k else entry m q k)"
    unfolding step entry_write [OF inv t np assms(4)] using Suc by (auto simp: fun_eq_iff less_Suc_eq entry_write [OF inv t np assms(4)])
  ultimately show ?case using write_inv [OF inv t np assms(4)] Suc by (simp add: step)
qed

lemma huge_entry_bits: "bit (huge_entry i j k) 0" "bit (huge_entry i j k) 7" "\<not> points 2 (huge_entry i j k)"
  by (simp_all add: huge_entry_def points_def bit_or_iff)

lemma init_pd_spec:
  assumes "vmm_inv m" "tbl m [i] = Some pdpt" "j < 512" "entry m [i] j = 0" "0 < free_frames m"
  shows "vmm_inv (init_pd i pdpt j m) \<and> free_frames m = Suc (free_frames (init_pd i pdpt j m)) \<and>
    tbl (init_pd i pdpt j m) [i] = Some pdpt \<and> owned m 1 (init_pd i pdpt j m) \<and>
    (\<forall>q k. q \<noteq> [i] \<or> k \<noteq> j \<longrightarrow>
      entry (init_pd i pdpt j m) q k = (if q = [j, i] \<and> k < 512 then huge_entry i j k else entry m q k))"
proof -
  obtain pd f where pd: "pmm_alloc (frames m) = (pd :: u64, f)" by fastforce
  have inv: "pmm_inv (frames m)" using assms(1) by (simp add: vmm_inv_def)
  note ok = pmm64.alloc_succeeds [OF inv pd assms(5) [unfolded free_frames_def]]
  have np: "\<not> points (length [i]) (tab m pdpt j)" "length [i] < 3"
    using assms(2,4) by (simp_all add: entry_def points_def)
  define m1 where "m1 = link_table pd pdpt j (m\<lparr>frames := f\<rparr>)"
  note link = link_alloc [OF assms(1-3) np(2,1) pd ok(1), folded m1_def]
  have zero: "entry m [j, i] k = 0" for k
    using assms(4) by (simp add: entry_def [of m "[j, i]"] tbl_Cons points_def)
  have t1: "tbl m1 [j, i] = Some pd" using link(2) by simp
  have n1: "\<not> points (length [j, i]) (entry m1 [j, i] k)" for k unfolding link(3) by (simp add: zero points_def)
  have n2: "\<not> points (length [j, i]) (huge_entry i j k)" for k using huge_entry_bits(3) [of i j k] by (simp add: numeral_2_eq_2)
  note fill = fill_table [where h = "huge_entry i j" and n = 512, OF link(1) t1 n1 n2]
  have run: "init_pd i pdpt j m = fold (\<lambda>k. tab_write pd k (huge_entry i j k)) [0 ..< 512] m1"
    by (simp add: init_pd_def pd m1_def)
  have "owned m (1 + 0) (init_pd i pdpt j m)"
    using link_owned [OF assms(1-3) np(2,1) pd ok(1), folded m1_def] fill unfolding run by (intro owned_trans owned_same) simp_all
  moreover have "frames m1 = f" by (simp add: m1_def)
  ultimately show ?thesis
    unfolding run free_frames_def using fill ok(2) link(2,3) assms(2) by (simp del: upt.simps upt_conv_Cons)
qed


lemma init_pd_loop:
  assumes "vmm_inv m" "tbl m [i] = Some pdpt" "\<And>j. entry m [i] j = 0" "n \<le> 512" "n \<le> free_frames m"
  defines "r \<equiv> \<lambda>n. fold (init_pd i pdpt) [0 ..< n] m"
  shows "vmm_inv (r n) \<and> free_frames m = n + free_frames (r n) \<and> tbl (r n) [i] = Some pdpt \<and> owned m n (r n) \<and>
    (\<forall>q k. q \<noteq> [i] \<or> n \<le> k \<longrightarrow>
      entry (r n) q k = (if \<exists>j<n. q = [j, i] \<and> k < 512 then huge_entry i (hd q) k else entry m q k))"
  using assms(4,5)
proof (induction n)
  case 0
  then show ?case using assms(1,2) by (simp add: r_def owned_same)
next
  case (Suc n)
  then have IH: "vmm_inv (r n)" "free_frames m = n + free_frames (r n)" "tbl (r n) [i] = Some pdpt" "owned m n (r n)"
    and E: "\<And>q k. q \<noteq> [i] \<or> n \<le> k \<Longrightarrow>
      entry (r n) q k = (if \<exists>j<n. q = [j, i] \<and> k < 512 then huge_entry i (hd q) k else entry m q k)"
    by simp_all
  have "entry (r n) [i] n = 0" using E [of "[i]" n] assms(3) by simp
  moreover have "n < 512" "0 < free_frames (r n)" using Suc.prems IH(2) by simp_all
  ultimately have S: "vmm_inv (r (Suc n))" "free_frames (r n) = Suc (free_frames (r (Suc n)))" "tbl (r (Suc n)) [i] = Some pdpt"
    "owned (r n) 1 (r (Suc n))"
    and ES: "\<And>q k. q \<noteq> [i] \<or> k \<noteq> n \<Longrightarrow>
      entry (r (Suc n)) q k = (if q = [n, i] \<and> k < 512 then huge_entry i n k else entry (r n) q k)"
    using init_pd_spec [OF IH(1,3)] by (simp_all add: r_def)
  have "entry (r (Suc n)) q k = (if \<exists>j<Suc n. q = [j, i] \<and> k < 512 then huge_entry i (hd q) k else entry m q k)"
    if "q \<noteq> [i] \<or> Suc n \<le> k" for q k
    using that E [of q k] ES [of q k] by (auto simp: less_Suc_eq)
  with S IH(2) owned_trans [OF IH(4) S(4)] show ?case by simp
qed

lemma init_pdpt_spec:
  assumes "vmm_inv m" "i < 512" "entry m [] i = 0" "513 \<le> free_frames m"
  shows "vmm_inv (init_pdpt i m) \<and> free_frames m = 513 + free_frames (init_pdpt i m) \<and> owned m 513 (init_pdpt i m) \<and>
    (\<forall>l. l \<noteq> i \<longrightarrow> entry (init_pdpt i m) [] l = entry m [] l) \<and>
    (\<forall>j l k. entry (init_pdpt i m) [j, l] k =
      (if l = i \<and> j < 512 \<and> k < 512 then huge_entry i j k else entry m [j, l] k))"
proof -
  obtain pdpt f where p: "pmm_alloc (frames m) = (pdpt :: u64, f)" by fastforce
  have inv: "pmm_inv (frames m)" using assms(1) by (simp add: vmm_inv_def)
  have free: "0 < card ({1 ..< MAX_PAGES} - used_pages (frames m))" using assms(4) by (simp add: free_frames_def)
  note ok = pmm64.alloc_succeeds [OF inv p free]
  have np: "\<not> points (length []) (tab m (pml4 m) i)" "length [] < 3"
    using assms(3) by (simp_all add: entry_def points_def)
  define m1 where "m1 = link_table pdpt (pml4 m) i (m\<lparr>frames := f\<rparr>)"
  note link = link_alloc [OF assms(1) tbl.simps(1) assms(2) np(2,1) p ok(1), folded m1_def]
  have zero: "entry m [i] k = 0" for k
    using assms(3) by (simp add: entry_def [of m "[i]"] tbl_Cons points_def)
  have t1: "tbl m1 [i] = Some pdpt" and z1: "\<And>j. entry m1 [i] j = 0" using link(2,3) zero by simp_all
  have f1: "free_frames m = Suc (free_frames m1)" using ok(2) by (simp add: free_frames_def m1_def)
  then have "512 \<le> free_frames m1" using assms(4) by simp
  note loop = init_pd_loop [OF link(1) t1 z1 le_refl this]
  have run: "init_pdpt i m = fold (init_pd i pdpt) [0 ..< 512] m1" by (simp add: init_pdpt_def p m1_def)
  from loop have L: "vmm_inv (init_pdpt i m)" "free_frames m1 = 512 + free_frames (init_pdpt i m)" "owned m1 512 (init_pdpt i m)"
    and E: "\<And>q k. q \<noteq> [i] \<Longrightarrow> entry (init_pdpt i m) q k =
      (if \<exists>j<512. q = [j, i] \<and> k < 512 then huge_entry i (hd q) k else entry m1 q k)"
    unfolding run by (simp_all del: upt.simps upt_conv_Cons)
  have "entry (init_pdpt i m) [] l = entry m [] l" if "l \<noteq> i" for l using that E [of "[]" l] link(3) by simp
  moreover have "entry (init_pdpt i m) [j, l] k =
      (if l = i \<and> j < 512 \<and> k < 512 then huge_entry i j k else entry m [j, l] k)" for j l k
    using E [of "[j, l]" k] link(3) by simp
  moreover have "owned m (1 + 512) (init_pdpt i m)"
    by (rule owned_trans [OF link_owned [OF assms(1) tbl.simps(1) assms(2) np(2,1) p ok(1), folded m1_def] L(3)])
  ultimately show ?thesis using L f1 by simp
qed

lemma init_pdpt_loop:
  assumes "vmm_inv m" "\<And>q k. entry m q k = 0" "n \<le> 4" "513 * n \<le> free_frames m"
  defines "r \<equiv> \<lambda>n. fold init_pdpt [0 ..< n] m"
  shows "vmm_inv (r n) \<and> free_frames m = 513 * n + free_frames (r n) \<and> owned m (513 * n) (r n) \<and> (\<forall>l\<ge>n. entry (r n) [] l = 0) \<and>
    (\<forall>j l k. entry (r n) [j, l] k = (if l < n \<and> j < 512 \<and> k < 512 then huge_entry l j k else 0))"
  using assms(3,4)
proof (induction n)
  case 0
  then show ?case using assms(1,2) by (simp add: r_def owned_same)
next
  case (Suc n)
  then have IH: "vmm_inv (r n)" "free_frames m = 513 * n + free_frames (r n)" "owned m (513 * n) (r n)" "\<And>l. n \<le> l \<Longrightarrow> entry (r n) [] l = 0"
    and E: "\<And>j l k. entry (r n) [j, l] k = (if l < n \<and> j < 512 \<and> k < 512 then huge_entry l j k else 0)"
    by simp_all
  have "n < 512" "entry (r n) [] n = 0" "513 \<le> free_frames (r n)" using Suc.prems IH by simp_all
  from init_pdpt_spec [OF IH(1) this] have S: "vmm_inv (r (Suc n))" "free_frames (r n) = 513 + free_frames (r (Suc n))"
    "owned (r n) 513 (r (Suc n))" "\<And>l. l \<noteq> n \<Longrightarrow> entry (r (Suc n)) [] l = entry (r n) [] l"
    and ES: "\<And>j l k. entry (r (Suc n)) [j, l] k =
      (if l = n \<and> j < 512 \<and> k < 512 then huge_entry n j k else entry (r n) [j, l] k)"
    by (simp_all add: r_def)
  have "entry (r (Suc n)) [j, l] k = (if l < Suc n \<and> j < 512 \<and> k < 512 then huge_entry l j k else 0)" for j l k
    unfolding ES E by (auto simp: less_Suc_eq)
  with S IH owned_trans [OF IH(3) S(3)] show ?case by (simp add: add.commute)
qed


text \<open>The address an entry of the identity map holds, and the address it translates to.\<close>

lemma idx_nat:
  "pml4i v = unat v div 2 ^ 21 div 2 ^ 9 div 2 ^ 9 mod 2 ^ 9"
  "pdpti v = unat v div 2 ^ 21 div 2 ^ 9 mod 2 ^ 9"
  "pdi v = unat v div 2 ^ 21 mod 2 ^ 9"
proof -
  have mask: "(0x1FF :: u64) = mask 9" by (simp add: mask_eq_exp_minus_1)
  have idx: "unat (drop_bit k v AND 0x1FF) = unat v div 2 ^ k mod 2 ^ 9" for k
  proof -
    have "unat (drop_bit k v AND 0x1FF) = unat (take_bit 9 (drop_bit k v))" by (simp only: mask take_bit_eq_mask)
    also have "\<dots> = take_bit 9 (unat v div 2 ^ k)" by (simp only: unsigned_take_bit_eq unat_drop_bit_div)
    finally show ?thesis by (simp only: take_bit_eq_mod)
  qed
  show "pml4i v = unat v div 2 ^ 21 div 2 ^ 9 div 2 ^ 9 mod 2 ^ 9"
    "pdpti v = unat v div 2 ^ 21 div 2 ^ 9 mod 2 ^ 9"
    "pdi v = unat v div 2 ^ 21 mod 2 ^ 9"
    by (simp_all add: pml4i_def pdpti_def pdi_def idx flip: div_mult2_eq)
qed

lemma huge_base:
  "of_nat (pml4i v) * 512 * 512 * 0x200000 + of_nat (pdpti v) * 512 * 0x200000 + of_nat (pdi v) * 0x200000 =
    push_bit 21 (take_bit 27 (drop_bit 21 (v :: u64)))"
proof -
  define u where "u = unat v div 2 ^ 21"
  have "u mod (2 ^ 9 * (2 ^ 9 * 2 ^ 9)) =
      2 ^ 9 * (2 ^ 9 * (u div 2 ^ 9 div 2 ^ 9 mod 2 ^ 9) + u div 2 ^ 9 mod 2 ^ 9) + u mod 2 ^ 9"
    by (simp only: mod_mult2_eq)
  then have u: "pml4i v * 512 * 512 + pdpti v * 512 + pdi v = u mod 2 ^ 27"
    unfolding idx_nat by (simp add: u_def algebra_simps)
  have "of_nat (pml4i v) * 512 * 512 * 0x200000 + of_nat (pdpti v) * 512 * 0x200000 + of_nat (pdi v) * 0x200000 =
      (of_nat (pml4i v * 512 * 512 + pdpti v * 512 + pdi v) :: u64) * 0x200000"
    by (simp add: algebra_simps)
  also have "(of_nat (pml4i v * 512 * 512 + pdpti v * 512 + pdi v) :: u64) = take_bit 27 (drop_bit 21 v)"
  proof (rule unat_inj)
    have "u mod 2 ^ 27 < 2 ^ 64" by (rule less_trans [OF mod_less_divisor]) simp_all
    then have "unat (of_nat (u mod 2 ^ 27) :: u64) = u mod 2 ^ 27" by (simp add: unat_of_nat)
    moreover have "unat (take_bit 27 (drop_bit 21 v)) = u mod 2 ^ 27"
      by (simp only: unsigned_take_bit_eq unat_drop_bit_div) (simp only: take_bit_eq_mod u_def)
    ultimately show "unat (of_nat (pml4i v * 512 * 512 + pdpti v * 512 + pdi v) :: u64) = unat (take_bit 27 (drop_bit 21 v))"
      unfolding u by (simp only:)
  qed
  finally show ?thesis by (simp add: push_bit_eq_mult)
qed

lemma huge_translate:
  "translate (huge_entry (pml4i v) (pdpti v) (pdi v)) e v = take_bit 48 v"
proof -
  have "(huge_entry (pml4i v) (pdpti v) (pdi v) AND NOT LOW21) OR (v AND LOW21) = take_bit 48 v"
    unfolding huge_entry_def huge_base low21_mask by (intro bit_word_eqI) (auto simp: bit_simps)
  then show ?thesis by (simp add: translate_def huge_entry_bits)
qed


lemma tab_clear_empty:
  "tbl (tab_clear (pml4 m) m) q = (if q = [] then Some (pml4 m) else None)" "entry (tab_clear (pml4 m) m) q k = 0"
proof -
  show tbl: "tbl (tab_clear (pml4 m) m) q = (if q = [] then Some (pml4 m) else None)" for q
  proof (induction q)
    case (Cons i q)
    then show ?case by (simp add: tbl.simps tab_clear_def points_def)
  qed (simp add: tab_clear_def)
  show "entry (tab_clear (pml4 m) m) q k = 0" by (simp add: entry_def tbl) (simp add: tab_clear_def)
qed

lemma vmm_init_exec:
  assumes "pmm_inv (frames m)" "unat (pml4 m) mod 4096 = 0" "unat (pml4 m) div 4096 \<in> used_pages (frames m)"
    and "2052 \<le> free_frames m"
  shows "vmm_inv (vmm_init m)" "free_frames m = 2052 + free_frames (vmm_init m)"
    and "vmm_phys v (vmm_init m) = (if pml4i v < 4 then take_bit 48 v else 0)"
    and "in_huge v (vmm_init m) \<longleftrightarrow> pml4i v < 4" "grown (frames m) 2052 (frames (vmm_init m))"
    and "used_pages (frames (vmm_init m)) \<subseteq> used_pages (frames m) \<union> tables (vmm_init m)"
proof -
  let ?m0 = "tab_clear (pml4 m) m"
  define m1 where "m1 = fold init_pdpt [0 ..< 4] ?m0"
  have f: "frames ?m0 = frames m" "pml4 ?m0 = pml4 m" by (simp_all add: tab_clear_def)
  have inv: "vmm_inv ?m0" using assms(1-3) by (simp add: vmm_inv_def f tab_clear_empty)
  have "4 \<le> (4 :: nat)" "513 * 4 \<le> free_frames ?m0" using assms(4) by (simp_all add: free_frames_def f)
  note L = init_pdpt_loop [OF inv tab_clear_empty(2) this, folded m1_def]
  have run: "vmm_init m = m1\<lparr>cr3 := pml4 m1\<rparr>" by (simp add: vmm_init_def m1_def Let_def)
  have tbl: "tbl (vmm_init m) q = tbl m1 q" for q
    by (induction q) (simp_all add: run tbl.simps split: option.split)
  have ent: "entry (vmm_init m) q k = entry m1 q k" for q k
    by (simp add: entry_def tbl) (simp add: run split: option.split)
  show "vmm_inv (vmm_init m)" using L unfolding vmm_inv_def tbl by (simp add: run)
  show "free_frames m = 2052 + free_frames (vmm_init m)" using L by (simp add: run free_frames_def f)
  have "tables (vmm_init m) = tables m1" by (simp add: tables_def tbl)
  then show "grown (frames m) 2052 (frames (vmm_init m))"
    "used_pages (frames (vmm_init m)) \<subseteq> used_pages (frames m) \<union> tables (vmm_init m)"
    using L by (simp_all add: run owned_def f)
  have pd: "entry (vmm_init m) (pd_path v) (pdi v) = (if pml4i v < 4 then huge_entry (pml4i v) (pdpti v) (pdi v) else 0)"
    using L by (simp add: ent pd_path_def)
  show "in_huge v (vmm_init m) \<longleftrightarrow> pml4i v < 4" by (simp add: in_huge_def pd huge_entry_bits)
  show "vmm_phys v (vmm_init m) = (if pml4i v < 4 then take_bit 48 v else 0)"
    unfolding vmm_phys_entry pd using huge_translate by (simp add: translate_def [of 0])
qed

text \<open>On a machine whose lowest free frames are contiguous the tables fill them without a gap.\<close>

lemma vmm_init_takes:
  assumes "pmm_inv (frames m)" "unat (pml4 m) mod 4096 = 0" "unat (pml4 m) div 4096 \<in> used_pages (frames m)"
    and "2052 \<le> free_frames m"
    and "1 \<le> a" "{1 ..< a} \<subseteq> used_pages (frames m)" "{a ..< a + 2052} \<inter> used_pages (frames m) = {}"
  shows "{a ..< a + 2052} \<subseteq> tables (vmm_init m)"
  using grown_prefix [OF vmm_init_exec(5) [OF assms(1-4)] assms(6,7) _ assms(5)] vmm_init_exec(6) [OF assms(1-4)] assms(7)
  by blast

lemma low_addr: "unat v < 2 ^ 41 \<Longrightarrow> pml4i v < 4 \<and> take_bit 48 v = v"
proof
  assume lt: "unat v < 2 ^ 41"
  have "unat (drop_bit 39 v AND 0x1FF) \<le> unat (drop_bit 39 v)"
    by (rule word_and_le2 [THEN word_le_nat_alt [THEN iffD1]])
  with lt show "pml4i v < 4" by (simp add: pml4i_def unat_drop_bit_div)
  have "unat (take_bit 48 v) = unat v"
    using lt by (simp only: unsigned_take_bit_eq) (simp add: take_bit_nat_eq_self)
  then show "take_bit 48 v = v" by (rule unat_inj)
qed

section \<open>Properties\<close>

text \<open>The allocator of the 128 MiB machine, with the static table in the kernel image.\<close>

definition sample_vmm64 :: vmm64 where
  "sample_vmm64 = \<lparr>pml4 = 0x50000, tab = (\<lambda>_ _. 0), frames = sample_pmm, cr3 = 0, flushed = []\<rparr>"

lemma sample_free: "free_frames sample_vmm64 = 0x7F00"
proof -
  have "{1 ..< MAX_PAGES} - used_pages sample_pmm = {0x100 ..< 0x8000}"
    by (auto simp: sample_pmm_used MAX_PAGES_def)
  then show ?thesis by (simp add: free_frames_def sample_vmm64_def)
qed

lemma sample_vmm64_ok:
  "pmm_inv (frames sample_vmm64)" "unat (pml4 sample_vmm64) mod 4096 = 0"
  "unat (pml4 sample_vmm64) div 4096 \<in> used_pages (frames sample_vmm64)" "2052 \<le> free_frames sample_vmm64"
  unfolding sample_free by (simp_all add: sample_vmm64_def sample_pmm_inv sample_pmm_used)

lemmas sample_init64 = vmm_init_exec [OF sample_vmm64_ok]

text \<open>
  With the static top table in a frame marked used and 2052 free frames, x86\_64 \<^verbatim>\<open>vmm_init\<close>
  identity-maps exactly the first 2 TiB of every 48-bit address space: 512 GiB for each of the
  four top-level entries.  It takes exactly 2052 frames, 8 MiB, for the tables and establishes
  the invariant that all tables sit in distinct frames that are marked used.
\<close>

theorem vmm_init64_identity:
  assumes "pmm_inv (frames m)" "unat (pml4 m) mod 4096 = 0" "unat (pml4 m) div 4096 \<in> used_pages (frames m)"
    and "2052 \<le> free_frames m"
  shows "vmm_inv (vmm_init m) \<and> free_frames m = 2052 + free_frames (vmm_init m) \<and>
    (\<forall>v. vmm_phys v (vmm_init m) = (if pml4i v < 4 then take_bit 48 v else 0)) \<and>
    (\<forall>v. unat v < 2 ^ 41 \<longrightarrow> vmm_phys v (vmm_init m) = v)"
  using vmm_init_exec [OF assms] low_addr by simp

theorem vmm_init64_identity_witness:
  "vmm_phys 0x1FFFFFFFFFF (vmm_init sample_vmm64) = 0x1FFFFFFFFFF \<and> vmm_phys 0x20000000000 (vmm_init sample_vmm64) = 0"
proof -
  have "pml4i 0x20000000000 = 4" "pml4i 0x1FFFFFFFFFF = 3" by (simp_all add: pml4i_def)
  with vmm_init64_identity [OF sample_vmm64_ok] show ?thesis by simp
qed

text \<open>
  C31: with three free frames, x86\_64 \<^verbatim>\<open>vmm_map\<close> maps the 4 KiB page of \<open>v\<close> and leaves every other
  translation alone, whichever of the three lower tables it has to create; inside a 2 MiB page
  it changes nothing.  The target is the page of \<open>p\<close> with the flag bits above bit 11 merged in:
  the code does not separate them, so that with \<^verbatim>\<open>PTE_NX\<close> the translation has bit 63 set.
\<close>

theorem vmm_map64_translates:
  assumes "vmm_inv m" "3 \<le> free_frames m"
  shows "vmm_inv (vmm_map v p f m) \<and>
    (\<forall>w. vmm_phys w (vmm_map v p f m) =
      (if vpage w = vpage v \<and> \<not> in_huge v m then ((p OR f) AND NOT LOW12) OR (w AND LOW12) else vmm_phys w m))"
  using vmm_map_exec [OF assms] by blast

theorem vmm_map64_translates_witness:
  "vmm_phys 0x400000001234 (vmm_map 0x400000001000 0x123000 PTE_WRITABLE (vmm_init sample_vmm64)) = 0x123234 \<and>
   vmm_phys 0x400000001234 (vmm_map 0x400000001000 0x123000 PTE_NX (vmm_init sample_vmm64)) = 0x8000000000123234 \<and>
   vmm_phys 0x5000 (vmm_map 0x5000 0x123000 PTE_WRITABLE (vmm_init sample_vmm64)) = 0x5000"
proof -
  have free: "3 \<le> free_frames (vmm_init sample_vmm64)" using sample_init64(2) by (simp add: sample_free)
  note all = vmm_map64_translates [OF sample_init64(1) free, THEN conjunct2, rule_format]
  have i: "pml4i 0x400000001000 = 128" "pml4i 0x5000 = 0" by (simp_all add: pml4i_def)
  have pg: "vpage 0x400000001234 = vpage 0x400000001000" by (simp add: vpage_def)
  have "vmm_phys 0x5000 (vmm_init sample_vmm64) = 0x5000"
    using sample_init64(3) [of "0x5000"] i by simp
  with i pg show ?thesis
    unfolding all sample_init64(4) by (simp add: LOW12_def PTE_WRITABLE_def PTE_NX_def)
qed

text \<open>
  x86\_64 \<^verbatim>\<open>vmm_unmap\<close> removes the translation of exactly one 4 KiB page and does nothing inside a
  2 MiB page.
\<close>

theorem vmm_unmap64_removes:
  assumes "vmm_inv m"
  shows "vmm_inv (vmm_unmap v m) \<and>
    (\<forall>w. vmm_phys w (vmm_unmap v m) = (if vpage w = vpage v \<and> \<not> in_huge v m then 0 else vmm_phys w m))"
  using vmm_unmap_exec [OF assms] by blast


end
