(* ===== verification/CString.thy ===== *)
theory CString
  imports Prelude
begin

text \<open>
  The memory and string routines of \<^verbatim>\<open>libs/libc/src/string.c\<close> over a byte-addressed memory.
  Every byte-by-byte loop of the code is one recursive definition.  A loop that is bounded by a
  count recurses on the count; a loop that runs until a terminating zero byte is a partial
  function into \<open>option\<close>, where \<open>None\<close> stands for a run that never finds one.
\<close>

section \<open>Memory blocks\<close>

type_synonym memory = "nat \<Rightarrow> u8"

fun memset :: "nat \<Rightarrow> u8 \<Rightarrow> nat \<Rightarrow> memory \<Rightarrow> memory" where
  "memset p c 0 m = m"
| "memset p c (Suc n) m = memset (p + 1) c n (m(p := c))"

fun memcpy :: "nat \<Rightarrow> nat \<Rightarrow> nat \<Rightarrow> memory \<Rightarrow> memory" where
  "memcpy d s 0 m = m"
| "memcpy d s (Suc n) m = memcpy (d + 1) (s + 1) n (m(d := m s))"

text \<open>The downward loop of \<^verbatim>\<open>memmove\<close>: \<open>d\<close> and \<open>s\<close> point one past the next byte.\<close>

fun copy_down :: "nat \<Rightarrow> nat \<Rightarrow> nat \<Rightarrow> memory \<Rightarrow> memory" where
  "copy_down d s 0 m = m"
| "copy_down d s (Suc n) m = (let d = d - 1; s = s - 1 in copy_down d s n (m(d := m s)))"

definition memmove :: "nat \<Rightarrow> nat \<Rightarrow> nat \<Rightarrow> memory \<Rightarrow> memory" where
  "memmove d s n m = (if d < s then memcpy d s n m else copy_down (d + n) (s + n) n m)"

fun memcmp :: "nat \<Rightarrow> nat \<Rightarrow> nat \<Rightarrow> memory \<Rightarrow> int" where
  "memcmp p q 0 m = 0"
| "memcmp p q (Suc n) m =
     (if m p \<noteq> m q then uint (m p) - uint (m q) else memcmp (p + 1) (q + 1) n m)"

section \<open>Strings\<close>

partial_function (option) strlen_from :: "nat \<Rightarrow> nat \<Rightarrow> memory \<Rightarrow> nat option" where
  "strlen_from s n m = (if m s \<noteq> 0 then strlen_from (s + 1) (n + 1) m else Some n)"

definition strlen :: "nat \<Rightarrow> memory \<Rightarrow> nat option" where
  "strlen s m = strlen_from s 0 m"

partial_function (option) strcmp :: "nat \<Rightarrow> nat \<Rightarrow> memory \<Rightarrow> int option" where
  "strcmp a b m =
     (if m a \<noteq> 0 \<and> m a = m b then strcmp (a + 1) (b + 1) m
      else Some (uint (m a) - uint (m b)))"

text \<open>
  \<^verbatim>\<open>n--\<close> is evaluated before the bytes are read: at \<open>n = 0\<close> the counter wraps to \<^verbatim>\<open>(size_t)-1\<close>,
  which the test after the loop recognises.
\<close>

fun strncmp :: "nat \<Rightarrow> nat \<Rightarrow> nat \<Rightarrow> memory \<Rightarrow> int" where
  "strncmp a b 0 m = 0"
| "strncmp a b (Suc n) m =
     (if m a \<noteq> 0 \<and> m a = m b then strncmp (a + 1) (b + 1) n m
      else uint (m a) - uint (m b))"

partial_function (option) strcpy :: "nat \<Rightarrow> nat \<Rightarrow> memory \<Rightarrow> memory option" where
  "strcpy d s m =
     (let m' = m(d := m s) in if m s \<noteq> 0 then strcpy (d + 1) (s + 1) m' else Some m')"

text \<open>
  The first loop of \<^verbatim>\<open>strncpy\<close> stops after it has stored a zero byte, without counting it; the
  second loop stores as many zero bytes as are left in \<open>n\<close>.
\<close>

fun strncpy :: "nat \<Rightarrow> nat \<Rightarrow> nat \<Rightarrow> memory \<Rightarrow> memory" where
  "strncpy d s 0 m = m"
| "strncpy d s (Suc n) m =
     (let m' = m(d := m s)
      in if m s \<noteq> 0 then strncpy (d + 1) (s + 1) n m' else memset (d + 1) 0 (Suc n) m')"

partial_function (option) find_nul :: "nat \<Rightarrow> memory \<Rightarrow> nat option" where
  "find_nul d m = (if m d \<noteq> 0 then find_nul (d + 1) m else Some d)"

definition strcat :: "nat \<Rightarrow> nat \<Rightarrow> memory \<Rightarrow> memory option" where
  "strcat d s m = (case find_nul d m of None \<Rightarrow> None | Some e \<Rightarrow> strcpy e s m)"

partial_function (option) strchr :: "nat \<Rightarrow> i32 \<Rightarrow> memory \<Rightarrow> nat option" where
  "strchr s c m =
     (if m s \<noteq> 0 then if m s = ucast c then Some s else strchr (s + 1) c m
      else Some (if c = 0 then s else 0))"

section \<open>Strings in memory\<close>

text \<open>\<open>cstr m p xs\<close>: the string at \<open>p\<close> has the characters \<open>xs\<close>, followed by its zero byte.\<close>

fun cstr :: "memory \<Rightarrow> nat \<Rightarrow> u8 list \<Rightarrow> bool" where
  "cstr m p [] \<longleftrightarrow> m p = 0"
| "cstr m p (x # xs) \<longleftrightarrow> m p = x \<and> x \<noteq> 0 \<and> cstr m (p + 1) xs"

definition bytes_at :: "memory \<Rightarrow> nat \<Rightarrow> nat \<Rightarrow> u8 list" where
  "bytes_at m p n = map m [p ..< p + n]"

lemma memset_apply [simp]:
  "memset p c n m x = (if p \<le> x \<and> x < p + n then c else m x)"
  by (induction n arbitrary: p m) auto

lemma memcpy_outside: "x < d \<or> d + n \<le> x \<Longrightarrow> memcpy d s n m x = m x"
  by (induction d s n m rule: memcpy.induct) auto

lemma memcpy_inside:
  assumes "d \<le> s \<or> s + n \<le> d" "i < n"
  shows "memcpy d s n m (d + i) = m (s + i)"
  using assms
proof (induction d s n m arbitrary: i rule: memcpy.induct)
  case (2 d s n m)
  show ?case
  proof (cases i)
    case 0
    then show ?thesis by (simp add: memcpy_outside)
  next
    case (Suc j)
    have "memcpy (d + 1) (s + 1) n (m(d := m s)) (d + 1 + j) = (m(d := m s)) (s + 1 + j)"
      using "2.prems" Suc by (intro "2.IH") auto
    then show ?thesis using Suc "2.prems" by auto
  qed
qed simp

lemma copy_down_outside: "n \<le> d \<Longrightarrow> x < d - n \<or> d \<le> x \<Longrightarrow> copy_down d s n m x = m x"
proof (induction d s n m rule: copy_down.induct)
  case (2 d s n m)
  then have "copy_down (d - 1) (s - 1) n (m(d - 1 := m (s - 1))) x = (m(d - 1 := m (s - 1))) x"
    by (intro "2.IH" [OF refl refl]) auto
  then show ?case using "2.prems" by (auto simp: Let_def)
qed simp

lemma copy_down_inside:
  assumes "s \<le> d" "i < n"
  shows "copy_down (d + n) (s + n) n m (d + i) = m (s + i)"
  using assms
proof (induction n arbitrary: m)
  case (Suc n)
  let ?m = "m(d + n := m (s + n))"
  have e: "copy_down (d + Suc n) (s + Suc n) (Suc n) m = copy_down (d + n) (s + n) n ?m" by (simp add: Let_def)
  show ?case
  proof (cases "i = n")
    case True
    then show ?thesis unfolding e by (simp add: copy_down_outside)
  next
    case False
    with Suc show ?thesis unfolding e by simp
  qed
qed simp

lemma memmove_apply:
  "memmove d s n m x = (if d \<le> x \<and> x < d + n then m (s + (x - d)) else m x)"
proof (cases "d \<le> x \<and> x < d + n")
  case True
  then obtain i where i: "x = d + i" "i < n" by (auto simp: le_iff_add)
  then show ?thesis by (simp add: memmove_def memcpy_inside copy_down_inside)
next
  case False
  then show ?thesis by (auto simp: memmove_def memcpy_outside copy_down_outside)
qed

section \<open>The string routines on terminated strings\<close>

lemma cstr_length_unique: "cstr m p xs \<Longrightarrow> cstr m p ys \<Longrightarrow> xs = ys"
proof (induction xs arbitrary: p ys)
  case Nil
  then show ?case by (cases ys) auto
next
  case (Cons x xs)
  then show ?case by (cases ys) auto
qed

lemma cstr_nth: "cstr m p xs \<Longrightarrow> i < length xs \<Longrightarrow> m (p + i) = xs ! i \<and> xs ! i \<noteq> 0"
proof (induction xs arbitrary: p i)
  case (Cons x xs)
  show ?case
  proof (cases i)
    case (Suc j)
    with Cons.IH [of "p + 1" j] Cons.prems show ?thesis by simp
  qed (use Cons.prems in simp)
qed simp

lemma cstr_end: "cstr m p xs \<Longrightarrow> m (p + length xs) = 0"
proof (induction xs arbitrary: p)
  case (Cons x xs)
  from Cons.IH [of "p + 1"] Cons.prems have "m (p + 1 + length xs) = 0" by simp
  then show ?case by simp
qed simp

lemma cstr_cong:
  "(\<And>x. p \<le> x \<Longrightarrow> x \<le> p + length xs \<Longrightarrow> m' x = m x) \<Longrightarrow> cstr m' p xs = cstr m p xs"
  by (induction xs arbitrary: p) auto

lemma cstr_iff:
  "cstr m p xs \<longleftrightarrow> bytes_at m p (length xs) = xs \<and> 0 \<notin> set xs \<and> m (p + length xs) = 0"
proof (induction xs arbitrary: p)
  case (Cons x xs)
  have "bytes_at m p (Suc (length xs)) = m p # bytes_at m (p + 1) (length xs)"
    by (simp add: bytes_at_def upt_conv_Cons del: upt_Suc)
  with Cons show ?case by auto
qed (simp add: bytes_at_def)

lemma cstr_append:
  "cstr m p (xs @ ys) \<longleftrightarrow> bytes_at m p (length xs) = xs \<and> 0 \<notin> set xs \<and> cstr m (p + length xs) ys"
proof (induction xs arbitrary: p)
  case (Cons x xs)
  have "bytes_at m p (Suc (length xs)) = m p # bytes_at m (p + 1) (length xs)"
    by (simp add: bytes_at_def upt_conv_Cons del: upt_Suc)
  with Cons show ?case by auto
qed (simp add: bytes_at_def)

lemma strlen_from_cstr: "cstr m p xs \<Longrightarrow> strlen_from p n m = Some (n + length xs)"
proof (induction xs arbitrary: p n)
  case Nil
  then show ?case by (subst strlen_from.simps) simp
next
  case (Cons x xs)
  then show ?case by (subst strlen_from.simps) simp
qed

lemma find_nul_cstr: "cstr m p xs \<Longrightarrow> find_nul p m = Some (p + length xs)"
proof (induction xs arbitrary: p)
  case Nil
  then show ?case by (subst find_nul.simps) simp
next
  case (Cons x xs)
  then show ?case by (subst find_nul.simps) simp
qed

text \<open>
  A reference comparison on lists of bytes: the difference at the first place where the two
  terminated strings differ.
\<close>

fun str_diff :: "u8 list \<Rightarrow> u8 list \<Rightarrow> int" where
  "str_diff [] [] = 0"
| "str_diff [] (y # ys) = - uint y"
| "str_diff (x # xs) [] = uint x"
| "str_diff (x # xs) (y # ys) = (if x = y then str_diff xs ys else uint x - uint y)"

lemma uint_eq_iff: "uint x = uint y \<longleftrightarrow> x = y"
  by (simp add: word_uint_eq_iff)

lemma str_diff_zero: "0 \<notin> set xs \<Longrightarrow> 0 \<notin> set ys \<Longrightarrow> str_diff xs ys = 0 \<longleftrightarrow> xs = ys"
  by (induction xs ys rule: str_diff.induct) (simp_all add: unsigned_eq_0_iff uint_eq_iff)

lemma str_diff_less: "0 \<notin> set xs \<Longrightarrow> 0 \<notin> set ys \<Longrightarrow> str_diff xs ys < 0 \<longleftrightarrow> ord_class.lexordp xs ys"
proof (induction xs ys rule: str_diff.induct)
  case (4 x xs y ys)
  then show ?case by (cases "x < y"; cases "y < x") (auto simp: word_less_def uint_eq_iff)
qed (auto simp: not_less word_neq_0_conv [symmetric] uint_0_iff less_le)

lemma strcmp_cstr: "cstr m a xs \<Longrightarrow> cstr m b ys \<Longrightarrow> strcmp a b m = Some (str_diff xs ys)"
proof (induction xs ys arbitrary: a b rule: str_diff.induct)
  case (4 x xs y ys)
  show ?case
  proof (cases "x = y")
    case True
    with 4 have "strcmp (a + 1) (b + 1) m = Some (str_diff xs ys)" by simp
    with 4 True show ?thesis by (subst strcmp.simps) simp
  qed (use 4 in \<open>subst strcmp.simps, simp\<close>)
qed (subst strcmp.simps, auto)+

lemma strncmp_cstr:
  "cstr m a xs \<Longrightarrow> cstr m b ys \<Longrightarrow> strncmp a b n m = str_diff (take n xs) (take n ys)"
proof (induction n arbitrary: a b xs ys)
  case (Suc n)
  then show ?case by (cases xs; cases ys) auto
qed simp

lemma strcpy_spec:
  assumes "cstr m s xs" "d + length xs < s \<or> s + length xs < d"
  shows "strcpy d s m = Some (memcpy d s (length xs + 1) m)"
  using assms
proof (induction xs arbitrary: d s m)
  case Nil
  then show ?case by (subst strcpy.simps) (simp add: Let_def)
next
  case (Cons x xs)
  have "cstr (m(d := m s)) (s + 1) xs = cstr m (s + 1) xs"
    using Cons.prems(2) by (intro cstr_cong) auto
  with Cons.prems have "strcpy (d + 1) (s + 1) (m(d := m s)) =
      Some (memcpy (d + 1) (s + 1) (length xs + 1) (m(d := m s)))"
    by (intro Cons.IH; simp only: cstr.simps) auto
  with Cons.prems show ?case by (subst strcpy.simps) (simp add: Let_def)
qed

lemma strncpy_long:
  assumes "cstr m s xs" "n \<le> length xs" "d + n \<le> s \<or> s + length xs < d"
  shows "strncpy d s n m = memcpy d s n m"
  using assms
proof (induction n arbitrary: d s m xs)
  case (Suc n)
  then obtain y ys where xs: "xs = y # ys" by (cases xs) auto
  have "cstr (m(d := m s)) (s + 1) ys = cstr m (s + 1) ys"
    using Suc.prems(2,3) xs by (intro cstr_cong) auto
  with Suc.prems xs have "strncpy (d + 1) (s + 1) n (m(d := m s)) = memcpy (d + 1) (s + 1) n (m(d := m s))"
    by (intro Suc.IH [of _ _ ys]; simp only: cstr.simps) auto
  with Suc.prems xs show ?case by (simp add: Let_def)
qed simp

lemma strncpy_short:
  assumes "cstr m s xs" "length xs < n" "d + n < s \<or> s + length xs < d"
  shows "strncpy d s n m x =
    (if d \<le> x \<and> x < d + length xs then xs ! (x - d) else if d \<le> x \<and> x \<le> d + n then 0 else m x)"
  using assms
proof (induction xs arbitrary: d s m n)
  case Nil
  then show ?case by (cases n) (auto simp: Let_def)
next
  case (Cons y ys)
  then obtain k where n: "n = Suc k" by (cases n) auto
  have y: "m s = y" "y \<noteq> 0" using Cons.prems(1) by auto
  have "cstr (m(d := m s)) (s + 1) ys = cstr m (s + 1) ys"
    using Cons.prems(2,3) n by (intro cstr_cong) auto
  with Cons.prems n have "strncpy (d + 1) (s + 1) k (m(d := m s)) x =
      (if d + 1 \<le> x \<and> x < d + 1 + length ys then ys ! (x - (d + 1))
       else if d + 1 \<le> x \<and> x \<le> d + 1 + k then 0 else (m(d := m s)) x)"
    by (intro Cons.IH; simp only: cstr.simps) auto
  moreover have "d \<le> x \<and> x < d + length (y # ys) \<longleftrightarrow> x = d \<or> d + 1 \<le> x \<and> x < d + 1 + length ys" by auto
  ultimately show ?case using y n by (auto simp: Let_def nth_Cons')
qed

section \<open>Correctness\<close>

text \<open>A memory that holds the strings \<^verbatim>\<open>"ab"\<close> at 16 and \<^verbatim>\<open>"abc"\<close> at 32.\<close>

definition sample_memory :: memory where
  "sample_memory = (\<lambda>_. 0xFF)(16 := 0x61, 17 := 0x62, 18 := 0, 32 := 0x61, 33 := 0x62, 34 := 0x63, 35 := 0)"

lemma sample_strings: "cstr sample_memory 16 [0x61, 0x62]" "cstr sample_memory 32 [0x61, 0x62, 0x63]"
  by (simp_all add: sample_memory_def)

text \<open>C24: \<^verbatim>\<open>memmove\<close> copies the \<open>n\<close> bytes at \<open>s\<close> to \<open>d\<close> whatever the overlap of the two blocks, and
  changes no other byte: every byte of the result is a byte of the memory before the call.\<close>

theorem memmove_copies:
  "memmove d s n m = (\<lambda>x. if d \<le> x \<and> x < d + n then m (s + (x - d)) else m x)"
  by (rule ext) (rule memmove_apply)

text \<open>On terminated strings \<^verbatim>\<open>strcmp\<close> returns, its result is zero exactly when the strings are
  equal and negative exactly when the first precedes the second in the lexicographic order of
  unsigned bytes; \<^verbatim>\<open>strncmp\<close> compares the first \<open>n\<close> characters in the same way.\<close>

theorem strcmp_orders:
  assumes "cstr m a xs" "cstr m b ys"
  shows "\<exists>r. strcmp a b m = Some r \<and> (r = 0 \<longleftrightarrow> xs = ys) \<and> (r < 0 \<longleftrightarrow> ord_class.lexordp xs ys) \<and>
    (strncmp a b n m = 0 \<longleftrightarrow> take n xs = take n ys)"
proof -
  have nz: "0 \<notin> set xs" "0 \<notin> set ys" using assms by (auto simp: cstr_iff)
  then have "0 \<notin> set (take n xs)" "0 \<notin> set (take n ys)" by (auto dest: in_set_takeD)
  with nz show ?thesis
    by (simp add: strcmp_cstr [OF assms] strncmp_cstr [OF assms] str_diff_zero str_diff_less)
qed

theorem strcmp_orders_witness:
  "(\<exists>r. strcmp 16 32 sample_memory = Some r \<and> r < 0) \<and> strncmp 16 32 2 sample_memory = 0"
  using strcmp_orders [OF sample_strings, of 2] by auto

text \<open>\<^verbatim>\<open>strcat\<close> on two terminated strings that do not overlap returns, the destination then holds
  the concatenation, its length is the sum of the lengths, and no byte outside the
  destination's new tail has changed.\<close>

theorem strcat_appends:
  assumes "cstr m d xs" "cstr m s ys" "d + length xs + length ys < s \<or> s + length ys < d"
  shows "\<exists>m'. strcat d s m = Some m' \<and> cstr m' d (xs @ ys) \<and> strlen d m' = Some (length xs + length ys) \<and>
    (\<forall>x. x < d + length xs \<or> d + length xs + length ys < x \<longrightarrow> m' x = m x)"
proof -
  let ?e = "d + length xs"
  define m' where "m' = memcpy ?e s (length ys + 1) m"
  have cp: "strcat d s m = Some m'"
    using strcpy_spec [OF assms(2), of ?e] assms(3) by (auto simp: strcat_def find_nul_cstr [OF assms(1)] m'_def)
  have out: "m' x = m x" if "x < ?e \<or> ?e + length ys < x" for x
    unfolding m'_def using that by (intro memcpy_outside) auto
  have ins: "m' (?e + i) = m (s + i)" if "i \<le> length ys" for i
    using that assms(3) unfolding m'_def by (intro memcpy_inside) auto
  have "bytes_at m' d (length xs) = bytes_at m d (length xs)" by (simp add: bytes_at_def out)
  then have "bytes_at m' d (length xs) = xs" "0 \<notin> set xs"
    using assms(1) by (auto simp: cstr_iff)
  moreover have "cstr m' ?e ys"
    using assms(2) ins cstr_end [OF assms(2)] cstr_nth [OF assms(2)]
    by (auto simp: cstr_iff bytes_at_def intro!: nth_equalityI)
  ultimately have "cstr m' d (xs @ ys)" by (simp add: cstr_append)
  with cp out strlen_from_cstr [OF this, of 0] show ?thesis by (auto simp: strlen_def)
qed

theorem strcat_appends_witness:
  "\<exists>m. strcat 16 32 sample_memory = Some m \<and> cstr m 16 [0x61, 0x62, 0x61, 0x62, 0x63]"
  using strcat_appends [OF sample_strings] by auto

text \<open>\<^verbatim>\<open>strncpy\<close> of a string shorter than \<open>n\<close> writes \<open>n + 1\<close> bytes, the string and then zeros up
  to and including the byte at \<open>d + n\<close>, one byte more than the size it was given.\<close>

theorem strncpy_overruns:
  assumes "cstr m s xs" "length xs < n" "d + n < s \<or> s + length xs < d"
  shows "strncpy d s n m = (\<lambda>x. if d \<le> x \<and> x < d + length xs then xs ! (x - d)
      else if d \<le> x \<and> x \<le> d + n then 0 else m x)"
  using strncpy_short [OF assms] by auto

theorem strncpy_overruns_witness:
  "sample_memory 104 = 0xFF \<and> strncpy 100 16 4 sample_memory 104 = 0"
  using strncpy_overruns [OF sample_strings(1), of 4 100] by (simp add: sample_memory_def)

end
