(* ===== verification/Heap.thy ===== *)
theory Heap
  imports CString
begin

text \<open>
  The kernel heap: \<^verbatim>\<open>kernel/mm/heap.c\<close>.

  Addresses and sizes are natural numbers; every arithmetic operation of the code that may wrap
  is followed by the reduction to its type, \<open>wrapz\<close> for \<^verbatim>\<open>size_t\<close> and pointers and \<open>wrap32\<close> for
  the \<^verbatim>\<open>u32\<close> field \<^verbatim>\<open>size\<close>.  Block headers are a store indexed by address; the bytes that
  \<^verbatim>\<open>kcalloc\<close> and \<^verbatim>\<open>krealloc\<close> touch are the memory of the string routines.  The layout theorems
  show that payloads never overlap headers, which is what keeps the two stores apart.  The two
  loops follow links and need not end on a corrupt list: they are partial functions.
\<close>

section \<open>State\<close>

definition HEAP_MAGIC :: u32 where "HEAP_MAGIC = 0xAE0CA001"
definition MIN_SPLIT :: nat where "MIN_SPLIT = 32"

text \<open>\<^verbatim>\<open>sizeof(block_hdr_t)\<close>: three words of 32 bits and two pointers, padded to their alignment.\<close>

fun HDR :: "arch \<Rightarrow> nat" where
  "HDR X86 = 20"
| "HDR X86_64 = 32"

definition wrapz :: "arch \<Rightarrow> int \<Rightarrow> nat" where
  "wrapz a x = nat (x mod 2 ^ (8 * ptr_bytes a))"

definition wrap32 :: "int \<Rightarrow> nat" where
  "wrap32 x = nat (x mod 2 ^ 32)"

record block_hdr =
  b_magic :: u32
  b_size :: nat
  b_used :: bool
  b_next :: nat
  b_prev :: nat

record heap =
  hdr :: "nat \<Rightarrow> block_hdr"
  heap_head :: nat
  heap_used :: nat
  bytes :: memory

abbreviation size_at :: "heap \<Rightarrow> nat \<Rightarrow> nat" where "size_at h b \<equiv> b_size (hdr h b)"
abbreviation used_at :: "heap \<Rightarrow> nat \<Rightarrow> bool" where "used_at h b \<equiv> b_used (hdr h b)"
abbreviation next_at :: "heap \<Rightarrow> nat \<Rightarrow> nat" where "next_at h b \<equiv> b_next (hdr h b)"
abbreviation prev_at :: "heap \<Rightarrow> nat \<Rightarrow> nat" where "prev_at h b \<equiv> b_prev (hdr h b)"

definition uph :: "nat \<Rightarrow> (block_hdr \<Rightarrow> block_hdr) \<Rightarrow> heap \<Rightarrow> heap" where
  "uph b f h = h\<lparr>hdr := (hdr h)(b := f (hdr h b))\<rparr>"

section \<open>Operations\<close>

definition heap_init :: "arch \<Rightarrow> nat \<Rightarrow> nat \<Rightarrow> heap \<Rightarrow> heap" where
  "heap_init a start sz h =
     (uph start (\<lambda>_. \<lparr>b_magic = HEAP_MAGIC, b_size = wrap32 (int (wrapz a (int sz - int (HDR a)))),
        b_used = False, b_next = 0, b_prev = 0\<rparr>) h)\<lparr>heap_head := start, heap_used := 0\<rparr>"

partial_function (option) find_free_from :: "nat \<Rightarrow> nat \<Rightarrow> heap \<Rightarrow> nat option" where
  "find_free_from sz b h =
     (if b = 0 then Some 0
      else if \<not> used_at h b \<and> sz \<le> size_at h b then Some b
      else find_free_from sz (next_at h b) h)"

definition find_free :: "nat \<Rightarrow> heap \<Rightarrow> nat option" where
  "find_free sz h = find_free_from sz (heap_head h) h"

definition split :: "arch \<Rightarrow> nat \<Rightarrow> nat \<Rightarrow> heap \<Rightarrow> heap" where
  "split a b sz h =
     (if size_at h b < wrapz a (int sz + int (HDR a) + int MIN_SPLIT) then h
      else
        let nb = wrapz a (int b + int (HDR a) + int sz);
            h = uph nb (\<lambda>_. \<lparr>b_magic = HEAP_MAGIC,
                  b_size = wrap32 (int (size_at h b) - int sz - int (HDR a)),
                  b_used = False, b_next = next_at h b, b_prev = b\<rparr>) h;
            h = (if next_at h b \<noteq> 0 then uph (next_at h b) (\<lambda>k. k\<lparr>b_prev := nb\<rparr>) h else h);
            h = uph b (\<lambda>k. k\<lparr>b_next := nb\<rparr>) h
        in uph b (\<lambda>k. k\<lparr>b_size := wrap32 (int sz)\<rparr>) h)"

definition absorb_next :: "arch \<Rightarrow> nat \<Rightarrow> heap \<Rightarrow> heap" where
  "absorb_next a b h =
     (let h = uph b (\<lambda>k. k\<lparr>b_size := wrap32 (int (size_at h b) + int (HDR a) + int (size_at h (next_at h b)))\<rparr>) h;
          h = uph b (\<lambda>k. k\<lparr>b_next := next_at h (next_at h b)\<rparr>) h
      in if next_at h b \<noteq> 0 then uph (next_at h b) (\<lambda>k. k\<lparr>b_prev := b\<rparr>) h else h)"

partial_function (option) coalesce_next :: "arch \<Rightarrow> nat \<Rightarrow> heap \<Rightarrow> heap option" where
  "coalesce_next a b h =
     (if next_at h b \<noteq> 0 \<and> \<not> used_at h (next_at h b)
      then coalesce_next a b (absorb_next a b h) else Some h)"

definition coalesce_prev :: "arch \<Rightarrow> nat \<Rightarrow> heap \<Rightarrow> heap" where
  "coalesce_prev a b h =
     (if prev_at h b \<noteq> 0 \<and> \<not> used_at h (prev_at h b) then
        let h = uph (prev_at h b) (\<lambda>k. k\<lparr>b_size := wrap32 (int (size_at h (prev_at h b)) + int (HDR a) + int (size_at h b))\<rparr>) h;
            h = uph (prev_at h b) (\<lambda>k. k\<lparr>b_next := next_at h b\<rparr>) h
        in if next_at h b \<noteq> 0 then uph (next_at h b) (\<lambda>k. k\<lparr>b_prev := prev_at h b\<rparr>) h else h
      else h)"

definition coalesce :: "arch \<Rightarrow> nat \<Rightarrow> heap \<Rightarrow> heap option" where
  "coalesce a b h = map_option (coalesce_prev a b) (coalesce_next a b h)"

text \<open>\<^verbatim>\<open>ALIGN_UP(size, 8)\<close>: the sum wraps, then the low three bits are cleared.\<close>

definition align_up8 :: "arch \<Rightarrow> nat \<Rightarrow> nat" where
  "align_up8 a sz = (let x = wrapz a (int sz + 8 - 1) in x - x mod 8)"

definition kmalloc :: "arch \<Rightarrow> nat \<Rightarrow> heap \<Rightarrow> (nat \<times> heap) outcome option" where
  "kmalloc a sz h =
     (if sz = 0 then Some (Done (0, h))
      else
        let sz = align_up8 a sz
        in case find_free sz h of
             None \<Rightarrow> None
           | Some b \<Rightarrow>
               if b = 0 then Some (Panic ''kmalloc: out of heap memory'')
               else
                 let h = split a b sz h;
                     h = uph b (\<lambda>k. k\<lparr>b_used := True\<rparr>) h;
                     h = h\<lparr>heap_used := wrapz a (int (heap_used h) + int sz)\<rparr>
                 in Some (Done (wrapz a (int b + int (HDR a)), h)))"

definition kcalloc :: "arch \<Rightarrow> nat \<Rightarrow> nat \<Rightarrow> heap \<Rightarrow> (nat \<times> heap) outcome option" where
  "kcalloc a n sz h =
     (let k = wrapz a (int n * int sz)
      in map_option (\<lambda>r. bind_outcome r (\<lambda>(p, h).
           Done (p, if p \<noteq> 0 then h\<lparr>bytes := memset p 0 k (bytes h)\<rparr> else h))) (kmalloc a k h))"

definition kfree :: "arch \<Rightarrow> nat \<Rightarrow> heap \<Rightarrow> heap outcome option" where
  "kfree a ptr h =
     (if ptr = 0 then Some (Done h)
      else
        let b = wrapz a (int ptr - int (HDR a))
        in if b_magic (hdr h b) \<noteq> HEAP_MAGIC then Some (Panic ''kfree: corrupt heap block'')
           else if \<not> used_at h b then Some (Panic ''kfree: double free'')
           else
             let h = h\<lparr>heap_used := wrapz a (int (heap_used h) - int (size_at h b))\<rparr>;
                 h = uph b (\<lambda>k. k\<lparr>b_used := False\<rparr>) h
             in map_option Done (coalesce a b h))"

definition krealloc :: "arch \<Rightarrow> nat \<Rightarrow> nat \<Rightarrow> heap \<Rightarrow> (nat \<times> heap) outcome option" where
  "krealloc a ptr sz h =
     (if ptr = 0 then kmalloc a sz h
      else if sz = 0 then map_option (\<lambda>r. bind_outcome r (\<lambda>h. Done (0, h))) (kfree a ptr h)
      else
        let b = wrapz a (int ptr - int (HDR a))
        in if b_magic (hdr h b) \<noteq> HEAP_MAGIC then Some (Panic ''krealloc: corrupt heap block'')
           else if sz \<le> size_at h b then Some (Done (ptr, h))
           else
             case kmalloc a sz h of
               None \<Rightarrow> None
             | Some (Panic e) \<Rightarrow> Some (Panic e)
             | Some (Done (nb, h)) \<Rightarrow>
                 let h = h\<lparr>bytes := memcpy nb ptr (size_at h b) (bytes h)\<rparr>
                 in map_option (\<lambda>r. bind_outcome r (\<lambda>h. Done (nb, h))) (kfree a ptr h))"

definition kheap_used :: "heap \<Rightarrow> nat" where
  "kheap_used h = heap_used h"

section \<open>The list of blocks a heap stands for\<close>

type_synonym segs = "(nat \<times> bool) list"

definition extent :: "arch \<Rightarrow> segs \<Rightarrow> nat" where
  "extent a ss = sum_list (map (\<lambda>(n, u). HDR a + n) ss)"

text \<open>
  \<open>blks a h p b ss n\<close>: blocks with the sizes and flags \<open>ss\<close> lie one after the other from \<open>b\<close> on,
  the first links back to \<open>p\<close> and the last forward to \<open>n\<close>.
\<close>

fun blks :: "arch \<Rightarrow> heap \<Rightarrow> nat \<Rightarrow> nat \<Rightarrow> segs \<Rightarrow> nat \<Rightarrow> bool" where
  "blks a h p b [] n \<longleftrightarrow> True"
| "blks a h p b ((k, u) # ss) n \<longleftrightarrow>
     hdr h b = \<lparr>b_magic = HEAP_MAGIC, b_size = k, b_used = u,
       b_next = (if ss = [] then n else b + HDR a + k), b_prev = p\<rparr> \<and>
     blks a h b (b + HDR a + k) ss n"

definition heap_inv :: "arch \<Rightarrow> nat \<Rightarrow> nat \<Rightarrow> heap \<Rightarrow> segs \<Rightarrow> bool" where
  "heap_inv a start len h ss \<longleftrightarrow>
     ss \<noteq> [] \<and> MIN_SPLIT \<le> start \<and> heap_head h = start \<and> blks a h 0 start ss 0 \<and> extent a ss = len \<and>
     len < 2 ^ 32 \<and> start + len < 2 ^ (8 * ptr_bytes a) \<and>
     successively (\<lambda>x y. snd x \<or> snd y) ss"

text \<open>The blocks in use: where their payload starts and how many bytes it has.\<close>

fun payloads :: "arch \<Rightarrow> nat \<Rightarrow> segs \<Rightarrow> (nat \<times> nat) list" where
  "payloads a b [] = []"
| "payloads a b ((n, u) # ss) =
     (if u then [(b + HDR a, n)] else []) @ payloads a (b + HDR a + n) ss"

lemma HDR_pos: "0 < HDR a"
  by (cases a) auto

lemma extent_simps [simp]:
  "extent a [] = 0" "extent a ((n, u) # ss) = HDR a + n + extent a ss"
  "extent a (xs @ ys) = extent a xs + extent a ys"
  by (simp_all add: extent_def)

lemma hdr_uph [simp]: "hdr (uph b f h) = (hdr h)(b := f (hdr h b))"
  by (simp add: uph_def)

lemma uph_frame [simp, frame_simps]:
  "heap_head (uph b f h) = heap_head h" "heap_used (uph b f h) = heap_used h" "bytes (uph b f h) = bytes h"
  by (simp_all add: uph_def)

lemma wrapz_small [simp]: "x < 2 ^ (8 * ptr_bytes a) \<Longrightarrow> wrapz a (int x) = x"
  by (simp add: wrapz_def nat_mod_distrib)

lemma wrap32_small [simp]: "x < 2 ^ 32 \<Longrightarrow> wrap32 (int x) = x"
  by (simp add: wrap32_def nat_mod_distrib)

lemma blks_append:
  "blks a h p b (xs @ ys) n \<longleftrightarrow>
     blks a h p b xs (if ys = [] then n else b + extent a xs) \<and>
     blks a h (if xs = [] then p else b + extent a (butlast xs)) (b + extent a xs) ys n"
  by (induction xs arbitrary: p b) (auto simp: add.assoc)

lemma blks_cong:
  assumes "\<And>x. b \<le> x \<Longrightarrow> x < b + extent a ss \<Longrightarrow> hdr h' x = hdr h x"
  shows "blks a h' p b ss n = blks a h p b ss n"
  using assms
proof (induction ss arbitrary: p b)
  case (Cons s ss)
  obtain k u where s: "s = (k, u)" by (cases s)
  have "blks a h' b (b + HDR a + k) ss n = blks a h b (b + HDR a + k) ss n"
    using Cons.prems s by (intro Cons.IH) auto
  moreover have "hdr h' b = hdr h b" using Cons.prems [of b] s HDR_pos [of a] by simp
  ultimately show ?case using s by simp
qed simp

text \<open>Changing the back link of the first block.\<close>

lemma blks_set_prev:
  assumes "blks a h p b ss n"
    and "\<And>x. b < x \<Longrightarrow> x < b + extent a ss \<Longrightarrow> hdr h' x = hdr h x"
    and "ss \<noteq> [] \<Longrightarrow> hdr h' b = (hdr h b)\<lparr>b_prev := p'\<rparr>"
  shows "blks a h' p' b ss n"
proof (cases ss)
  case (Cons s rest)
  obtain k u where s: "s = (k, u)" by (cases s)
  have "0 < HDR a" by (rule HDR_pos)
  have "blks a h' b (b + HDR a + k) rest n = blks a h b (b + HDR a + k) rest n"
  proof (rule blks_cong)
    fix x assume "b + HDR a + k \<le> x" "x < b + HDR a + k + extent a rest"
    with \<open>0 < HDR a\<close> have "b < x" "x < b + extent a ss" using Cons s by auto
    then show "hdr h' x = hdr h x" by (rule assms(2))
  qed
  with assms(1,3) Cons s show ?thesis by simp
qed simp

section \<open>Operations on the list of blocks\<close>

lemma find_free_from_blks:
  assumes "blks a h p b ss 0" "ss \<noteq> []" "0 < b"
  shows "find_free_from sz b h =
    (case find (\<lambda>(n, u). \<not> u \<and> sz \<le> n) ss of
       None \<Rightarrow> Some 0
     | Some _ \<Rightarrow> Some (b + extent a (takeWhile (\<lambda>(n, u). \<not> (\<not> u \<and> sz \<le> n)) ss)))"
  using assms
proof (induction ss arbitrary: p b)
  case (Cons s ss)
  obtain k u where s: "s = (k, u)" by (cases s)
  have h: "hdr h b = \<lparr>b_magic = HEAP_MAGIC, b_size = k, b_used = u,
       b_next = (if ss = [] then 0 else b + HDR a + k), b_prev = p\<rparr>"
    and r: "blks a h b (b + HDR a + k) ss 0" using Cons.prems s by auto
  show ?case
  proof (cases "\<not> u \<and> sz \<le> k")
    case True
    with h s Cons.prems(3) show ?thesis by (subst find_free_from.simps) simp
  next
    case False
    have step: "find_free_from sz b h = find_free_from sz (if ss = [] then 0 else b + HDR a + k) h"
      using False h Cons.prems(3) by (subst find_free_from.simps) auto
    show ?thesis
    proof (cases "ss = []")
      case True
      have "find_free_from sz 0 h = Some 0" by (subst find_free_from.simps) simp
      with True step False s show ?thesis by auto
    next
      case ne: False
      have "0 < b + HDR a + k" using Cons.prems(3) by simp
      from Cons.IH [OF r ne this] ne step False s show ?thesis
        by (auto simp: add.assoc split: option.splits)
    qed
  qed
qed simp

definition fits :: "nat \<Rightarrow> nat \<times> bool \<Rightarrow> bool" where
  "fits sz = (\<lambda>(n, u). \<not> u \<and> sz \<le> n)"

lemma find_free_spec:
  assumes "heap_inv a start len h ss"
  obtains (fit) xs n ys where "ss = xs @ (n, False) # ys" "sz \<le> n" "\<forall>x\<in>set xs. \<not> fits sz x"
      "find_free sz h = Some (start + extent a xs)"
  | (full) "\<forall>x\<in>set ss. \<not> fits sz x" "find_free sz h = Some 0"
proof -
  have pre: "blks a h 0 start ss 0" "ss \<noteq> []" "0 < start" "heap_head h = start"
    using assms by (auto simp: heap_inv_def MIN_SPLIT_def)
  note ff = find_free_from_blks [OF pre(1-3), of sz, folded fits_def]
  show thesis
  proof (cases "find (fits sz) ss")
    case None
    then have "\<forall>x\<in>set ss. \<not> fits sz x" by (auto simp: find_None_iff)
    moreover from None ff pre(4) have "find_free sz h = Some 0" by (simp add: find_free_def fits_def)
    ultimately show thesis by (rule full)
  next
    case (Some y)
    then have "\<exists>x\<in>set ss. fits sz x" by (auto simp: find_Some_iff)
    then have ne: "dropWhile (\<lambda>x. \<not> fits sz x) ss \<noteq> []" by auto
    then obtain n u ys where d: "dropWhile (\<lambda>x. \<not> fits sz x) ss = (n, u) # ys"
      by (cases "dropWhile (\<lambda>x. \<not> fits sz x) ss") auto
    let ?xs = "takeWhile (\<lambda>x. \<not> fits sz x) ss"
    have "fits sz (n, u)" using hd_dropWhile [OF ne] d by simp
    then have f: "\<not> u" "sz \<le> n" by (simp_all add: fits_def)
    have "ss = ?xs @ (n, False) # ys" using takeWhile_dropWhile_id [of "\<lambda>x. \<not> fits sz x" ss] d f by simp
    moreover have "\<forall>x\<in>set ?xs. \<not> fits sz x" by (auto dest: set_takeWhileD)
    moreover have "(\<lambda>(n, u). \<not> (\<not> u \<and> sz \<le> n)) = (\<lambda>x. \<not> fits sz x)" by (auto simp: fits_def)
    then have "find_free sz h = Some (start + extent a ?xs)"
      using ff Some pre(4) by (simp add: find_free_def fits_def)
    ultimately show thesis using f(2) by (intro fit)
  qed
qed

text \<open>A block of \<open>n\<close> bytes after \<open>sz\<close> of them have been taken: split when enough is left.\<close>

definition place :: "arch \<Rightarrow> nat \<Rightarrow> nat \<Rightarrow> segs" where
  "place a sz n = (if n < sz + HDR a + MIN_SPLIT then [(n, True)]
     else [(sz, True), (n - sz - HDR a, False)])"

lemma extent_place: "sz \<le> n \<Longrightarrow> extent a (place a sz n) = HDR a + n"
  by (auto simp: place_def)

lemma place_not_Nil [simp]: "place a sz n \<noteq> []"
  by (simp add: place_def)

lemma HDR_32: "HDR a \<le> 32" by (cases a) auto

lemma word_bound: "(2::nat) ^ 32 \<le> 2 ^ (8 * ptr_bytes a)"
  by (cases a) auto

lemma wrapz_add: "wrapz a (int x + int y) = (x + y) mod 2 ^ (8 * ptr_bytes a)"
  by (simp add: wrapz_def nat_mod_distrib nat_power_eq flip: of_nat_add)

lemma split_place:
  assumes b: "blks a h p b ((n, False) # ys) 0" and sz: "sz \<le> n" and pos: "MIN_SPLIT \<le> b"
    and bound: "b + HDR a + n + extent a ys < 2 ^ (8 * ptr_bytes a)" "n < 2 ^ 32"
  defines "h' \<equiv> uph b (\<lambda>k. k\<lparr>b_used := True\<rparr>) (split a b sz h)"
  shows "blks a h' p b (place a sz n @ ys) 0"
    and "x < b \<or> b + HDR a + n + extent a ys \<le> x \<Longrightarrow> hdr h' x = hdr h x"
    and "heap_head h' = heap_head h" "heap_used h' = heap_used h" "bytes h' = bytes h"
proof -
  let ?nx = "if ys = [] then 0 else b + HDR a + n"
  have hb: "hdr h b = \<lparr>b_magic = HEAP_MAGIC, b_size = n, b_used = False, b_next = ?nx, b_prev = p\<rparr>"
    and r: "blks a h b (b + HDR a + n) ys 0" using b by auto
  show "heap_head h' = heap_head h" "heap_used h' = heap_used h" "bytes h' = bytes h"
    by (simp_all add: h'_def split_def Let_def)
  have guard: "wrapz a (int sz + int (HDR a) + int MIN_SPLIT) = sz + HDR a + MIN_SPLIT"
    using wrapz_small [of "sz + HDR a + MIN_SPLIT" a] sz pos bound(1) by simp
  have "blks a h' p b (place a sz n @ ys) 0 \<and>
    (\<forall>x. x < b \<or> b + HDR a + n + extent a ys \<le> x \<longrightarrow> hdr h' x = hdr h x)"
  proof (cases "n < wrapz a (int sz + int (HDR a) + int MIN_SPLIT)")
    case True
    then have pl: "place a sz n = [(n, True)]" by (simp add: place_def guard)
    have h': "h' = uph b (\<lambda>k. k\<lparr>b_used := True\<rparr>) h" using True hb by (simp add: h'_def split_def)
    have "blks a h' b (b + HDR a + n) ys 0 = blks a h b (b + HDR a + n) ys 0"
      by (rule blks_cong) (use HDR_pos [of a] in \<open>auto simp: h'\<close>)
    with r hb HDR_pos [of a] show ?thesis by (auto simp: pl h')
  next
    case False
    let ?nb = "b + HDR a + sz" and ?m = "n - sz - HDR a"
    have ge: "sz + HDR a + MIN_SPLIT \<le> n" using False guard by simp
    then have pl: "place a sz n = [(sz, True), (?m, False)]" by (simp add: place_def)
    have nb: "wrapz a (int b + int (HDR a) + int sz) = ?nb"
      using wrapz_small [of ?nb a] sz bound(1) by simp
    have "int n - int sz - int (HDR a) = int ?m" using ge by simp
    then have m: "wrap32 (int n - int sz - int (HDR a)) = ?m" using bound(2) by (simp only: wrap32_small)
    have z: "wrap32 (int sz) = sz" using ge bound(2) by simp
    have H: "0 < HDR a" by (rule HDR_pos)
    have e: "?nb + HDR a + ?m = b + HDR a + n" using ge by simp
    have h': "hdr h' = (hdr h)(b := \<lparr>b_magic = HEAP_MAGIC, b_size = sz, b_used = True, b_next = ?nb, b_prev = p\<rparr>,
        ?nb := \<lparr>b_magic = HEAP_MAGIC, b_size = ?m, b_used = False, b_next = ?nx, b_prev = b\<rparr>,
        b + HDR a + n := (if ys = [] then hdr h (b + HDR a + n)
          else (hdr h (b + HDR a + n))\<lparr>b_prev := ?nb\<rparr>))"
      using False H ge sz hb unfolding h'_def
      by (auto simp: split_def Let_def nb m z fun_eq_iff MIN_SPLIT_def)
    have "blks a h' ?nb (b + HDR a + n) ys 0"
      by (rule blks_set_prev [OF r]) (use H ge in \<open>auto simp: h' MIN_SPLIT_def\<close>)
    moreover have "hdr h' b = \<lparr>b_magic = HEAP_MAGIC, b_size = sz, b_used = True, b_next = ?nb, b_prev = p\<rparr>"
      "hdr h' ?nb = \<lparr>b_magic = HEAP_MAGIC, b_size = ?m, b_used = False, b_next = ?nx, b_prev = b\<rparr>"
      using H ge by (simp_all add: h' MIN_SPLIT_def)
    ultimately have "blks a h' p b (place a sz n @ ys) 0" using e by (simp add: pl add.assoc)
    moreover have "hdr h' x = hdr h x" if "x < b \<or> b + HDR a + n + extent a ys \<le> x" for x
      using that H ge by (cases ys) (auto simp: h' MIN_SPLIT_def)
    ultimately show ?thesis by blast
  qed
  then show "blks a h' p b (place a sz n @ ys) 0"
    and "x < b \<or> b + HDR a + n + extent a ys \<le> x \<Longrightarrow> hdr h' x = hdr h x" by auto
qed

lemma heap_invD:
  assumes "heap_inv a start len h ss"
  shows "blks a h 0 start ss 0" "ss \<noteq> []" "MIN_SPLIT \<le> start" "heap_head h = start"
    "extent a ss = len" "len < 2 ^ 32" "start + len < 2 ^ (8 * ptr_bytes a)"
    "successively (\<lambda>x y. snd x \<or> snd y) ss"
  using assms by (simp_all add: heap_inv_def)

lemma heap_inv_ignores [frame_simps]:
  "heap_inv a start len (h\<lparr>heap_used := k\<rparr>) ss = heap_inv a start len h ss"
  "heap_inv a start len (h\<lparr>bytes := m\<rparr>) ss = heap_inv a start len h ss"
  by (auto simp: heap_inv_def cong: blks_cong)

lemma successively_place:
  assumes "successively (\<lambda>x y. snd x \<or> snd y) (xs @ (n, False) # ys)"
  shows "successively (\<lambda>x y. snd x \<or> snd y) (xs @ place a sz n @ ys)"
  using assms by (cases ys) (auto simp: successively_append_iff successively_Cons place_def)

lemma kmalloc_fit:
  assumes inv: "heap_inv a start len h (xs @ (n, False) # ys)" and sz: "sz' = align_up8 a sz" "sz \<noteq> 0" "sz' \<le> n"
    and ff: "find_free sz' h = Some (start + extent a xs)"
  shows "\<exists>h'. kmalloc a sz h = Some (Done (start + extent a xs + HDR a, h')) \<and>
    heap_inv a start len h' (xs @ place a sz' n @ ys) \<and>
    heap_used h' = wrapz a (int (heap_used h) + int sz') \<and> bytes h' = bytes h"
proof -
  let ?b = "start + extent a xs"
  note I = heap_invD [OF inv]
  define g where "g = uph ?b (\<lambda>k. k\<lparr>b_used := True\<rparr>) (split a ?b sz' h)"
  define h' where "h' = g\<lparr>heap_used := wrapz a (int (heap_used g) + int sz')\<rparr>"
  let ?p = "if xs = [] then 0 else start + extent a (butlast xs)"
  have bl: "blks a h 0 start xs ?b" "blks a h ?p ?b ((n, False) # ys) 0"
    using I(1) unfolding blks_append by auto
  have bd: "?b + HDR a + n + extent a ys < 2 ^ (8 * ptr_bytes a)" "n < 2 ^ 32" "MIN_SPLIT \<le> ?b"
    using I(3,5,6,7) by auto
  note sp = split_place [OF bl(2) sz(3) bd(3,1,2), folded g_def]
  have "blks a g 0 start xs ?b = blks a h 0 start xs ?b"
    by (rule blks_cong) (simp add: sp(2))
  with bl sp(1) have "blks a g 0 start (xs @ place a sz' n @ ys) 0"
    unfolding blks_append [of _ _ _ _ xs] by simp
  then have "heap_inv a start len g (xs @ place a sz' n @ ys)"
    using I successively_place [OF I(8)] sz(3) by (simp add: heap_inv_def sp(3) extent_place)
  moreover have "0 < ?b" using bd(3) unfolding MIN_SPLIT_def by linarith
  moreover have "wrapz a (int ?b + int (HDR a)) = ?b + HDR a"
    using wrapz_small [of "?b + HDR a" a] bd(1) by simp
  ultimately show ?thesis
    using sz ff sp(4,5) by (auto simp: kmalloc_def Let_def h'_def g_def frame_simps)
qed

lemma kmalloc_full:
  assumes "find_free (align_up8 a sz) h = Some 0" "sz \<noteq> 0"
  shows "kmalloc a sz h = Some (Panic ''kmalloc: out of heap memory'')"
  using assms by (simp add: kmalloc_def Let_def)

section \<open>Releasing a block\<close>

text \<open>What releasing does to the list: the block merges with a free successor, then with a free
  predecessor.\<close>

fun merge_next :: "arch \<Rightarrow> nat \<Rightarrow> segs \<Rightarrow> segs" where
  "merge_next a n ((m, False) # ys) = (n + HDR a + m, False) # ys"
| "merge_next a n ys = (n, False) # ys"

lemma merge_next_cases:
  obtains (merge) m zs where "ys = (m, False) # zs" "merge_next a n ys = (n + HDR a + m, False) # zs"
  | (keep) "ys = [] \<or> snd (hd ys)" "merge_next a n ys = (n, False) # ys"
  by (cases "(a, n, ys)" rule: merge_next.cases) auto

lemma coalesce_next_stop:
  assumes "blks a h p b ((n, False) # ys) 0" "ys = [] \<or> snd (hd ys)"
  shows "coalesce_next a b h = Some h"
proof (cases ys)
  case Nil
  with assms(1) show ?thesis by (subst coalesce_next.simps) simp
next
  case (Cons y zs)
  then obtain m where y: "y = (m, True)" using assms(2) by (cases y) auto
  with assms(1) Cons show ?thesis by (subst coalesce_next.simps) simp
qed

lemma coalesce_next_blks:
  assumes b: "blks a h p b ((n, False) # ys) 0" and sep: "successively (\<lambda>x y. snd x \<or> snd y) ys"
    and bound: "HDR a + n + extent a ys < 2 ^ 32"
  shows "\<exists>h'. coalesce_next a b h = Some h' \<and> blks a h' p b (merge_next a n ys) 0 \<and>
    (\<forall>x. x < b \<or> b + HDR a + n + extent a ys \<le> x \<longrightarrow> hdr h' x = hdr h x) \<and>
    heap_head h' = heap_head h \<and> heap_used h' = heap_used h \<and> bytes h' = bytes h"
proof (cases rule: merge_next_cases [of ys a n])
  case keep
  with coalesce_next_stop [OF b keep(1)] b show ?thesis by (intro exI [of _ h]) simp
next
  case (merge m zs)
  let ?nx = "b + HDR a + n" and ?nn = "b + HDR a + n + HDR a + m"
  have hb: "hdr h b = \<lparr>b_magic = HEAP_MAGIC, b_size = n, b_used = False, b_next = ?nx, b_prev = p\<rparr>"
    and hn: "hdr h ?nx = \<lparr>b_magic = HEAP_MAGIC, b_size = m, b_used = False,
      b_next = (if zs = [] then 0 else ?nn), b_prev = b\<rparr>"
    and r: "blks a h ?nx ?nn zs 0" using b merge(1) by auto
  have H: "0 < HDR a" by (rule HDR_pos)
  have w: "wrap32 (int n + int (HDR a) + int m) = n + HDR a + m"
    using wrap32_small [of "n + HDR a + m"] bound merge(1) by simp
  define g where "g = uph b (\<lambda>k. k\<lparr>b_next := (if zs = [] then 0 else ?nn)\<rparr>)
    (uph b (\<lambda>k. k\<lparr>b_size := n + HDR a + m\<rparr>) h)"
  define h' where "h' = (if zs = [] then g else uph ?nn (\<lambda>k. k\<lparr>b_prev := b\<rparr>) g)"
  have step: "coalesce_next a b h = coalesce_next a b h'"
    using hb hn H by (subst coalesce_next.simps) (simp add: absorb_next_def Let_def w h'_def g_def)
  have "blks a h' b ?nn zs 0"
    by (rule blks_set_prev [OF r]) (use H in \<open>auto simp: h'_def g_def\<close>)
  then have bl: "blks a h' p b ((n + HDR a + m, False) # zs) 0"
    using hb H by (simp add: h'_def g_def add.assoc)
  have "zs = [] \<or> snd (hd zs)" using sep merge(1) by (cases zs) auto
  from coalesce_next_stop [OF bl this] step have "coalesce_next a b h = Some h'" by simp
  moreover have "hdr h' x = hdr h x" if "x < b \<or> b + HDR a + n + extent a ys \<le> x" for x
    using that H merge(1) by (cases zs) (auto simp: h'_def g_def)
  ultimately show ?thesis using bl merge(2) by (auto simp: h'_def g_def)
qed

definition merge_prev :: "arch \<Rightarrow> segs \<Rightarrow> segs \<Rightarrow> segs" where
  "merge_prev a xs zs =
     (if xs \<noteq> [] \<and> \<not> snd (last xs)
      then butlast xs @ (fst (last xs) + HDR a + fst (hd zs), False) # tl zs else xs @ zs)"

lemma coalesce_prev_hdr:
  assumes "hdr h b = \<lparr>b_magic = c, b_size = k, b_used = False, b_next = nx, b_prev = q\<rparr>"
    and "hdr h q = \<lparr>b_magic = c, b_size = m, b_used = False, b_next = b, b_prev = pq\<rparr>"
    and "0 < q" "q < b" "nx = 0 \<or> b < nx" "m + HDR a + k < 2 ^ 32"
  shows "hdr (coalesce_prev a b h) x =
    (if x = q then \<lparr>b_magic = c, b_size = m + HDR a + k, b_used = False, b_next = nx, b_prev = pq\<rparr>
     else if x = nx \<and> nx \<noteq> 0 then (hdr h nx)\<lparr>b_prev := q\<rparr> else hdr h x)"
proof -
  have w: "wrap32 (int m + int (HDR a) + int k) = m + HDR a + k"
    using wrap32_small [of "m + HDR a + k"] assms(6) by simp
  show ?thesis using assms(1-5) by (auto simp: coalesce_prev_def Let_def w)
qed

lemma coalesce_prev_blks:
  assumes b: "blks a h 0 start (xs @ (k, False) # zs) 0" and st: "0 < start"
    and bound: "extent a (xs @ (k, False) # zs) < 2 ^ 32"
  defines "h' \<equiv> coalesce_prev a (start + extent a xs) h"
  shows "blks a h' 0 start (merge_prev a xs ((k, False) # zs)) 0"
    and "heap_head h' = heap_head h" "heap_used h' = heap_used h" "bytes h' = bytes h"
proof -
  let ?b = "start + extent a xs" and ?e = "start + extent a xs + HDR a + k"
  let ?p = "if xs = [] then 0 else start + extent a (butlast xs)"
  show "heap_head h' = heap_head h" "heap_used h' = heap_used h" "bytes h' = bytes h"
    by (simp_all add: h'_def coalesce_prev_def Let_def)
  have hb: "hdr h ?b = \<lparr>b_magic = HEAP_MAGIC, b_size = k, b_used = False,
      b_next = (if zs = [] then 0 else ?e), b_prev = ?p\<rparr>"
    and bx: "blks a h 0 start xs ?b" and bz: "blks a h ?b ?e zs 0"
    using b unfolding blks_append by auto
  show "blks a h' 0 start (merge_prev a xs ((k, False) # zs)) 0"
  proof (cases "xs = []")
    case True
    with hb b show ?thesis by (simp add: h'_def coalesce_prev_def merge_prev_def)
  next
    case False
    obtain ws m u where xs: "xs = ws @ [(m, u)]" using False by (metis rev_exhaust surj_pair)
    let ?q = "start + extent a ws" and ?pq = "if ws = [] then 0 else start + extent a (butlast ws)"
    have hq: "hdr h ?q = \<lparr>b_magic = HEAP_MAGIC, b_size = m, b_used = u, b_next = ?b, b_prev = ?pq\<rparr>"
      and bw: "blks a h 0 start ws ?q" using bx unfolding xs blks_append by auto
    have p: "?p = ?q" using xs by simp
    show ?thesis
    proof (cases u)
      case True
      with b hb hq p st show ?thesis by (simp add: h'_def coalesce_prev_def merge_prev_def xs)
    next
      case False
      have H: "0 < HDR a" by (rule HDR_pos)
      have e: "?b = ?q + HDR a + m" by (simp add: xs)
      have h': "hdr h' x = (if x = ?q then \<lparr>b_magic = HEAP_MAGIC, b_size = m + HDR a + k, b_used = False,
            b_next = (if zs = [] then 0 else ?e), b_prev = ?pq\<rparr>
          else if x = ?e \<and> zs \<noteq> [] then (hdr h ?e)\<lparr>b_prev := ?q\<rparr> else hdr h x)" for x
      proof -
        have o: "0 < ?q" "?q < ?b" "(if zs = [] then 0 else ?e) = 0 \<or> ?b < (if zs = [] then 0 else ?e)"
          "m + HDR a + k < 2 ^ 32" "?e \<noteq> 0" using st H e bound by (simp_all add: xs)
        have hq': "hdr h ?q = \<lparr>b_magic = HEAP_MAGIC, b_size = m, b_used = False, b_next = ?b, b_prev = ?pq\<rparr>"
          using hq False by simp
        show ?thesis
          unfolding h'_def using coalesce_prev_hdr [OF hb [unfolded p] hq' o(1-4)] o(5)
          by (cases "zs = []") simp_all
      qed
      have "blks a h' ?q ?e zs 0"
        by (rule blks_set_prev [OF bz]) (use H e in \<open>auto simp: h'\<close>)
      moreover have "blks a h' 0 start ws ?q = blks a h 0 start ws ?q"
        by (rule blks_cong) (use e H in \<open>auto simp: h'\<close>)
      moreover have "hdr h' ?q = \<lparr>b_magic = HEAP_MAGIC, b_size = m + HDR a + k, b_used = False,
            b_next = (if zs = [] then 0 else ?e), b_prev = ?pq\<rparr>" using e H by (simp add: h')
      moreover have "merge_prev a xs ((k, False) # zs) = ws @ (m + HDR a + k, False) # zs"
        using False by (simp add: merge_prev_def xs)
      ultimately show ?thesis using bw e by (simp add: add.assoc blks_append)
    qed
  qed
qed

definition release :: "arch \<Rightarrow> segs \<Rightarrow> nat \<Rightarrow> segs \<Rightarrow> segs" where
  "release a xs n ys = merge_prev a xs (merge_next a n ys)"

lemma extent_merge_next: "extent a (merge_next a n ys) = HDR a + n + extent a ys"
  by (cases rule: merge_next_cases [of ys a n]) auto

lemma merge_next_hd: obtains k zs where "merge_next a n ys = (k, False) # zs"
  by (cases rule: merge_next_cases [of ys a n]) auto

lemma extent_merge_prev: "zs \<noteq> [] \<Longrightarrow> extent a (merge_prev a xs zs) = extent a xs + extent a zs"
  by (cases xs rule: rev_cases; cases zs) (auto simp: merge_prev_def)

lemma extent_release: "extent a (release a xs n ys) = extent a (xs @ (n, u) # ys)"
  unfolding release_def
  by (rule merge_next_hd [of a n ys]) (simp add: extent_merge_prev extent_merge_next flip: extent_merge_next)

lemma release_separated:
  assumes "successively (\<lambda>x y. snd x \<or> snd y) (xs @ (n, True) # ys)"
  shows "successively (\<lambda>x y. snd x \<or> snd y) (release a xs n ys)"
proof -
  have x: "successively (\<lambda>x y. snd x \<or> snd y) xs" and y: "successively (\<lambda>x y. snd x \<or> snd y) ys"
    using assms by (auto simp: successively_append_iff successively_Cons)
  obtain k zs where mz: "merge_next a n ys = (k, False) # zs" by (rule merge_next_hd)
  then have z: "successively (\<lambda>x y. snd x \<or> snd y) zs" "zs = [] \<or> snd (hd zs)"
    using y by (cases rule: merge_next_cases [of ys a n]; auto simp: successively_Cons)+
  show ?thesis
  proof (cases "xs = [] \<or> snd (last xs)")
    case True
    with x z mz show ?thesis
      by (auto simp: release_def merge_prev_def successively_append_iff successively_Cons)
  next
    case False
    then obtain ws m where xs: "xs = ws @ [(m, False)]"
      by (metis (full_types) append_butlast_last_id prod.collapse)
    with x z mz show ?thesis
      by (auto simp: release_def merge_prev_def successively_append_iff successively_Cons)
  qed
qed

lemma kfree_block:
  assumes inv: "heap_inv a start len h (xs @ (n, True) # ys)"
  shows "\<exists>h'. kfree a (start + extent a xs + HDR a) h = Some (Done h') \<and>
    heap_inv a start len h' (release a xs n ys) \<and>
    heap_used h' = wrapz a (int (heap_used h) - int n) \<and> bytes h' = bytes h"
proof -
  let ?b = "start + extent a xs" and ?p = "if xs = [] then 0 else start + extent a (butlast xs)"
  note I = heap_invD [OF inv]
  have st: "0 < start" using I(3) by (simp add: MIN_SPLIT_def)
  have bx: "blks a h 0 start xs ?b" and bb: "blks a h ?p ?b ((n, True) # ys) 0"
    using I(1) unfolding blks_append by auto
  define g where "g = uph ?b (\<lambda>k. k\<lparr>b_used := False\<rparr>)
    (h\<lparr>heap_used := wrapz a (int (heap_used h) - int n)\<rparr>)"
  have "blks a g ?b (?b + HDR a + n) ys 0 = blks a h ?b (?b + HDR a + n) ys 0"
    by (rule blks_cong) (use HDR_pos [of a] in \<open>auto simp: g_def\<close>)
  with bb have bg: "blks a g ?p ?b ((n, False) # ys) 0" by (simp add: g_def)
  have sy: "successively (\<lambda>x y. snd x \<or> snd y) ys"
    using I(8) by (auto simp: successively_append_iff successively_Cons)
  have bd: "HDR a + n + extent a ys < 2 ^ 32" using I(5,6) by simp
  from coalesce_next_blks [OF bg sy bd] obtain g' where g': "coalesce_next a ?b g = Some g'"
    "blks a g' ?p ?b (merge_next a n ys) 0"
    "\<forall>x. x < ?b \<or> ?b + HDR a + n + extent a ys \<le> x \<longrightarrow> hdr g' x = hdr g x"
    "heap_head g' = heap_head g" "heap_used g' = heap_used g" "bytes g' = bytes g" by blast
  obtain k zs where mz: "merge_next a n ys = (k, False) # zs" by (rule merge_next_hd)
  have "blks a g' 0 start xs ?b = blks a h 0 start xs ?b"
    by (rule blks_cong) (simp add: g'(3) g_def)
  with bx g'(2) have bl: "blks a g' 0 start (xs @ (k, False) # zs) 0"
    unfolding mz blks_append by simp
  have ex: "extent a (xs @ (k, False) # zs) = len"
    using I(5) extent_merge_next [of a n ys] mz by simp
  note cp = coalesce_prev_blks [OF bl st, unfolded ex, OF I(6)]
  let ?h = "coalesce_prev a ?b g'"
  have rel: "release a xs n ys = merge_prev a xs ((k, False) # zs)" by (simp add: release_def mz)
  have ne: "release a xs n ys \<noteq> []" unfolding rel by (auto simp: merge_prev_def)
  have "heap_inv a start len ?h (release a xs n ys)"
    unfolding heap_inv_def using I(3,4,5,6,7) release_separated [OF I(8), of a] ne
    by (simp add: cp rel [symmetric] g'(4) g_def extent_release [where u = True])
       (simp add: rel cp(1))
  moreover have "int (?b + HDR a) - int (HDR a) = int ?b" by simp
  then have "wrapz a (int (?b + HDR a) - int (HDR a)) = ?b" using I(5,7) wrapz_small [of ?b a] by simp
  then have "kfree a (?b + HDR a) h = Some (Done ?h)"
    using bb HDR_pos [of a] g'(1) by (simp add: kfree_def Let_def coalesce_def g_def)
  ultimately show ?thesis using cp(3,4) g'(5,6) by (simp add: g_def)
qed

section \<open>Payloads\<close>

lemma payloads_append [simp]:
  "payloads a b (xs @ ys) = payloads a b xs @ payloads a (b + extent a xs) ys"
  by (induction xs arbitrary: b) (auto simp: add.assoc)

lemma payloads_bounds:
  "(p, n) \<in> set (payloads a b ss) \<Longrightarrow> b + HDR a \<le> p \<and> p + n \<le> b + extent a ss"
  by (induction ss arbitrary: b) (fastforce split: if_splits)+

text \<open>Payloads are in order of their addresses and a header apart.\<close>

lemma payloads_sorted: "sorted_wrt (\<lambda>(p, n) (q, m). p + n + HDR a \<le> q) (payloads a b ss)"
  by (induction ss arbitrary: b) (auto simp: sorted_wrt_append dest!: payloads_bounds)

lemma payloads_disjoint:
  assumes "(p, n) \<in> set (payloads a b ss)" "(q, m) \<in> set (payloads a b ss)" "(p, n) \<noteq> (q, m)"
  shows "p + n + HDR a \<le> q \<or> q + m + HDR a \<le> p"
proof -
  obtain i j where "i < length (payloads a b ss)" "payloads a b ss ! i = (p, n)"
    "j < length (payloads a b ss)" "payloads a b ss ! j = (q, m)"
    using assms(1,2) by (meson in_set_conv_nth)
  moreover from this assms(3) have "i < j \<or> j < i" by (metis linorder_neqE_nat)
  ultimately show ?thesis
    using sorted_wrt_nth_less [OF payloads_sorted, of i j] sorted_wrt_nth_less [OF payloads_sorted, of j i]
    by fastforce
qed

lemma payloads_split:
  assumes "(p, n) \<in> set (payloads a b ss)"
  obtains xs ys where "ss = xs @ (n, True) # ys" "p = b + extent a xs + HDR a"
proof -
  have "\<exists>xs ys. ss = xs @ (n, True) # ys \<and> p = b + extent a xs + HDR a"
    using assms
  proof (induction ss arbitrary: b)
    case (Cons s ss)
    obtain k u where s: "s = (k, u)" by (cases s)
    show ?case
    proof (cases "u \<and> (p, n) = (b + HDR a, k)")
      case True
      with s have "s # ss = [] @ (n, True) # ss \<and> p = b + extent a [] + HDR a" by simp
      then show ?thesis by blast
    next
      case False
      with Cons.prems s have "(p, n) \<in> set (payloads a (b + HDR a + k) ss)" by (auto split: if_splits)
      from Cons.IH [OF this] obtain xs ys where "ss = xs @ (n, True) # ys"
        "p = b + HDR a + k + extent a xs + HDR a" by blast
      with s have "s # ss = ((k, u) # xs) @ (n, True) # ys \<and> p = b + extent a ((k, u) # xs) + HDR a" by simp
      then show ?thesis by blast
    qed
  qed simp
  with that show thesis by blast
qed

lemma payloads_place: "payloads a b (place a sz n) = [(b + HDR a, if n < sz + HDR a + MIN_SPLIT then n else sz)]"
  by (simp add: place_def)

lemma payloads_merge_next:
  "payloads a b (merge_next a n ys) = payloads a (b + HDR a + n) ys"
  by (cases rule: merge_next_cases [of ys a n]) (auto simp: add.assoc add.left_commute)

lemma payloads_merge_prev:
  assumes "zs \<noteq> []" "\<not> snd (hd zs)"
  shows "payloads a b (merge_prev a xs zs) = payloads a b xs @ payloads a (b + extent a xs) zs"
  using assms by (cases xs rule: rev_cases; cases zs) (auto simp: merge_prev_def add.assoc add.left_commute)

lemma payloads_release:
  "payloads a b (release a xs n ys) = payloads a b xs @ payloads a (b + extent a xs + HDR a + n) ys"
  unfolding release_def
  by (rule merge_next_hd [of a n ys], subst payloads_merge_prev)
     (simp_all add: payloads_merge_next flip: payloads_merge_next)

lemma align_up8_spec:
  assumes "sz + 7 < 2 ^ (8 * ptr_bytes a)"
  shows "sz \<le> align_up8 a sz" "align_up8 a sz < sz + 8" "8 dvd align_up8 a sz"
proof -
  have "wrapz a (int sz + 8 - 1) = sz + 7" using wrapz_small [OF assms] by (simp add: algebra_simps)
  then have e: "align_up8 a sz = (sz + 7) - (sz + 7) mod 8" by (simp add: align_up8_def Let_def)
  then show "sz \<le> align_up8 a sz" "align_up8 a sz < sz + 8" "8 dvd align_up8 a sz"
    by (simp_all add: dvd_minus_mod, linarith?)
qed

lemma place_release:
  assumes "successively (\<lambda>x y. snd x \<or> snd y) (xs @ (n, False) # ys)" "sz \<le> n"
  obtains m zs where "place a sz n @ ys = (m, True) # zs" "release a xs m zs = xs @ (n, False) # ys"
proof -
  have x: "xs = [] \<or> snd (last xs)" and y: "ys = [] \<or> snd (hd ys)"
    using assms(1) by (auto simp: successively_append_iff successively_Cons)
  have keep: "merge_next a n ys = (n, False) # ys"
    using y by (cases rule: merge_next_cases [of ys a n]) auto
  show thesis
  proof (cases "n < sz + HDR a + MIN_SPLIT")
    case True
    show thesis by (rule that [of n ys]) (use True x keep in \<open>auto simp: place_def release_def merge_prev_def\<close>)
  next
    case False
    show thesis
      by (rule that [of sz "(n - sz - HDR a, False) # ys"])
         (use False x in \<open>auto simp: place_def release_def merge_prev_def\<close>)
  qed
qed

lemma absorb_next_keeps:
  "b_magic (hdr (absorb_next a b h) x) = b_magic (hdr h x)" "used_at (absorb_next a b h) x = used_at h x"
  by (simp_all add: absorb_next_def Let_def)

lemma coalesce_next_keeps:
  assumes "coalesce_next a b h = Some h'"
  shows "\<forall>x. b_magic (hdr h' x) = b_magic (hdr h x) \<and> used_at h' x = used_at h x"
proof (rule coalesce_next.raw_induct
    [where P = "\<lambda>a b h h'. \<forall>x. b_magic (hdr h' x) = b_magic (hdr h x) \<and> used_at h' x = used_at h x",
     OF _ assms])
  fix f a b h h'
  assume "\<And>a b h h'. f a b h = Some h' \<Longrightarrow>
      \<forall>x. b_magic (hdr h' x) = b_magic (hdr h x) \<and> used_at h' x = used_at h x"
    and "(if next_at h b \<noteq> 0 \<and> \<not> used_at h (next_at h b) then f a b (absorb_next a b h) else Some h) = Some h'"
  then show "\<forall>x. b_magic (hdr h' x) = b_magic (hdr h x) \<and> used_at h' x = used_at h x"
    by (cases "next_at h b \<noteq> 0 \<and> \<not> used_at h (next_at h b)") (auto simp: absorb_next_keeps)
qed

lemma coalesce_prev_keeps:
  "b_magic (hdr (coalesce_prev a b h) x) = b_magic (hdr h x)" "used_at (coalesce_prev a b h) x = used_at h x"
  by (simp_all add: coalesce_prev_def Let_def)

section \<open>What a client sees\<close>

lemma kmalloc_spec:
  assumes "heap_inv a start len h ss" "0 < sz" "sz + 7 < 2 ^ (8 * ptr_bytes a)"
  shows "if \<exists>n. (n, False) \<in> set ss \<and> align_up8 a sz \<le> n
    then \<exists>p n h' ss'. kmalloc a sz h = Some (Done (p, h')) \<and> bytes h' = bytes h \<and> heap_inv a start len h' ss' \<and>
      set (payloads a start ss') = insert (p, n) (set (payloads a start ss)) \<and>
      sz \<le> n \<and> start + HDR a \<le> p \<and> p + n \<le> start + len \<and>
      (\<forall>(q, m)\<in>set (payloads a start ss). p + n + HDR a \<le> q \<or> q + m + HDR a \<le> p)
    else kmalloc a sz h = Some (Panic ''kmalloc: out of heap memory'')"
  using assms(1)
proof (cases rule: find_free_spec [where sz = "align_up8 a sz"])
  case (fit xs n ys)
  let ?sz = "align_up8 a sz" and ?p = "start + extent a xs + HDR a"
  let ?n = "if n < ?sz + HDR a + MIN_SPLIT then n else ?sz" and ?ss = "xs @ place a ?sz n @ ys"
  have "sz \<noteq> 0" using assms(2) by simp
  from kmalloc_fit [OF assms(1) [unfolded fit(1)] refl this fit(2,4)]
  obtain h' where h': "kmalloc a sz h = Some (Done (?p, h'))" "heap_inv a start len h' ?ss" "bytes h' = bytes h" by blast
  have set: "payloads a start ?ss = payloads a start xs @ (?p, ?n) # payloads a (start + extent a xs + HDR a + n) ys"
    and set0: "payloads a start ss = payloads a start xs @ payloads a (start + extent a xs + HDR a + n) ys"
    using fit(2) by (simp_all add: payloads_place extent_place fit(1) add.assoc)
  have "sz \<le> ?n" using align_up8_spec(1) [OF assms(3)] fit(2) by simp
  moreover have "(?p, ?n) \<in> set (payloads a start ?ss)" by (simp only: set) simp
  then have "start + HDR a \<le> ?p \<and> ?p + ?n \<le> start + len"
    using payloads_bounds heap_invD(5) [OF h'(2)] by metis
  moreover have "?p + ?n + HDR a \<le> q \<or> q + m + HDR a \<le> ?p" if "(q, m) \<in> set (payloads a start ss)" for q m
    using that payloads_bounds [of q m a start xs]
      payloads_bounds [of q m a "start + extent a xs + HDR a + n" ys] fit(2) by (auto simp: set0)
  moreover have "set (payloads a start ?ss) = insert (?p, ?n) (set (payloads a start ss))"
    unfolding set set0 by auto
  moreover have "\<exists>n. (n, False) \<in> set ss \<and> ?sz \<le> n" using fit(1,2) by auto
  ultimately show ?thesis using h' by (auto simp del: payloads_append)
next
  case full
  then have "\<not> (\<exists>n. (n, False) \<in> set ss \<and> align_up8 a sz \<le> n)" by (force simp: fits_def)
  with kmalloc_full [OF full(2)] assms(2) show ?thesis by simp
qed

lemma kfree_spec:
  assumes "heap_inv a start len h ss" "(p, n) \<in> set (payloads a start ss)"
  shows "\<exists>h' ss'. kfree a p h = Some (Done h') \<and> heap_inv a start len h' ss' \<and>
    set (payloads a start ss') = set (payloads a start ss) - {(p, n)} \<and>
    heap_used h' = wrapz a (int (heap_used h) - int n) \<and> bytes h' = bytes h"
proof -
  obtain xs ys where ss: "ss = xs @ (n, True) # ys" and p: "p = start + extent a xs + HDR a"
    using assms(2) by (rule payloads_split)
  let ?l = "payloads a start xs" and ?r = "payloads a (start + extent a xs + HDR a + n) ys"
  have "payloads a start ss = ?l @ (p, n) # ?r" by (simp add: ss p)
  moreover have "(p, n) \<notin> set ?l" "(p, n) \<notin> set ?r"
    using payloads_bounds [of p n a start xs] payloads_bounds [of p n a "start + extent a xs + HDR a + n" ys]
      HDR_pos [of a] by (auto simp: p)
  ultimately have "set (payloads a start (release a xs n ys)) = set (payloads a start ss) - {(p, n)}"
    by (auto simp: payloads_release)
  with kfree_block [OF assms(1) [unfolded ss]] show ?thesis unfolding p by blast
qed

lemma payload_header:
  assumes "heap_inv a start len h ss" "(p, n) \<in> set (payloads a start ss)"
  shows "wrapz a (int p - int (HDR a)) = p - HDR a" "b_magic (hdr h (p - HDR a)) = HEAP_MAGIC"
    "size_at h (p - HDR a) = n" "p \<noteq> 0"
proof -
  obtain xs ys where ss: "ss = xs @ (n, True) # ys" and p: "p = start + extent a xs + HDR a"
    using assms(2) by (rule payloads_split)
  note I = heap_invD [OF assms(1)]
  have "int p - int (HDR a) = int (p - HDR a)" by (simp add: p)
  then show "wrapz a (int p - int (HDR a)) = p - HDR a"
    using I(5,7) wrapz_small [of "p - HDR a" a] by (simp add: p ss)
  show "b_magic (hdr h (p - HDR a)) = HEAP_MAGIC" "size_at h (p - HDR a) = n" "p \<noteq> 0"
    using I(1) HDR_pos [of a] unfolding ss blks_append by (auto simp: p)
qed

lemma kfree_then_double_free:
  assumes "kfree a p h = Some (Done h')" "p \<noteq> 0"
  shows "kfree a p h' = Some (Panic ''kfree: double free'')"
proof -
  let ?b = "wrapz a (int p - int (HDR a))"
  define g where "g = uph ?b (\<lambda>k. k\<lparr>b_used := False\<rparr>)
    (h\<lparr>heap_used := wrapz a (int (heap_used h) - int (size_at h ?b))\<rparr>)"
  from assms have m: "b_magic (hdr h ?b) = HEAP_MAGIC" and c: "coalesce a ?b g = Some h'"
    by (auto simp: kfree_def Let_def g_def split: if_splits)
  from c obtain g' where g': "coalesce_next a ?b g = Some g'" "h' = coalesce_prev a ?b g'"
    by (auto simp: coalesce_def)
  then have "b_magic (hdr h' ?b) = HEAP_MAGIC" "\<not> used_at h' ?b"
    using m coalesce_next_keeps [OF g'(1)] by (simp_all add: coalesce_prev_keeps g_def)
  with assms(2) show ?thesis by (simp add: kfree_def Let_def)
qed

section \<open>Correctness\<close>

text \<open>The kernel's heap of 8 MiB at 4 MiB, after \<^verbatim>\<open>heap_init\<close>.\<close>

definition blank_heap :: heap where
  "blank_heap = \<lparr>hdr = (\<lambda>_. \<lparr>b_magic = 0, b_size = 0, b_used = False, b_next = 0, b_prev = 0\<rparr>),
     heap_head = 0, heap_used = 0, bytes = (\<lambda>_. 0)\<rparr>"

definition sample_heap :: heap where
  "sample_heap = heap_init X86_64 0x400000 0x800000 blank_heap"

lemma heap_init_inv:
  assumes "MIN_SPLIT \<le> start" "HDR a \<le> sz" "sz < 2 ^ 32" "start + sz < 2 ^ (8 * ptr_bytes a)"
  shows "heap_inv a start sz (heap_init a start sz h) [(sz - HDR a, False)]"
proof -
  have "int sz - int (HDR a) = int (sz - HDR a)" using assms(2) by simp
  then have "wrapz a (int sz - int (HDR a)) = sz - HDR a" using assms(4) by (simp only: wrapz_small)
  then have "wrap32 (int (wrapz a (int sz - int (HDR a)))) = sz - HDR a" using assms(3) by simp
  with assms show ?thesis by (simp add: heap_inv_def heap_init_def)
qed

lemma sample_heap_inv: "heap_inv X86_64 0x400000 0x800000 sample_heap [(0x7FFFE0, False)]"
  unfolding sample_heap_def using heap_init_inv [of "0x400000" X86_64 "0x800000"] by (simp add: MIN_SPLIT_def)

text \<open>C2: on a well-formed heap \<^verbatim>\<open>kmalloc\<close> of a size that does not wrap when it is rounded up either
  panics, exactly when no free block is large enough, or returns a payload of at least that
  many bytes, inside the heap, at least a header away from every other payload, and leaves
  every payload that was in use where and as large as it was.\<close>

theorem kmalloc_correct:
  assumes "heap_inv a start len h ss" "0 < sz" "sz + 7 < 2 ^ (8 * ptr_bytes a)"
  shows "if \<exists>n. (n, False) \<in> set ss \<and> align_up8 a sz \<le> n
    then \<exists>p n h' ss'. kmalloc a sz h = Some (Done (p, h')) \<and> heap_inv a start len h' ss' \<and>
      set (payloads a start ss') = insert (p, n) (set (payloads a start ss)) \<and>
      sz \<le> n \<and> start + HDR a \<le> p \<and> p + n \<le> start + len \<and>
      (\<forall>(q, m)\<in>set (payloads a start ss). p + n + HDR a \<le> q \<or> q + m + HDR a \<le> p)
    else kmalloc a sz h = Some (Panic ''kmalloc: out of heap memory'')"
  using kmalloc_spec [OF assms] by (auto split: if_splits)

theorem kmalloc_correct_witness:
  "\<exists>p n h ss. kmalloc X86_64 100 sample_heap = Some (Done (p, h)) \<and> heap_inv X86_64 0x400000 0x800000 h ss \<and>
     set (payloads X86_64 0x400000 ss) = {(p, n)} \<and> 100 \<le> n"
  using kmalloc_correct [OF sample_heap_inv, of 100] by (auto simp: align_up8_def wrapz_def)

text \<open>C17: \<^verbatim>\<open>kfree\<close> of a payload in use returns on a well-formed heap: the loop that merges free
  neighbours ends, the heap stays well formed with no two free blocks next to each other, and
  exactly that payload is no longer in use.\<close>

theorem kfree_correct:
  assumes "heap_inv a start len h ss" "(p, n) \<in> set (payloads a start ss)"
  shows "\<exists>h' ss'. kfree a p h = Some (Done h') \<and> heap_inv a start len h' ss' \<and>
    set (payloads a start ss') = set (payloads a start ss) - {(p, n)}"
  using kfree_spec [OF assms] by blast

text \<open>C18: a block that is allocated and then freed gives back the very same list of blocks: the
  split and the merges undo each other, so the heap does not fragment.\<close>

theorem kmalloc_kfree_roundtrip:
  assumes "heap_inv a start len h ss" "0 < sz" "kmalloc a sz h = Some (Done (p, h'))"
  shows "\<exists>h''. kfree a p h' = Some (Done h'') \<and> heap_inv a start len h'' ss"
  using assms(1)
proof (cases rule: find_free_spec [where sz = "align_up8 a sz"])
  case (fit xs n ys)
  have "sz \<noteq> 0" using assms(2) by simp
  from kmalloc_fit [OF assms(1) [unfolded fit(1)] refl this fit(2,4)] assms(3)
  have p: "p = start + extent a xs + HDR a" and i: "heap_inv a start len h' (xs @ place a (align_up8 a sz) n @ ys)"
    by auto
  obtain m zs where z: "place a (align_up8 a sz) n @ ys = (m, True) # zs" "release a xs m zs = ss"
    using heap_invD(8) [OF assms(1)] fit(2) unfolding fit(1) by (rule place_release)
  show ?thesis using kfree_block [OF i [unfolded z(1)]] unfolding p z(2) by blast
next
  case full
  with kmalloc_full [OF full(2)] assms(2,3) show ?thesis by simp
qed

lemma sample_kmalloc:
  "\<exists>h. kmalloc X86_64 100 sample_heap = Some (Done (0x400020, h)) \<and>
     heap_inv X86_64 0x400000 0x800000 h [(104, True), (0x7FFF58, False)] \<and> heap_used h = 104"
proof -
  have "find_free 104 sample_heap = Some 0x400000"
    using find_free_from_blks [OF heap_invD(1) [OF sample_heap_inv], of 104]
      heap_invD(4) [OF sample_heap_inv] by (simp add: find_free_def)
  then show ?thesis
    using kmalloc_fit [of X86_64 "0x400000" "0x800000" sample_heap "[]" "0x7FFFE0" "[]" 104 100] sample_heap_inv
    by (auto simp: align_up8_def wrapz_def place_def MIN_SPLIT_def sample_heap_def heap_init_def)
qed

theorem kfree_correct_witness:
  "\<exists>h h' ss. kmalloc X86_64 100 sample_heap = Some (Done (0x400020, h)) \<and>
     kfree X86_64 0x400020 h = Some (Done h') \<and> heap_inv X86_64 0x400000 0x800000 h' ss \<and>
     payloads X86_64 0x400000 ss = []"
proof -
  obtain h where h: "kmalloc X86_64 100 sample_heap = Some (Done (0x400020, h))"
    "heap_inv X86_64 0x400000 0x800000 h [(104, True), (0x7FFF58, False)]" using sample_kmalloc by blast
  from kfree_correct [OF h(2), of "0x400020" 104] h(1) show ?thesis by auto
qed

theorem kmalloc_kfree_roundtrip_witness:
  "\<exists>h h'. kmalloc X86_64 100 sample_heap = Some (Done (0x400020, h)) \<and>
     kfree X86_64 0x400020 h = Some (Done h') \<and>
     heap_inv X86_64 0x400000 0x800000 h' [(0x7FFFE0, False)]"
proof -
  obtain h where h: "kmalloc X86_64 100 sample_heap = Some (Done (0x400020, h))" using sample_kmalloc by blast
  from kmalloc_kfree_roundtrip [OF sample_heap_inv _ h] h show ?thesis by auto
qed

text \<open>C19: \<^verbatim>\<open>krealloc\<close> of a payload to a larger size, when a large enough free block exists, returns a
  payload of at least that size that holds the bytes of the old one, releases the old payload
  and keeps every other payload.\<close>

theorem krealloc_grows:
  assumes "heap_inv a start len h ss" "(p, n) \<in> set (payloads a start ss)" "n < sz"
    and "sz + 7 < 2 ^ (8 * ptr_bytes a)" "\<exists>k. (k, False) \<in> set ss \<and> align_up8 a sz \<le> k"
  shows "\<exists>p' n' h' ss'. krealloc a p sz h = Some (Done (p', h')) \<and> heap_inv a start len h' ss' \<and> sz \<le> n' \<and>
    set (payloads a start ss') = insert (p', n') (set (payloads a start ss) - {(p, n)}) \<and>
    (\<forall>i<n. bytes h' (p' + i) = bytes h (p + i))"
proof -
  have "0 < sz" using assms(3) by simp
  from kmalloc_spec [OF assms(1) this assms(4), unfolded if_P [OF assms(5)]] obtain p' n' g ss1 where
    g: "kmalloc a sz h = Some (Done (p', g))" "bytes g = bytes h" "heap_inv a start len g ss1"
      "set (payloads a start ss1) = insert (p', n') (set (payloads a start ss))" "sz \<le> n'"
      "\<forall>(q, m)\<in>set (payloads a start ss). p' + n' + HDR a \<le> q \<or> q + m + HDR a \<le> p'"
    by (elim exE conjE)
  have mem: "(p, n) \<in> set (payloads a start ss1)" using g(4) assms(2) by simp
  have sep: "p' + n' + HDR a \<le> p \<or> p + n + HDR a \<le> p'" using g(6) assms(2) by blast
  note old = payload_header [OF assms(1,2)] and new = payload_header [OF g(3) mem]
  define k where "k = g\<lparr>bytes := memcpy p' p n (bytes g)\<rparr>"
  have k: "heap_inv a start len k ss1" using g(3) by (simp add: k_def frame_simps)
  from kfree_spec [OF k mem] obtain h' ss' where h': "kfree a p k = Some (Done h')" "heap_inv a start len h' ss'"
    "set (payloads a start ss') = set (payloads a start ss1) - {(p, n)}" "bytes h' = bytes k" by blast
  have "krealloc a p sz h = Some (Done (p', h'))"
    using old new g(1) h'(1) assms(3) by (simp add: krealloc_def Let_def k_def)
  moreover have "set (payloads a start ss') = insert (p', n') (set (payloads a start ss) - {(p, n)})"
  proof -
    have "(p', n') \<noteq> (p, n)" using sep HDR_pos [of a] by auto
    then show ?thesis unfolding h'(3) g(4) by blast
  qed
  moreover have "bytes h' (p' + i) = bytes h (p + i)" if "i < n" for i
  proof -
    have "p' \<le> p \<or> p + n \<le> p'" using sep by linarith
    from memcpy_inside [OF this that] show ?thesis by (simp add: h'(4) k_def g(2))
  qed
  ultimately show ?thesis using h'(2) g(5) by blast
qed

theorem krealloc_grows_witness:
  "\<exists>h p n h' ss. kmalloc X86_64 100 sample_heap = Some (Done (0x400020, h)) \<and>
     krealloc X86_64 0x400020 200 h = Some (Done (p, h')) \<and> heap_inv X86_64 0x400000 0x800000 h' ss \<and>
     set (payloads X86_64 0x400000 ss) = {(p, n)} \<and> 200 \<le> n"
proof -
  obtain h where h: "kmalloc X86_64 100 sample_heap = Some (Done (0x400020, h))"
    "heap_inv X86_64 0x400000 0x800000 h [(104, True), (0x7FFF58, False)]" using sample_kmalloc by blast
  from krealloc_grows [OF h(2), of "0x400020" 104 200] h(1) show ?thesis
    by (auto simp: align_up8_def wrapz_def)
qed

text \<open>Freeing the same pointer twice in a row is always detected, whatever the state of the
  heap: merging never clears the magic number or sets the used flag of the stale header.\<close>

theorem kfree_twice_panics:
  assumes "kfree a p h = Some (Done h')" "p \<noteq> 0"
  shows "kfree a p h' = Some (Panic ''kfree: double free'')"
  by (rule kfree_then_double_free [OF assms])

theorem kfree_twice_panics_witness:
  "\<exists>h h'. kmalloc X86_64 100 sample_heap = Some (Done (0x400020, h)) \<and>
     kfree X86_64 0x400020 h = Some (Done h') \<and>
     kfree X86_64 0x400020 h' = Some (Panic ''kfree: double free'')"
proof -
  obtain h where h: "kmalloc X86_64 100 sample_heap = Some (Done (0x400020, h))"
    "heap_inv X86_64 0x400000 0x800000 h [(104, True), (0x7FFF58, False)]" using sample_kmalloc by blast
  then obtain h' where h': "kfree X86_64 0x400020 h = Some (Done h')"
    using kfree_spec [OF h(2), of "0x400020" 104] by auto
  from kfree_twice_panics [OF this] h h' show ?thesis by auto
qed

text \<open>A request of the last seven sizes below the word size is rounded up to zero: \<^verbatim>\<open>kmalloc\<close>
  then returns the first free block, however small, where it should fail.\<close>

theorem kmalloc_huge_request:
  assumes "heap_inv a start len h (xs @ (n, False) # ys)" "\<forall>x\<in>set xs. snd x"
    and "2 ^ (8 * ptr_bytes a) \<le> sz + 7" "sz < 2 ^ (8 * ptr_bytes a)"
  shows "\<exists>h'. kmalloc a sz h = Some (Done (start + extent a xs + HDR a, h')) \<and> n < sz"
proof -
  let ?W = "2 ^ (8 * ptr_bytes a) :: nat"
  have W: "8 dvd ?W" "2 ^ 32 \<le> ?W" by (cases a; simp)+
  have "wrapz a (int sz + int 7) = sz + 7 - ?W"
    unfolding wrapz_add using assms(3,4) W(2) by (simp add: mod_if)
  then have z: "align_up8 a sz = 0"
    using assms(3,4) by (simp add: align_up8_def Let_def algebra_simps mod_less)
  note I = heap_invD [OF assms(1)]
  have n: "n < sz" using I(5,6,7,3) assms(3) by (simp add: MIN_SPLIT_def)
  have "find (\<lambda>(n, u). \<not> u \<and> 0 \<le> n) (xs @ (n, False) # ys) \<noteq> None" by (auto simp: find_None_iff)
  moreover have "takeWhile (\<lambda>(n, u). \<not> (\<not> u \<and> 0 \<le> n)) (xs @ (n, False) # ys) = xs"
    using assms(2) by (induction xs) auto
  moreover have "0 < start" using I(3) by (simp add: MIN_SPLIT_def)
  ultimately have "find_free 0 h = Some (start + extent a xs)"
    using find_free_from_blks [OF I(1,2), of 0] I(4) by (auto simp: find_free_def split: option.splits)
  with kmalloc_fit [OF assms(1) z [symmetric]] n show ?thesis by auto
qed

theorem kmalloc_huge_request_witness:
  "\<exists>h. kmalloc X86_64 0xFFFFFFFFFFFFFFFF sample_heap = Some (Done (0x400020, h))"
  using kmalloc_huge_request [of X86_64 "0x400000" "0x800000" sample_heap "[]" "0x7FFFE0" "[]" "0xFFFFFFFFFFFFFFFF"]
    sample_heap_inv by simp

end
