(* ===== verification/BootMemory.thy ===== *)
theory BootMemory
  imports Vmm64 Heap
begin

text \<open>
  The memory part of \<^verbatim>\<open>kernel/kmain.c\<close>: the frame allocator, the page tables and the heap are set up one
  after the other, the heap at the fixed range \<^verbatim>\<open>HEAP_START\<close>, \<^verbatim>\<open>HEAP_SIZE\<close>.  This theory puts the x86\_64
  managers together on one machine.
\<close>

section \<open>Start-up of memory\<close>

definition HEAP_START :: nat where "HEAP_START = 0x400000"
definition HEAP_SIZE :: nat where "HEAP_SIZE = 8 * 1024 * 1024"

text \<open>The frame allocator of \<open>m\<close> before the call is the static data of \<^verbatim>\<open>pmm.c\<close>.\<close>

definition kmain_memory :: "e820_entry list \<Rightarrow> u64 \<Rightarrow> u64 \<Rightarrow> vmm64 \<times> heap \<Rightarrow> vmm64 \<times> heap" where
  "kmain_memory mmap bss_end bm = (\<lambda>(m, h).
     let m = m\<lparr>frames := pmm_init mmap bss_end bm (frames m)\<rparr>;
         m = vmm_init m
     in (m, heap_init X86_64 HEAP_START HEAP_SIZE h))"

section \<open>Page arithmetic\<close>

lemma unat_and_not_4095:
  fixes x :: u64
  shows "unat (x AND NOT 4095) = 4096 * (unat x div 4096)"
proof -
  have "(4095 :: u64) = mask 12" by (simp add: mask_eq_exp_minus_1)
  moreover have "x AND NOT (mask 12) = push_bit 12 (drop_bit 12 x)" by (intro bit_word_eqI) (auto simp: bit_simps)
  moreover have "push_bit 12 (drop_bit 12 x) = of_nat (4096 * (unat x div 4096))"
  proof -
    have "unat (drop_bit 12 x) = unat x div 4096" using unat_drop_bit_div [of 12 x] by simp
    then have "of_nat (unat x div 4096) = drop_bit 12 x" by (metis ucast_id of_nat_unat)
    then show ?thesis by (simp add: push_bit_eq_mult)
  qed
  ultimately have eq: "x AND NOT 4095 = of_nat (4096 * (unat x div 4096))" by (simp only:)
  have "4096 * (unat x div 4096) < 2 ^ 64"
  proof (rule le_less_trans)
    show "4096 * (unat x div 4096) \<le> unat x" by simp
    show "unat x < 2 ^ 64" using unat_bound [of x] by simp
  qed
  then show ?thesis unfolding eq unat_of_nat by simp
qed

lemma unat_page_align:
  fixes x :: u64
  assumes "unat x + 4095 < 2 ^ 64"
  shows "unat (page_align x) = 4096 * ((unat x + 4095) div 4096)"
proof -
  have "x + 4096 - 1 = of_nat (unat x + 4095)" by simp
  with assms have "unat (x + 4096 - 1) = unat x + 4095" by (simp only: unat_of_nat) simp
  then show ?thesis unfolding page_align_def unat_and_not_4095 by simp
qed

lemma addr_to_page_u64: "addr_to_page TYPE(64) x = unat x div 4096"
  by (simp add: addr_to_page_def PAGE_SHIFT_def unat_drop_bit_div)

lemma range_pages_u64:
  fixes a b :: u64
  assumes "unat b + 4095 < 2 ^ 64"
  shows "range_pages a b = {unat a div 4096 ..< min ((unat b + 4095) div 4096) MAX_PAGES}"
  using assms by (simp add: range_pages_def addr_to_page_u64 unat_page_align)

lemma usable_pages_u64:
  assumes "e820_type e = E820_TYPE_USABLE" "unat (e820_base e) + 4095 < 2 ^ 64" "unat (e820_base e) + unat (e820_length e) < 2 ^ 64"
  shows "{(unat (e820_base e) + 4095) div 4096 ..< min ((unat (e820_base e) + unat (e820_length e)) div 4096) MAX_PAGES}
    \<subseteq> usable_pages TYPE(64) e"
proof -
  let ?s = "page_align_u64 TYPE(64) (e820_base e)" and ?e = "(e820_base e + e820_length e) AND page_mask TYPE(64)"
  have "?s = page_align (e820_base e)" by (simp add: page_align_u64_def page_align_def page_mask_def PAGE_SIZE_def)
  with unat_page_align [OF assms(2)] have s: "unat ?s = 4096 * ((unat (e820_base e) + 4095) div 4096)" by simp
  have "unat (e820_base e + e820_length e) = unat (e820_base e) + unat (e820_length e)"
    using assms(3) by (simp add: unat_word_ariths)
  then have e: "unat ?e = 4096 * ((unat (e820_base e) + unat (e820_length e)) div 4096)"
    unfolding page_mask_def by (simp only: ucast_id unat_and_not_4095)
  show ?thesis
    using assms(1) s e by (auto simp: usable_pages_def addr_to_page_u64 Let_def word_less_nat_alt)
qed

section \<open>The machine at start-up\<close>

text \<open>
  A machine as the loader hands it over: the kernel image, with the bitmap and the top page table
  inside it, ends between 2 MiB, where \<^verbatim>\<open>kernel.ld\<close> puts its start, and the start of the heap, and one
  usable entry of the memory map covers the memory from 1 to 16 MiB.
\<close>

definition boot_ok :: "e820_entry list \<Rightarrow> u64 \<Rightarrow> u64 \<Rightarrow> u64 \<Rightarrow> bool" where
  "boot_ok mmap bss_end bm pml \<longleftrightarrow>
     0x200000 \<le> unat bss_end \<and> unat bss_end \<le> 0x3F0000 \<and> unat bm + BITMAP_BYTES \<le> unat bss_end \<and>
     unat pml mod 4096 = 0 \<and> unat pml < unat bss_end \<and>
     (\<exists>e\<in>set mmap. e820_type e = E820_TYPE_USABLE \<and> unat (e820_base e) \<le> 0x100000 \<and>
        0x1000000 \<le> unat (e820_base e) + unat (e820_length e) \<and> unat (e820_base e) + unat (e820_length e) < 2 ^ 64)"

definition image_pages :: "u64 \<Rightarrow> nat" where
  "image_pages bss_end = (unat bss_end + 4095) div 4096"

lemma boot_pages:
  fixes s :: pmm
  assumes "boot_ok mmap bss_end bm pml"
  defines "used \<equiv> used_pages (pmm_init mmap bss_end bm s)" and "a \<equiv> image_pages bss_end"
  shows "{..<a} \<subseteq> used" "{a ..< 0x1000} \<inter> used = {}" "0x200 \<le> a" "a \<le> 0x3F0" "unat pml div 4096 \<in> used"
proof -
  note ok = assms(1) [unfolded boot_ok_def]
  have bss: "unat (page_align bss_end) = 4096 * a"
    using ok by (simp add: a_def image_pages_def unat_page_align)
  have bits: "BITMAP_BYTES = 0x10000" by (simp add: BITMAP_BYTES_def MAX_PAGES_def)
  have "unat (bm + of_nat BITMAP_BYTES) = unat bm + BITMAP_BYTES"
    using ok unfolding bits by (simp add: unat_word_ariths)
  moreover have "unat bm + BITMAP_BYTES + 4095 < 2 ^ 64" using ok by simp
  ultimately have bm: "unat (page_align (bm + of_nat BITMAP_BYTES)) = 4096 * ((unat bm + BITMAP_BYTES + 4095) div 4096)"
    by (simp only: unat_page_align)
  show a: "0x200 \<le> a" "a \<le> 0x3F0" using ok unfolding a_def image_pages_def by linarith+
  have le: "(unat bm + BITMAP_BYTES + 4095) div 4096 \<le> a"
    unfolding a_def image_pages_def using ok by (intro div_le_mono) simp
  have low: "range_pages (0 :: u64) 0x100000 = {..<0x100}" by (auto simp: range_pages_u64 MAX_PAGES_def)
  have "range_pages 0x10000 (page_align bss_end) = {0x10 ..< min ((4096 * a + 4095) div 4096) MAX_PAGES}"
    using a by (simp add: range_pages_u64 bss)
  then have image: "range_pages 0x10000 (page_align bss_end) = {0x10 ..< a}" using a by (simp add: MAX_PAGES_def)
  have bitmap: "range_pages bm (page_align (bm + of_nat BITMAP_BYTES)) \<subseteq> {..<a}"
    using le a by (simp add: range_pages_u64 bm) auto
  have used: "used = ({..<MAX_PAGES} - (\<Union>e\<in>set mmap. usable_pages TYPE(64) e)) \<union> {..<0x100} \<union> {0x10 ..< a} \<union>
      range_pages bm (page_align (bm + of_nat BITMAP_BYTES))"
    unfolding used_def pmm_init_spec low image ..
  show all: "{..<a} \<subseteq> used" unfolding used by auto
  obtain e where e: "e \<in> set mmap" "e820_type e = E820_TYPE_USABLE" "unat (e820_base e) \<le> 0x100000"
      "0x1000000 \<le> unat (e820_base e) + unat (e820_length e)" "unat (e820_base e) + unat (e820_length e) < 2 ^ 64"
    using ok by blast
  have "{0x100 ..< 0x1000} \<subseteq> {(unat (e820_base e) + 4095) div 4096 ..< min ((unat (e820_base e) + unat (e820_length e)) div 4096) MAX_PAGES}"
    using e(3,4) by (auto simp: MAX_PAGES_def)
  also have "\<dots> \<subseteq> usable_pages TYPE(64) e" using e by (intro usable_pages_u64) simp_all
  finally have "{0x100 ..< 0x1000} \<subseteq> (\<Union>e\<in>set mmap. usable_pages TYPE(64) e)" using e(1) by blast
  then show "{a ..< 0x1000} \<inter> used = {}" unfolding used disjoint_iff using a bitmap by (auto simp: subset_iff)
  have "unat pml div 4096 < a" unfolding a_def image_pages_def using ok by linarith
  then show "unat pml div 4096 \<in> used" using all by auto
qed

lemma vmm_init_fills:
  assumes "boot_ok mmap bss_end bm (pml4 m)"
  defines "m0 \<equiv> m\<lparr>frames := pmm_init mmap bss_end bm (frames m)\<rparr>" and "a \<equiv> image_pages bss_end"
  shows "{a ..< a + 2052} \<subseteq> tables (vmm_init m0)" "pmm_inv (frames (vmm_init m0))"
    and "{..<a + 2052} \<subseteq> used_pages (frames (vmm_init m0))" "a + 2052 \<notin> used_pages (frames (vmm_init m0))"
    and "{a + 2052 ..< 0x1000} \<inter> used_pages (frames (vmm_init m0)) = {}"
proof -
  let ?used = "used_pages (frames m0)" and ?used' = "used_pages (frames (vmm_init m0))"
  note P = boot_pages(1,2) [OF assms(1), of "frames m", folded a_def] boot_pages(3,4) [OF assms(1), folded a_def]
    boot_pages(5) [OF assms(1), of "frames m"]
  have used: "?used = used_pages (pmm_init mmap bss_end bm (frames m))" by (simp add: m0_def)
  have inv: "pmm_inv (frames m0)" by (simp add: m0_def pmm_init_spec)
  have pml: "unat (pml4 m0) mod 4096 = 0" "unat (pml4 m0) div 4096 \<in> ?used"
    using P(5) assms(1) by (simp_all add: m0_def boot_ok_def)
  have "{a ..< 0x1000} \<subseteq> {1 ..< MAX_PAGES} - ?used" using P(2,3) by (auto simp: used MAX_PAGES_def)
  from card_mono [OF _ this] have "0x1000 - a \<le> free_frames m0" by (simp add: free_frames_def)
  then have enough: "2052 \<le> free_frames m0" using P(4) by simp
  note init = vmm_init_exec [OF inv pml enough]
  have below: "{1 ..< a} \<subseteq> ?used" and gap: "{a ..< a + 2052} \<inter> ?used = {}" and pos: "1 \<le> a"
    using P(1-4) unfolding used by (auto simp: disjoint_iff)
  show "{a ..< a + 2052} \<subseteq> tables (vmm_init m0)" by (rule vmm_init_takes [OF inv pml enough pos below gap])
  show "pmm_inv (frames (vmm_init m0))" using init(1) by (simp add: vmm_inv_def)
  note g = init(5) [unfolded grown_def]
  have taken: "{a ..< a + 2052} \<subseteq> ?used' - ?used" using grown_prefix [OF init(5) below gap _ pos] gap by blast
  moreover have "finite (?used' - ?used)" using finite_subset [of ?used' "{..<MAX_PAGES}"] by (auto simp: used_pages_def)
  ultimately have new: "?used' - ?used = {a ..< a + 2052}" using g card_subset_eq [of "?used' - ?used" "{a ..< a + 2052}"] by simp
  have "{..<a + 2052} = {..<a} \<union> {a ..< a + 2052}" by auto
  moreover have "{..<a} \<subseteq> ?used" using P(1) unfolding used .
  ultimately show "{..<a + 2052} \<subseteq> ?used'" using g taken by blast
  have "a + 2052 \<notin> ?used" using P(2,4) unfolding used by (auto simp: disjoint_iff)
  then show "a + 2052 \<notin> ?used'" using new by auto
  have "{a + 2052 ..< 0x1000} \<inter> ?used = {}" using P(2) unfolding used by (auto simp: disjoint_iff)
  moreover have "?used' = ?used \<union> {a ..< a + 2052}" using new g by blast
  ultimately show "{a + 2052 ..< 0x1000} \<inter> ?used' = {}" by auto
qed

lemma next_frame:
  assumes "pmm_inv s" "{..<k} \<subseteq> used_pages s" "k \<notin> used_pages s" "1 \<le> k" "k < MAX_PAGES"
  shows "\<exists>t. pmm_alloc s = (push_bit PAGE_SHIFT (of_nat k) :: u64, t)"
proof -
  have free: "\<not> test_page s k" using assms(3,5) by (simp add: mem_used_pages)
  have busy: "test_page s i" if "i < k" for i using that assms(2,5) by (auto simp: mem_used_pages subset_iff)
  show ?thesis
    using pmm_alloc_from_cases [of 1 s, where 'w = 64] free busy assms(4,5)
    by (auto simp: pmm_alloc_def) (metis not_less_iff_gr_or_eq)
qed

text \<open>The heap hands out all of its range.\<close>

lemma boot_heap_all:
  "\<exists>h''. kmalloc X86_64 (HEAP_SIZE - HDR X86_64) (heap_init X86_64 HEAP_START HEAP_SIZE h) = Some (Done (HEAP_START + HDR X86_64, h''))"
proof -
  define h' where h': "h' = heap_init X86_64 HEAP_START HEAP_SIZE h"
  have inv: "heap_inv X86_64 HEAP_START HEAP_SIZE h' ([] @ (HEAP_SIZE - HDR X86_64, False) # [])"
    unfolding h' append_Nil by (rule heap_init_inv) (simp_all add: HEAP_START_def HEAP_SIZE_def MIN_SPLIT_def)
  have "HEAP_SIZE - HDR X86_64 = align_up8 X86_64 (HEAP_SIZE - HDR X86_64)"
    by (simp add: HEAP_SIZE_def align_up8_def wrapz_def)
  moreover have "find_free (HEAP_SIZE - HDR X86_64) h' = Some (HEAP_START + extent X86_64 [])"
    by (subst find_free_def, subst find_free_from.simps) (simp add: h' heap_init_def HEAP_START_def HEAP_SIZE_def wrapz_def wrap32_def)
  ultimately show ?thesis unfolding h' [symmetric]
    using kmalloc_fit [OF inv, of "HEAP_SIZE - HDR X86_64" "HEAP_SIZE - HDR X86_64"] by (auto simp: HEAP_SIZE_def)
qed

section \<open>Properties\<close>

text \<open>
  The heap is not reserved in the frame allocator: after the start-up of memory on x86\_64 the
  first 6 MiB of the heap are page tables, the next frame the allocator hands out lies in the
  heap as well, and the heap hands out all of that memory too.
\<close>

theorem kmain_heap_not_reserved:
  assumes "boot_ok mmap bss_end bm (pml4 m)" "kmain_memory mmap bss_end bm (m, h) = (m', h')"
  shows "{HEAP_START div 4096 ..< HEAP_START div 4096 + 0x600} \<subseteq> tables m' \<and>
    (\<exists>p f. pmm_alloc (frames m') = (p :: u64, f) \<and> HEAP_START \<le> unat p \<and> unat p + 4096 \<le> HEAP_START + HEAP_SIZE) \<and>
    (\<exists>h''. kmalloc X86_64 (HEAP_SIZE - HDR X86_64) h' = Some (Done (HEAP_START + HDR X86_64, h'')))"
proof (intro conjI)
  let ?a = "image_pages bss_end"
  have m': "m' = vmm_init (m\<lparr>frames := pmm_init mmap bss_end bm (frames m)\<rparr>)" and h': "h' = heap_init X86_64 HEAP_START HEAP_SIZE h"
    using assms(2) by (simp_all add: kmain_memory_def Let_def)
  note V = vmm_init_fills [OF assms(1), folded m'] and a = boot_pages(3,4) [OF assms(1)]
  have "{HEAP_START div 4096 ..< HEAP_START div 4096 + 0x600} \<subseteq> {?a ..< ?a + 2052}" using a by (auto simp: HEAP_START_def)
  with V(1) show "{HEAP_START div 4096 ..< HEAP_START div 4096 + 0x600} \<subseteq> tables m'" by blast
  obtain f where f: "pmm_alloc (frames m') = (push_bit PAGE_SHIFT (of_nat (?a + 2052)) :: u64, f)"
    using next_frame [OF V(2-4)] a by (auto simp: MAX_PAGES_def)
  have "(?a + 2052) * 2 ^ PAGE_SHIFT < 2 ^ LENGTH(64)" using a by (simp add: PAGE_SHIFT_def)
  then have "unat (push_bit PAGE_SHIFT (of_nat (?a + 2052)) :: u64) = (?a + 2052) * 4096"
    by (subst unat_push_bit_of_nat) (simp_all add: PAGE_SHIFT_def)
  with f a show "\<exists>p f. pmm_alloc (frames m') = (p :: u64, f) \<and> HEAP_START \<le> unat p \<and> unat p + 4096 \<le> HEAP_START + HEAP_SIZE"
    by (intro exI [of _ "push_bit PAGE_SHIFT (of_nat (?a + 2052))"]) (simp add: HEAP_START_def HEAP_SIZE_def)
  show "\<exists>h''. kmalloc X86_64 (HEAP_SIZE - HDR X86_64) h' = Some (Done (HEAP_START + HDR X86_64, h''))"
    unfolding h' by (rule boot_heap_all)
qed

text \<open>The machine of 128 MiB with a kernel image of 384 KiB.\<close>

lemma sample_boot_ok: "boot_ok sample_map 0x260000 0x240000 (pml4 (sample_vmm64\<lparr>pml4 := 0x230000\<rparr>))"
  by (simp add: boot_ok_def sample_map_def E820_TYPE_USABLE_def BITMAP_BYTES_def MAX_PAGES_def)

theorem kmain_heap_not_reserved_witness:
  "\<exists>m h p f. kmain_memory sample_map 0x260000 0x240000 (sample_vmm64\<lparr>pml4 := 0x230000\<rparr>, blank_heap) = (m, h) \<and>
     0x400 \<in> tables m \<and> pmm_alloc (frames m) = (p :: u64, f) \<and> 0x400000 \<le> unat p \<and> unat p < 0xC00000"
proof -
  obtain m h where r: "kmain_memory sample_map 0x260000 0x240000 (sample_vmm64\<lparr>pml4 := 0x230000\<rparr>, blank_heap) = (m, h)"
    by fastforce
  note N = kmain_heap_not_reserved [OF sample_boot_ok r]
  from N have "0x400 \<in> tables m" by (auto simp: HEAP_START_def)
  moreover from N obtain p f where "pmm_alloc (frames m) = (p :: u64, f)" "0x400000 \<le> unat p" "unat p < 0xC00000"
    by (auto simp: HEAP_START_def HEAP_SIZE_def)
  ultimately show ?thesis using r by blast
qed


end
