(* ===== verification/EfiBoot.thy ===== *)
theory EfiBoot
  imports BootMemory
begin

text \<open>
  The loader \<^verbatim>\<open>arch/x86_64/boot/efi_main.c\<close>: the page tables it switches to and the memory map it hands to the
  kernel.  The firmware's services are code outside the repository; what the loader gets from
  them, the memory map, is an argument.
\<close>

section \<open>Page tables\<close>

text \<open>\<open>p3\<close> and \<open>pd g\<close> are the addresses of the static arrays \<^verbatim>\<open>pdpt\<close> and \<^verbatim>\<open>pd[g]\<close>.\<close>

definition efi_huge :: "nat \<Rightarrow> nat \<Rightarrow> u64" where
  "efi_huge g i = (of_nat g * 512 + of_nat i) * 0x200000 OR PTE_PRESENT OR PTE_WRITABLE OR PTE_HUGE"

definition build_page_tables :: "u64 \<Rightarrow> (nat \<Rightarrow> u64) \<Rightarrow> vmm64 \<Rightarrow> vmm64" where
  "build_page_tables p3 pd m =
     (let m = tab_clear p3 (tab_clear (pml4 m) m);
          m = fold (\<lambda>g. tab_clear (pd g)) [0 ..< 4] m;
          m = tab_write (pml4 m) 0 (p3 OR PTE_PRESENT OR PTE_WRITABLE) m
      in fold (\<lambda>g m. fold (\<lambda>i. tab_write (pd g) i (efi_huge g i)) [0 ..< 512]
                (tab_write p3 g (pd g OR PTE_PRESENT OR PTE_WRITABLE) m)) [0 ..< 4] m)"

section \<open>Memory map\<close>

record EFI_MEMORY_DESCRIPTOR =
  efi_Type :: u32
  PhysicalStart :: u64
  NumberOfPages :: u64

datatype EFI_MEMORY_TYPE =
  EfiReservedMemoryType | EfiLoaderCode | EfiLoaderData | EfiBootServicesCode | EfiBootServicesData | EfiRuntimeServicesCode |
  EfiRuntimeServicesData | EfiConventionalMemory | EfiUnusableMemory | EfiACPIReclaimMemory | EfiACPIMemoryNVS | EfiMemoryMappedIO |
  EfiMemoryMappedIOPortSpace | EfiPalCode | EfiMaxMemoryType

fun memory_type :: "EFI_MEMORY_TYPE \<Rightarrow> u32" where
  "memory_type EfiReservedMemoryType = 0"
| "memory_type EfiLoaderCode = 1"
| "memory_type EfiLoaderData = 2"
| "memory_type EfiBootServicesCode = 3"
| "memory_type EfiBootServicesData = 4"
| "memory_type EfiRuntimeServicesCode = 5"
| "memory_type EfiRuntimeServicesData = 6"
| "memory_type EfiConventionalMemory = 7"
| "memory_type EfiUnusableMemory = 8"
| "memory_type EfiACPIReclaimMemory = 9"
| "memory_type EfiACPIMemoryNVS = 10"
| "memory_type EfiMemoryMappedIO = 11"
| "memory_type EfiMemoryMappedIOPortSpace = 12"
| "memory_type EfiPalCode = 13"
| "memory_type EfiMaxMemoryType = 14"

definition efi_usable :: "EFI_MEMORY_DESCRIPTOR \<Rightarrow> bool" where
  "efi_usable d \<longleftrightarrow> efi_Type d \<in> set (map memory_type [EfiConventionalMemory, EfiLoaderCode, EfiLoaderData])"

definition e820_of :: "EFI_MEMORY_DESCRIPTOR \<Rightarrow> e820_entry" where
  "e820_of d = \<lparr>e820_base = PhysicalStart d, e820_length = NumberOfPages d * 4096,
     e820_type = (if efi_usable d then 1 else 2), e820_acpi = 0\<rparr>"

text \<open>\<open>desc_at p\<close> is the descriptor at address \<open>p\<close> of the buffer; the loop stops at 128 entries.\<close>

function e820_from :: "(nat \<Rightarrow> EFI_MEMORY_DESCRIPTOR) \<Rightarrow> nat \<Rightarrow> nat \<Rightarrow> nat \<Rightarrow> e820_entry list \<Rightarrow> e820_entry list" where
  "e820_from desc_at stop desc_size p acc =
     (if p < stop \<and> length acc < 128 then e820_from desc_at stop desc_size (p + desc_size) (acc @ [e820_of (desc_at p)]) else acc)"
  by pat_completeness auto
termination by (relation "measure (\<lambda>(desc_at, stop, desc_size, p, acc). 128 - length acc)") auto

declare e820_from.simps [simp del]

definition build_e820 :: "(nat \<Rightarrow> EFI_MEMORY_DESCRIPTOR) \<Rightarrow> nat \<Rightarrow> nat \<Rightarrow> nat \<Rightarrow> e820_entry list" where
  "build_e820 desc_at efi_map map_size desc_size = e820_from desc_at (efi_map + map_size) desc_size efi_map []"

section \<open>The loops\<close>

lemma fold_tab_write:
  "fold (\<lambda>i. tab_write t i (f i)) [0 ..< n] m = m\<lparr>tab := (tab m)(t := (\<lambda>i. if i < n then f i else tab m t i))\<rparr>"
  by (induction n) (auto simp: tab_write_def fun_eq_iff less_Suc_eq)

lemma efi_huge_entry: "efi_huge g i = huge_entry 0 g i"
  by (simp add: efi_huge_def huge_entry_def algebra_simps)

lemma efi_loop:
  fixes m :: vmm64
  assumes "\<forall>g<4. pd g \<noteq> p3 \<and> pd g \<noteq> root" "inj_on pd {..<4}" "root \<noteq> p3" "n \<le> 4"
  defines "L \<equiv> \<lambda>n. fold (\<lambda>g m. fold (\<lambda>i. tab_write (pd g) i (efi_huge g i)) [0 ..< 512]
    (tab_write p3 g (pd g OR PTE_PRESENT OR PTE_WRITABLE) m)) [0 ..< n] m"
  shows "tab (L n) root = tab m root \<and> tab (L n) p3 = (\<lambda>g. if g < n then pd g OR PTE_PRESENT OR PTE_WRITABLE else tab m p3 g) \<and>
    (\<forall>g<4. tab (L n) (pd g) = (\<lambda>i. if g < n \<and> i < 512 then huge_entry 0 g i else tab m (pd g) i)) \<and> pml4 (L n) = pml4 m"
  using assms(4)
proof (induction n)
  case (Suc n)
  have "L (Suc n) = fold (\<lambda>i. tab_write (pd n) i (efi_huge n i)) [0 ..< 512] (tab_write p3 n (pd n OR PTE_PRESENT OR PTE_WRITABLE) (L n))"
    by (simp add: L_def)
  moreover have "pd n \<noteq> p3" using Suc.prems assms(1) by simp
  ultimately have step: "L (Suc n) = (L n)\<lparr>tab := (tab (L n))(p3 := (tab (L n) p3)(n := pd n OR PTE_PRESENT OR PTE_WRITABLE),
      pd n := (\<lambda>i. if i < 512 then huge_entry 0 n i else tab (L n) (pd n) i))\<rparr>"
    by (simp only: fold_tab_write efi_huge_entry) (simp add: tab_write_def fun_upd_def fun_eq_iff cong: if_cong)
  have "pd g = pd n \<longleftrightarrow> g = n" if "g < 4" for g using that Suc.prems assms(2) by (auto simp: inj_on_def)
  moreover have "n < 4" using Suc.prems by simp
  then have "p3 \<noteq> pd n" "root \<noteq> pd n" using assms(1) by metis+
  ultimately show ?case using Suc assms(1,3) unfolding step by (simp add: fun_eq_iff less_Suc_eq)
qed (simp add: L_def)

lemma build_page_tables_tab:
  assumes "\<forall>g<4. pd g \<noteq> p3 \<and> pd g \<noteq> pml4 m" "inj_on pd {..<4}" "pml4 m \<noteq> p3"
  shows "tab (build_page_tables p3 pd m) (pml4 m) = (\<lambda>_. 0)(0 := p3 OR PTE_PRESENT OR PTE_WRITABLE)"
    "tab (build_page_tables p3 pd m) p3 = (\<lambda>g. if g < 4 then pd g OR PTE_PRESENT OR PTE_WRITABLE else 0)"
    "g < 4 \<Longrightarrow> tab (build_page_tables p3 pd m) (pd g) = (\<lambda>i. if i < 512 then huge_entry 0 g i else 0)"
    "pml4 (build_page_tables p3 pd m) = pml4 m"
proof -
  define c where "c = fold (\<lambda>g. tab_clear (pd g)) [0 ..< 4] (tab_clear p3 (tab_clear (pml4 m) m))"
  have clear: "tab (fold (\<lambda>g. tab_clear (pd g)) gs m) t = (if t \<in> pd ` set gs then (\<lambda>_. 0) else tab m t) \<and>
      pml4 (fold (\<lambda>g. tab_clear (pd g)) gs m) = pml4 m" for gs t m
    by (induction gs arbitrary: m) (auto simp: tab_clear_def)
  have c: "tab c (pml4 m) = (\<lambda>_. 0)" "tab c p3 = (\<lambda>_. 0)" "\<And>g. g < 4 \<Longrightarrow> tab c (pd g) = (\<lambda>_. 0)" "pml4 c = pml4 m"
    unfolding c_def by (auto simp: clear) (auto simp: tab_clear_def)
  let ?m = "tab_write (pml4 c) 0 (p3 OR PTE_PRESENT OR PTE_WRITABLE) c"
  have w: "tab ?m (pml4 m) = (\<lambda>_. 0)(0 := p3 OR PTE_PRESENT OR PTE_WRITABLE)" "tab ?m p3 = (\<lambda>_. 0)"
    "\<And>g. g < 4 \<Longrightarrow> tab ?m (pd g) = (\<lambda>_. 0)" "pml4 ?m = pml4 m"
    using c assms by (auto simp: tab_write_def)
  have run: "build_page_tables p3 pd m = fold (\<lambda>g m. fold (\<lambda>i. tab_write (pd g) i (efi_huge g i)) [0 ..< 512]
      (tab_write p3 g (pd g OR PTE_PRESENT OR PTE_WRITABLE) m)) [0 ..< 4] ?m"
    by (simp only: build_page_tables_def c_def Let_def)
  note L = efi_loop [OF assms order_refl, of ?m, folded run, unfolded w]
  show "tab (build_page_tables p3 pd m) (pml4 m) = (\<lambda>_. 0)(0 := p3 OR PTE_PRESENT OR PTE_WRITABLE)"
    "tab (build_page_tables p3 pd m) p3 = (\<lambda>g. if g < 4 then pd g OR PTE_PRESENT OR PTE_WRITABLE else 0)"
    "pml4 (build_page_tables p3 pd m) = pml4 m" using L by simp_all
  show "tab (build_page_tables p3 pd m) (pd g) = (\<lambda>i. if i < 512 then huge_entry 0 g i else 0)" if "g < 4"
    using L that w(3) [OF that] by (simp add: fun_eq_iff)
qed

lemma e820_from_spec:
  "0 < d \<Longrightarrow> length acc \<le> 128 \<Longrightarrow>
   e820_from desc_at (p + n * d) d p acc = acc @ map (\<lambda>i. e820_of (desc_at (p + i * d))) [0 ..< min n (128 - length acc)]"
proof (induction n arbitrary: p acc)
  case 0
  then show ?case by (simp add: e820_from.simps)
next
  case (Suc n)
  show ?case
  proof (cases "length acc < 128")
    case True
    let ?a = "acc @ [e820_of (desc_at p)]"
    have "e820_from desc_at (p + Suc n * d) d p acc = e820_from desc_at (p + d + n * d) d (p + d) ?a"
      using True Suc.prems by (subst e820_from.simps) (simp add: algebra_simps)
    also have "\<dots> = ?a @ map (\<lambda>i. e820_of (desc_at (p + d + i * d))) [0 ..< min n (128 - length ?a)]"
      using True Suc.prems by (intro Suc.IH) simp_all
    also have "[0 ..< min (Suc n) (128 - length acc)] = 0 # map Suc [0 ..< min n (128 - length ?a)]"
    proof -
      have "min (Suc n) (128 - length acc) = Suc (min n (128 - length ?a))" using True by simp
      then show ?thesis by (simp only: map_Suc_upt upt_conv_Cons [of 0 "Suc _"] zero_less_Suc)
    qed
    ultimately show ?thesis by (simp add: algebra_simps o_def)
  next
    case False
    then show ?thesis by (simp add: e820_from.simps)
  qed
qed

text \<open>The memory map handed to the kernel has one entry for each of the first 128 descriptors of the firmware's
  map, in order, whatever size the firmware gives its descriptors; the others are dropped.\<close>

theorem build_e820_maps:
  assumes "0 < desc_size"
  shows "build_e820 desc_at efi_map (n * desc_size) desc_size =
    map (\<lambda>i. e820_of (desc_at (efi_map + i * desc_size))) [0 ..< min n 128]"
  using e820_from_spec [OF assms, of "[]"] by (simp add: build_e820_def)

theorem build_e820_maps_witness:
  "build_e820 (\<lambda>p. \<lparr>efi_Type = (if p = 48 then 7 else 4), PhysicalStart = of_nat p, NumberOfPages = 2\<rparr>) 0 96 48 =
     [\<lparr>e820_base = 0, e820_length = 0x2000, e820_type = 2, e820_acpi = 0\<rparr>,
      \<lparr>e820_base = 48, e820_length = 0x2000, e820_type = 1, e820_acpi = 0\<rparr>]"
  using build_e820_maps [of 48 "\<lambda>p. \<lparr>efi_Type = (if p = 48 then 7 else 4), PhysicalStart = of_nat p, NumberOfPages = 2\<rparr>" 0 2]
  by (simp add: upt_rec e820_of_def efi_usable_def)

text \<open>The tables the loader switches to translate every address below 4 GiB to itself and map nothing else.\<close>

theorem efi_identity_4GiB:
  assumes "\<forall>g<4. pd g \<noteq> p3 \<and> pd g \<noteq> pml4 m \<and> unat (pd g) mod 4096 = 0" "inj_on pd {..<4}" "pml4 m \<noteq> p3" "unat p3 mod 4096 = 0"
  shows "vmm_phys v (build_page_tables p3 pd m) = (if pml4i v = 0 \<and> pdpti v < 4 then take_bit 48 v else 0)"
proof -
  let ?m = "build_page_tables p3 pd m"
  have t: "tab ?m (pml4 ?m) = (\<lambda>_. 0)(0 := p3 OR PTE_PRESENT OR PTE_WRITABLE)"
    "tab ?m p3 = (\<lambda>g. if g < 4 then pd g OR PTE_PRESENT OR PTE_WRITABLE else 0)"
    "g < 4 \<Longrightarrow> tab ?m (pd g) = (\<lambda>i. if i < 512 then huge_entry 0 g i else 0)" for g
    using build_page_tables_tab [of pd p3 m] assms by simp_all
  have a: "(pd g OR PTE_PRESENT OR PTE_WRITABLE) AND NOT LOW12 = pd g" if "g < 4" for g
    using that assms(1) by (intro link_bits(2)) simp
  show ?thesis
  proof (cases "pml4i v = 0 \<and> pdpti v < 4")
    case True
    with huge_translate [of v] show ?thesis
      by (simp add: vmm_phys_def Let_def t a link_bits(2) [OF assms(4)] translate_def huge_entry_bits bit_or_iff)
  next
    case False
    then show ?thesis by (auto simp: vmm_phys_def Let_def t link_bits(2) [OF assms(4)])
  qed
qed

theorem efi_identity_4GiB_witness:
  "vmm_phys 0x12345678 (build_page_tables 0x1000 (\<lambda>g. of_nat (g + 2) * 0x1000)
     \<lparr>pml4 = 0x8000, tab = (\<lambda>_ _. 1), frames = \<lparr>bitmap = [], total_bytes = 0, used_bytes = 0\<rparr>, cr3 = 0, flushed = []\<rparr>) = 0x12345678"
proof -
  have "g = 0 \<or> g = 1 \<or> g = 2 \<or> g = 3" if "g < 4" for g :: nat using that by arith
  then have f: "\<forall>g<4. (of_nat (g + 2) * 0x1000 :: u64) \<noteq> 0x1000 \<and> of_nat (g + 2) * 0x1000 \<noteq> (0x8000 :: u64) \<and>
      unat (of_nat (g + 2) * 0x1000 :: u64) mod 4096 = 0" "inj_on (\<lambda>g. of_nat (g + 2) * 0x1000 :: u64) {..<4}"
    by fastforce (auto dest!: arg_cong [where f = unat] intro!: inj_onI simp: unat_word_ariths unat_of_nat)
  show ?thesis using efi_identity_4GiB [of "\<lambda>g. of_nat (g + 2) * 0x1000" "0x1000"
      "\<lparr>pml4 = 0x8000, tab = (\<lambda>_ _. 1), frames = \<lparr>bitmap = [], total_bytes = 0, used_bytes = 0\<rparr>, cr3 = 0, flushed = []\<rparr>" "0x12345678"] f
    by (simp add: pml4i_def pdpti_def take_bit_eq_mod)
qed

end
