(* ===== verification/EfiTables.thy ===== *)
theory EfiTables
  imports Prelude
begin

text \<open>
  The structures of \<^verbatim>\<open>arch/x86_64/boot/efi.h\<close> through which the loader talks to the firmware.  What matters of them is where
  their fields lie, so a structure is the list of its fields with their sizes and alignments, laid out by the rules of the
  64-bit ABI.  The tables of the UEFI specification are given in the same form.
\<close>

section \<open>Layout\<close>

type_synonym field = "string \<times> nat \<times> nat" \<comment> \<open>name, size, alignment\<close>

definition UINT8_field :: "string \<Rightarrow> nat \<Rightarrow> field" where "UINT8_field x n = (x, n, 1)" \<comment> \<open>an array of \<open>n\<close> bytes\<close>
definition UINT32_field :: "string \<Rightarrow> field" where "UINT32_field x = (x, 4, 4)"
definition UINT64_field :: "string \<Rightarrow> field" where "UINT64_field x = (x, 8, 8)"
definition ptr_field :: "string \<Rightarrow> field" where "ptr_field x = (x, 8, 8)"
definition ptrs_field :: "string \<Rightarrow> nat \<Rightarrow> field" where "ptrs_field x n = (x, 8 * n, 8)"

fun offsets :: "nat \<Rightarrow> field list \<Rightarrow> (string \<times> nat) list" where
  "offsets p [] = []"
| "offsets p ((x, s, a) # fs) = (let q = (p + a - 1) div a * a in (x, q) # offsets (q + s) fs)"

definition offset_of :: "field list \<Rightarrow> string \<Rightarrow> nat option" where
  "offset_of fs x = map_of (offsets 0 fs) x"

section \<open>The structures of the loader\<close>

definition MEMORY_DESCRIPTOR_fields :: "field list" where
  "MEMORY_DESCRIPTOR_fields = [UINT32_field ''Type'', UINT32_field ''Pad'', UINT64_field ''PhysicalStart'', UINT64_field ''VirtualStart'',
     UINT64_field ''NumberOfPages'', UINT64_field ''Attribute'']"

definition SIMPLE_TEXT_OUTPUT_fields :: "field list" where
  "SIMPLE_TEXT_OUTPUT_fields = map ptr_field [''Reset'', ''OutputString'', ''QueryMode'', ''SetMode'', ''SetAttribute'', ''ClearScreen'',
     ''SetCursorPosition'', ''EnableCursor'', ''Mode'']"

definition FILE_PROTOCOL_fields :: "field list" where
  "FILE_PROTOCOL_fields = UINT64_field ''Revision'' # map ptr_field [''Open'', ''Close'', ''Delete'', ''Read'', ''Write'', ''GetPosition'',
     ''SetPosition'', ''GetInfo'', ''SetInfo'', ''Flush'']"

definition SIMPLE_FILE_SYSTEM_fields :: "field list" where
  "SIMPLE_FILE_SYSTEM_fields = [UINT64_field ''Revision'', ptr_field ''OpenVolume'']"

definition LOADED_IMAGE_fields :: "field list" where
  "LOADED_IMAGE_fields = [UINT32_field ''Revision'', ptr_field ''ParentHandle'', ptr_field ''SystemTable'', ptr_field ''DeviceHandle'',
     ptr_field ''FilePath'', ptr_field ''Reserved'', UINT32_field ''LoadOptionsSize'', ptr_field ''LoadOptions'', ptr_field ''ImageBase'',
     UINT64_field ''ImageSize'', UINT32_field ''ImageCodeType'', UINT32_field ''ImageDataType'', ptr_field ''Unload'']"

definition BOOT_SERVICES_fields :: "field list" where
  "BOOT_SERVICES_fields = [UINT8_field ''pad'' 24, ptr_field ''RaiseTPL'', ptr_field ''RestoreTPL'', ptr_field ''AllocatePages'',
     ptr_field ''FreePages'', ptr_field ''GetMemoryMap'', ptr_field ''AllocatePool'', ptr_field ''FreePool'', ptrs_field ''pad3'' 9,
     ptr_field ''HandleProtocol'', ptrs_field ''pad4'' 3, ptr_field ''LocateProtocol'', ptrs_field ''pad5'' 5, ptr_field ''ExitBootServices'']"

definition SYSTEM_TABLE_fields :: "field list" where
  "SYSTEM_TABLE_fields = [UINT8_field ''pad'' 44, ptr_field ''ConsoleInHandle'', ptr_field ''ConIn'', ptr_field ''ConsoleOutHandle'',
     ptr_field ''ConOut'', ptr_field ''ConsoleErrorHandle'', ptr_field ''ConErr'', ptr_field ''RuntimeServices'', ptr_field ''BootServices'',
     UINT64_field ''NumberOfTableEntries'', ptr_field ''ConfigurationTable'']"

text \<open>The structures for the graphics output and the services that remain after the loader; the loader does not use them.\<close>

definition UINT16_field :: "string \<Rightarrow> field" where "UINT16_field x = (x, 2, 2)"

definition GUID_fields :: "field list" where
  "GUID_fields = [UINT32_field ''a'', UINT16_field ''b'', UINT16_field ''c'', UINT8_field ''d'' 8]"

definition GRAPHICS_OUTPUT_MODE_fields :: "field list" where
  "GRAPHICS_OUTPUT_MODE_fields = map UINT32_field [''MaxMode'', ''Mode'', ''Info'', ''SizeOfInfo''] @
     [UINT64_field ''FrameBufferBase'', UINT64_field ''FrameBufferSize'']"

definition GOP_MODE_INFO_fields :: "field list" where
  "GOP_MODE_INFO_fields = map UINT32_field [''HorizontalResolution'', ''VerticalResolution'', ''PixelFormat'', ''RedMask'', ''GreenMask'',
     ''BlueMask'', ''ReservedMask'', ''PixelsPerScanLine'']"

definition GRAPHICS_OUTPUT_fields :: "field list" where
  "GRAPHICS_OUTPUT_fields = map ptr_field [''QueryMode'', ''SetMode'', ''Blt'', ''Mode'']"

definition GOP_mode_fields :: "field list" where
  "GOP_mode_fields = [UINT32_field ''MaxMode'', UINT32_field ''Mode'', ptr_field ''Info'', UINT64_field ''SizeOfInfo'',
     UINT64_field ''FrameBufferBase'', UINT64_field ''FrameBufferSize'']"

definition CONFIGURATION_HOLDER_fields :: "field list" where
  "CONFIGURATION_HOLDER_fields = [UINT64_field ''NumberOfTableEntries'', ptr_field ''ConftableArray'']"

definition RUNTIME_SERVICES_fields :: "field list" where
  "RUNTIME_SERVICES_fields = [ptrs_field ''pad'' 3, ptr_field ''GetTime'', ptrs_field ''pad2'' 7]"

section \<open>The tables of the specification\<close>

definition uefi_header :: "field list" where
  "uefi_header = [UINT64_field ''Signature'', UINT32_field ''Revision'', UINT32_field ''HeaderSize'', UINT32_field ''CRC32'', UINT32_field ''Reserved'']"

definition uefi_system_table :: "field list" where
  "uefi_system_table = uefi_header @ [ptr_field ''FirmwareVendor'', UINT32_field ''FirmwareRevision'', ptr_field ''ConsoleInHandle'',
     ptr_field ''ConIn'', ptr_field ''ConsoleOutHandle'', ptr_field ''ConOut'', ptr_field ''StandardErrorHandle'', ptr_field ''StdErr'',
     ptr_field ''RuntimeServices'', ptr_field ''BootServices'', UINT64_field ''NumberOfTableEntries'', ptr_field ''ConfigurationTable'']"

definition uefi_boot_services :: "field list" where
  "uefi_boot_services = uefi_header @ map ptr_field [''RaiseTPL'', ''RestoreTPL'', ''AllocatePages'', ''FreePages'', ''GetMemoryMap'',
     ''AllocatePool'', ''FreePool'', ''CreateEvent'', ''SetTimer'', ''WaitForEvent'', ''SignalEvent'', ''CloseEvent'', ''CheckEvent'',
     ''InstallProtocolInterface'', ''ReinstallProtocolInterface'', ''UninstallProtocolInterface'', ''HandleProtocol'', ''ReservedPtr'',
     ''RegisterProtocolNotify'', ''LocateHandle'', ''LocateDevicePath'', ''InstallConfigurationTable'', ''LoadImage'', ''StartImage'',
     ''Exit'', ''UnloadImage'', ''ExitBootServices'']"

definition uefi_runtime_services :: "field list" where
  "uefi_runtime_services = uefi_header @ map ptr_field [''GetTime'', ''SetTime'', ''GetWakeupTime'', ''SetWakeupTime'',
     ''SetVirtualAddressMap'', ''ConvertPointer'', ''GetVariable'', ''GetNextVariableName'', ''SetVariable'', ''GetNextHighMonotonicCount'',
     ''ResetSystem'', ''UpdateCapsule'', ''QueryCapsuleCapabilities'', ''QueryVariableInfo'']"

text \<open>\<^verbatim>\<open>EFI_GRAPHICS_OUTPUT_PROTOCOL_MODE\<close> and \<^verbatim>\<open>EFI_GRAPHICS_OUTPUT_MODE_INFORMATION\<close>.\<close>

definition uefi_graphics_mode :: "field list" where
  "uefi_graphics_mode = [UINT32_field ''MaxMode'', UINT32_field ''Mode'', ptr_field ''Info'', UINT64_field ''SizeOfInfo'',
     UINT64_field ''FrameBufferBase'', UINT64_field ''FrameBufferSize'']"

definition uefi_mode_information :: "field list" where
  "uefi_mode_information = map UINT32_field [''Version'', ''HorizontalResolution'', ''VerticalResolution'', ''PixelFormat'', ''RedMask'',
     ''GreenMask'', ''BlueMask'', ''ReservedMask'', ''PixelsPerScanLine'']"

section \<open>Where the fields lie\<close>

text \<open>
  The services that the loader calls are where the specification has them: the padding of \<^verbatim>\<open>EFI_BOOT_SERVICES\<close> stands for as many
  entries as it leaves out.
\<close>

theorem boot_services_agree:
  "list_all (\<lambda>x. offset_of BOOT_SERVICES_fields x = offset_of uefi_boot_services x \<and> offset_of BOOT_SERVICES_fields x \<noteq> None)
     [''AllocatePages'', ''GetMemoryMap'', ''HandleProtocol'', ''ExitBootServices'']"
  by code_simp

text \<open>
  The system table is not: its padding of 44 bytes is followed by a pointer, which the compiler aligns to offset 48, while the
  specification has it at 40.  Every later field is read one slot too far: \<^verbatim>\<open>ConOut\<close> where the table has the handle of the error
  console, \<^verbatim>\<open>BootServices\<close> where it has the number of configuration tables.
\<close>

theorem system_table_shifted:
  "offset_of SYSTEM_TABLE_fields ''ConOut'' = Some 72 \<and> offset_of uefi_system_table ''ConOut'' = Some 64 \<and>
   offset_of uefi_system_table ''StandardErrorHandle'' = Some 72 \<and>
   offset_of SYSTEM_TABLE_fields ''BootServices'' = Some 104 \<and> offset_of uefi_system_table ''BootServices'' = Some 96 \<and>
   offset_of uefi_system_table ''NumberOfTableEntries'' = Some 104"
  by code_simp

text \<open>
  Of the structures that the loader does not use, the mode of the graphics output behind the protocol and the first runtime service are where
  the specification has them.  The description of a mode is not: it lacks the version at its start, so the size of the screen and the
  length of a line are read four bytes too early.  The structure that is named mode information has the fields of the mode with the pointer and the size as
  four bytes each, so its frame buffer address is eight bytes too early.
\<close>

theorem graphics_layout:
  "offset_of GOP_mode_fields ''FrameBufferBase'' = offset_of uefi_graphics_mode ''FrameBufferBase'' \<and>
   offset_of RUNTIME_SERVICES_fields ''GetTime'' = offset_of uefi_runtime_services ''GetTime'' \<and>
   offset_of GOP_MODE_INFO_fields ''HorizontalResolution'' = Some 0 \<and> offset_of uefi_mode_information ''HorizontalResolution'' = Some 4 \<and>
   offset_of GOP_MODE_INFO_fields ''PixelsPerScanLine'' = Some 28 \<and> offset_of uefi_mode_information ''PixelsPerScanLine'' = Some 32 \<and>
   offset_of GRAPHICS_OUTPUT_MODE_fields ''FrameBufferBase'' = Some 16 \<and> offset_of uefi_graphics_mode ''FrameBufferBase'' = Some 24"
  by code_simp

end
