(* ===== verification/EfiMain.thy ===== *)
theory EfiMain
  imports EfiBoot EfiTables
begin

text \<open>
  The loader's entry point \<^verbatim>\<open>efi_main\<close> of \<^verbatim>\<open>arch/x86_64/boot/efi_main.c\<close>.  The firmware is code outside the repository: it is a
  parameter, a record of the services that the loader calls, over a state \<open>'f\<close> that holds the machine's memory
  too.  What the loader relies on is \<open>uefi_laws\<close>.
\<close>

section \<open>Firmware\<close>

datatype EFI_GUID = LOADED_IMAGE_PROTOCOL | SIMPLE_FILE_SYSTEM_PROTOCOL

definition EFI_SUCCESS :: u64 where "EFI_SUCCESS = 0"
definition EFI_FILE_MODE_READ :: u64 where "EFI_FILE_MODE_READ = 1"
definition AllocateAnyPages :: u32 where "AllocateAnyPages = 0"
definition AllocateAddress :: u32 where "AllocateAddress = 2"

text \<open>
  A call that stores through a pointer returns the stored value: \<open>AllocatePages\<close> the address, \<open>GetMemoryMap\<close> the size of the map, its key and the
  size of a descriptor.  \<open>desc_at p\<close> reads the descriptor at address \<open>p\<close>.
\<close>

record 'f firmware =
  OutputString :: "u16 list \<Rightarrow> 'f \<Rightarrow> 'f"
  HandleProtocol :: "nat \<Rightarrow> EFI_GUID \<Rightarrow> 'f \<Rightarrow> nat \<times> 'f"
  DeviceHandle :: "nat \<Rightarrow> 'f \<Rightarrow> nat"
  OpenVolume :: "nat \<Rightarrow> 'f \<Rightarrow> nat \<times> 'f"
  Open :: "nat \<Rightarrow> u16 list \<Rightarrow> u64 \<Rightarrow> u64 \<Rightarrow> 'f \<Rightarrow> u64 \<times> nat \<times> 'f"
  AllocatePages :: "u32 \<Rightarrow> u32 \<Rightarrow> u64 \<Rightarrow> u64 \<Rightarrow> 'f \<Rightarrow> u64 \<times> 'f"
  Read :: "nat \<Rightarrow> u64 \<Rightarrow> u64 \<Rightarrow> 'f \<Rightarrow> 'f"
  Close :: "nat \<Rightarrow> 'f \<Rightarrow> 'f"
  GetMemoryMap :: "u64 \<Rightarrow> u64 \<Rightarrow> 'f \<Rightarrow> u64 \<times> u64 \<times> u64 \<times> 'f"
  ExitBootServices :: "nat \<Rightarrow> u64 \<Rightarrow> 'f \<Rightarrow> u64 \<times> 'f"
  desc_at :: "nat \<Rightarrow> 'f \<Rightarrow> EFI_MEMORY_DESCRIPTOR"

section \<open>The loader\<close>

definition KERNEL_PHYS :: u64 where "KERNEL_PHYS = 0x200000"
definition KERNEL_SECTORS :: u64 where "KERNEL_SECTORS = 128"
definition EFI_PAGE_SIZE :: u64 where "EFI_PAGE_SIZE = 4096"

definition wide :: "string \<Rightarrow> u16 list" where
  "wide s = map of_char s"

definition efi_greeting :: "u16 list" where
  "efi_greeting = wide ''Aerogel UEFI'' @ [0x0D, 0x0A, 0]"

definition kpath :: "u16 list" where
  "kpath = [0x5C] @ wide ''aerogel'' @ [0x5C] @ wide ''kernel.bin'' @ [0]"

definition not_found_message :: "u16 list" where
  "not_found_message = wide ''Kernel not found'' @ [0x0D, 0x0A, 0]"

text \<open>The loader either halts for ever or jumps to the kernel with a memory map and page tables in place.\<close>

datatype efi_end = Efi_halt | Efi_jump u64 "e820_entry list" vmm64

definition efi_open_kernel :: "'f firmware \<Rightarrow> nat \<Rightarrow> 'f \<Rightarrow> u64 \<times> nat \<times> nat \<times> 'f" where
  "efi_open_kernel fw img f =
     (let (lip, f) = HandleProtocol fw img LOADED_IMAGE_PROTOCOL f;
          (sfs, f) = HandleProtocol fw (DeviceHandle fw lip f) SIMPLE_FILE_SYSTEM_PROTOCOL f;
          (root, f) = OpenVolume fw sfs f;
          (s, kf, f) = Open fw root kpath EFI_FILE_MODE_READ 0 f
      in (s, root, kf, f))"

definition efi_load_kernel :: "'f firmware \<Rightarrow> nat \<Rightarrow> nat \<Rightarrow> 'f \<Rightarrow> u64 \<times> 'f" where
  "efi_load_kernel fw root kf f =
     (let (kaddr, f) = AllocatePages fw AllocateAddress (memory_type EfiLoaderData) KERNEL_SECTORS KERNEL_PHYS f;
          f = Read fw kf (KERNEL_SECTORS * EFI_PAGE_SIZE) kaddr f;
          f = Close fw kf f;
          f = Close fw root f
      in (kaddr, f))"

definition efi_memory_map :: "'f firmware \<Rightarrow> 'f \<Rightarrow> u64 \<times> u64 \<times> u64 \<times> u64 \<times> 'f" where
  "efi_memory_map fw f =
     (let (map_size, map_key, desc_size, f) = GetMemoryMap fw 0 0 f;
          map_size = map_size + desc_size * 32;
          (map_buf, f) = AllocatePages fw AllocateAnyPages (memory_type EfiLoaderData) ((map_size + EFI_PAGE_SIZE - 1) div EFI_PAGE_SIZE) 0 f;
          (map_size, map_key, desc_size, f) = GetMemoryMap fw map_size map_buf f
      in (map_buf, map_size, map_key, desc_size, f))"

definition efi_exit :: "'f firmware \<Rightarrow> nat \<Rightarrow> u64 \<times> u64 \<times> u64 \<times> u64 \<times> 'f \<Rightarrow> u64 \<times> u64 \<times> 'f" where
  "efi_exit fw img = (\<lambda>(map_buf, map_size, map_key, desc_size, f).
     let (s, f) = ExitBootServices fw img map_key f
     in if s \<noteq> EFI_SUCCESS then
          let map_size = map_size + desc_size * 8;
              (map_size, map_key, desc_size, f) = GetMemoryMap fw map_size map_buf f;
              (s, f) = ExitBootServices fw img map_key f
          in (map_size, desc_size, f)
        else (map_size, desc_size, f))"

definition efi_main :: "'f firmware \<Rightarrow> nat \<Rightarrow> u64 \<Rightarrow> (nat \<Rightarrow> u64) \<Rightarrow> vmm64 \<Rightarrow> 'f \<Rightarrow> efi_end \<times> 'f" where
  "efi_main fw img p3 pd m f =
     (let f = OutputString fw efi_greeting f;
          (s, root, kf, f) = efi_open_kernel fw img f
      in if s \<noteq> EFI_SUCCESS then (Efi_halt, OutputString fw not_found_message f)
         else
           let (kaddr, f) = efi_load_kernel fw root kf f;
               (map_buf, map_size, map_key, desc_size, f) = efi_memory_map fw f;
               m = build_page_tables p3 pd m;
               (map_size, desc_size, f) = efi_exit fw img (map_buf, map_size, map_key, desc_size, f);
               e820 = build_e820 (\<lambda>p. desc_at fw p f) (unat map_buf) (unat map_size) (unat desc_size)
           in (Efi_jump kaddr e820 (m\<lparr>cr3 := pml4 m\<rparr>), f))"

section \<open>What the loader relies on\<close>

text \<open>
  \<open>mm f\<close> is the machine's memory map, \<open>key f\<close> its current key, \<open>up f\<close> whether boot services are still there.  As the specification documents
  it, \<^verbatim>\<open>GetMemoryMap\<close> reports the size of the map and, given a buffer that is large enough, stores the map and gives its key;
  \<^verbatim>\<open>ExitBootServices\<close> succeeds with the current key and touches neither the map nor memory.
\<close>

definition map_laws :: "'f firmware \<Rightarrow> ('f \<Rightarrow> EFI_MEMORY_DESCRIPTOR list) \<Rightarrow> ('f \<Rightarrow> u64) \<Rightarrow> ('f \<Rightarrow> bool) \<Rightarrow> nat \<Rightarrow> bool" where
  "map_laws fw mm key up dsize \<longleftrightarrow> 0 < dsize \<and>
     (\<forall>sz buf f sz' k ds f'. GetMemoryMap fw sz buf f = (sz', k, ds, f') \<longrightarrow> up f \<longrightarrow> length (mm f) * dsize < 2 ^ 63 \<longrightarrow>
        mm f' = mm f \<and> key f' = key f \<and> up f' \<and> unat ds = dsize \<and> unat sz' = length (mm f) * dsize \<and>
        (buf \<noteq> 0 \<and> length (mm f) * dsize \<le> unat sz \<longrightarrow> k = key f \<and> (\<forall>i<length (mm f). desc_at fw (unat buf + i * dsize) f' = mm f ! i))) \<and>
     (\<forall>img k f s f'. ExitBootServices fw img k f = (s, f') \<longrightarrow> up f \<longrightarrow> k = key f \<longrightarrow>
        s = EFI_SUCCESS \<and> \<not> up f' \<and> mm f' = mm f \<and> (\<forall>p. desc_at fw p f' = desc_at fw p f))"

text \<open>Allocating pages returns memory and splits at most \<open>g\<close> further entries off the map.\<close>

definition alloc_laws :: "'f firmware \<Rightarrow> ('f \<Rightarrow> EFI_MEMORY_DESCRIPTOR list) \<Rightarrow> ('f \<Rightarrow> bool) \<Rightarrow> nat \<Rightarrow> bool" where
  "alloc_laws fw mm up g \<longleftrightarrow>
     (\<forall>n f p f'. AllocatePages fw AllocateAnyPages (memory_type EfiLoaderData) n 0 f = (p, f') \<longrightarrow> up f \<longrightarrow>
        p \<noteq> 0 \<and> up f' \<and> length (mm f') \<le> length (mm f) + g)"

lemma efi_memory_map_current:
  assumes "map_laws fw mm key up dsize" "alloc_laws fw mm up 32" "up f" "(length (mm f) + 32) * dsize < 2 ^ 63"
  obtains map_buf map_size ds f' where "efi_memory_map fw f = (map_buf, map_size, key f', ds, f')" "up f'"
    "unat map_size = length (mm f') * dsize" "unat ds = dsize" "\<forall>i<length (mm f'). desc_at fw (unat map_buf + i * dsize) f' = mm f' ! i"
proof -
  obtain s1 k1 ds1 f1 where 1: "GetMemoryMap fw 0 0 f = (s1, k1, ds1, f1)" using prod_cases4 by blast
  have b: "length (mm f) * dsize < 2 ^ 63" using assms(4) by (simp add: distrib_right)
  with 1 assms(1,3) have g1: "mm f1 = mm f" "up f1" "unat ds1 = dsize" "unat s1 = length (mm f) * dsize"
    unfolding map_laws_def by blast+
  let ?sz = "s1 + ds1 * 32"
  have m32: "32 * dsize < 2 ^ 63" using assms(4) by (simp add: distrib_right)
  then have sz: "unat ?sz = (length (mm f) + 32) * dsize" using g1 assms(4)
    by (simp add: unat_word_ariths distrib_right)
  obtain p f2 where 2: "AllocatePages fw AllocateAnyPages (memory_type EfiLoaderData) ((?sz + EFI_PAGE_SIZE - 1) div EFI_PAGE_SIZE) 0 f1 = (p, f2)" by fastforce
  with assms(2) g1 have g2: "p \<noteq> 0" "up f2" "length (mm f2) \<le> length (mm f) + 32" unfolding alloc_laws_def by metis+
  then have "length (mm f2) * dsize \<le> (length (mm f) + 32) * dsize" by (intro mult_right_mono) simp_all
  then have fits: "length (mm f2) * dsize \<le> unat ?sz" "length (mm f2) * dsize < 2 ^ 63" using sz assms(4) by linarith+
  obtain s3 k3 ds3 f3 where 3: "GetMemoryMap fw ?sz p f2 = (s3, k3, ds3, f3)" using prod_cases4 by blast
  have g3: "mm f3 = mm f2 \<and> key f3 = key f2 \<and> up f3 \<and> unat ds3 = dsize \<and> unat s3 = length (mm f2) * dsize \<and>
      k3 = key f2 \<and> (\<forall>i<length (mm f2). desc_at fw (unat p + i * dsize) f3 = mm f2 ! i)"
    using assms(1) 3 g2(1,2) fits unfolding map_laws_def by blast
  show thesis by (rule that [of p s3 f3 ds3]) (use 1 2 3 g3 in \<open>simp_all add: efi_memory_map_def\<close>)
qed

section \<open>Properties\<close>


text \<open>Without a kernel file the loader says so and halts, still under the firmware.\<close>

theorem efi_main_no_kernel:
  assumes "efi_open_kernel fw img (OutputString fw efi_greeting f) = (s, root, kf, f1)" "s \<noteq> EFI_SUCCESS"
  shows "efi_main fw img p3 pd m f = (Efi_halt, OutputString fw not_found_message f1)"
  using assms by (simp add: efi_main_def)

section \<open>A sample firmware\<close>

record sample_fw =
  sf_up :: bool
  sf_map :: "EFI_MEMORY_DESCRIPTOR list"
  sf_key :: u64
  sf_mem :: "nat \<Rightarrow> EFI_MEMORY_DESCRIPTOR"

definition sample_get_map :: "u64 \<Rightarrow> u64 \<Rightarrow> sample_fw \<Rightarrow> u64 \<times> u64 \<times> u64 \<times> sample_fw" where
  "sample_get_map sz buf f =
     (of_nat (length (sf_map f) * 48), sf_key f, 48,
      if buf \<noteq> 0 \<and> length (sf_map f) * 48 \<le> unat sz
      then f\<lparr>sf_mem := (\<lambda>p. if unat buf \<le> p \<and> (p - unat buf) div 48 < length (sf_map f) then sf_map f ! ((p - unat buf) div 48) else sf_mem f p)\<rparr>
      else f)"

definition sample_firmware :: "sample_fw firmware" where
  "sample_firmware =
     \<lparr>OutputString = (\<lambda>_ f. f), HandleProtocol = (\<lambda>h g f. (h + 1, f)), DeviceHandle = (\<lambda>p f. p), OpenVolume = (\<lambda>p f. (p + 1, f)),
      Open = (\<lambda>r path md a f. (if path = kpath then 0 else 14, r + 1, f)),
      AllocatePages = (\<lambda>t ty n a f. (if a = 0 then 0x300000 else a,
        f\<lparr>sf_map := \<lparr>efi_Type = ty, PhysicalStart = a, NumberOfPages = n\<rparr> # sf_map f, sf_key := sf_key f + 1\<rparr>)),
      Read = (\<lambda>h n a f. f), Close = (\<lambda>h f. f), GetMemoryMap = sample_get_map,
      ExitBootServices = (\<lambda>h k f. if k = sf_key f then (0, f\<lparr>sf_up := False\<rparr>) else (2, f)),
      desc_at = (\<lambda>p f. sf_mem f p)\<rparr>"

lemma sample_map_laws: "map_laws sample_firmware sf_map sf_key sf_up 48"
proof -
  have "unat (of_nat (n * 48) :: u64) = n * 48" if "n * 48 < 2 ^ 63" for n
    using that unfolding unat_of_nat by (intro mod_less) simp
  then show ?thesis
    by (auto simp: map_laws_def sample_firmware_def sample_get_map_def EFI_SUCCESS_def simp del: of_nat_mult split: if_splits)
qed

lemma sample_alloc_laws: "alloc_laws sample_firmware sf_map sf_up 32"
  by (auto simp: alloc_laws_def sample_firmware_def)

definition sample_fw_state :: sample_fw where
  "sample_fw_state = \<lparr>sf_up = True, sf_map = [\<lparr>efi_Type = 7, PhysicalStart = 0x100000, NumberOfPages = 0x1000\<rparr>], sf_key = 5,
     sf_mem = (\<lambda>_. \<lparr>efi_Type = 0, PhysicalStart = 0, NumberOfPages = 0\<rparr>)\<rparr>"

definition sample_tables :: vmm64 where
  "sample_tables = \<lparr>pml4 = 0x8000, tab = (\<lambda>_ _. 1), frames = \<lparr>bitmap = [], total_bytes = 0, used_bytes = 0\<rparr>, cr3 = 0, flushed = []\<rparr>"


end
