(* ===== verification/Fifo.thy ===== *)
theory Fifo
  imports Prelude
begin

text \<open>
  The contract of a first-in first-out queue, shared by the scheduler's run queue
  (\<^verbatim>\<open>kernel/sched/sched.c\<close>, a circular doubly linked list) and the keyboard's event buffer
  (\<^verbatim>\<open>drivers/input/ps2_keyboard.c\<close>, a ring of 128 slots): the queue stands for a list, an
  accepted element goes to its end, and elements leave from its front.
\<close>

fun drain :: "('s \<Rightarrow> 'a option \<times> 's) \<Rightarrow> nat \<Rightarrow> 's \<Rightarrow> 'a list \<times> 's" where
  "drain deq 0 s = ([], s)"
| "drain deq (Suc n) s =
     (case deq s of
        (None, s) \<Rightarrow> ([], s)
      | (Some x, s) \<Rightarrow> (let (xs, s) = drain deq n s in (x # xs, s)))"

locale fifo =
  fixes repr :: "'s \<Rightarrow> 'a list \<Rightarrow> bool"
    and accepts :: "'a list \<Rightarrow> 'a \<Rightarrow> bool"
    and enq :: "'a \<Rightarrow> 's \<Rightarrow> 's"
    and deq :: "'s \<Rightarrow> 'a option \<times> 's"
  assumes enq_repr: "repr s q \<Longrightarrow> accepts q x \<Longrightarrow> repr (enq x s) (q @ [x])"
    and deq_empty: "repr s [] \<Longrightarrow> deq s = (None, s)"
    and deq_repr: "repr s (x # q) \<Longrightarrow> \<exists>t. deq s = (Some x, t) \<and> repr t q"
begin

lemma deq_cases:
  assumes "repr s q"
  obtains "q = []" "deq s = (None, s)"
  | x q' t where "q = x # q'" "deq s = (Some x, t)" "repr t q'"
proof (cases q)
  case Nil
  with assms that(1) show thesis by (simp add: deq_empty)
next
  case (Cons x q')
  then obtain t where "deq s = (Some x, t)" "repr t q'" using assms deq_repr by blast
  with Cons that(2) show thesis by blast
qed

lemma enq_all:
  assumes "repr s q" "\<And>i. i < length xs \<Longrightarrow> accepts (q @ take i xs) (xs ! i)"
  shows "repr (fold enq xs s) (q @ xs)"
  using assms
proof (induction xs arbitrary: s q)
  case Nil
  then show ?case by simp
next
  case (Cons x xs)
  have "accepts q x" using Cons.prems(2) [of 0] by simp
  then have "repr (enq x s) (q @ [x])" by (rule enq_repr [OF Cons.prems(1)])
  moreover have "accepts ((q @ [x]) @ take i xs) (xs ! i)" if "i < length xs" for i
    using Cons.prems(2) [of "Suc i"] that by simp
  ultimately show ?case using Cons.IH [of "enq x s" "q @ [x]"] by simp
qed

lemma drain_repr:
  assumes "repr s q" "n \<le> length q"
  shows "\<exists>t. drain deq n s = (take n q, t) \<and> repr t (drop n q)"
  using assms
proof (induction n arbitrary: s q)
  case 0
  then show ?case by simp
next
  case (Suc n)
  then obtain x q' where q: "q = x # q'" by (cases q) auto
  with Suc.prems(1) obtain t where t: "deq s = (Some x, t)" "repr t q'"
    using deq_repr by blast
  from Suc.IH [OF t(2)] Suc.prems(2) q obtain u where
    "drain deq n t = (take n q', u)" "repr u (drop n q')" by auto
  with t q show ?case by simp
qed

text \<open>What goes in comes out, in the same order.\<close>

lemma enq_drain:
  assumes "repr s []" "\<And>i. i < length xs \<Longrightarrow> accepts (take i xs) (xs ! i)"
  shows "\<exists>t. drain deq (length xs) (fold enq xs s) = (xs, t) \<and> repr t []"
proof -
  have "repr (fold enq xs s) xs" using enq_all [OF assms(1)] assms(2) by simp
  from drain_repr [OF this order_refl] show ?thesis by simp
qed

end

end
