(* ===== verification/Sched.thy ===== *)
theory Sched
  imports Fifo
begin

text \<open>
  Threads and the scheduler: \<^verbatim>\<open>kernel/sched/sched.c\<close>, \<^verbatim>\<open>thread.c\<close>, \<^verbatim>\<open>sched.h\<close>, \<^verbatim>\<open>thread.h\<close>.

  Thread control blocks live in a store indexed by their address; address 0 is \<^verbatim>\<open>NULL\<close>.  The
  store is total, as memory is: following a null link reads the block at address 0.  The run
  queue is the code's circular doubly linked list.  \<open>sp\<close> is the stack pointer the assembly
  routine \<^verbatim>\<open>switch_context\<close> saves and loads (its pushes and pops are balanced), \<open>ints\<close> the
  interrupt flag that \<^verbatim>\<open>cli\<close> and \<^verbatim>\<open>sti\<close> write, \<open>ticks\<close> the counter \<^verbatim>\<open>pit_ticks\<close> returns.
\<close>

section \<open>State\<close>

text \<open>
  \<open>t_fresh\<close> records what the return address on the saved stack says: a thread that has never run
  resumes in \<^verbatim>\<open>thread_trampoline\<close>, every other one in \<^verbatim>\<open>sched_yield\<close> after its call of
  \<^verbatim>\<open>switch_context\<close>.
\<close>

type_synonym tptr = nat

definition SCHED_QUANTUM_TICKS :: u32 where "SCHED_QUANTUM_TICKS = 10"
definition THREAD_STACK_SIZE :: nat where "THREAD_STACK_SIZE = 16 * 1024"
definition THREAD_NAME_LEN :: nat where "THREAD_NAME_LEN = 32"

datatype thread_state =
    THREAD_READY
  | THREAD_RUNNING
  | THREAD_BLOCKED
  | THREAD_SLEEPING
  | THREAD_ZOMBIE

record thread =
  t_id :: u32
  t_name :: string
  t_state :: thread_state
  t_esp :: nat
  t_stack :: nat
  wake_tick :: u64
  quantum_remaining :: u32
  t_next :: tptr
  t_prev :: tptr
  t_fresh :: bool

record sched =
  tcbs :: "tptr \<Rightarrow> thread"
  run_queue_head :: tptr
  need_resched :: bool
  current_thread :: tptr
  next_id :: u32
  nthreads :: u32
  ticks :: u64
  sp :: nat
  ints :: bool
  stack_mem :: "nat \<Rightarrow> nat"

abbreviation next_of :: "sched \<Rightarrow> tptr \<Rightarrow> tptr" where
  "next_of s t \<equiv> t_next (tcbs s t)"

abbreviation prev_of :: "sched \<Rightarrow> tptr \<Rightarrow> tptr" where
  "prev_of s t \<equiv> t_prev (tcbs s t)"

abbreviation state_of :: "sched \<Rightarrow> tptr \<Rightarrow> thread_state" where
  "state_of s t \<equiv> t_state (tcbs s t)"

definition upd :: "tptr \<Rightarrow> (thread \<Rightarrow> thread) \<Rightarrow> sched \<Rightarrow> sched" where
  "upd t f s = s\<lparr>tcbs := (tcbs s)(t := f (tcbs s t))\<rparr>"

section \<open>The run queue\<close>

definition enqueue :: "tptr \<Rightarrow> sched \<Rightarrow> sched" where
  "enqueue t s =
     (let s = upd t (\<lambda>b. b\<lparr>t_state := THREAD_READY\<rparr>) s
      in if run_queue_head s = 0 then
           let s = s\<lparr>run_queue_head := t\<rparr>
           in upd t (\<lambda>b. b\<lparr>t_next := t, t_prev := t\<rparr>) s
         else
           let h = run_queue_head s;
               s = upd t (\<lambda>b. b\<lparr>t_prev := prev_of s h\<rparr>) s;
               s = upd t (\<lambda>b. b\<lparr>t_next := h\<rparr>) s;
               s = upd (prev_of s h) (\<lambda>b. b\<lparr>t_next := t\<rparr>) s
           in upd h (\<lambda>b. b\<lparr>t_prev := t\<rparr>) s)"

definition unlink :: "tptr \<Rightarrow> sched \<Rightarrow> sched" where
  "unlink t s =
     (let s = upd (prev_of s t) (\<lambda>b. b\<lparr>t_next := next_of s t\<rparr>) s
      in upd (next_of s t) (\<lambda>b. b\<lparr>t_prev := prev_of s t\<rparr>) s)"

definition dequeue_next :: "sched \<Rightarrow> tptr \<times> sched" where
  "dequeue_next s =
     (if run_queue_head s = 0 then (0, s)
      else
        let t = run_queue_head s;
            s = (if next_of s t = t then s\<lparr>run_queue_head := 0\<rparr>
                 else unlink t (s\<lparr>run_queue_head := next_of s t\<rparr>))
        in (t, upd t (\<lambda>b. b\<lparr>t_next := 0, t_prev := 0\<rparr>) s))"

definition sched_add :: "tptr \<Rightarrow> sched \<Rightarrow> sched" where
  "sched_add t s = enqueue t s"

definition sched_remove :: "tptr \<Rightarrow> sched \<Rightarrow> sched" where
  "sched_remove t s =
     (if next_of s t = 0 then s
      else
        let s = (if next_of s t = t then s\<lparr>run_queue_head := 0\<rparr>
                 else unlink t (if run_queue_head s = t then s\<lparr>run_queue_head := next_of s t\<rparr> else s))
        in upd t (\<lambda>b. b\<lparr>t_next := 0, t_prev := 0\<rparr>) s)"

section \<open>Threads\<close>

definition thread_set_current :: "tptr \<Rightarrow> sched \<Rightarrow> sched" where
  "thread_set_current t s = s\<lparr>current_thread := t\<rparr>"

text \<open>\<open>idle\<close> and \<open>idle_stack\<close> are the addresses of the static objects of those names.\<close>

definition thread_init_idle :: "tptr \<Rightarrow> nat \<Rightarrow> sched \<Rightarrow> sched" where
  "thread_init_idle idle idle_stack s =
     (let s = s\<lparr>tcbs := (tcbs s)(idle :=
           \<lparr>t_id = next_id s, t_name = ''idle'', t_state = THREAD_RUNNING, t_esp = 0,
            t_stack = idle_stack, wake_tick = 0, quantum_remaining = SCHED_QUANTUM_TICKS,
            t_next = 0, t_prev = 0, t_fresh = False\<rparr>)\<rparr>
      in s\<lparr>next_id := next_id s + 1, current_thread := idle, nthreads := nthreads s + 1\<rparr>)"

definition sched_init :: "tptr \<Rightarrow> nat \<Rightarrow> sched \<Rightarrow> sched" where
  "sched_init idle idle_stack s = thread_init_idle idle idle_stack (s\<lparr>run_queue_head := 0\<rparr>)"

text \<open>
  \<^verbatim>\<open>*--sp = v\<close> on the new thread's stack: one word of the target's size further down.
  \<open>stack_mem\<close> maps the address of a stack word to its value.
\<close>

definition push_word :: "arch \<Rightarrow> nat \<Rightarrow> nat \<times> (nat \<Rightarrow> nat) \<Rightarrow> nat \<times> (nat \<Rightarrow> nat)" where
  "push_word a v = (\<lambda>(p, m). let p = p - ptr_bytes a in (p, m(p := v)))"

fun saved_regs :: "arch \<Rightarrow> nat" where
  "saved_regs X86 = 4"
| "saved_regs X86_64 = 6"

text \<open>
  \<open>t\<close> and \<open>stack\<close> are what the two calls of \<^verbatim>\<open>kmalloc\<close> return, \<open>trampoline\<close> the address of the
  assembly routine \<^verbatim>\<open>thread_trampoline\<close>.
\<close>

definition thread_create ::
  "arch \<Rightarrow> nat \<Rightarrow> tptr \<Rightarrow> nat \<Rightarrow> string \<Rightarrow> nat \<Rightarrow> nat \<Rightarrow> sched \<Rightarrow> (tptr \<times> sched) outcome" where
  "thread_create a trampoline t stack name fn arg s =
     (if stack = 0 then Panic ''thread_create: out of memory''
      else
        let (p, m) = fold (push_word a) ([arg, fn, trampoline] @ replicate (saved_regs a) 0)
                       (stack + THREAD_STACK_SIZE, stack_mem s);
            b = \<lparr>t_id = next_id s, t_name = take (THREAD_NAME_LEN - 1) name, t_state = THREAD_READY,
                 t_esp = p, t_stack = stack, wake_tick = 0,
                 quantum_remaining = SCHED_QUANTUM_TICKS, t_next = 0, t_prev = 0,
                 t_fresh = True\<rparr>
        in Done (t, s\<lparr>tcbs := (tcbs s)(t := b), next_id := next_id s + 1,
                       nthreads := nthreads s + 1, stack_mem := m\<rparr>))"

text \<open>
  What the processor does with that stack the first time the thread is switched to: the tail
  of \<^verbatim>\<open>switch_context\<close> (\<^verbatim>\<open>arch/*/cpu/switch.asm\<close>) pops the callee-saved registers and returns, and
  \<^verbatim>\<open>thread_trampoline\<close> pops the function and its argument.
\<close>

fun pop_words :: "arch \<Rightarrow> (nat \<Rightarrow> nat) \<Rightarrow> nat \<Rightarrow> nat \<Rightarrow> nat list \<times> nat" where
  "pop_words a m 0 p = ([], p)"
| "pop_words a m (Suc n) p = (let (vs, q) = pop_words a m n (p + ptr_bytes a) in (m p # vs, q))"

definition thread_entry :: "arch \<Rightarrow> (nat \<Rightarrow> nat) \<Rightarrow> nat \<Rightarrow> nat list \<times> nat \<times> nat \<times> nat \<times> nat" where
  "thread_entry a m p =
     (let (regs, p) = pop_words a m (saved_regs a) p;
          (ret, p) = pop_words a m 1 p;
          (fn, p) = pop_words a m 1 p;
          (arg, p) = pop_words a m 1 p
      in (regs, hd ret, hd fn, hd arg, p))"

text \<open>\<open>idle\<close> is the address of the static record of the idle thread; threads cannot be found by their number.\<close>

definition thread_current :: "sched \<Rightarrow> tptr" where
  "thread_current s = current_thread s"

definition thread_idle :: "tptr \<Rightarrow> tptr" where
  "thread_idle idle = idle"

definition thread_get_by_id :: "u32 \<Rightarrow> sched \<Rightarrow> tptr" where
  "thread_get_by_id i s = 0"

definition thread_count :: "sched \<Rightarrow> u32" where
  "thread_count s = nthreads s"

section \<open>Scheduling\<close>

definition switch_context :: "tptr \<Rightarrow> nat \<Rightarrow> sched \<Rightarrow> sched" where
  "switch_context old new_esp s =
     (upd old (\<lambda>b. b\<lparr>t_esp := sp s, t_fresh := False\<rparr>) s)\<lparr>sp := new_esp\<rparr>"

text \<open>
  The \<^verbatim>\<open>sti\<close> after \<^verbatim>\<open>switch_context\<close> is executed by the thread that is switched to, and only if it was
  itself switched out here: a thread on its first run starts in its trampoline instead.
\<close>

definition sched_yield :: "sched \<Rightarrow> sched" where
  "sched_yield s =
     (let s = s\<lparr>ints := False\<rparr>;
          cur = current_thread s;
          (nxt, s) = dequeue_next s
      in if nxt = 0 then s\<lparr>need_resched := False, ints := True\<rparr>
         else
           let s = (if state_of s cur = THREAD_RUNNING
                    then enqueue cur (upd cur (\<lambda>b. b\<lparr>t_state := THREAD_READY\<rparr>) s) else s);
               s = upd cur (\<lambda>b. b\<lparr>quantum_remaining := SCHED_QUANTUM_TICKS\<rparr>) s;
               s = upd nxt (\<lambda>b. b\<lparr>t_state := THREAD_RUNNING\<rparr>) s;
               s = upd nxt (\<lambda>b. b\<lparr>quantum_remaining := SCHED_QUANTUM_TICKS\<rparr>) s;
               s = s\<lparr>need_resched := False\<rparr>;
               s = thread_set_current nxt s;
               first_run = t_fresh (tcbs s nxt);
               s = switch_context cur (t_esp (tcbs s nxt)) s
           in if first_run then s else s\<lparr>ints := True\<rparr>)"

text \<open>
  The \<^verbatim>\<open>do ... while\<close> loop of \<^verbatim>\<open>sched_tick\<close>; it need not end on a queue that is not circular.
\<close>

definition wake_one :: "u64 \<Rightarrow> tptr \<Rightarrow> sched \<Rightarrow> sched" where
  "wake_one now t s =
     (if state_of s t = THREAD_SLEEPING \<and> wake_tick (tcbs s t) \<le> now
      then upd t (\<lambda>b. b\<lparr>t_state := THREAD_READY\<rparr>) s else s)"

partial_function (option) tick_loop :: "u64 \<Rightarrow> tptr \<Rightarrow> tptr \<Rightarrow> sched \<Rightarrow> sched option" where
  "tick_loop now start t s =
     (let s = wake_one now t s; t = next_of s t
      in if t \<noteq> 0 \<and> t \<noteq> start then tick_loop now start t s else Some s)"

definition sched_tick :: "sched \<Rightarrow> sched option" where
  "sched_tick s =
     (let cur = current_thread s
      in if cur = 0 then Some s
         else
           let s = (if quantum_remaining (tcbs s cur) > 0
                    then upd cur (\<lambda>b. b\<lparr>quantum_remaining := quantum_remaining b - 1\<rparr>) s else s);
               s = (if quantum_remaining (tcbs s cur) = 0 then s\<lparr>need_resched := True\<rparr> else s);
               now = ticks s;
               t = run_queue_head s
           in if t = 0 then Some s else tick_loop now t t s)"

definition sched_sleep :: "u32 \<Rightarrow> sched \<Rightarrow> sched" where
  "sched_sleep ms s =
     (let cur = current_thread s;
          s = upd cur (\<lambda>b. b\<lparr>t_state := THREAD_SLEEPING\<rparr>) s;
          s = upd cur (\<lambda>b. b\<lparr>wake_tick := ticks s + ucast ms div 10\<rparr>) s;
          s = sched_remove cur s
      in sched_yield s)"

definition sched_wake :: "tptr \<Rightarrow> sched \<Rightarrow> sched" where
  "sched_wake t s =
     (if state_of s t = THREAD_SLEEPING \<or> state_of s t = THREAD_BLOCKED
      then enqueue t (upd t (\<lambda>b. b\<lparr>t_state := THREAD_READY\<rparr>) s) else s)"

text \<open>\<^verbatim>\<open>thread_exit\<close> up to the endless \<^verbatim>\<open>hlt\<close> loop that follows its \<^verbatim>\<open>sched_yield\<close>.\<close>

definition thread_exit :: "sched \<Rightarrow> sched" where
  "thread_exit s =
     (let t = current_thread s;
          s = upd t (\<lambda>b. b\<lparr>t_state := THREAD_ZOMBIE\<rparr>) s;
          s = s\<lparr>nthreads := nthreads s - 1\<rparr>
      in sched_yield s)"

section \<open>The list a run queue stands for\<close>

fun chain :: "sched \<Rightarrow> tptr list \<Rightarrow> bool" where
  "chain s (x # y # zs) \<longleftrightarrow> next_of s x = y \<and> prev_of s y = x \<and> chain s (y # zs)"
| "chain s _ \<longleftrightarrow> True"

definition rq :: "sched \<Rightarrow> tptr list \<Rightarrow> bool" where
  "rq s q \<longleftrightarrow>
     (if q = [] then run_queue_head s = 0
      else run_queue_head s = hd q \<and> distinct q \<and> 0 \<notin> set q \<and> chain s q \<and>
        next_of s (last q) = hd q \<and> prev_of s (hd q) = last q)"

lemma tcbs_upd [simp]: "tcbs (upd t f s) = (tcbs s)(t := f (tcbs s t))"
  by (simp add: upd_def)

lemma upd_frame [simp, frame_simps]:
  "run_queue_head (upd t f s) = run_queue_head s"
  "need_resched (upd t f s) = need_resched s"
  "current_thread (upd t f s) = current_thread s"
  "next_id (upd t f s) = next_id s"
  "nthreads (upd t f s) = nthreads s"
  "ticks (upd t f s) = ticks s"
  "sp (upd t f s) = sp s"
  "ints (upd t f s) = ints s"
  "stack_mem (upd t f s) = stack_mem s"
  by (simp_all add: upd_def)

lemma chain_cong:
  assumes "\<And>x. x \<in> set (butlast q) \<Longrightarrow> next_of s' x = next_of s x"
    and "\<And>x. x \<in> set (tl q) \<Longrightarrow> prev_of s' x = prev_of s x"
  shows "chain s' q = chain s q"
  using assms
proof (induction s q rule: chain.induct)
  case (1 s x y zs)
  have "chain s' (y # zs) = chain s (y # zs)" using 1 by (cases zs) auto
  with "1.prems" show ?case by simp
qed auto

lemma chain_append:
  "q \<noteq> [] \<Longrightarrow> r \<noteq> [] \<Longrightarrow>
   chain s (q @ r) \<longleftrightarrow> chain s q \<and> next_of s (last q) = hd r \<and> prev_of s (hd r) = last q \<and> chain s r"
proof (induction q)
  case (Cons x q)
  then show ?case by (cases q; cases r) auto
qed simp

lemma rq_same_links:
  assumes "run_queue_head s' = run_queue_head s"
    and "\<And>x. x \<in> set q \<Longrightarrow> next_of s' x = next_of s x \<and> prev_of s' x = prev_of s x"
  shows "rq s' q = rq s q"
proof (cases "q = []")
  case False
  have "chain s' q = chain s q"
    using assms(2) by (intro chain_cong) (auto dest: in_set_butlastD list.set_sel(2) [OF False])
  with False assms show ?thesis by (simp add: rq_def)
qed (simp add: rq_def assms)

lemma distinct_last_butlast: "distinct q \<Longrightarrow> q \<noteq> [] \<Longrightarrow> last q \<notin> set (butlast q)"
  by (induction q) auto

lemma distinct_hd_tl: "distinct q \<Longrightarrow> q \<noteq> [] \<Longrightarrow> hd q \<notin> set (tl q)"
  by (cases q) auto

section \<open>Queue operations refine list operations\<close>

lemma enqueue_frame [frame_simps]:
  "current_thread (enqueue t s) = current_thread s"
  "ticks (enqueue t s) = ticks s" "sp (enqueue t s) = sp s" "need_resched (enqueue t s) = need_resched s"
  "nthreads (enqueue t s) = nthreads s" "next_id (enqueue t s) = next_id s" "ints (enqueue t s) = ints s"
  by (simp_all add: enqueue_def Let_def)

lemma enqueue_fields [frame_simps]:
  "state_of (enqueue t s) x = (if x = t then THREAD_READY else state_of s x)"
  "t_esp (tcbs (enqueue t s) x) = t_esp (tcbs s x)"
  "quantum_remaining (tcbs (enqueue t s) x) = quantum_remaining (tcbs s x)"
  "wake_tick (tcbs (enqueue t s) x) = wake_tick (tcbs s x)"
  "t_fresh (tcbs (enqueue t s) x) = t_fresh (tcbs s x)"
  by (auto simp: enqueue_def Let_def)

lemma enqueue_rq [repr_simps]:
  assumes "rq s q" "t \<noteq> 0" "t \<notin> set q"
  shows "rq (enqueue t s) (q @ [t])"
proof (cases "q = []")
  case True
  with assms show ?thesis by (simp add: rq_def enqueue_def Let_def)
next
  case False
  define s' where "s' = enqueue t s"
  from assms(1) False have q: "run_queue_head s = hd q" "distinct q" "0 \<notin> set q" "chain s q"
    "next_of s (last q) = hd q" "prev_of s (hd q) = last q" by (simp_all add: rq_def)
  have h: "hd q \<noteq> 0" "hd q \<noteq> t" "last q \<noteq> t"
    using hd_in_set [OF False] last_in_set [OF False] q(3) assms(3) by metis+
  have nx: "next_of s' x = (if x = last q then t else if x = t then hd q else next_of s x)" for x
    using h q(1,6) by (simp add: s'_def enqueue_def Let_def)
  have pv: "prev_of s' x = (if x = hd q then t else if x = t then last q else prev_of s x)" for x
    using h q(1,6) by (simp add: s'_def enqueue_def Let_def)
  have hd: "run_queue_head s' = hd q" using q(1) h by (simp add: s'_def enqueue_def Let_def)
  have "chain s' q = chain s q"
  proof (rule chain_cong)
    show "next_of s' x = next_of s x" if "x \<in> set (butlast q)" for x
      using that distinct_last_butlast [OF q(2) False] assms(3) by (auto simp: nx dest: in_set_butlastD)
    show "prev_of s' x = prev_of s x" if "x \<in> set (tl q)" for x
      using that distinct_hd_tl [OF q(2) False] assms(3) by (auto simp: pv dest: list.set_sel(2) [OF False])
  qed
  then have "chain s' (q @ [t])" using False q(4) h by (simp add: chain_append nx pv)
  then show ?thesis
    unfolding s'_def [symmetric] rq_def using False q assms(2,3) h by (simp add: hd nx pv)
qed

lemma enqueue_other_links [frame_simps]:
  assumes "rq s q" "x \<notin> set q" "x \<noteq> t" "t \<notin> set q"
  shows "next_of (enqueue t s) x = next_of s x"
proof (cases "q = []")
  case False
  with assms have "run_queue_head s = hd q" "prev_of s (hd q) = last q" by (simp_all add: rq_def)
  moreover have "hd q \<noteq> x" "last q \<noteq> x" "hd q \<noteq> t" "last q \<noteq> t"
    using False assms(2,4) hd_in_set last_in_set by metis+
  ultimately show ?thesis using assms(3) by (simp add: enqueue_def Let_def)
qed (use assms in \<open>simp add: rq_def enqueue_def Let_def\<close>)

text \<open>What the links look like after an element has been taken out of the ring.\<close>

definition drop_links :: "tptr \<Rightarrow> tptr \<Rightarrow> tptr \<Rightarrow> sched \<Rightarrow> sched \<Rightarrow> bool" where
  "drop_links t p n s s' \<longleftrightarrow>
     (\<forall>x. next_of s' x = (if x = t then 0 else if x = p then n else next_of s x)) \<and>
     (\<forall>x. prev_of s' x = (if x = t then 0 else if x = n then p else prev_of s x))"

lemma unlink_drop_links:
  assumes "next_of s t \<noteq> t" "prev_of s t \<noteq> t"
  shows "drop_links t (prev_of s t) (next_of s t) s
    (upd t (\<lambda>b. b\<lparr>t_next := 0, t_prev := 0\<rparr>) (unlink t s))"
  using assms by (auto simp: drop_links_def unlink_def Let_def)

lemma ring_remove:
  assumes q: "rq s (xs @ t # ys)" and ne: "xs @ ys \<noteq> []"
    and links: "drop_links t (prev_of s t) (next_of s t) s s'"
    and head: "run_queue_head s' = (if xs = [] then next_of s t else run_queue_head s)"
  shows "rq s' (xs @ ys)"
proof -
  have d: "distinct (xs @ t # ys)" and nz: "0 \<notin> set (xs @ ys)" using q by (auto simp: rq_def)
  have c: "chain s (xs @ t # ys)" "next_of s (last (t # ys)) = hd (xs @ [t])"
    "prev_of s (hd (xs @ [t])) = last (t # ys)" using q by (auto simp: rq_def hd_append split: if_splits)
  have pt: "prev_of s t = (if xs = [] then last (t # ys) else last xs)"
    using c by (cases "xs = []") (auto simp: chain_append)
  have nt: "next_of s t = (if ys = [] then hd (xs @ [t]) else hd ys)"
    using c by (cases "xs = []"; cases ys) (auto simp: chain_append)
  have cx: "chain s xs" and cy: "chain s ys"
    using c(1) by (cases "xs = []"; cases ys; simp add: chain_append)+
  note nx = links [unfolded drop_links_def, THEN conjunct1, rule_format]
  note pv = links [unfolded drop_links_def, THEN conjunct2, rule_format]
  have bx: "last xs \<notin> set (butlast xs)" if "xs \<noteq> []" using d that by (simp add: distinct_last_butlast)
  have hy: "hd ys \<notin> set (tl ys)" if "ys \<noteq> []" using d that by (simp add: distinct_hd_tl)
  have ly: "last ys \<notin> set (butlast ys)" if "ys \<noteq> []" using d that by (simp add: distinct_last_butlast)
  have hx: "hd xs \<notin> set (tl xs)" if "xs \<noteq> []" using d that by (simp add: distinct_hd_tl)
  have apart: "xs \<noteq> [] \<Longrightarrow> last xs \<notin> set ys" "xs \<noteq> [] \<Longrightarrow> hd xs \<notin> set ys"
    "ys \<noteq> [] \<Longrightarrow> last ys \<notin> set xs" "ys \<noteq> [] \<Longrightarrow> hd ys \<notin> set xs"
    using d by (auto dest: hd_in_set last_in_set)
  have cx': "chain s' xs"
  proof (cases "xs = []")
    case False
    have "chain s' xs = chain s xs"
      using False d bx hx apart by (intro chain_cong)
        (auto simp: nx pv pt nt dest: in_set_butlastD list.set_sel(2) [OF False])
    with cx show ?thesis by simp
  qed simp
  have cy': "chain s' ys"
  proof (cases "ys = []")
    case False
    have "chain s' ys = chain s ys"
      using False d hy ly apart by (intro chain_cong)
        (auto simp: nx pv pt nt dest: in_set_butlastD list.set_sel(2) [OF False])
    with cy show ?thesis by simp
  qed simp
  have hd: "run_queue_head s' = hd (xs @ ys)"
    using q ne by (cases "xs = []") (auto simp: head nt rq_def hd_append)
  have "chain s' (xs @ ys) \<and> next_of s' (last (xs @ ys)) = hd (xs @ ys) \<and>
      prev_of s' (hd (xs @ ys)) = last (xs @ ys)"
  proof (cases "xs = [] \<or> ys = []")
    case True
    have "xs \<noteq> [] \<Longrightarrow> last xs \<noteq> t \<and> hd xs \<noteq> t" "ys \<noteq> [] \<Longrightarrow> last ys \<noteq> t \<and> hd ys \<noteq> t"
      using d hd_in_set last_in_set by fastforce+
    with True ne cx' cy' show ?thesis by (auto simp: nx pv pt nt)
  next
    case False
    then have ends: "last xs \<in> set xs" "hd xs \<in> set xs" "last ys \<in> set ys" "hd ys \<in> set ys" by auto
    then have "last ys \<noteq> last xs" "hd xs \<noteq> hd ys" "last xs \<noteq> t" "hd ys \<noteq> t" "last ys \<noteq> t" "hd xs \<noteq> t"
      using d by auto
    with False cx' cy' c(2,3) show ?thesis by (simp add: chain_append nx pv pt nt)
  qed
  with ne d nz hd show ?thesis by (auto simp: rq_def)
qed

lemma dequeue_empty: "rq s [] \<Longrightarrow> dequeue_next s = (0, s)"
  by (simp add: rq_def dequeue_next_def)

lemma rq_singleton_iff:
  assumes "rq s (xs @ t # ys)"
  shows "next_of s t = t \<longleftrightarrow> xs = [] \<and> ys = []" "prev_of s t = t \<longleftrightarrow> xs = [] \<and> ys = []" "next_of s t \<noteq> 0"
proof -
  have d: "distinct (xs @ t # ys)" "0 \<notin> set (xs @ t # ys)" using assms by (auto simp: rq_def)
  have c: "chain s (xs @ t # ys)" "next_of s (last (t # ys)) = hd (xs @ [t])"
    "prev_of s (hd (xs @ [t])) = last (t # ys)" using assms by (auto simp: rq_def hd_append split: if_splits)
  have pt: "prev_of s t = (if xs = [] then last (t # ys) else last xs)"
    using c by (cases "xs = []") (auto simp: chain_append)
  have nt: "next_of s t = (if ys = [] then hd (xs @ [t]) else hd ys)"
    using c by (cases "xs = []"; cases ys) (auto simp: chain_append)
  have mem: "xs \<noteq> [] \<Longrightarrow> last xs \<in> set xs" "xs \<noteq> [] \<Longrightarrow> hd xs \<in> set xs"
    "ys \<noteq> [] \<Longrightarrow> last ys \<in> set ys" "ys \<noteq> [] \<Longrightarrow> hd ys \<in> set ys" by auto
  show "next_of s t = t \<longleftrightarrow> xs = [] \<and> ys = []" "prev_of s t = t \<longleftrightarrow> xs = [] \<and> ys = []"
    using mem d by (auto simp: nt pt hd_append)
  have "next_of s t \<in> set (xs @ t # ys)" using mem by (auto simp: nt hd_append)
  then show "next_of s t \<noteq> 0" using d(2) by metis
qed

lemma sched_remove_rq [repr_simps]:
  assumes "rq s (xs @ t # ys)"
  shows "rq (sched_remove t s) (xs @ ys)"
proof (cases "xs = [] \<and> ys = []")
  case True
  with assms rq_singleton_iff [OF assms] show ?thesis by (simp add: sched_remove_def rq_def Let_def)
next
  case False
  note r = rq_singleton_iff [OF assms]
  define u where "u = (if run_queue_head s = t then s\<lparr>run_queue_head := next_of s t\<rparr> else s)"
  have eq: "sched_remove t s = upd t (\<lambda>b. b\<lparr>t_next := 0, t_prev := 0\<rparr>) (unlink t u)"
    using r False by (simp add: sched_remove_def Let_def u_def)
  have u: "tcbs u = tcbs s" by (simp add: u_def)
  have "run_queue_head s = t \<longleftrightarrow> xs = []"
    using assms by (cases xs) (auto simp: rq_def)
  then have "run_queue_head (sched_remove t s) = (if xs = [] then next_of s t else run_queue_head s)"
    by (simp add: eq unlink_def u_def Let_def)
  moreover have "drop_links t (prev_of s t) (next_of s t) s (sched_remove t s)"
    using unlink_drop_links [of u t] r False unfolding eq by (simp add: drop_links_def u)
  ultimately show ?thesis using False by (intro ring_remove [OF assms]) auto
qed

lemma dequeue_next_remove:
  assumes "rq s (t # q)"
  shows "dequeue_next s = (t, sched_remove t s)"
  using assms rq_singleton_iff(3) [of s "[]" t q]
  by (auto simp: rq_def dequeue_next_def sched_remove_def Let_def)

lemma dequeue_next_rq [repr_simps]:
  assumes "rq s (t # q)"
  shows "\<exists>s'. dequeue_next s = (t, s') \<and> rq s' q"
  using dequeue_next_remove [OF assms] sched_remove_rq [of s "[]" t q] assms by auto

interpretation run_queue: fifo rq "\<lambda>q t. t \<noteq> 0 \<and> t \<notin> set q" enqueue
  "\<lambda>s. let (t, s) = dequeue_next s in (if t = 0 then None else Some t, s)"
proof
  show "rq (enqueue t s) (q @ [t])" if "rq s q" "t \<noteq> 0 \<and> t \<notin> set q" for s q t
    using that by (simp add: enqueue_rq)
  show "(let (t, s) = dequeue_next s in (if t = 0 then None else Some t, s)) = (None, s)" if "rq s []" for s
    using that by (simp add: dequeue_empty)
  show "\<exists>u. (let (t, s) = dequeue_next s in (if t = 0 then None else Some t, s)) = (Some t, u) \<and> rq u q"
    if "rq s (t # q)" for s t q
  proof -
    have "t \<noteq> 0" using that by (simp add: rq_def)
    with dequeue_next_rq [OF that] show ?thesis by auto
  qed
qed

section \<open>Scheduling decisions\<close>

lemma sched_remove_fields [frame_simps]:
  "state_of (sched_remove t s) x = state_of s x"
  "t_esp (tcbs (sched_remove t s) x) = t_esp (tcbs s x)"
  "t_fresh (tcbs (sched_remove t s) x) = t_fresh (tcbs s x)" "ints (sched_remove t s) = ints s"
  "quantum_remaining (tcbs (sched_remove t s) x) = quantum_remaining (tcbs s x)"
  "wake_tick (tcbs (sched_remove t s) x) = wake_tick (tcbs s x)"
  "current_thread (sched_remove t s) = current_thread s"
  "sp (sched_remove t s) = sp s" "ticks (sched_remove t s) = ticks s"
  by (auto simp: sched_remove_def unlink_def Let_def)

lemma rq_ignores [frame_simps]:
  "rq (s\<lparr>ints := b\<rparr>) q = rq s q"
  "rq (s\<lparr>need_resched := b\<rparr>) q = rq s q"
  "rq (s\<lparr>current_thread := t\<rparr>) q = rq s q"
  "rq (s\<lparr>sp := p\<rparr>) q = rq s q"
  "rq (s\<lparr>ticks := n\<rparr>) q = rq s q"
  by (rule rq_same_links; simp)+

lemma rq_upd:
  assumes "\<And>b. t_next (f b) = t_next b" "\<And>b. t_prev (f b) = t_prev b"
  shows "rq (upd t f s) q = rq s q"
  using assms by (intro rq_same_links) auto

lemma yield_empty:
  assumes "rq s []"
  shows "sched_yield s = s\<lparr>need_resched := False, ints := True\<rparr>"
proof -
  have "dequeue_next (s\<lparr>ints := False\<rparr>) = (0, s\<lparr>ints := False\<rparr>)"
    using assms by (intro dequeue_empty) (simp add: frame_simps)
  then show ?thesis by (simp add: sched_yield_def Let_def)
qed

lemma yield_step:
  assumes "rq s (n # q)" "current_thread s \<noteq> 0" "current_thread s \<notin> set (n # q)"
  defines "c \<equiv> current_thread s"
  defines "s' \<equiv> sched_yield s"
  shows "rq s' (if state_of s c = THREAD_RUNNING then q @ [c] else q)"
    and "current_thread s' = n"
    and "state_of s' x = (if x = n then THREAD_RUNNING
           else if x = c \<and> state_of s c = THREAD_RUNNING then THREAD_READY else state_of s x)"
    and "t_esp (tcbs s' c) = sp s" and "sp s' = t_esp (tcbs s n)"
    and "quantum_remaining (tcbs s' n) = SCHED_QUANTUM_TICKS"
    and "\<not> need_resched s'" and "ints s' = (\<not> t_fresh (tcbs s n))" and "next_of s' n = 0"
proof -
  define s0 where "s0 = s\<lparr>ints := False\<rparr>"
  have r0: "rq s0 (n # q)" using assms(1) by (simp add: s0_def frame_simps)
  define s1 where "s1 = sched_remove n s0"
  have dq: "dequeue_next s0 = (n, s1)" using dequeue_next_remove [OF r0] by (simp add: s1_def)
  have r1: "rq s1 q" using sched_remove_rq [of s0 "[]" n q] r0 by (simp add: s1_def)
  have n: "n \<noteq> 0" "n \<noteq> c" using assms(1,3) by (auto simp: rq_def c_def)
  have st1: "state_of s1 x = state_of s x" for x by (simp add: s1_def s0_def frame_simps)
  define s2 where "s2 = (if state_of s1 c = THREAD_RUNNING
    then enqueue c (upd c (\<lambda>b. b\<lparr>t_state := THREAD_READY\<rparr>) s1) else s1)"
  have c: "current_thread s0 = c" by (simp add: s0_def c_def)
  have r2: "rq s2 (if state_of s c = THREAD_RUNNING then q @ [c] else q)"
    using r1 assms(2,3) by (auto simp: s2_def st1 c_def intro!: enqueue_rq) (simp_all add: rq_upd)
  have y: "s' = (let s = upd n (\<lambda>b. b\<lparr>quantum_remaining := SCHED_QUANTUM_TICKS\<rparr>)
      (upd n (\<lambda>b. b\<lparr>t_state := THREAD_RUNNING\<rparr>)
        (upd c (\<lambda>b. b\<lparr>quantum_remaining := SCHED_QUANTUM_TICKS\<rparr>) s2));
      s = (s\<lparr>need_resched := False\<rparr>)\<lparr>current_thread := n\<rparr>
    in if t_fresh (tcbs s n) then switch_context c (t_esp (tcbs s n)) s
       else (switch_context c (t_esp (tcbs s n)) s)\<lparr>ints := True\<rparr>)"
    using n by (simp add: s'_def sched_yield_def Let_def s0_def [symmetric] dq c s2_def thread_set_current_def)
  show "rq s' (if state_of s c = THREAD_RUNNING then q @ [c] else q)"
  proof -
    have "rq s' l = rq s2 l" for l
      by (simp add: y Let_def switch_context_def frame_simps rq_upd)
    with r2 show ?thesis by blast
  qed
  have esp: "t_esp (tcbs s2 x) = t_esp (tcbs s x)" "t_fresh (tcbs s2 x) = t_fresh (tcbs s x)"
    and off: "\<not> ints s2" for x
    by (simp_all add: s2_def s1_def s0_def frame_simps)
  show "current_thread s' = n" "\<not> need_resched s'" "ints s' = (\<not> t_fresh (tcbs s n))"
    using n off by (simp_all add: y Let_def switch_context_def esp)
  have sp2: "sp s2 = sp s" by (simp add: s2_def s1_def s0_def frame_simps)
  show "state_of s' x = (if x = n then THREAD_RUNNING
           else if x = c \<and> state_of s c = THREAD_RUNNING then THREAD_READY else state_of s x)"
    using n by (simp add: y Let_def switch_context_def s2_def frame_simps st1)
  show "t_esp (tcbs s' c) = sp s" "sp s' = t_esp (tcbs s n)"
    "quantum_remaining (tcbs s' n) = SCHED_QUANTUM_TICKS"
    using n by (simp_all add: y Let_def switch_context_def esp sp2)
  have "next_of s2 n = 0"
  proof -
    have z: "next_of s1 n = 0" using rq_singleton_iff(3) [of s0 "[]" n q] r0
      by (simp add: s1_def sched_remove_def Let_def)
    have "n \<notin> set q" "c \<notin> set q" using assms(1,3) by (auto simp: rq_def c_def)
    with n r1 have "next_of (enqueue c (upd c (\<lambda>b. b\<lparr>t_state := THREAD_READY\<rparr>) s1)) n = next_of s1 n"
      by (subst enqueue_other_links [where q = q]) (simp_all add: rq_upd)
    with z show ?thesis by (simp add: s2_def)
  qed
  then show "next_of s' n = 0" using n by (simp add: y Let_def switch_context_def)
qed

text \<open>
  The invariant between scheduler calls: the run queue is well formed, it holds the ready
  threads, and the running thread is not in it.
\<close>

definition sched_inv :: "sched \<Rightarrow> tptr list \<Rightarrow> bool" where
  "sched_inv s q \<longleftrightarrow> rq s q \<and> current_thread s \<noteq> 0 \<and> current_thread s \<notin> set q \<and>
     state_of s (current_thread s) = THREAD_RUNNING \<and> (\<forall>t\<in>set q. state_of s t = THREAD_READY)"

lemma rq_distinct: "rq s q \<Longrightarrow> distinct q \<and> 0 \<notin> set q"
  by (auto simp: rq_def split: if_splits)

lemma yield_inv:
  assumes "sched_inv s q"
  obtains q' where "sched_inv (sched_yield s) q'"
    "current_thread (sched_yield s) # q' = rotate1 (current_thread s # q)"
proof (cases q)
  case Nil
  with assms have "sched_inv (sched_yield s) []" "current_thread (sched_yield s) = current_thread s"
    by (simp_all add: sched_inv_def yield_empty frame_simps)
  with Nil that [of "[]"] show thesis by simp
next
  case (Cons n r)
  let ?c = "current_thread s"
  from assms Cons have pre: "rq s (n # r)" "?c \<noteq> 0" "?c \<notin> set (n # r)" "state_of s ?c = THREAD_RUNNING"
    by (auto simp: sched_inv_def)
  note step = yield_step [OF pre(1-3)]
  have "sched_inv (sched_yield s) (r @ [?c])"
    unfolding sched_inv_def
    using step(1,2,3) pre assms Cons rq_distinct [OF pre(1)] by (auto simp: sched_inv_def)
  with step(2) Cons that [of "r @ [?c]"] show thesis by simp
qed

lemma yields_rotate:
  assumes "sched_inv s q"
  shows "\<exists>q'. sched_inv ((sched_yield ^^ k) s) q' \<and>
    current_thread ((sched_yield ^^ k) s) # q' = rotate k (current_thread s # q)"
proof (induction k)
  case 0
  with assms show ?case by auto
next
  case (Suc k)
  then obtain q' where q': "sched_inv ((sched_yield ^^ k) s) q'"
    "current_thread ((sched_yield ^^ k) s) # q' = rotate k (current_thread s # q)" by blast
  from yield_inv [OF q'(1)] obtain r where r: "sched_inv (sched_yield ((sched_yield ^^ k) s)) r"
    "current_thread (sched_yield ((sched_yield ^^ k) s)) # r =
       rotate1 (current_thread ((sched_yield ^^ k) s) # q')" .
  then show ?case unfolding q'(2) by (auto simp: rotate_def)
qed

section \<open>The timer tick\<close>

lemma wake_one_fields [frame_simps]:
  "next_of (wake_one now t s) x = next_of s x" "prev_of (wake_one now t s) x = prev_of s x"
  "current_thread (wake_one now t s) = current_thread s"
  "run_queue_head (wake_one now t s) = run_queue_head s"
  "state_of (wake_one now t s) x =
     (if x = t \<and> state_of s t = THREAD_SLEEPING \<and> wake_tick (tcbs s t) \<le> now
      then THREAD_READY else state_of s x)"
  "wake_tick (tcbs (wake_one now t s) x) = wake_tick (tcbs s x)"
  "need_resched (wake_one now t s) = need_resched s"
  "quantum_remaining (tcbs (wake_one now t s) x) = quantum_remaining (tcbs s x)"
  by (simp_all add: wake_one_def)

lemma rq_wake_one [frame_simps]: "rq (wake_one now t s) q = rq s q"
  by (intro rq_same_links) (simp_all add: frame_simps)

lemma tick_loop_visits:
  assumes "rq s (xs @ t # ys)"
  shows "tick_loop now (hd (xs @ [t])) t s = Some (fold (wake_one now) (t # ys) s)"
  using assms
proof (induction ys arbitrary: xs t s)
  case Nil
  have "next_of s t = hd (xs @ [t])" using Nil by (cases xs) (auto simp: rq_def)
  then show ?case by (subst tick_loop.simps) (simp add: Let_def frame_simps)
next
  case (Cons y ys)
  have c: "distinct (xs @ t # y # ys)" "0 \<notin> set (xs @ t # y # ys)" "chain s (xs @ t # y # ys)"
    using Cons.prems by (simp_all add: rq_def)
  have d: "y \<noteq> 0" "y \<noteq> hd (xs @ [t])" using c(1,2) by (cases xs; auto)+
  have nx: "next_of s t = y" using c(3) by (cases "xs = []") (simp_all add: chain_append)
  have r: "rq (wake_one now t s) ((xs @ [t]) @ y # ys)" using Cons.prems by (simp add: frame_simps)
  have h: "hd ((xs @ [t]) @ [y]) = hd (xs @ [t])" by (cases xs) auto
  have "tick_loop now (hd (xs @ [t])) t s = tick_loop now (hd (xs @ [t])) y (wake_one now t s)"
    using d nx by (subst tick_loop.simps) (simp only: Let_def frame_simps simp_thms if_True)
  also have "\<dots> = Some (fold (wake_one now) (y # ys) (wake_one now t s))"
    using Cons.IH [OF r] unfolding h .
  finally show ?case by simp
qed

lemma fold_wake_fields [frame_simps]:
  "rq (fold (wake_one now) ts s) q = rq s q"
  "current_thread (fold (wake_one now) ts s) = current_thread s"
  "next_of (fold (wake_one now) ts s) x = next_of s x"
  "need_resched (fold (wake_one now) ts s) = need_resched s"
  "quantum_remaining (tcbs (fold (wake_one now) ts s) x) = quantum_remaining (tcbs s x)"
  "wake_tick (tcbs (fold (wake_one now) ts s) x) = wake_tick (tcbs s x)"
  by (rule fold_unchanged; simp add: frame_simps)+

lemma fold_wake_state [frame_simps]:
  "state_of (fold (wake_one now) ts s) x =
     (if x \<in> set ts \<and> state_of s x = THREAD_SLEEPING \<and> wake_tick (tcbs s x) \<le> now
      then THREAD_READY else state_of s x)"
  by (induction ts arbitrary: s) (auto simp: frame_simps)

lemma word_le_one_iff: "(w :: u32) \<le> 1 \<longleftrightarrow> w = 0 \<or> w - 1 = 0"
proof -
  have "w \<le> 1 \<longleftrightarrow> unat w = 0 \<or> unat w = 1" by (auto simp: word_le_nat_alt)
  also have "\<dots> \<longleftrightarrow> w = 0 \<or> w = 1" by (auto intro: unat_inj)
  finally show ?thesis by auto
qed

lemma sched_tick_exec:
  assumes "rq s q" "current_thread s \<noteq> 0"
  shows "\<exists>s1. sched_tick s = Some (fold (wake_one (ticks s)) q s1) \<and> rq s1 q \<and>
    current_thread s1 = current_thread s \<and> (\<forall>x. next_of s1 x = next_of s x) \<and>
    (\<forall>x. state_of s1 x = state_of s x) \<and> (\<forall>x. wake_tick (tcbs s1 x) = wake_tick (tcbs s x)) \<and>
    quantum_remaining (tcbs s1 (current_thread s)) = quantum_remaining (tcbs s (current_thread s)) -
      (if quantum_remaining (tcbs s (current_thread s)) = 0 then 0 else 1) \<and>
    need_resched s1 = (need_resched s \<or> quantum_remaining (tcbs s (current_thread s)) \<le> 1)"
proof -
  let ?c = "current_thread s" and ?qr = "quantum_remaining (tcbs s (current_thread s))"
  define s0 where "s0 = (if ?qr > 0
    then upd ?c (\<lambda>b. b\<lparr>quantum_remaining := quantum_remaining b - 1\<rparr>) s else s)"
  define s1 where "s1 = (if quantum_remaining (tcbs s0 ?c) = 0 then s0\<lparr>need_resched := True\<rparr> else s0)"
  have r0: "rq s0 q" using assms(1) by (simp add: s0_def rq_upd)
  have r1: "rq s1 q" using r0 by (simp add: s1_def frame_simps)
  have le1: "?qr \<le> 1 \<longleftrightarrow> ?qr = 0 \<or> ?qr - 1 = 0" by (rule word_le_one_iff)
  have q0: "quantum_remaining (tcbs s0 ?c) = ?qr - (if ?qr = 0 then 0 else 1)"
    by (simp add: s0_def word_gt_0)
  have nr: "need_resched s1 = (need_resched s \<or> ?qr \<le> 1)"
    unfolding le1 by (simp add: s1_def q0) (simp add: s0_def)
  have ex: "sched_tick s = (if run_queue_head s1 = 0 then Some s1
      else tick_loop (ticks s1) (run_queue_head s1) (run_queue_head s1) s1)"
    using assms(2) by (simp add: sched_tick_def Let_def s0_def s1_def)
  have tk: "ticks s1 = ticks s" by (simp add: s1_def s0_def)
  have "sched_tick s = Some (fold (wake_one (ticks s)) q s1)"
  proof (cases q)
    case Nil
    with r1 ex show ?thesis by (simp add: rq_def)
  next
    case (Cons t ys)
    with r1 have "run_queue_head s1 = t" "t \<noteq> 0" by (auto simp: rq_def)
    with tick_loop_visits [of s1 "[]" t ys "ticks s"] Cons r1 ex tk show ?thesis by simp
  qed
  moreover have "quantum_remaining (tcbs s1 ?c) = quantum_remaining (tcbs s0 ?c)" by (simp add: s1_def)
  ultimately show ?thesis
    using r1 nr q0 by (intro exI [of _ s1]) (simp add: s1_def s0_def)
qed

section \<open>What can happen to a scheduler\<close>

text \<open>
  The steps of the running system: the current thread yields, sleeps or exits, the timer
  interrupt sets the clock and runs \<^verbatim>\<open>sched_tick\<close>, and a thread that is in no queue is added.
\<close>

inductive sched_step :: "sched \<Rightarrow> sched \<Rightarrow> bool" where
  yield: "sched_step s (sched_yield s)"
| tick: "sched_tick (s\<lparr>ticks := now\<rparr>) = Some s' \<Longrightarrow> sched_step s s'"
| sleep: "sched_step s (sched_sleep ms s)"
| exit: "sched_step s (thread_exit s)"
| add: "u \<noteq> 0 \<Longrightarrow> u \<noteq> current_thread s \<Longrightarrow> next_of s u = 0 \<Longrightarrow> state_of s u = THREAD_READY \<Longrightarrow>
    sched_step s (sched_add u s)"

text \<open>Thread \<open>t\<close> sleeps outside the run queue while another thread runs.\<close>

definition parked :: "tptr \<Rightarrow> sched \<Rightarrow> bool" where
  "parked t s \<longleftrightarrow> (\<exists>q. rq s q \<and> t \<notin> set q \<and> current_thread s \<notin> set q) \<and>
     current_thread s \<noteq> 0 \<and> next_of s (current_thread s) = 0 \<and>
     t \<noteq> current_thread s \<and> state_of s t = THREAD_SLEEPING"

lemma yield_parked [inv_intros]:
  assumes "parked t s"
  shows "parked t (sched_yield s)"
proof -
  let ?c = "current_thread s"
  obtain q where q: "rq s q" "t \<notin> set q" "?c \<notin> set q" using assms by (auto simp: parked_def)
  have p: "?c \<noteq> 0" "next_of s ?c = 0" "t \<noteq> ?c" "state_of s t = THREAD_SLEEPING"
    using assms by (simp_all add: parked_def)
  show ?thesis
  proof (cases q)
    case Nil
    with q p show ?thesis by (auto simp: parked_def yield_empty frame_simps intro!: exI [of _ "[]"])
  next
    case (Cons n r)
    note step = yield_step [OF q(1) [unfolded Cons] p(1) q(3) [unfolded Cons]]
    have n: "n \<noteq> 0" "n \<noteq> ?c" "n \<notin> set r" "n \<noteq> t"
      using q Cons rq_distinct [OF q(1)] by auto
    show ?thesis
      unfolding parked_def step(2)
      using step(1,3,9) n q p Cons by (auto intro!: exI conjI split: if_splits)
  qed
qed

lemma parked_upd_current [inv_intros]:
  assumes "parked t s" "\<And>b. t_next (f b) = t_next b" "\<And>b. t_prev (f b) = t_prev b"
  shows "parked t (upd (current_thread s) f s)"
  using assms by (auto simp: parked_def rq_upd)

lemma sched_remove_noop: "next_of s t = 0 \<Longrightarrow> sched_remove t s = s"
  by (simp add: sched_remove_def)

lemma parked_nthreads: "parked t (s\<lparr>nthreads := k\<rparr>) = parked t s"
proof -
  have "rq (s\<lparr>nthreads := k\<rparr>) q = rq s q" for q by (rule rq_same_links) simp_all
  then show ?thesis by (simp add: parked_def)
qed

lemma parked_clock: "parked t (s\<lparr>ticks := now\<rparr>) = parked t s"
  by (simp add: parked_def frame_simps)

lemma parked_step [inv_intros]:
  assumes "sched_step s s'" "parked t s"
  shows "parked t s'"
  using assms(1)
proof (cases rule: sched_step.cases)
  case yield
  with assms(2) show ?thesis by (simp add: inv_intros)
next
  case (tick now)
  have p: "parked t (s\<lparr>ticks := now\<rparr>)" using assms(2) by (simp add: parked_clock)
  then obtain q where q: "rq (s\<lparr>ticks := now\<rparr>) q" "t \<notin> set q" "current_thread s \<notin> set q"
    by (auto simp: parked_def)
  from sched_tick_exec [OF q(1)] p tick show ?thesis
    using q by (auto simp: parked_def frame_simps)
next
  case (sleep ms)
  define u where "u = upd (current_thread s) (\<lambda>b. b\<lparr>t_state := THREAD_SLEEPING\<rparr>) s"
  define v where "v = upd (current_thread u) (\<lambda>b. b\<lparr>wake_tick := ticks s + ucast ms div 10\<rparr>) u"
  have "parked t v" unfolding v_def u_def using assms(2) by (intro inv_intros) auto
  moreover from this have "next_of v (current_thread s) = 0" by (simp add: parked_def v_def u_def)
  then have "s' = sched_yield v"
    using sleep by (simp add: sched_sleep_def Let_def sched_remove_noop v_def u_def)
  ultimately show ?thesis by (simp add: inv_intros)
next
  case exit
  define u where "u = upd (current_thread s) (\<lambda>b. b\<lparr>t_state := THREAD_ZOMBIE\<rparr>) s"
  have "parked t u" unfolding u_def using assms(2) by (intro inv_intros) auto
  then have "parked t (u\<lparr>nthreads := nthreads u - 1\<rparr>)" by (simp only: parked_nthreads)
  then show ?thesis using exit yield_parked by (simp add: thread_exit_def Let_def u_def)
next
  case (add u)
  obtain q where q: "rq s q" "t \<notin> set q" "current_thread s \<notin> set q"
    using assms(2) by (auto simp: parked_def)
  have "u \<notin> set q" using q(1) add(4) rq_singleton_iff(3) by (metis split_list)
  moreover have "u \<noteq> t" using assms(2) add by (auto simp: parked_def)
  ultimately show ?thesis
    using enqueue_rq [OF q(1) add(2)] q add assms(2) enqueue_other_links [OF q(1), of "current_thread s" u]
    by (auto simp: parked_def sched_add_def frame_simps intro!: exI [of _ "q @ [u]"])
qed

interpretation parked: invariant_of sched_step "parked t" for t
  by unfold_locales (rule parked_step)

lemma sleep_parks:
  assumes "sched_inv s q" "q \<noteq> []" "next_of s (current_thread s) = 0"
  shows "parked (current_thread s) (sched_sleep ms s)"
proof -
  obtain n r where q: "q = n # r" using assms(2) by (cases q) auto
  let ?c = "current_thread s"
  define v where "v = upd ?c (\<lambda>b. b\<lparr>wake_tick := ticks s + ucast ms div 10\<rparr>)
    (upd ?c (\<lambda>b. b\<lparr>t_state := THREAD_SLEEPING\<rparr>) s)"
  have i: "rq s (n # r)" "?c \<noteq> 0" "?c \<notin> set (n # r)" using assms(1) q by (auto simp: sched_inv_def)
  have v: "rq v (n # r)" "current_thread v = ?c" "state_of v ?c = THREAD_SLEEPING" "next_of v ?c = 0"
    using i assms(3) by (simp_all add: v_def rq_upd)
  have "sched_sleep ms s = sched_yield v"
    using v(4) by (simp add: sched_sleep_def Let_def sched_remove_noop v_def)
  moreover note yield_step [OF v(1), unfolded v(2), OF i(2,3)]
  moreover have "n \<noteq> 0" "n \<noteq> ?c" "n \<notin> set r" using i rq_distinct [OF i(1)] by auto
  ultimately show ?thesis using v(3) i(3) by (auto simp: parked_def)
qed

section \<open>Correctness\<close>

text \<open>The run queue right after boot, with two threads added: the idle thread at 4 runs.\<close>

definition boot_sched :: sched where
  "boot_sched = \<lparr>tcbs = (\<lambda>_. \<lparr>t_id = 0, t_name = [], t_state = THREAD_READY, t_esp = 0, t_stack = 0,
     wake_tick = 0, quantum_remaining = 0, t_next = 0, t_prev = 0, t_fresh = True\<rparr>), run_queue_head = 0,
     need_resched = False, current_thread = 0, next_id = 0, nthreads = 0, ticks = 0, sp = 0,
     ints = True, stack_mem = (\<lambda>_. 0)\<rparr>"

definition sample_sched :: sched where
  "sample_sched = fold sched_add [2, 3] (sched_init 4 0x1000 boot_sched)"

lemmas sample_sched_eval = sample_sched_def boot_sched_def sched_add_def sched_init_def
  thread_init_idle_def enqueue_def Let_def upd_def

lemma sample_sched_inv: "sched_inv sample_sched [2, 3]"
  by (simp add: sched_inv_def rq_def sample_sched_eval)

lemma sample_sched_current: "current_thread sample_sched = 4" "next_of sample_sched 4 = 0"
  by (simp_all add: sample_sched_eval)



text \<open>C3: scheduling is round robin.  After any number \<open>k\<close> of calls of \<^verbatim>\<open>sched_yield\<close> the invariant
  holds, the running thread and the run queue are the original ones rotated by \<open>k\<close>, and so the
  thread at position \<open>i\<close> of the queue runs after exactly \<open>i + 1\<close> yields: no thread starves.\<close>

theorem sched_yield_round_robin:
  assumes "sched_inv s q"
  shows "(\<exists>q'. sched_inv ((sched_yield ^^ k) s) q' \<and>
      current_thread ((sched_yield ^^ k) s) # q' = rotate k (current_thread s # q)) \<and>
    (\<forall>i < length q. current_thread ((sched_yield ^^ Suc i) s) = q ! i)"
proof -
  have "current_thread ((sched_yield ^^ Suc i) s) = q ! i" if "i < length q" for i
  proof -
    obtain q' where "current_thread ((sched_yield ^^ Suc i) s) # q' = rotate (Suc i) (current_thread s # q)"
      using yields_rotate [OF assms] by blast
    then have "current_thread ((sched_yield ^^ Suc i) s) = hd (rotate (Suc i) (current_thread s # q))"
      by (metis list.sel(1))
    with that show ?thesis by (simp only: hd_rotate_conv_nth) (simp add: hd_rotate_conv_nth del: rotate_Suc)
  qed
  with yields_rotate [OF assms] show ?thesis by blast
qed

theorem sched_yield_round_robin_witness:
  "(\<exists>q'. sched_inv ((sched_yield ^^ 2) sample_sched) q' \<and>
      current_thread ((sched_yield ^^ 2) sample_sched) # q' = [3, 4, 2]) \<and>
   current_thread ((sched_yield ^^ Suc 1) sample_sched) = 3"
proof -
  note r = sched_yield_round_robin [OF sample_sched_inv, of 2]
  have "current_thread ((sched_yield ^^ Suc 1) sample_sched) = [2, 3] ! 1"
    using r [THEN conjunct2] by (metis One_nat_def length_Cons lessI list.size(3))
  with r show ?thesis by (simp add: sample_sched_current numeral_2_eq_2)
qed

text \<open>What one call of \<^verbatim>\<open>sched_yield\<close> does when a thread is ready: the head of the queue becomes the
  running thread with a full quantum, the old thread goes to the tail exactly when it was
  running, its stack pointer is saved and the new one's loaded, the reschedule request is
  cleared, and interrupts are enabled again unless the new thread runs for the first time.\<close>

theorem sched_yield_switches:
  assumes "rq s (n # q)" "current_thread s \<noteq> 0" "current_thread s \<notin> set (n # q)"
  shows "current_thread (sched_yield s) = n \<and> state_of (sched_yield s) n = THREAD_RUNNING \<and>
    rq (sched_yield s) (if state_of s (current_thread s) = THREAD_RUNNING then q @ [current_thread s] else q) \<and>
    t_esp (tcbs (sched_yield s) (current_thread s)) = sp s \<and> sp (sched_yield s) = t_esp (tcbs s n) \<and>
    quantum_remaining (tcbs (sched_yield s) n) = SCHED_QUANTUM_TICKS \<and>
    \<not> need_resched (sched_yield s) \<and> ints (sched_yield s) = (\<not> t_fresh (tcbs s n))"
  using yield_step [OF assms] by simp

theorem sched_yield_switches_witness:
  "current_thread (sched_yield sample_sched) = 2 \<and> rq (sched_yield sample_sched) [3, 4]"
proof -
  have r: "rq sample_sched [2, 3]" "state_of sample_sched 4 = THREAD_RUNNING"
    using sample_sched_inv by (simp_all add: sched_inv_def sample_sched_current)
  show ?thesis using sched_yield_switches [OF r(1)] r(2) by (simp add: sample_sched_current)
qed

text \<open>\<^verbatim>\<open>sched_tick\<close> ends on every well-formed run queue.  It leaves the queue and the running thread
  alone, takes one tick off the running thread's quantum without going below zero, requests a
  reschedule when the quantum is used up, and makes ready exactly the sleeping threads in the
  queue whose wake time has come.\<close>

theorem sched_tick_effect:
  assumes "rq s q" "current_thread s \<noteq> 0"
  shows "\<exists>s'. sched_tick s = Some s' \<and> rq s' q \<and> current_thread s' = current_thread s \<and>
    (\<forall>x. state_of s' x = (if x \<in> set q \<and> state_of s x = THREAD_SLEEPING \<and> wake_tick (tcbs s x) \<le> ticks s
       then THREAD_READY else state_of s x)) \<and>
    quantum_remaining (tcbs s' (current_thread s)) = quantum_remaining (tcbs s (current_thread s)) -
      (if quantum_remaining (tcbs s (current_thread s)) = 0 then 0 else 1) \<and>
    need_resched s' = (need_resched s \<or> quantum_remaining (tcbs s (current_thread s)) \<le> 1)"
  using sched_tick_exec [OF assms] by (auto simp: frame_simps)

theorem sched_tick_effect_witness:
  "\<exists>s'. sched_tick sample_sched = Some s' \<and> rq s' [2, 3] \<and> quantum_remaining (tcbs s' 4) = 9"
  using sched_tick_effect [of sample_sched "[2, 3]"] sample_sched_inv
  by (auto simp: sched_inv_def sample_sched_current)
     (auto simp: sample_sched_eval SCHED_QUANTUM_TICKS_def)

text \<open>C25: a thread that calls \<^verbatim>\<open>sched_sleep\<close> while another is ready leaves the run queue, and the timer
  only looks for sleepers in the run queue: after any sequence of ticks at any clock values,
  yields, sleeps, exits and added threads it still sleeps and has not run again.\<close>

theorem sched_sleep_never_wakes:
  assumes "sched_inv s q" "q \<noteq> []" "next_of s (current_thread s) = 0"
    and "sched_step\<^sup>*\<^sup>* (sched_sleep ms s) s'"
  shows "state_of s' (current_thread s) = THREAD_SLEEPING \<and> current_thread s' \<noteq> current_thread s"
  using parked.reach [OF assms(4) sleep_parks [OF assms(1-3)]] by (auto simp: parked_def)

theorem sched_sleep_never_wakes_witness:
  "state_of (sched_yield (sched_yield (sched_sleep 20 sample_sched))) 4 = THREAD_SLEEPING"
proof -
  have "sched_step\<^sup>*\<^sup>* (sched_sleep 20 sample_sched) (sched_yield (sched_yield (sched_sleep 20 sample_sched)))"
    by (meson rtranclp.rtrancl_into_rtrancl rtranclp.rtrancl_refl sched_step.yield)
  with sched_sleep_never_wakes [OF sample_sched_inv] show ?thesis by (simp add: sample_sched_current)
qed

lemma saved_regs_words:
  "saved_regs X86 = Suc (Suc (Suc (Suc 0)))" "saved_regs X86_64 = Suc (Suc (Suc (Suc (Suc (Suc 0)))))"
  by simp_all

text \<open>On both targets the stack that \<^verbatim>\<open>thread_create\<close> prepares makes the first switch to the thread
  pop zeroed registers, return to the trampoline and enter the thread's function with its
  argument, with the stack pointer at the top of the stack; nothing outside that stack and that
  control block is written, the identifier is the next one and the name fits its array.\<close>

theorem thread_create_entry:
  assumes "thread_create a trampoline t stack name fn arg s = Done (t', s')"
  shows "t' = t \<and> thread_entry a (stack_mem s') (t_esp (tcbs s' t)) =
      (replicate (saved_regs a) 0, trampoline, fn, arg, stack + THREAD_STACK_SIZE) \<and>
    (\<forall>p. p < stack \<or> stack + THREAD_STACK_SIZE \<le> p \<longrightarrow> stack_mem s' p = stack_mem s p) \<and>
    t_state (tcbs s' t) = THREAD_READY \<and> t_id (tcbs s' t) = next_id s \<and> next_id s' = next_id s + 1 \<and>
    length (t_name (tcbs s' t)) < THREAD_NAME_LEN \<and> (\<forall>u. u \<noteq> t \<longrightarrow> tcbs s' u = tcbs s u)"
  using assms
  by (cases a) (auto simp: thread_create_def push_word_def thread_entry_def THREAD_STACK_SIZE_def
      THREAD_NAME_LEN_def Let_def saved_regs_words simp del: saved_regs.simps split: if_splits)

theorem thread_create_entry_witness:
  "\<exists>t s. thread_create X86_64 500 2 0x8000 ''shell'' 600 700 boot_sched = Done (t, s) \<and>
     snd (thread_entry X86_64 (stack_mem s) (t_esp (tcbs s 2))) = (500, 600, 700, 0xC000)"
proof -
  obtain t s where r: "thread_create X86_64 500 2 0x8000 ''shell'' 600 700 boot_sched = Done (t, s)"
    by (fastforce simp: thread_create_def split: prod.splits)
  with thread_create_entry [OF r] show ?thesis by (auto simp: THREAD_STACK_SIZE_def)
qed

end
