(* ===== verification/Spinlock.thy ===== *)
theory Spinlock
  imports Prelude
begin

unbundle bit_operations_syntax

text \<open>
  The spin lock \<^verbatim>\<open>libs/libk/spinlock.c\<close> under arbitrary interleaving.  The two atomic builtins act
  on the lock word; every processor that runs the code is in one of three places, and one step
  of the system is one atomic operation of one processor.
\<close>

section \<open>The atomic operations\<close>

type_synonym lock = u32

text \<open>\<^verbatim>\<open>__atomic_test_and_set\<close> and \<^verbatim>\<open>__atomic_clear\<close> act on the byte at the address they get, the low byte
  of the lock word: the first sets it to 1 and tells whether it was set before.\<close>

definition test_and_set :: "lock \<Rightarrow> bool \<times> lock" where
  "test_and_set l = (l AND 0xFF \<noteq> 0, l AND NOT 0xFF OR 1)"

definition atomic_clear :: "lock \<Rightarrow> lock" where
  "atomic_clear l = l AND NOT 0xFF"

definition SPINLOCK_INIT :: lock where "SPINLOCK_INIT = 0"

text \<open>One round of the loop of \<^verbatim>\<open>spinlock_acquire\<close>: whether the loop is left, and the lock word.\<close>

definition spinlock_acquire :: "lock \<Rightarrow> bool \<times> lock" where
  "spinlock_acquire l = (let (was, l) = test_and_set l in (\<not> was, l))"

definition spinlock_release :: "lock \<Rightarrow> lock" where
  "spinlock_release l = atomic_clear l"

definition spinlock_try_acquire :: "lock \<Rightarrow> bool \<times> lock" where
  "spinlock_try_acquire l = (let (was, l) = test_and_set l in (\<not> was, l))"

section \<open>Interleaving\<close>

datatype place = Outside | Spinning | Inside

record spin =
  lock_word :: lock
  place_of :: "nat \<Rightarrow> place"

inductive spin_step :: "spin \<Rightarrow> spin \<Rightarrow> bool" where
  call: "place_of s i = Outside \<Longrightarrow>
    spin_step s (s\<lparr>place_of := (place_of s)(i := Spinning)\<rparr>)"
| spin: "place_of s i = Spinning \<Longrightarrow> spinlock_acquire (lock_word s) = (got, l) \<Longrightarrow>
    spin_step s (s\<lparr>lock_word := l, place_of := (place_of s)(i := if got then Inside else Spinning)\<rparr>)"
| try_lock: "place_of s i = Outside \<Longrightarrow> spinlock_try_acquire (lock_word s) = (got, l) \<Longrightarrow>
    spin_step s (s\<lparr>lock_word := l, place_of := (place_of s)(i := if got then Inside else Outside)\<rparr>)"
| release: "place_of s i = Inside \<Longrightarrow>
    spin_step s (s\<lparr>lock_word := spinlock_release (lock_word s), place_of := (place_of s)(i := Outside)\<rparr>)"

definition spin_start :: spin where
  "spin_start = \<lparr>lock_word = SPINLOCK_INIT, place_of = (\<lambda>_. Outside)\<rparr>"

definition spin_inv :: "spin \<Rightarrow> bool" where
  "spin_inv s \<longleftrightarrow> lock_word s \<in> {0, 1} \<and> (lock_word s = 0 \<longleftrightarrow> (\<forall>i. place_of s i \<noteq> Inside)) \<and>
     (\<forall>i j. place_of s i = Inside \<longrightarrow> place_of s j = Inside \<longrightarrow> i = j)"

lemmas spin_defs = test_and_set_def spinlock_acquire_def spinlock_try_acquire_def spinlock_release_def atomic_clear_def

lemma spinlock_ops:
  assumes "spin_inv s"
  shows "spinlock_acquire (lock_word s) = (lock_word s = 0, 1)"
    and "spinlock_try_acquire (lock_word s) = (lock_word s = 0, 1)"
    and "spinlock_release (lock_word s) = 0"
  using assms by (auto simp: spin_inv_def spin_defs)

lemma spin_inv_start: "spin_inv spin_start"
  by (simp add: spin_inv_def spin_start_def SPINLOCK_INIT_def)

text \<open>The atomic operation lets a processor in only when nobody is inside.\<close>

lemma spin_inv_test_and_set:
  assumes "spin_inv s" "place_of s i \<noteq> Inside" "p \<noteq> Inside"
  shows "spin_inv (s\<lparr>lock_word := 1, place_of := (place_of s)(i := if lock_word s = 0 then Inside else p)\<rparr>)"
proof (cases "lock_word s = 0")
  case True
  then have "place_of s j \<noteq> Inside" for j using assms(1) by (simp add: spin_inv_def)
  then show ?thesis using True by (auto simp: spin_inv_def)
next
  case False
  then obtain j where j: "place_of s j = Inside" using assms(1) by (auto simp: spin_inv_def)
  with assms(2) have "j \<noteq> i" by auto
  then show ?thesis using False j assms by (auto simp: spin_inv_def)
qed

lemma spin_inv_step [inv_intros]: "spin_step s t \<Longrightarrow> spin_inv s \<Longrightarrow> spin_inv t"
proof (induction rule: spin_step.induct)
  case (call s i)
  then have "((place_of s)(i := Spinning)) j = Inside \<longleftrightarrow> place_of s j = Inside" for j by simp
  then show ?case using call.prems by (auto simp: spin_inv_def)
next
  case (spin s i got l)
  then show ?case using spin_inv_test_and_set [of s i Spinning] by (auto simp: spinlock_ops)
next
  case (try_lock s i got l)
  then show ?case using spin_inv_test_and_set [of s i Outside] by (auto simp: spinlock_ops)
next
  case (release s i)
  then show ?case using spinlock_ops(3) [of s] by (auto simp: spin_inv_def)
qed

interpretation spin: invariant_of spin_step spin_inv
  by unfold_locales (rule spin_inv_step)

section \<open>Correctness\<close>

text \<open>C30: the lock excludes: however the atomic operations of any number of processors interleave, at
  most one of them holds the lock, and the lock word is zero exactly when none does.\<close>

theorem spinlock_mutual_exclusion:
  assumes "spin_step\<^sup>*\<^sup>* spin_start s"
  shows "(place_of s i = Inside \<and> place_of s j = Inside \<longrightarrow> i = j) \<and>
    (lock_word s = 0 \<longleftrightarrow> (\<forall>k. place_of s k \<noteq> Inside))"
  using spin.reach [OF assms spin_inv_start] by (auto simp: spin_inv_def)

theorem spinlock_mutual_exclusion_witness:
  "\<exists>s. spin_step\<^sup>*\<^sup>* spin_start s \<and> place_of s 3 = Inside \<and> place_of s 5 \<noteq> Inside \<and> lock_word s \<noteq> 0"
proof -
  have "spinlock_try_acquire (lock_word spin_start) = (True, 1)" by (simp add: spin_defs spin_start_def SPINLOCK_INIT_def)
  from spin_step.try_lock [OF _ this, of 3]
  have "\<exists>s. spin_step spin_start s \<and> place_of s 3 = Inside" by (fastforce simp: spin_start_def)
  then obtain s where s: "spin_step\<^sup>*\<^sup>* spin_start s" "place_of s 3 = Inside" by auto
  from spinlock_mutual_exclusion [OF s(1), of 3 5] s show ?thesis by auto
qed

text \<open>The lock does not get stuck: in every reachable state in which nobody holds it, a processor
  that spins gets it with its next operation, and one that holds it can release it.\<close>

theorem spinlock_progress:
  assumes "spin_step\<^sup>*\<^sup>* spin_start s"
  shows "((\<forall>k. place_of s k \<noteq> Inside) \<and> place_of s i = Spinning \<longrightarrow> (\<exists>t. spin_step s t \<and> place_of t i = Inside)) \<and>
    (place_of s i = Inside \<longrightarrow> (\<exists>t. spin_step s t \<and> lock_word t = 0 \<and> place_of t i = Outside))"
proof (intro conjI impI)
  note inv = spin.reach [OF assms spin_inv_start]
  assume free: "(\<forall>k. place_of s k \<noteq> Inside) \<and> place_of s i = Spinning"
  with inv have "lock_word s = 0" by (simp add: spin_inv_def)
  then have "spinlock_acquire (lock_word s) = (True, 1)" using spinlock_ops(1) [OF inv] by simp
  from spin_step.spin [OF conjunct2 [OF free] this] show "\<exists>t. spin_step s t \<and> place_of t i = Inside" by fastforce
next
  note inv = spin.reach [OF assms spin_inv_start]
  assume "place_of s i = Inside"
  from spin_step.release [OF this] show "\<exists>t. spin_step s t \<and> lock_word t = 0 \<and> place_of t i = Outside"
    by (fastforce simp: spinlock_ops [OF inv])
qed

theorem spinlock_progress_witness:
  "\<exists>t. spin_step (spin_start\<lparr>place_of := (\<lambda>_. Outside)(3 := Spinning)\<rparr>) t \<and> place_of t 3 = Inside"
proof -
  have "spin_step spin_start (spin_start\<lparr>place_of := (place_of spin_start)(3 := Spinning)\<rparr>)"
    by (rule spin_step.call) (simp add: spin_start_def)
  moreover have "place_of spin_start = (\<lambda>_. Outside)" by (simp add: spin_start_def)
  ultimately have "spin_step\<^sup>*\<^sup>* spin_start (spin_start\<lparr>place_of := (\<lambda>_. Outside)(3 := Spinning)\<rparr>)" by auto
  from spinlock_progress [OF this, of 3] show ?thesis by auto
qed

end
