(* ===== verification/Printf.thy ===== *)
theory Printf
  imports CString
begin

text \<open>
  Formatted output and number parsing: \<^verbatim>\<open>libs/libc/src/printf.c\<close> and \<^verbatim>\<open>stdlib.c\<close>.  Output goes to
  memory through a cursor, as in the code.  The variable arguments are a list of typed values; a
  conversion that finds no argument of its type, or a percent sign at the very end, after which
  the code reads past the format string, has no defined behaviour and is \<open>None\<close>.
\<close>

section \<open>Emitting characters\<close>

datatype varg = Char_arg u8 | Str_arg "u8 list" | Long_arg int | Ulong_arg nat | Ptr_arg nat

type_synonym cursor = "nat \<times> memory"

definition emit :: "nat \<Rightarrow> u8 \<Rightarrow> cursor \<Rightarrow> cursor" where
  "emit stop c = (\<lambda>(cur, m). (cur + 1, if cur < stop then m(cur := c) else m))"

definition emit_str :: "nat \<Rightarrow> u8 list \<Rightarrow> cursor \<Rightarrow> cursor" where
  "emit_str stop s = fold (emit stop) s"

definition digit :: "bool \<Rightarrow> nat \<Rightarrow> u8" where
  "digit upper d = (if d < 10 then 0x30 + of_nat d else if upper then 0x41 + of_nat (d - 10) else 0x61 + of_nat (d - 10))"

text \<open>The array \<^verbatim>\<open>tmp\<close>: the digits from the last to the first.\<close>

fun tmp_digits :: "nat \<Rightarrow> bool \<Rightarrow> nat \<Rightarrow> u8 list" where
  "tmp_digits base upper val =
     (if val = 0 \<or> base < 2 then [] else digit upper (val mod base) # tmp_digits base upper (val div base))"

declare tmp_digits.simps [simp del]

definition emit_uint :: "nat \<Rightarrow> nat \<Rightarrow> nat \<Rightarrow> bool \<Rightarrow> cursor \<Rightarrow> cursor" where
  "emit_uint stop val base upper cur =
     (if val = 0 then emit stop 0x30 cur else fold (emit stop) (rev (tmp_digits base upper val)) cur)"

section \<open>Formatting\<close>

text \<open>One conversion after its percent sign.\<close>

fun convert :: "nat \<Rightarrow> u8 \<Rightarrow> varg list \<Rightarrow> cursor \<Rightarrow> (varg list \<times> cursor) option" where
  "convert stop c args cur =
     (if c = 0x63 then (case args of Char_arg x # args \<Rightarrow> Some (args, emit stop x cur) | _ \<Rightarrow> None)
      else if c = 0x73 then (case args of Str_arg s # args \<Rightarrow> Some (args, emit_str stop s cur) | _ \<Rightarrow> None)
      else if c = 0x64 then
        (case args of
           Long_arg v # args \<Rightarrow>
             Some (args, if v < 0 then emit_uint stop (nat (- v)) 10 False (emit stop 0x2D cur)
                         else emit_uint stop (nat v) 10 False cur)
         | _ \<Rightarrow> None)
      else if c = 0x75 then (case args of Ulong_arg v # args \<Rightarrow> Some (args, emit_uint stop v 10 False cur) | _ \<Rightarrow> None)
      else if c = 0x78 then (case args of Ulong_arg v # args \<Rightarrow> Some (args, emit_uint stop v 16 False cur) | _ \<Rightarrow> None)
      else if c = 0x58 then (case args of Ulong_arg v # args \<Rightarrow> Some (args, emit_uint stop v 16 True cur) | _ \<Rightarrow> None)
      else if c = 0x70 then
        (case args of
           Ptr_arg v # args \<Rightarrow> Some (args, emit_uint stop v 16 False (emit_str stop [0x30, 0x78] cur))
         | _ \<Rightarrow> None)
      else if c = 0x25 then Some (args, emit stop 0x25 cur)
      else Some (args, emit stop 0x3F cur))"

fun format_from :: "nat \<Rightarrow> u8 list \<Rightarrow> varg list \<Rightarrow> cursor \<Rightarrow> cursor option" where
  "format_from stop [] args cur = Some cur"
| "format_from stop (c # fmt) args cur =
     (if c \<noteq> 0x25 then format_from stop fmt args (emit stop c cur)
      else
        case fmt of
          [] \<Rightarrow> None
        | d # fmt \<Rightarrow>
            (case convert stop d args cur of
               None \<Rightarrow> None
             | Some (args, cur) \<Rightarrow> format_from stop fmt args cur))"

text \<open>The result: the number of characters, and the memory afterwards.\<close>

definition vsnprintf :: "nat \<Rightarrow> nat \<Rightarrow> u8 list \<Rightarrow> varg list \<Rightarrow> memory \<Rightarrow> (nat \<times> memory) option" where
  "vsnprintf buf sz fmt args m =
     (case format_from (buf + sz - 1) fmt args (buf, m) of
        None \<Rightarrow> None
      | Some (cur, m) \<Rightarrow> Some (cur - buf, if sz > 0 then m(cur := 0) else m))"

definition snprintf :: "nat \<Rightarrow> nat \<Rightarrow> u8 list \<Rightarrow> varg list \<Rightarrow> memory \<Rightarrow> (nat \<times> memory) option" where
  "snprintf buf sz fmt args m = vsnprintf buf sz fmt args m"

section \<open>Parsing numbers\<close>

text \<open>\<open>None\<close> is the overflow of a \<^verbatim>\<open>long\<close>.\<close>

definition long_max :: "arch \<Rightarrow> int" where
  "long_max a = 2 ^ (8 * ptr_bytes a - 1) - 1"

fun atol_digits :: "arch \<Rightarrow> int \<Rightarrow> u8 list \<Rightarrow> int option" where
  "atol_digits a result [] = Some result"
| "atol_digits a result (c # s) =
     (if 0x30 \<le> c \<and> c \<le> 0x39 then
        let r = result * 10 + (uint c - 0x30)
        in if r > long_max a then None else atol_digits a r s
      else Some result)"

definition atol :: "arch \<Rightarrow> u8 list \<Rightarrow> int option" where
  "atol a s =
     (let s = dropWhile (\<lambda>c. c = 0x20 \<or> c = 0x09) s;
          (sign, s) = (case s of
             c # t \<Rightarrow> if c = 0x2D then (- 1, t) else if c = 0x2B then (1, t) else (1, s)
           | [] \<Rightarrow> (1, s))
      in map_option (\<lambda>r. sign * r) (atol_digits a 0 s))"

definition atoi :: "arch \<Rightarrow> u8 list \<Rightarrow> int option" where
  "atoi a s = map_option (\<lambda>r. sint (word_of_int r :: i32)) (atol a s)"

section \<open>The text a format produces\<close>

definition uint_text :: "nat \<Rightarrow> bool \<Rightarrow> nat \<Rightarrow> u8 list" where
  "uint_text base upper val = (if val = 0 then [0x30] else rev (tmp_digits base upper val))"

definition long_text :: "int \<Rightarrow> u8 list" where
  "long_text v = (if v < 0 then 0x2D # uint_text 10 False (nat (- v)) else uint_text 10 False (nat v))"

fun convert_text :: "u8 \<Rightarrow> varg list \<Rightarrow> (u8 list \<times> varg list) option" where
  "convert_text c args =
     (if c = 0x63 then (case args of Char_arg x # args \<Rightarrow> Some ([x], args) | _ \<Rightarrow> None)
      else if c = 0x73 then (case args of Str_arg s # args \<Rightarrow> Some (s, args) | _ \<Rightarrow> None)
      else if c = 0x64 then (case args of Long_arg v # args \<Rightarrow> Some (long_text v, args) | _ \<Rightarrow> None)
      else if c = 0x75 then (case args of Ulong_arg v # args \<Rightarrow> Some (uint_text 10 False v, args) | _ \<Rightarrow> None)
      else if c = 0x78 then (case args of Ulong_arg v # args \<Rightarrow> Some (uint_text 16 False v, args) | _ \<Rightarrow> None)
      else if c = 0x58 then (case args of Ulong_arg v # args \<Rightarrow> Some (uint_text 16 True v, args) | _ \<Rightarrow> None)
      else if c = 0x70 then (case args of Ptr_arg v # args \<Rightarrow> Some ([0x30, 0x78] @ uint_text 16 False v, args) | _ \<Rightarrow> None)
      else if c = 0x25 then Some ([0x25], args)
      else Some ([0x3F], args))"

fun format_text :: "u8 list \<Rightarrow> varg list \<Rightarrow> u8 list option" where
  "format_text [] args = Some []"
| "format_text (c # fmt) args =
     (if c \<noteq> 0x25 then map_option (\<lambda>t. c # t) (format_text fmt args)
      else
        case fmt of
          [] \<Rightarrow> None
        | d # fmt \<Rightarrow>
            (case convert_text d args of
               None \<Rightarrow> None
             | Some (t, args) \<Rightarrow> map_option (\<lambda>u. t @ u) (format_text fmt args)))"

lemma emit_uint_text: "emit_uint stop val base upper = fold (emit stop) (uint_text base upper val)"
  by (simp add: emit_uint_def uint_text_def fun_eq_iff)

lemma convert_is_text:
  "convert stop c args cur = map_option (\<lambda>(t, args). (args, fold (emit stop) t cur)) (convert_text c args)"
  by (simp add: emit_uint_text emit_str_def long_text_def split: list.split varg.split)

lemma format_from_text:
  "format_from stop fmt args cur = map_option (\<lambda>t. fold (emit stop) t cur) (format_text fmt args)"
proof (induction fmt arbitrary: args cur rule: length_induct)
  case (1 fmt)
  show ?case
  proof (cases fmt)
    case (Cons c rest)
    have IH: "format_from stop f as k = map_option (\<lambda>t. fold (emit stop) t k) (format_text f as)"
      if "length f < length fmt" for f as k using 1 that by blast
    show ?thesis
    proof (cases "c = 0x25")
      case False
      with Cons IH [of rest] show ?thesis by (simp add: option.map_comp o_def)
    next
      case True
      show ?thesis
      proof (cases rest)
        case (Cons d f)
        with \<open>fmt = c # rest\<close> True IH [of f] show ?thesis
          by (auto simp: convert_is_text option.map_comp o_def simp del: convert.simps convert_text.simps split: option.split)
      qed (use Cons True in simp)
    qed
  qed simp
qed

lemma fold_emit:
  "fold (emit stop) t (cur, m) =
    (cur + length t, \<lambda>x. if cur \<le> x \<and> x < cur + length t \<and> x < stop then t ! (x - cur) else m x)"
proof (induction t arbitrary: cur m)
  case (Cons c t)
  have "fold (emit stop) (c # t) (cur, m) =
      fold (emit stop) t (cur + 1, if cur < stop then m(cur := c) else m)" by (simp add: emit_def)
  also have "\<dots> = (cur + 1 + length t, \<lambda>x. if cur + 1 \<le> x \<and> x < cur + 1 + length t \<and> x < stop
      then t ! (x - (cur + 1)) else (if cur < stop then m(cur := c) else m) x)" by (rule Cons.IH)
  finally show ?case by (auto simp: fun_eq_iff nth_Cons')
qed (auto simp: fun_eq_iff)

lemma vsnprintf_text:
  assumes "format_text fmt args = Some t" "0 < sz"
  shows "vsnprintf buf sz fmt args m = Some (length t,
    \<lambda>x. if x = buf + length t then 0
        else if buf \<le> x \<and> x < buf + length t \<and> x < buf + sz - 1 then t ! (x - buf) else m x)"
  using assms by (auto simp: vsnprintf_def format_from_text fold_emit fun_eq_iff)

section \<open>Printing and parsing decimal numbers\<close>

lemma unat_digit: "d < 10 \<Longrightarrow> unat (digit False d) = 48 + d"
  by (simp add: digit_def unat_word_ariths unat_of_nat)

lemma digit_decimal:
  assumes "d < 10"
  shows "0x30 \<le> digit False d" "digit False d \<le> 0x39" "uint (digit False d) = 48 + int d"
proof -
  note u = unat_digit [OF assms]
  show "0x30 \<le> digit False d" "digit False d \<le> 0x39" using u assms by (simp_all add: word_le_nat_alt)
  show "uint (digit False d) = 48 + int d" using u by (simp add: uint_nat)
qed

lemma atol_digits_text:
  assumes "int val \<le> long_max a"
  shows "atol_digits a 0 (rev (tmp_digits 10 False val) @ rest) = atol_digits a (int val) rest"
  using assms
proof (induction val arbitrary: rest rule: less_induct)
  case (less val)
  show ?case
  proof (cases "val = 0")
    case True
    then show ?thesis by (simp add: tmp_digits.simps)
  next
    case False
    let ?d = "digit False (val mod 10)"
    have "tmp_digits 10 False val = ?d # tmp_digits 10 False (val div 10)"
      using False by (simp add: tmp_digits.simps [of 10 False val])
    then have "atol_digits a 0 (rev (tmp_digits 10 False val) @ rest) =
        atol_digits a 0 (rev (tmp_digits 10 False (val div 10)) @ ?d # rest)" by simp
    also have "\<dots> = atol_digits a (int (val div 10)) (?d # rest)"
      using False less.prems by (intro less.IH) auto
    also have "\<dots> = atol_digits a (int val) rest"
    proof -
      have "int (val div 10) * 10 + (uint ?d - 48) = int val"
        using digit_decimal(3) [of "val mod 10"] div_mult_mod_eq [of val 10] by linarith
      with digit_decimal(1,2) [of "val mod 10"] less.prems show ?thesis by simp
    qed
    finally show ?thesis .
  qed
qed

lemma atol_digits_uint:
  "int val \<le> long_max a \<Longrightarrow> atol_digits a 0 (uint_text 10 False val) = Some (int val)"
  using atol_digits_text [of val a "[]"] by (cases "val = 0") (auto simp: uint_text_def tmp_digits.simps not_less)

lemma uint_text_first:
  obtains d t where "d < 10" "uint_text 10 False val = digit False d # t"
proof (cases "val = 0")
  case True
  with that [of 0 "[]"] show thesis by (simp add: uint_text_def digit_def)
next
  case False
  have "\<exists>d t. d < 10 \<and> rev (tmp_digits 10 False val) = digit False d # t" using False
  proof (induction val rule: less_induct)
    case (less val)
    have e: "rev (tmp_digits 10 False val) = rev (tmp_digits 10 False (val div 10)) @ [digit False (val mod 10)]"
      using less.prems by (simp add: tmp_digits.simps [of 10 False val])
    show ?case
    proof (cases "val div 10 = 0")
      case True
      then have "rev (tmp_digits 10 False val) = digit False (val mod 10) # []"
        using e by (simp add: tmp_digits.simps)
      then show ?thesis by (intro exI [of _ "val mod 10"]) auto
    next
      case False
      then have "val div 10 < val" by auto
      from less.IH [OF this False] e show ?thesis by auto
    qed
  qed
  with False that show thesis by (auto simp: uint_text_def)
qed

lemma atol_plain:
  assumes "d < 10"
  shows "atol a (digit False d # t) = atol_digits a 0 (digit False d # t)"
proof -
  have "unat (digit False d) \<noteq> unat (c :: u8)" if "c \<in> {0x20, 0x09, 0x2D, 0x2B}" for c
    using that unat_digit [OF assms] by auto
  then have "digit False d \<noteq> 0x20" "digit False d \<noteq> 0x09" "digit False d \<noteq> 0x2D" "digit False d \<noteq> 0x2B"
    by blast+
  moreover have "(*) (1 :: int) = (\<lambda>r. r)" by (simp add: fun_eq_iff)
  ultimately show ?thesis by (simp add: atol_def Let_def option.map_ident del: atol_digits.simps)
qed

section \<open>Correctness\<close>

text \<open>When the formatted text and its zero fit the buffer, \<^verbatim>\<open>vsnprintf\<close> stores exactly the text and
  the zero at the buffer, changes no other byte and returns the length of the text.\<close>

theorem vsnprintf_fits:
  assumes "format_text fmt args = Some t" "length t < sz"
  shows "\<exists>m'. vsnprintf buf sz fmt args m = Some (length t, m') \<and> bytes_at m' buf (length t) = t \<and>
    m' (buf + length t) = 0 \<and> (\<forall>x. x < buf \<or> buf + length t < x \<longrightarrow> m' x = m x)"
proof -
  have "0 < sz" using assms(2) by simp
  note v = vsnprintf_text [OF assms(1) this, of buf m]
  show ?thesis unfolding v using assms(2) by (auto simp: bytes_at_def intro!: nth_equalityI)
qed

theorem vsnprintf_fits_witness:
  "\<exists>m'. vsnprintf 100 16 [0x6E, 0x3D, 0x25, 0x64] [Long_arg (- 42)] sample_memory = Some (5, m') \<and>
     bytes_at m' 100 5 = [0x6E, 0x3D, 0x2D, 0x34, 0x32]"
proof -
  have t: "format_text [0x6E, 0x3D, 0x25, 0x64] [Long_arg (- 42)] = Some [0x6E, 0x3D, 0x2D, 0x34, 0x32]"
    by (simp add: long_text_def uint_text_def tmp_digits.simps digit_def)
  from vsnprintf_fits [OF t, of 16 100 sample_memory] show ?thesis by (auto simp: eval_nat_numeral)
qed

text \<open>When the text does not fit, \<^verbatim>\<open>vsnprintf\<close> still stores the terminating zero after the whole
  text, outside the buffer it was given, and leaves the last byte of the buffer unwritten, so
  that the truncated text is not terminated.\<close>

theorem vsnprintf_overruns:
  assumes "format_text fmt args = Some t" "sz \<le> length t" "0 < sz"
  shows "\<exists>m'. vsnprintf buf sz fmt args m = Some (length t, m') \<and> m' (buf + length t) = 0 \<and>
    buf + sz \<le> buf + length t \<and> m' (buf + sz - 1) = m (buf + sz - 1)"
  unfolding vsnprintf_text [OF assms(1,3)] using assms(2,3) by auto

theorem vsnprintf_overruns_witness:
  "\<exists>m'. vsnprintf 100 4 [0x61, 0x62, 0x63, 0x64, 0x65] [] sample_memory = Some (5, m') \<and>
     m' 105 = 0 \<and> sample_memory 105 = 0xFF"
  using vsnprintf_overruns [of "[0x61, 0x62, 0x63, 0x64, 0x65]" "[]" "[0x61, 0x62, 0x63, 0x64, 0x65]" 4 100 sample_memory]
  by (auto simp: sample_memory_def)

text \<open>Printing and parsing agree: \<^verbatim>\<open>atol\<close> of the text \<^verbatim>\<open>%d\<close> produces is the number again, for every
  number whose absolute value a \<^verbatim>\<open>long\<close> of the target can hold.\<close>

theorem atol_reads_printed:
  assumes "\<bar>v\<bar> \<le> long_max a"
  shows "atol a (long_text v) = Some v"
proof (cases "v < 0")
  case True
  have "int (nat (- v)) \<le> long_max a" using assms True by simp
  from atol_digits_uint [OF this] True show ?thesis by (simp add: atol_def long_text_def Let_def)
next
  case False
  obtain d t where d: "d < 10" "uint_text 10 False (nat v) = digit False d # t" by (rule uint_text_first)
  have "int (nat v) \<le> long_max a" using assms False by simp
  from atol_digits_uint [OF this] False d atol_plain [OF d(1), of a t] show ?thesis by (simp add: long_text_def)
qed

theorem atol_reads_printed_witness: "atol X86 (long_text (- 2147483647)) = Some (- 2147483647)"
  using atol_reads_printed [of "- 2147483647" X86] by (simp add: long_max_def)

end
