(* ===== verification/Ports.thy ===== *)
theory Ports
  imports Prelude
begin

text \<open>
  Port input and output, as \<^verbatim>\<open>kernel/include/io.h\<close> offers it.  The devices behind the ports are
  hardware, not code: they are a parameter, a \<open>bus\<close> of functions that read or write a port and
  move the device state \<open>'d\<close> on.  A driver routine is a function from device states to a result
  and a new device state, or \<open>None\<close> when it waits for ever.
\<close>

record 'd bus =
  in8 :: "u16 \<Rightarrow> 'd \<Rightarrow> u8 \<times> 'd"
  out8 :: "u16 \<Rightarrow> u8 \<Rightarrow> 'd \<Rightarrow> 'd"
  in16 :: "u16 \<Rightarrow> 'd \<Rightarrow> u16 \<times> 'd"
  out16 :: "u16 \<Rightarrow> u16 \<Rightarrow> 'd \<Rightarrow> 'd"
  in32 :: "u16 \<Rightarrow> 'd \<Rightarrow> u32 \<times> 'd"
  out32 :: "u16 \<Rightarrow> u32 \<Rightarrow> 'd \<Rightarrow> 'd"

type_synonym ('d, 'a) io = "'d \<Rightarrow> ('a \<times> 'd) option"

definition ret :: "'a \<Rightarrow> ('d, 'a) io" where
  "ret x d = Some (x, d)"

definition andthen :: "('d, 'a) io \<Rightarrow> ('a \<Rightarrow> ('d, 'b) io) \<Rightarrow> ('d, 'b) io" where
  "andthen f g d = (case f d of None \<Rightarrow> None | Some (x, d) \<Rightarrow> g x d)"

definition inb :: "'d bus \<Rightarrow> u16 \<Rightarrow> ('d, u8) io" where
  "inb b p d = Some (in8 b p d)"

definition outb :: "'d bus \<Rightarrow> u16 \<Rightarrow> u8 \<Rightarrow> ('d, unit) io" where
  "outb b p v d = Some ((), out8 b p v d)"

definition inw :: "'d bus \<Rightarrow> u16 \<Rightarrow> ('d, u16) io" where
  "inw b p d = Some (in16 b p d)"

definition outw :: "'d bus \<Rightarrow> u16 \<Rightarrow> u16 \<Rightarrow> ('d, unit) io" where
  "outw b p v d = Some ((), out16 b p v d)"

definition inl :: "'d bus \<Rightarrow> u16 \<Rightarrow> ('d, u32) io" where
  "inl b p d = Some (in32 b p d)"

definition outl :: "'d bus \<Rightarrow> u16 \<Rightarrow> u32 \<Rightarrow> ('d, unit) io" where
  "outl b p v d = Some ((), out32 b p v d)"

text \<open>\<^verbatim>\<open>io_wait\<close> writes to an unused port to let a slow device settle.\<close>

definition io_wait :: "'d bus \<Rightarrow> ('d, unit) io" where
  "io_wait b = outb b 0x80 0"

text \<open>The two busy-waiting loops of the drivers: \<^verbatim>\<open>while (inb(port) & m);\<close> and \<^verbatim>\<open>while (!(inb(port) & m));\<close>.\<close>

partial_function (option) wait_clear :: "'d bus \<Rightarrow> u16 \<Rightarrow> u8 \<Rightarrow> ('d, unit) io" where
  "wait_clear b p m d =
     (let (v, d) = in8 b p d in if v AND m \<noteq> 0 then wait_clear b p m d else Some ((), d))"

partial_function (option) wait_set :: "'d bus \<Rightarrow> u16 \<Rightarrow> u8 \<Rightarrow> ('d, unit) io" where
  "wait_set b p m d =
     (let (v, d) = in8 b p d in if v AND m = 0 then wait_set b p m d else Some ((), d))"

fun io_seq :: "('d, unit) io list \<Rightarrow> ('d, unit) io" where
  "io_seq [] = ret ()"
| "io_seq (f # fs) = andthen f (\<lambda>_. io_seq fs)"

text \<open>A bus of byte ports whose reads do not change the device; wider accesses do nothing.\<close>

definition byte_bus :: "(u16 \<Rightarrow> 'd \<Rightarrow> u8) \<Rightarrow> (u16 \<Rightarrow> u8 \<Rightarrow> 'd \<Rightarrow> 'd) \<Rightarrow> 'd bus" where
  "byte_bus rd wr = \<lparr>in8 = (\<lambda>p d. (rd p d, d)), out8 = wr,
     in16 = (\<lambda>p d. (0, d)), out16 = (\<lambda>p x d. d), in32 = (\<lambda>p d. (0, d)), out32 = (\<lambda>p x d. d)\<rparr>"

lemma io_simps [simp]:
  "ret x d = Some (x, d)" "inb b p d = Some (in8 b p d)" "outb b p v d = Some ((), out8 b p v d)"
  "inw b p d = Some (in16 b p d)" "outw b p w d = Some ((), out16 b p w d)"
  "inl b p d = Some (in32 b p d)" "outl b p k d = Some ((), out32 b p k d)"
  by (simp_all add: ret_def inb_def outb_def inw_def outw_def inl_def outl_def)

lemma andthen_eq_Some:
  "andthen f g d = Some r \<longleftrightarrow> (\<exists>x d1. f d = Some (x, d1) \<and> g x d1 = Some r)"
  by (auto simp: andthen_def split: option.splits)

lemma andthen_step [simp]: "f d = Some (x, d1) \<Longrightarrow> andthen f g d = g x d1"
  by (simp add: andthen_def)

text \<open>A wait ends as soon as some read finds the bit in the wanted state.\<close>

definition read_n :: "'d bus \<Rightarrow> u16 \<Rightarrow> nat \<Rightarrow> 'd \<Rightarrow> 'd" where
  "read_n b p n = (\<lambda>d. snd (in8 b p d)) ^^ n"

lemma read_n_Suc: "read_n b p (Suc n) d = read_n b p n (snd (in8 b p d))"
  by (simp only: read_n_def funpow_Suc_right o_apply)

lemma wait_clear_ends:
  assumes "fst (in8 b p (read_n b p n d)) AND m = 0"
  shows "\<exists>d'. wait_clear b p m d = Some ((), d')"
  using assms
proof (induction n arbitrary: d)
  case 0
  then show ?case by (subst wait_clear.simps) (auto simp: read_n_def split: prod.splits)
next
  case (Suc n)
  have "fst (in8 b p (read_n b p n (snd (in8 b p d)))) AND m = 0"
    using Suc.prems unfolding read_n_Suc .
  from Suc.IH [OF this] show ?case
    by (subst wait_clear.simps) (auto simp: Let_def split: prod.splits)
qed

lemma wait_set_ends:
  assumes "fst (in8 b p (read_n b p n d)) AND m \<noteq> 0"
  shows "\<exists>d'. wait_set b p m d = Some ((), d')"
  using assms
proof (induction n arbitrary: d)
  case 0
  then show ?case by (subst wait_set.simps) (auto simp: read_n_def split: prod.splits)
next
  case (Suc n)
  have "fst (in8 b p (read_n b p n (snd (in8 b p d)))) AND m \<noteq> 0"
    using Suc.prems unfolding read_n_Suc .
  from Suc.IH [OF this] show ?case
    by (subst wait_set.simps) (auto simp: Let_def split: prod.splits)
qed

section \<open>Loops and results\<close>

text \<open>A counted loop that threads a state, and what it means for a routine to return a value whatever
  state the device is in: reads of a device whose answers are fixed.\<close>

fun io_fold :: "('x \<Rightarrow> 's \<Rightarrow> ('d, 's) io) \<Rightarrow> 'x list \<Rightarrow> 's \<Rightarrow> ('d, 's) io" where
  "io_fold f [] s = ret s"
| "io_fold f (x # xs) s = andthen (f x s) (io_fold f xs)"

definition returns :: "('d, 'a) io \<Rightarrow> 'a \<Rightarrow> bool" where
  "returns f x \<longleftrightarrow> (\<forall>d. \<exists>d'. f d = Some (x, d'))"

lemma returns_ret [intro!]: "returns (ret x) x"
  by (simp add: returns_def)

lemma returns_andthen: "returns f x \<Longrightarrow> returns (g x) y \<Longrightarrow> returns (andthen f g) y"
  unfolding returns_def andthen_def by (metis option.simps(5) case_prod_conv)

lemma returns_outl [intro!]: "returns (outl b p v) ()"
  by (simp add: returns_def)

lemma returns_outb [intro!]: "returns (outb b p v) ()"
  by (simp add: returns_def)

lemma returns_io_seq:
  assumes "\<And>f. f \<in> set fs \<Longrightarrow> returns f ()"
  shows "returns (io_seq fs) ()"
  using assms by (induction fs) (auto intro: returns_andthen)

lemma returns_io_fold:
  assumes "\<And>x s. x \<in> set xs \<Longrightarrow> returns (f x s) (g x s)"
  shows "returns (io_fold f xs s) (fold g xs s)"
  using assms by (induction xs arbitrary: s) (auto intro: returns_andthen)

section \<open>Routines that return\<close>

text \<open>
  Total correctness with a condition on the device as its invariant: from a state with the condition the routine returns, to a
  state with the condition.  Without a condition, the routine \<open>ends\<close> in every state of every device.
\<close>

definition safe :: "('d \<Rightarrow> bool) \<Rightarrow> ('d, 'a) io \<Rightarrow> bool" where
  "safe Q f \<longleftrightarrow> (\<forall>d. Q d \<longrightarrow> (\<exists>x d'. f d = Some (x, d') \<and> Q d'))"

abbreviation ends :: "('d, 'a) io \<Rightarrow> bool" where
  "ends f \<equiv> safe (\<lambda>_. True) f"

lemma ends_Some: "ends f \<longleftrightarrow> (\<forall>d. \<exists>r. f d = Some r)"
  by (auto simp: safe_def)

lemma safeD: "safe Q f \<Longrightarrow> Q d \<Longrightarrow> \<exists>x d'. f d = Some (x, d') \<and> Q d'"
  by (simp add: safe_def)

lemma safe_ret [intro!, simp]: "safe Q (ret r)" "safe Q (\<lambda>d. Some (r, d))"
  by (simp_all add: safe_def)

lemma safe_andthen [intro!]: "safe Q f \<Longrightarrow> (\<And>x. safe Q (g x)) \<Longrightarrow> safe Q (andthen f g)"
  unfolding safe_def andthen_def by fastforce

lemma safe_if [intro!]: "safe Q f \<Longrightarrow> safe Q g \<Longrightarrow> safe Q (if c then f else g)"
  by simp

lemma safe_io_fold [intro!]: "(\<And>x s. safe Q (f x s)) \<Longrightarrow> safe Q (io_fold f xs s)"
  by (induction xs arbitrary: s) auto

lemma safe_io_seq [intro!]: "(\<And>f. f \<in> set fs \<Longrightarrow> safe Q f) \<Longrightarrow> safe Q (io_seq fs)"
  by (induction fs) auto

text \<open>A condition that no port access disturbs; a routine without endless loops is then safe.\<close>

locale still_bus =
  fixes b :: "'d bus" and Q :: "'d \<Rightarrow> bool"
  assumes quiet_in8: "Q d \<Longrightarrow> Q (snd (in8 b p d))" and quiet_out8: "Q d \<Longrightarrow> Q (out8 b p v d)"
    and quiet_in16: "Q d \<Longrightarrow> Q (snd (in16 b p d))" and quiet_out16: "Q d \<Longrightarrow> Q (out16 b p w d)"
    and quiet_in32: "Q d \<Longrightarrow> Q (snd (in32 b p d))" and quiet_out32: "Q d \<Longrightarrow> Q (out32 b p x d)"
begin

lemma safe_ports [intro!, simp]:
  "safe Q (inb b p)" "safe Q (outb b p v)" "safe Q (inw b p)" "safe Q (outw b p w)" "safe Q (inl b p)" "safe Q (outl b p x)"
  "safe Q (io_wait b)"
  using quiet_in8 quiet_in16 quiet_in32 quiet_out8 quiet_out16 quiet_out32
  by (auto simp: safe_def io_wait_def) (metis snd_conv surj_pair)+

end

interpretation any_bus: still_bus b "\<lambda>_. True" for b
  by unfold_locales simp_all

end
