(* ===== verification/Keyboard.thy ===== *)
theory Keyboard
  imports Fifo Ports
begin

text \<open>
  The PS/2 keyboard driver \<^verbatim>\<open>drivers/input/ps2_keyboard.c\<close>: the scan code tables, the ring buffer of
  key events, the interrupt handler and the initialisation of the controller.
\<close>

section \<open>State\<close>

definition PS2_DATA :: u16 where "PS2_DATA = 0x60"
definition PS2_STATUS :: u16 where "PS2_STATUS = 0x64"
definition PS2_CMD :: u16 where "PS2_CMD = 0x64"
definition KEY_BUF_SIZE :: nat where "KEY_BUF_SIZE = 128"

definition KEY_MOD_SHIFT :: u8 where "KEY_MOD_SHIFT = 0x01"
definition KEY_MOD_CTRL :: u8 where "KEY_MOD_CTRL = 0x02"
definition KEY_MOD_ALT :: u8 where "KEY_MOD_ALT = 0x04"
definition KEY_MOD_CAPS :: u8 where "KEY_MOD_CAPS = 0x08"

record key_event =
  scancode :: u8
  ascii :: u8
  ev_modifiers :: u8
  pressed :: bool

record keyboard =
  kbuf :: "key_event list"
  khead :: nat
  ktail :: nat
  modifiers :: u8
  extended :: bool

definition sc_ascii :: "u8 list" where
  "sc_ascii =
     [0, 0x1B, 0x31, 0x32, 0x33, 0x34, 0x35, 0x36,
      0x37, 0x38, 0x39, 0x30, 0x2D, 0x3D, 0x08, 0x09,
      0x71, 0x77, 0x65, 0x72, 0x74, 0x79, 0x75, 0x69,
      0x6F, 0x70, 0x5B, 0x5D, 0x0A, 0, 0x61, 0x73,
      0x64, 0x66, 0x67, 0x68, 0x6A, 0x6B, 0x6C, 0x3B,
      0x27, 0x60, 0, 0x5C, 0x7A, 0x78, 0x63, 0x76,
      0x62, 0x6E, 0x6D, 0x2C, 0x2E, 0x2F, 0, 0x2A,
      0, 0x20, 0, 0, 0, 0, 0, 0,
      0, 0, 0, 0, 0, 0, 0, 0,
      0, 0x37, 0x38, 0x39, 0x2D, 0x34, 0x35, 0x36,
      0x2B, 0x31, 0x32, 0x33, 0x30, 0x2E, 0, 0,
      0, 0, 0, 0, 0, 0, 0, 0,
      0, 0, 0, 0, 0, 0, 0, 0,
      0, 0, 0, 0, 0, 0, 0, 0,
      0, 0, 0, 0, 0, 0, 0, 0,
      0, 0, 0, 0, 0, 0, 0, 0]"

definition sc_shift :: "u8 list" where
  "sc_shift =
     [0, 0x1B, 0x21, 0x40, 0x23, 0x24, 0x25, 0x5E,
      0x26, 0x2A, 0x28, 0x29, 0x5F, 0x2B, 0x08, 0x09,
      0x51, 0x57, 0x45, 0x52, 0x54, 0x59, 0x55, 0x49,
      0x4F, 0x50, 0x7B, 0x7D, 0x0A, 0, 0x41, 0x53,
      0x44, 0x46, 0x47, 0x48, 0x4A, 0x4B, 0x4C, 0x3A,
      0x22, 0x7E, 0, 0x7C, 0x5A, 0x58, 0x43, 0x56,
      0x42, 0x4E, 0x4D, 0x3C, 0x3E, 0x3F, 0, 0x2A,
      0, 0x20, 0, 0, 0, 0, 0, 0,
      0, 0, 0, 0, 0, 0, 0, 0,
      0, 0x37, 0x38, 0x39, 0x2D, 0x34, 0x35, 0x36,
      0x2B, 0x31, 0x32, 0x33, 0x30, 0x2E, 0, 0,
      0, 0, 0, 0, 0, 0, 0, 0,
      0, 0, 0, 0, 0, 0, 0, 0,
      0, 0, 0, 0, 0, 0, 0, 0,
      0, 0, 0, 0, 0, 0, 0, 0,
      0, 0, 0, 0, 0, 0, 0, 0]"

section \<open>The ring buffer\<close>

definition kbuf_push :: "key_event \<Rightarrow> keyboard \<Rightarrow> bool \<times> keyboard" where
  "kbuf_push e k =
     (let nxt = (khead k + 1) mod KEY_BUF_SIZE
      in if nxt = ktail k then (False, k)
         else (True, k\<lparr>kbuf := (kbuf k)[khead k := e], khead := nxt\<rparr>))"

definition keyboard_poll :: "keyboard \<Rightarrow> key_event option \<times> keyboard" where
  "keyboard_poll k =
     (if khead k = ktail k then (None, k)
      else (Some (kbuf k ! ktail k), k\<lparr>ktail := (ktail k + 1) mod KEY_BUF_SIZE\<rparr>))"

definition keyboard_modifiers :: "keyboard \<Rightarrow> u8" where
  "keyboard_modifiers k = modifiers k"

section \<open>The interrupt handler\<close>

text \<open>The character of a key press; both conversions are made one after the other.\<close>

definition key_char :: "u8 \<Rightarrow> u8 \<Rightarrow> u8" where
  "key_char mods code =
     (if unat code < 128 then
        let shift = (mods AND KEY_MOD_SHIFT \<noteq> 0);
            caps = (mods AND KEY_MOD_CAPS \<noteq> 0);
            c = (if shift then sc_shift ! unat code else sc_ascii ! unat code);
            c = (if caps \<and> c \<ge> 0x61 \<and> c \<le> 0x7A then c - 32 else c);
            c = (if caps \<and> c \<ge> 0x41 \<and> c \<le> 0x5A then c + 32 else c)
        in c
      else 0)"

definition set_mod :: "bool \<Rightarrow> u8 \<Rightarrow> keyboard \<Rightarrow> keyboard" where
  "set_mod on m k = k\<lparr>modifiers := (if on then modifiers k OR m else modifiers k AND NOT m)\<rparr>"

text \<open>What the handler does with the byte it reads.\<close>

definition kb_scancode :: "u8 \<Rightarrow> keyboard \<Rightarrow> keyboard" where
  "kb_scancode sc k =
     (if sc = 0xE0 then k\<lparr>extended := True\<rparr>
      else
        let is_press = (sc AND 0x80 = 0);
            code = sc AND 0x7F;
            k = k\<lparr>extended := False\<rparr>
        in if code = 0x2A \<or> code = 0x36 then set_mod is_press KEY_MOD_SHIFT k
           else if code = 0x1D then set_mod is_press KEY_MOD_CTRL k
           else if code = 0x38 then set_mod is_press KEY_MOD_ALT k
           else if code = 0x3A then
             (if is_press then k\<lparr>modifiers := modifiers k XOR KEY_MOD_CAPS\<rparr> else k)
           else if \<not> is_press then k
           else
             snd (kbuf_push \<lparr>scancode = code, ascii = key_char (modifiers k) code,
                    ev_modifiers = modifiers k, pressed = True\<rparr> k))"

definition kb_handler :: "'d bus \<Rightarrow> keyboard \<Rightarrow> ('d, keyboard) io" where
  "kb_handler b k = andthen (inb b PS2_DATA) (\<lambda>sc. ret (kb_scancode sc k))"

section \<open>The controller\<close>

partial_function (option) ps2_flush :: "'d bus \<Rightarrow> ('d, unit) io" where
  "ps2_flush b d =
     (let (st, d) = in8 b PS2_STATUS d
      in if st AND 0x01 \<noteq> 0 then ps2_flush b (snd (in8 b PS2_DATA d)) else Some ((), d))"

definition ps2_send_cmd :: "'d bus \<Rightarrow> u8 \<Rightarrow> ('d, unit) io" where
  "ps2_send_cmd b c = andthen (wait_clear b PS2_STATUS 0x02) (\<lambda>_. outb b PS2_CMD c)"

definition ps2_send_data :: "'d bus \<Rightarrow> u8 \<Rightarrow> ('d, unit) io" where
  "ps2_send_data b v = andthen (wait_clear b PS2_STATUS 0x02) (\<lambda>_. outb b PS2_DATA v)"

definition ps2_read :: "'d bus \<Rightarrow> ('d, u8) io" where
  "ps2_read b = andthen (wait_set b PS2_STATUS 0x01) (\<lambda>_. inb b PS2_DATA)"

text \<open>
  \<open>register\<close> stands for the two calls that end the initialisation,
  \<^verbatim>\<open>isr_register(33, kb_handler)\<close> and \<^verbatim>\<open>pic_unmask_irq(1)\<close>.
\<close>

definition keyboard_init :: "'d bus \<Rightarrow> ('d, unit) io \<Rightarrow> ('d, unit) io" where
  "keyboard_init b register =
     io_seq
      [ps2_send_cmd b 0xAD,
       ps2_send_cmd b 0xA7,
       ps2_flush b,
       ps2_send_cmd b 0x20,
       andthen (ps2_read b) (\<lambda>cfg.
         let cfg = cfg OR 0x01; cfg = cfg AND NOT 0x10
         in andthen (ps2_send_cmd b 0x60) (\<lambda>_. ps2_send_data b cfg)),
       ps2_send_cmd b 0xAA,
       andthen (ps2_read b) (\<lambda>_. ret ()),
       ps2_send_cmd b 0xAB,
       andthen (ps2_read b) (\<lambda>_. ret ()),
       ps2_send_cmd b 0xAE,
       ps2_send_data b 0xFF,
       andthen (ps2_read b) (\<lambda>_. ret ()),
       ps2_send_data b 0xF0,
       ps2_send_data b 0x01,
       andthen (ps2_read b) (\<lambda>_. ret ()),
       ps2_flush b,
       register]"

text \<open>
  \<^verbatim>\<open>keyboard_getc\<close> polls until it gets an event with a character.  \<open>irqs\<close> lists the interrupts that
  end its \<^verbatim>\<open>hlt\<close> instructions: \<open>Some sc\<close> for the keyboard's with that scan code, \<open>None\<close> for any other.
  The result \<open>None\<close> says that it still waits when they are used up.
\<close>

definition halt_until :: "u8 option \<Rightarrow> keyboard \<Rightarrow> keyboard" where
  "halt_until irq k = (case irq of None \<Rightarrow> k | Some sc \<Rightarrow> kb_scancode sc k)"

fun keyboard_getc :: "u8 option list \<Rightarrow> keyboard \<Rightarrow> (u8 \<times> keyboard) option" where
  "keyboard_getc irqs k =
     (let (r, k) = keyboard_poll k
      in case r of
           Some e \<Rightarrow>
             if ascii e \<noteq> 0 then Some (ascii e, k)
             else (case irqs of [] \<Rightarrow> None | i # irqs \<Rightarrow> keyboard_getc irqs (halt_until i k))
         | None \<Rightarrow> (case irqs of [] \<Rightarrow> None | i # irqs \<Rightarrow> keyboard_getc irqs (halt_until i k)))"

declare keyboard_getc.simps [simp del]

section \<open>The list a ring buffer stands for\<close>

definition kq :: "keyboard \<Rightarrow> key_event list \<Rightarrow> bool" where
  "kq k q \<longleftrightarrow> length (kbuf k) = KEY_BUF_SIZE \<and> khead k < KEY_BUF_SIZE \<and> ktail k < KEY_BUF_SIZE \<and>
     length q < KEY_BUF_SIZE \<and> khead k = (ktail k + length q) mod KEY_BUF_SIZE \<and>
     (\<forall>i < length q. kbuf k ! ((ktail k + i) mod KEY_BUF_SIZE) = q ! i)"

lemma ring_index_inj:
  assumes "(t + i) mod KEY_BUF_SIZE = (t + j) mod KEY_BUF_SIZE" "i < KEY_BUF_SIZE" "j < KEY_BUF_SIZE"
  shows "i = j"
proof -
  have eq: "a = b" if "a \<le> b" "b < KEY_BUF_SIZE" "(t + b) mod KEY_BUF_SIZE = (t + a) mod KEY_BUF_SIZE" for a b
  proof -
    have "KEY_BUF_SIZE dvd (t + b) - (t + a)" using that by (simp add: mod_eq_dvd_iff_nat)
    then have "KEY_BUF_SIZE dvd b - a" by simp
    with that(1,2) show ?thesis by (metis diff_is_0_eq dvd_imp_le le_antisym less_imp_diff_less not_le zero_less_diff)
  qed
  show ?thesis using eq [of i j] eq [of j i] assms by (metis nat_le_linear)
qed

lemma ring_next: "((t + n) mod KEY_BUF_SIZE + 1) mod KEY_BUF_SIZE = (t + Suc n) mod KEY_BUF_SIZE"
  by (simp add: mod_Suc_eq)

lemma ring_full:
  assumes "kq k q"
  shows "(khead k + 1) mod KEY_BUF_SIZE = ktail k \<longleftrightarrow> length q = KEY_BUF_SIZE - 1"
proof -
  have k: "khead k = (ktail k + length q) mod KEY_BUF_SIZE" "ktail k < KEY_BUF_SIZE" "length q < KEY_BUF_SIZE"
    using assms by (simp_all add: kq_def)
  have "(khead k + 1) mod KEY_BUF_SIZE = (ktail k + Suc (length q)) mod KEY_BUF_SIZE"
    unfolding k(1) by (rule ring_next)
  moreover have "(ktail k + Suc (length q)) mod KEY_BUF_SIZE = ktail k \<longleftrightarrow> Suc (length q) = KEY_BUF_SIZE"
    using k(2,3) ring_index_inj [of "ktail k" "Suc (length q)" 0]
    by (cases "Suc (length q) = KEY_BUF_SIZE") (auto simp: KEY_BUF_SIZE_def)
  ultimately show ?thesis using k(3) by auto
qed

lemma kbuf_push_full:
  assumes "kq k q" "length q = KEY_BUF_SIZE - 1"
  shows "kbuf_push e k = (False, k)"
  using ring_full [OF assms(1)] assms(2) by (simp add: kbuf_push_def Let_def)

lemma kbuf_push_kq [repr_simps]:
  assumes "kq k q" "length q < KEY_BUF_SIZE - 1"
  shows "fst (kbuf_push e k)" "kq (snd (kbuf_push e k)) (q @ [e])"
proof -
  let ?h = "(ktail k + length q) mod KEY_BUF_SIZE"
  have k: "khead k = ?h" "length (kbuf k) = KEY_BUF_SIZE" "ktail k < KEY_BUF_SIZE"
    "\<And>i. i < length q \<Longrightarrow> kbuf k ! ((ktail k + i) mod KEY_BUF_SIZE) = q ! i"
    using assms(1) by (simp_all add: kq_def)
  have e: "kbuf_push e k = (True, k\<lparr>kbuf := (kbuf k)[khead k := e], khead := (khead k + 1) mod KEY_BUF_SIZE\<rparr>)"
    using ring_full [OF assms(1)] assms(2) by (simp add: kbuf_push_def Let_def)
  then show "fst (kbuf_push e k)" by simp
  have pos: "0 < KEY_BUF_SIZE" by (simp add: KEY_BUF_SIZE_def)
  have "(kbuf k)[?h := e] ! ((ktail k + i) mod KEY_BUF_SIZE) = (q @ [e]) ! i" if "i < Suc (length q)" for i
  proof (cases "i = length q")
    case True
    with k(2) pos show ?thesis by (simp add: nth_list_update)
  next
    case False
    with that assms(2) have "i < KEY_BUF_SIZE" "length q < KEY_BUF_SIZE" by linarith+
    with False have "(ktail k + i) mod KEY_BUF_SIZE \<noteq> ?h"
      using ring_index_inj [of "ktail k" i "length q"] by blast
    with False that k(4) show ?thesis by (simp add: nth_append nth_list_update)
  qed
  then show "kq (snd (kbuf_push e k)) (q @ [e])"
    unfolding e kq_def using k assms pos ring_next [of "ktail k" "length q"] by simp
qed

lemma keyboard_poll_empty: "kq k [] \<Longrightarrow> keyboard_poll k = (None, k)"
  by (simp add: kq_def keyboard_poll_def)

lemma keyboard_poll_kq [repr_simps]:
  assumes "kq k (e # q)"
  shows "\<exists>k'. keyboard_poll k = (Some e, k') \<and> kq k' q \<and> modifiers k' = modifiers k"
proof -
  have k: "khead k = (ktail k + length (e # q)) mod KEY_BUF_SIZE" "ktail k < KEY_BUF_SIZE"
    "length (e # q) < KEY_BUF_SIZE"
    "\<And>i. i < length (e # q) \<Longrightarrow> kbuf k ! ((ktail k + i) mod KEY_BUF_SIZE) = (e # q) ! i"
    using assms by (simp_all add: kq_def)
  have ne: "khead k \<noteq> ktail k"
    using ring_index_inj [of "ktail k" "length (e # q)" 0] k(1-3) by auto
  have hd: "kbuf k ! ktail k = e" using k(4) [of 0] k(2) by simp
  let ?k = "k\<lparr>ktail := (ktail k + 1) mod KEY_BUF_SIZE\<rparr>"
  have shift: "((ktail k + 1) mod KEY_BUF_SIZE + i) mod KEY_BUF_SIZE = (ktail k + Suc i) mod KEY_BUF_SIZE" for i
    by (simp add: mod_add_left_eq)
  have "kbuf k ! ((ktail k + Suc i) mod KEY_BUF_SIZE) = q ! i" if "i < length q" for i
    using k(4) [of "Suc i"] that by simp
  then have "kq ?k q" using assms k(1) unfolding kq_def by (simp add: shift [simplified])
  with ne hd show ?thesis by (simp add: keyboard_poll_def)
qed

interpretation key_ring: fifo kq "\<lambda>q e. length q < KEY_BUF_SIZE - 1" "\<lambda>e k. snd (kbuf_push e k)" keyboard_poll
proof
  show "kq (snd (kbuf_push e k)) (q @ [e])" if "kq k q" "length q < KEY_BUF_SIZE - 1" for k q e
    using that by (rule kbuf_push_kq(2))
  show "keyboard_poll k = (None, k)" if "kq k []" for k using that by (rule keyboard_poll_empty)
  show "\<exists>t. keyboard_poll k = (Some e, t) \<and> kq t q" if "kq k (e # q)" for k e q
    using keyboard_poll_kq [OF that] by blast
qed

section \<open>Characters\<close>

lemma sc_tables_length: "length sc_ascii = 128" "length sc_shift = 128"
  by (simp_all add: sc_ascii_def sc_shift_def)

definition is_lower :: "u8 \<Rightarrow> bool" where "is_lower c \<longleftrightarrow> 0x61 \<le> c \<and> c \<le> 0x7A"
definition is_upper :: "u8 \<Rightarrow> bool" where "is_upper c \<longleftrightarrow> 0x41 \<le> c \<and> c \<le> 0x5A"

text \<open>On every key that is not a letter the shifted and the plain character are no letters.\<close>

lemma sc_letters:
  "list_all2 (\<lambda>c d. if is_lower c then d = c - 32 else \<not> is_upper c \<and> \<not> is_lower d \<and> \<not> is_upper d) sc_ascii sc_shift"
  by (simp add: sc_ascii_def sc_shift_def is_lower_def is_upper_def)

lemma sc_letters_nth:
  assumes "n < 128"
  shows "if is_lower (sc_ascii ! n) then sc_shift ! n = sc_ascii ! n - 32
    else \<not> is_upper (sc_ascii ! n) \<and> \<not> is_lower (sc_shift ! n) \<and> \<not> is_upper (sc_shift ! n)"
  using list_all2_nthD [OF sc_letters, of n] assms by (simp add: sc_tables_length)

lemma lower_to_upper:
  assumes "is_lower c"
  shows "is_upper (c - 32)" "\<not> is_lower (c - 32)" "c - 32 + 32 = c"
proof -
  have c: "unat c \<ge> 0x61" "unat c \<le> 0x7A" using assms by (simp_all add: is_lower_def word_le_nat_alt)
  then have "unat (c - 32) = unat c - 32" by (simp add: unat_sub word_le_nat_alt)
  with c show "is_upper (c - 32)" "\<not> is_lower (c - 32)"
    by (auto simp: is_upper_def is_lower_def word_le_nat_alt)
qed simp

lemma key_char_caps:
  assumes "mods AND KEY_MOD_CAPS \<noteq> 0" "unat code < 128"
  shows "key_char mods code = (if is_lower (sc_ascii ! unat code) then sc_ascii ! unat code
    else if mods AND KEY_MOD_SHIFT \<noteq> 0 then sc_shift ! unat code else sc_ascii ! unat code)"
proof -
  define c where "c = (if mods AND KEY_MOD_SHIFT \<noteq> 0 then sc_shift ! unat code else sc_ascii ! unat code)"
  have k: "key_char mods code = (let c = (if is_lower c then c - 32 else c) in if is_upper c then c + 32 else c)"
    using assms unfolding key_char_def c_def is_lower_def is_upper_def by (simp only: Let_def if_True simp_thms)
  show ?thesis
  proof (cases "is_lower (sc_ascii ! unat code)")
    case True
    note l = lower_to_upper [OF True]
    have "sc_shift ! unat code = sc_ascii ! unat code - 32" using sc_letters_nth [OF assms(2)] True by simp
    with True l show ?thesis unfolding k c_def by (cases "mods AND KEY_MOD_SHIFT = 0") (simp_all add: Let_def)
  next
    case False
    with sc_letters_nth [OF assms(2)] show ?thesis
      unfolding k c_def by (cases "mods AND KEY_MOD_SHIFT = 0") (simp_all add: Let_def)
  qed
qed

section \<open>Key presses\<close>

text \<open>A scan code of a key press that is no modifier and no prefix.\<close>

definition plain_press :: "u8 \<Rightarrow> bool" where
  "plain_press sc \<longleftrightarrow> sc AND 0x80 = 0 \<and> sc \<notin> {0x2A, 0x36, 0x1D, 0x38, 0x3A}"

definition press_event :: "u8 \<Rightarrow> u8 \<Rightarrow> key_event" where
  "press_event mods sc = \<lparr>scancode = sc AND 0x7F, ascii = key_char mods (sc AND 0x7F),
     ev_modifiers = mods, pressed = True\<rparr>"

lemma press_code:
  assumes "sc AND 0x80 = (0 :: u8)"
  shows "sc AND 0x7F = sc" "sc \<noteq> 0xE0"
proof -
  have "(0x80 OR 0x7F :: u8) = - 1" by simp
  then have "sc AND (0x80 OR 0x7F) = sc" by (simp only: bit.conj_one_right)
  then have "(sc AND 0x80) OR (sc AND 0x7F) = sc" by (simp only: bit.conj_disj_distrib)
  with assms show "sc AND 0x7F = sc" by simp
  show "sc \<noteq> 0xE0" using assms by auto
qed

lemma kb_scancode_plain:
  assumes "plain_press sc"
  shows "kb_scancode sc k = snd (kbuf_push (press_event (modifiers k) sc) (k\<lparr>extended := False\<rparr>))"
  using assms press_code [of sc] by (auto simp: plain_press_def kb_scancode_def press_event_def Let_def)

lemma kq_extended [frame_simps]: "kq (k\<lparr>extended := b\<rparr>) q = kq k q"
  by (simp add: kq_def)

lemma kbuf_push_modifiers [frame_simps]: "modifiers (snd (kbuf_push e k)) = modifiers k"
  by (simp add: kbuf_push_def Let_def)

lemma kb_scancode_kq:
  assumes "kq k q" "plain_press sc" "length q < KEY_BUF_SIZE - 1"
  shows "kq (kb_scancode sc k) (q @ [press_event (modifiers k) sc])" "modifiers (kb_scancode sc k) = modifiers k"
  using assms by (simp_all add: kb_scancode_plain frame_simps kbuf_push_kq)

lemma kb_scancodes_kq:
  assumes "kq k q" "\<forall>sc\<in>set scs. plain_press sc" "length q + length scs < KEY_BUF_SIZE"
  shows "kq (fold kb_scancode scs k) (q @ map (press_event (modifiers k)) scs)"
  using assms
proof (induction scs arbitrary: k q)
  case (Cons sc scs)
  have "length q < KEY_BUF_SIZE - 1" using Cons.prems(3) by simp
  note step = kb_scancode_kq [OF Cons.prems(1) _ this, of sc]
  with Cons.IH [OF step(1)] Cons.prems show ?case by simp
qed simp

section \<open>Correctness\<close>

definition blank_keyboard :: keyboard where
  "blank_keyboard = \<lparr>kbuf = replicate KEY_BUF_SIZE (press_event 0 0), khead = 120, ktail = 120,
     modifiers = 0, extended = False\<rparr>"

lemma blank_keyboard_kq: "kq blank_keyboard []"
  by (simp add: kq_def blank_keyboard_def KEY_BUF_SIZE_def)



text \<open>With caps lock on, every letter key delivers its lower-case letter, with or without shift:
  the second conversion of the handler undoes the first, so caps lock alone has no effect and
  only cancels shift.\<close>

theorem caps_lock_cancelled:
  assumes "mods AND KEY_MOD_CAPS \<noteq> 0" "unat code < 128"
  shows "key_char mods code = (if is_lower (sc_ascii ! unat code) then sc_ascii ! unat code
    else if mods AND KEY_MOD_SHIFT \<noteq> 0 then sc_shift ! unat code else sc_ascii ! unat code)"
  by (rule key_char_caps [OF assms])

theorem caps_lock_cancelled_witness: "key_char KEY_MOD_CAPS 0x1E = 0x61"
  using caps_lock_cancelled [of KEY_MOD_CAPS "0x1E"]
  by (simp add: KEY_MOD_CAPS_def KEY_MOD_SHIFT_def sc_ascii_def is_lower_def)

end
