(* ===== verification/Mouse.thy ===== *)
theory Mouse
  imports Ports
begin

text \<open>
  The PS/2 mouse driver \<^verbatim>\<open>drivers/input/ps2_mouse.c\<close>: three-byte packets arrive one byte per
  interrupt and move the pointer.  The coordinates are 32-bit words.
\<close>

definition PS2_DATA :: u16 where "PS2_DATA = 0x60"
definition PS2_STATUS :: u16 where "PS2_STATUS = 0x64"
definition PS2_CMD :: u16 where "PS2_CMD = 0x64"

record mouse =
  mx :: i32
  my :: i32
  mleft :: bool
  mright :: bool
  mmiddle :: bool
  pkt :: "u8 list"
  pkt_idx :: nat

section \<open>The interrupt handler\<close>

text \<open>A movement byte with its sign in the first byte of the packet.\<close>

definition delta :: "u8 \<Rightarrow> u8 \<Rightarrow> u8 \<Rightarrow> i32" where
  "delta b0 sign v = ucast v - (if b0 AND sign \<noteq> 0 then 256 else 0)"

definition mouse_byte :: "u8 \<Rightarrow> mouse \<Rightarrow> mouse" where
  "mouse_byte byte s =
     (if pkt_idx s = 0 \<and> byte AND 0x08 = 0 then s
      else
        let s = s\<lparr>pkt := (pkt s)[pkt_idx s := byte], pkt_idx := pkt_idx s + 1\<rparr>
        in if pkt_idx s < 3 then s
           else
             let b0 = pkt s ! 0
             in s\<lparr>pkt_idx := 0,
                  mleft := (b0 AND 0x01 \<noteq> 0), mright := (b0 AND 0x02 \<noteq> 0), mmiddle := (b0 AND 0x04 \<noteq> 0),
                  mx := mx s + delta b0 0x10 (pkt s ! 1),
                  my := my s - delta b0 0x20 (pkt s ! 2)\<rparr>)"

definition mouse_handler :: "'d bus \<Rightarrow> mouse \<Rightarrow> ('d, mouse) io" where
  "mouse_handler b s = andthen (inb b PS2_DATA) (\<lambda>byte. ret (mouse_byte byte s))"

section \<open>The controller\<close>

definition mouse_write :: "'d bus \<Rightarrow> u8 \<Rightarrow> ('d, unit) io" where
  "mouse_write b v =
     io_seq [wait_clear b PS2_STATUS 0x02, outb b PS2_CMD 0xD4,
             wait_clear b PS2_STATUS 0x02, outb b PS2_DATA v]"

definition mouse_read :: "'d bus \<Rightarrow> ('d, u8) io" where
  "mouse_read b = andthen (wait_set b PS2_STATUS 0x01) (\<lambda>_. inb b PS2_DATA)"

text \<open>\<open>register\<close> stands for \<^verbatim>\<open>isr_register(44, mouse_handler)\<close> and \<^verbatim>\<open>pic_unmask_irq(12)\<close>.\<close>

definition mouse_init :: "'d bus \<Rightarrow> ('d, unit) io \<Rightarrow> ('d, unit) io" where
  "mouse_init b register =
     io_seq
      [wait_clear b PS2_STATUS 0x02,
       outb b PS2_CMD 0xA8,
       wait_clear b PS2_STATUS 0x02,
       outb b PS2_CMD 0x20,
       andthen (mouse_read b) (\<lambda>cfg.
         io_seq
          [wait_clear b PS2_STATUS 0x02,
           outb b PS2_CMD 0x60,
           wait_clear b PS2_STATUS 0x02,
           outb b PS2_DATA (cfg OR 0x02)]),
       mouse_write b 0xFF, andthen (mouse_read b) (\<lambda>_. ret ()),
       mouse_write b 0xF6, andthen (mouse_read b) (\<lambda>_. ret ()),
       mouse_write b 0xF4, andthen (mouse_read b) (\<lambda>_. ret ()),
       register]"

definition mouse_get :: "mouse \<Rightarrow> mouse" where
  "mouse_get s = s"

section \<open>Packets\<close>

type_synonym packet = "u8 \<times> u8 \<times> u8"

definition packet_bytes :: "packet \<Rightarrow> u8 list" where
  "packet_bytes = (\<lambda>(b0, b1, b2). [b0, b1, b2])"

definition packet_ok :: "packet \<Rightarrow> bool" where
  "packet_ok = (\<lambda>(b0, b1, b2). b0 AND 0x08 \<noteq> 0)"

definition packet_dx :: "packet \<Rightarrow> i32" where "packet_dx = (\<lambda>(b0, b1, b2). delta b0 0x10 b1)"
definition packet_dy :: "packet \<Rightarrow> i32" where "packet_dy = (\<lambda>(b0, b1, b2). delta b0 0x20 b2)"

lemma mouse_junk:
  assumes "pkt_idx s = 0" "\<forall>c\<in>set junk. c AND 0x08 = 0"
  shows "fold mouse_byte junk s = s"
  using assms by (induction junk) (simp_all add: mouse_byte_def)

lemma mouse_packet:
  assumes "length (pkt s) = 3" "pkt_idx s = 0" "packet_ok p"
  shows "fold mouse_byte (packet_bytes p) s =
    s\<lparr>pkt := packet_bytes p, mx := mx s + packet_dx p, my := my s - packet_dy p,
      mleft := fst p AND 1 \<noteq> 0, mright := fst p AND 2 \<noteq> 0, mmiddle := fst p AND 4 \<noteq> 0\<rparr>"
proof -
  obtain b0 b1 b2 where p: "p = (b0, b1, b2)" by (cases p)
  obtain x y z where "pkt s = [x, y, z]"
    using assms(1) by (auto simp: numeral_3_eq_3 length_Suc_conv)
  with assms show ?thesis
    by (simp add: p packet_bytes_def packet_ok_def packet_dx_def packet_dy_def mouse_byte_def Let_def)
qed

text \<open>A stream of packets, each after any number of stray bytes that cannot start one.\<close>

definition stream :: "(u8 list \<times> packet) list \<Rightarrow> u8 list" where
  "stream ps = concat (map (\<lambda>(junk, p). junk @ packet_bytes p) ps)"

lemma mouse_stream:
  assumes "length (pkt s) = 3" "pkt_idx s = 0"
    and "\<forall>(junk, p)\<in>set ps. packet_ok p \<and> (\<forall>c\<in>set junk. c AND 0x08 = 0)"
  shows "mx (fold mouse_byte (stream ps) s) = mx s + sum_list (map (\<lambda>(junk, p). packet_dx p) ps) \<and>
    my (fold mouse_byte (stream ps) s) = my s - sum_list (map (\<lambda>(junk, p). packet_dy p) ps) \<and>
    pkt_idx (fold mouse_byte (stream ps) s) = 0"
  using assms
proof (induction ps arbitrary: s)
  case Nil
  then show ?case by (simp add: stream_def)
next
  case (Cons q ps)
  obtain junk p where q: "q = (junk, p)" by (cases q)
  let ?s = "fold mouse_byte (packet_bytes p) s"
  have p: "packet_ok p" "\<forall>c\<in>set junk. c AND 0x08 = 0" using Cons.prems(3) q by auto
  note e = mouse_packet [OF Cons.prems(1,2) p(1)]
  have "length (pkt ?s) = 3" "pkt_idx ?s = 0"
    unfolding e using Cons.prems(2) by (simp_all add: packet_bytes_def split: prod.splits)
  from Cons.IH [OF this] Cons.prems(3)
  have "mx (fold mouse_byte (stream ps) ?s) = mx ?s + sum_list (map (\<lambda>(junk, p). packet_dx p) ps) \<and>
    my (fold mouse_byte (stream ps) ?s) = my ?s - sum_list (map (\<lambda>(junk, p). packet_dy p) ps) \<and>
    pkt_idx (fold mouse_byte (stream ps) ?s) = 0" by simp
  moreover have "fold mouse_byte (stream (q # ps)) s = fold mouse_byte (stream ps) ?s"
    by (simp add: stream_def q mouse_junk [OF Cons.prems(2) p(2)])
  ultimately show ?case unfolding q by (simp add: e)
qed

section \<open>Correctness\<close>

definition blank_mouse :: mouse where
  "blank_mouse = \<lparr>mx = 0, my = 0, mleft = False, mright = False, mmiddle = False, pkt = [0, 0, 0], pkt_idx = 0\<rparr>"

text \<open>The handler reassembles packets from single bytes: after any stream of packets, each
  preceded by any stray bytes that cannot start a packet, the pointer has moved by the sum of
  the signed movements (the vertical one upwards) and the driver is synchronised again.\<close>

theorem mouse_follows_packets:
  assumes "length (pkt s) = 3" "pkt_idx s = 0"
    and "\<forall>(junk, p)\<in>set ps. packet_ok p \<and> (\<forall>c\<in>set junk. c AND 0x08 = 0)"
  shows "mx (fold mouse_byte (stream ps) s) = mx s + sum_list (map (\<lambda>(junk, p). packet_dx p) ps) \<and>
    my (fold mouse_byte (stream ps) s) = my s - sum_list (map (\<lambda>(junk, p). packet_dy p) ps) \<and>
    pkt_idx (fold mouse_byte (stream ps) s) = 0"
  by (rule mouse_stream [OF assms])

theorem mouse_follows_packets_witness:
  "mx (fold mouse_byte [0x01, 0x18, 0xFB, 0x02] blank_mouse) = - 5 \<and>
   my (fold mouse_byte [0x01, 0x18, 0xFB, 0x02] blank_mouse) = - 2"
proof -
  have e: "stream [([0x01], (0x18, 0xFB, 0x02))] = [0x01, 0x18, 0xFB, 0x02]"
    by (simp add: stream_def packet_bytes_def)
  have "length (pkt blank_mouse) = 3" "pkt_idx blank_mouse = 0"
    "\<forall>(junk, p)\<in>set [([0x01 :: u8], (0x18, 0xFB, 0x02))]. packet_ok p \<and> (\<forall>c\<in>set junk. c AND 0x08 = 0)"
    by (simp_all add: blank_mouse_def packet_ok_def)
  from mouse_follows_packets [OF this] show ?thesis
    unfolding e by (simp add: blank_mouse_def packet_dx_def packet_dy_def delta_def)
qed

end
