(* ===== verification/Cpu.thy ===== *)
theory Cpu
  imports Ports
begin

text \<open>
  The processor and interrupt set-up of both targets: segment descriptors
  (\<^verbatim>\<open>arch/*/cpu/gdt.c\<close>), interrupt gates (\<^verbatim>\<open>arch/*/cpu/idt.c\<close>), the interrupt controller and the
  dispatcher (\<^verbatim>\<open>arch/*/cpu/isr.c\<close>), the interval timer (\<^verbatim>\<open>drivers/timer/pit.c\<close>) and the part of
  \<^verbatim>\<open>kernel/kmain.c\<close> that connects them.  The interrupt controller itself is hardware behind the
  ports; what the code relies on is \<open>pic_laws\<close>.
\<close>

section \<open>Segment descriptors\<close>

record gdt_entry =
  limit_low :: u16
  base_low :: u16
  base_mid :: u8
  access :: u8
  granularity :: u8
  base_high :: u8

definition gdt_set :: "nat \<Rightarrow> u32 \<Rightarrow> u32 \<Rightarrow> u8 \<Rightarrow> u8 \<Rightarrow> gdt_entry list \<Rightarrow> gdt_entry list" where
  "gdt_set i base limit acc gran gdt =
     gdt[i := \<lparr>limit_low = ucast (limit AND 0xFFFF), base_low = ucast (base AND 0xFFFF),
       base_mid = ucast (drop_bit 16 base AND 0xFF), access = acc,
       granularity = (ucast (drop_bit 16 limit AND 0x0F)) OR (gran AND 0xF0),
       base_high = ucast (drop_bit 24 base AND 0xFF)\<rparr>]"

text \<open>The third argument of the code segment's \<^verbatim>\<open>gdt_set\<close> is the only difference of the two targets.\<close>

fun code_flags :: "arch \<Rightarrow> u8" where
  "code_flags X86 = 0xCF"
| "code_flags X86_64 = 0xAF"

definition gdt_init :: "arch \<Rightarrow> gdt_entry list \<Rightarrow> gdt_entry list" where
  "gdt_init a gdt =
     gdt_set 2 0 0xFFFFFFFF 0x92 0xCF
      (gdt_set 1 0 0xFFFFFFFF 0x9A (code_flags a)
        (gdt_set 0 0 0 0x00 0x00 gdt))"

text \<open>\<^verbatim>\<open>gdt_ptr\<close>, which the processor loads: the size of the table less one, and its address.\<close>

record gdt_ptr32 =
  gp32_limit :: u16
  gp32_base :: u32

definition gdt_init32 :: "u32 \<Rightarrow> gdt_entry list \<Rightarrow> gdt_ptr32 \<times> gdt_entry list" where
  "gdt_init32 gdt_addr gdt = (\<lparr>gp32_limit = of_nat (8 * 3 - 1), gp32_base = gdt_addr\<rparr>, gdt_init X86 gdt)"

text \<open>What the processor reads back out of a descriptor.\<close>

definition seg_base :: "gdt_entry \<Rightarrow> u32" where
  "seg_base e = ucast (base_low e) OR push_bit 16 (ucast (base_mid e)) OR push_bit 24 (ucast (base_high e))"

definition seg_limit :: "gdt_entry \<Rightarrow> u32" where
  "seg_limit e = ucast (limit_low e) OR push_bit 16 (ucast (granularity e AND 0x0F))"

section \<open>Interrupt gates\<close>

record gate32 =
  g32_offset_low :: u16
  g32_selector :: u16
  g32_zero :: u8
  g32_flags :: u8
  g32_offset_high :: u16

record gate64 =
  g64_offset_low :: u16
  g64_selector :: u16
  g64_ist :: u8
  g64_flags :: u8
  g64_offset_mid :: u16
  g64_offset_high :: u32
  g64_zero :: u32

definition gate32_of :: "u32 \<Rightarrow> u16 \<Rightarrow> u8 \<Rightarrow> gate32" where
  "gate32_of base sel flags =
     \<lparr>g32_offset_low = ucast (base AND 0xFFFF), g32_selector = sel, g32_zero = 0,
      g32_flags = flags, g32_offset_high = ucast (drop_bit 16 base AND 0xFFFF)\<rparr>"

definition idt_set_gate32 :: "u8 \<Rightarrow> u32 \<Rightarrow> u16 \<Rightarrow> u8 \<Rightarrow> gate32 list \<Rightarrow> gate32 list" where
  "idt_set_gate32 num base sel flags idt = idt[unat num := gate32_of base sel flags]"

definition gate64_of :: "u64 \<Rightarrow> u16 \<Rightarrow> u8 \<Rightarrow> gate64" where
  "gate64_of base sel flags =
     \<lparr>g64_offset_low = ucast (base AND 0xFFFF), g64_selector = sel, g64_ist = 0,
      g64_flags = flags, g64_offset_mid = ucast (drop_bit 16 base AND 0xFFFF),
      g64_offset_high = ucast (drop_bit 32 base AND 0xFFFFFFFF), g64_zero = 0\<rparr>"

definition idt_set_gate64 :: "u8 \<Rightarrow> u64 \<Rightarrow> u16 \<Rightarrow> u8 \<Rightarrow> gate64 list \<Rightarrow> gate64 list" where
  "idt_set_gate64 num base sel flags idt =
     idt[unat num := gate64_of base sel flags]"

text \<open>\<open>stubs\<close> holds the addresses of the 48 assembly routines \<^verbatim>\<open>isr_0\<close> to \<^verbatim>\<open>isr_47\<close>.\<close>

definition idt_gates32 :: "u32 list \<Rightarrow> gate32 list \<Rightarrow> gate32 list" where
  "idt_gates32 stubs idt = fold (\<lambda>i. idt_set_gate32 (of_nat i) (stubs ! i) 0x08 0x8E) [0..<48] idt"

definition idt_gates64 :: "u64 list \<Rightarrow> gate64 list \<Rightarrow> gate64 list" where
  "idt_gates64 stubs idt = fold (\<lambda>i. idt_set_gate64 (of_nat i) (stubs ! i) 0x08 0x8E) [0..<48] idt"

text \<open>The pointer that the processor loads: the size of the 256 gates less one, and the address of the table.\<close>

record idt_ptr32 =
  ip32_limit :: u16
  ip32_base :: u32

record idt_ptr64 =
  ip64_limit :: u16
  ip64_base :: u64

definition idt_init32 :: "u32 \<Rightarrow> u32 list \<Rightarrow> gate32 list \<Rightarrow> idt_ptr32 \<times> gate32 list" where
  "idt_init32 idt_addr stubs idt = (\<lparr>ip32_limit = of_nat (8 * 256 - 1), ip32_base = idt_addr\<rparr>, idt_gates32 stubs idt)"

definition idt_init64 :: "u64 \<Rightarrow> u64 list \<Rightarrow> gate64 list \<Rightarrow> idt_ptr64 \<times> gate64 list" where
  "idt_init64 idt_addr stubs idt = (\<lparr>ip64_limit = of_nat (16 * 256 - 1), ip64_base = idt_addr\<rparr>, idt_gates64 stubs idt)"

definition gate32_offset :: "gate32 \<Rightarrow> u32" where
  "gate32_offset g = ucast (g32_offset_low g) OR push_bit 16 (ucast (g32_offset_high g))"

definition gate64_offset :: "gate64 \<Rightarrow> u64" where
  "gate64_offset g = ucast (g64_offset_low g) OR push_bit 16 (ucast (g64_offset_mid g)) OR
     push_bit 32 (ucast (g64_offset_high g))"

section \<open>The interrupt controller\<close>

definition PIC1_CMD :: u16 where "PIC1_CMD = 0x20"
definition PIC1_DATA :: u16 where "PIC1_DATA = 0x21"
definition PIC2_CMD :: u16 where "PIC2_CMD = 0xA0"
definition PIC2_DATA :: u16 where "PIC2_DATA = 0xA1"
definition PIC_EOI :: u8 where "PIC_EOI = 0x20"

definition pic_remap :: "'d bus \<Rightarrow> ('d, unit) io" where
  "pic_remap b =
     io_seq
      [outb b PIC1_CMD 0x11, io_wait b,
       outb b PIC2_CMD 0x11, io_wait b,
       outb b PIC1_DATA 0x20, io_wait b,
       outb b PIC2_DATA 0x28, io_wait b,
       outb b PIC1_DATA 0x04, io_wait b,
       outb b PIC2_DATA 0x02, io_wait b,
       outb b PIC1_DATA 0x01, io_wait b,
       outb b PIC2_DATA 0x01, io_wait b,
       outb b PIC1_DATA 0xFF,
       outb b PIC2_DATA 0xFF]"

definition pic_send_eoi :: "'d bus \<Rightarrow> u8 \<Rightarrow> ('d, unit) io" where
  "pic_send_eoi b irq =
     io_seq ((if irq \<ge> 8 then [outb b PIC2_CMD PIC_EOI] else []) @ [outb b PIC1_CMD PIC_EOI])"

definition pic_port :: "u8 \<Rightarrow> u16" where
  "pic_port irq = (if irq < 8 then PIC1_DATA else PIC2_DATA)"

definition pic_bit :: "u8 \<Rightarrow> nat" where
  "pic_bit irq = (if irq < 8 then unat irq else unat (irq - 8))"

definition pic_mask_irq :: "'d bus \<Rightarrow> u8 \<Rightarrow> ('d, unit) io" where
  "pic_mask_irq b irq =
     andthen (inb b (pic_port irq)) (\<lambda>v. outb b (pic_port irq) (v OR push_bit (pic_bit irq) 1))"

definition pic_unmask_irq :: "'d bus \<Rightarrow> u8 \<Rightarrow> ('d, unit) io" where
  "pic_unmask_irq b irq =
     andthen (inb b (pic_port irq)) (\<lambda>v. outb b (pic_port irq) (v AND NOT (push_bit (pic_bit irq) 1)))"

section \<open>Interrupt handlers\<close>

text \<open>The table \<^verbatim>\<open>handlers\<close>; a handler is one of the functions the kernel registers.\<close>

datatype handler = Kmain_pit_handler | Pit_handler | Kb_handler | Mouse_handler

type_synonym handlers = "nat \<Rightarrow> handler option"

definition isr_register :: "u8 \<Rightarrow> handler \<Rightarrow> handlers \<Rightarrow> handlers" where
  "isr_register num h hs = hs(unat num \<mapsto> h)"

text \<open>The last call of \<^verbatim>\<open>isr_init\<close> is \<^verbatim>\<open>idt_init\<close> above, which touches neither the table nor the ports.\<close>

definition isr_init :: "'d bus \<Rightarrow> handlers \<Rightarrow> ('d, handlers) io" where
  "isr_init b hs = andthen (pic_remap b) (\<lambda>_. ret Map.empty)"

definition exception_names32 :: "string list" where
  "exception_names32 =
     [''Divide Error'', ''Debug'', ''NMI'', ''Breakpoint'', ''Overflow'', ''BOUND Range Exceeded'',
      ''Invalid Opcode'', ''Device Not Available'', ''Double Fault'', ''Coprocessor Segment Overrun'',
      ''Invalid TSS'', ''Segment Not Present'', ''Stack-Segment Fault'', ''General Protection Fault'',
      ''Page Fault'', ''Reserved'', ''x87 FP Exception'', ''Alignment Check'', ''Machine Check'',
      ''SIMD FP Exception'', ''Virtualization'', ''Control Protection'',
      ''Reserved'', ''Reserved'', ''Reserved'', ''Reserved'', ''Reserved'', ''Reserved'', ''Reserved'',
      ''Reserved'', ''Security Exception'', ''Reserved'']"

definition exc_names64 :: "string list" where
  "exc_names64 =
     [''Divide Error'', ''Debug'', ''NMI'', ''Breakpoint'', ''Overflow'', ''BOUND'',
      ''Invalid Opcode'', ''Device Not Available'', ''Double Fault'', ''Coprocessor Segment Overrun'',
      ''Invalid TSS'', ''Segment Not Present'', ''Stack Fault'', ''General Protection'',
      ''Page Fault'', ''Reserved'', ''x87 FP'', ''Alignment Check'', ''Machine Check'', ''SIMD FP'',
      ''Virtualization'', ''Control Protection'',
      ''Rsv'', ''Rsv'', ''Rsv'', ''Rsv'', ''Rsv'', ''Rsv'', ''Rsv'', ''Rsv'', ''Security'', ''Reserved'']"

fun exception_names :: "arch \<Rightarrow> string list" where
  "exception_names X86 = exception_names32"
| "exception_names X86_64 = exc_names64"

text \<open>
  \<open>run h\<close> is what the handler \<open>h\<close> does; \<open>num\<close> is the vector the assembly stub pushed, at most 47.
\<close>

definition isr_dispatch ::
  "arch \<Rightarrow> 'd bus \<Rightarrow> (handler \<Rightarrow> ('d, unit) io) \<Rightarrow> handlers \<Rightarrow> nat \<Rightarrow> ('d, unit outcome) io" where
  "isr_dispatch a b run hs num =
     andthen
      (case hs num of
         Some h \<Rightarrow> andthen (run h) (\<lambda>_. ret (Done ()))
       | None \<Rightarrow> ret (if num < 32 then Panic (exception_names a ! num) else Done ()))
      (\<lambda>r. case r of
         Panic m \<Rightarrow> ret (Panic m)
       | Done _ \<Rightarrow>
           if num \<ge> 32 \<and> num < 48
           then andthen (pic_send_eoi b (of_nat (num - 32))) (\<lambda>_. ret (Done ())) else ret (Done ()))"

section \<open>The interval timer\<close>

definition PIT_BASE_HZ :: nat where "PIT_BASE_HZ = 1193182"
definition PIT_CMD :: u16 where "PIT_CMD = 0x43"
definition PIT_CH0 :: u16 where "PIT_CH0 = 0x40"

record pit =
  tick_count :: u64
  ticks_per_ms :: u32

definition pit_handler :: "pit \<Rightarrow> pit" where
  "pit_handler p = p\<lparr>tick_count := tick_count p + 1\<rparr>"

text \<open>A frequency of zero raises the divide exception, whose dispatch never returns.\<close>

definition pit_init :: "'d bus \<Rightarrow> u32 \<Rightarrow> pit \<Rightarrow> handlers \<Rightarrow> ('d, pit \<times> handlers) io" where
  "pit_init b hz p hs d =
     (if hz = 0 then None
      else
        let divisor = (of_nat (PIT_BASE_HZ div unat hz) :: u32);
            p = p\<lparr>ticks_per_ms := hz div 1000\<rparr>;
            p = (if ticks_per_ms p = 0 then p\<lparr>ticks_per_ms := 1\<rparr> else p);
            hs = isr_register 32 Pit_handler hs
        in andthen
            (io_seq
              [pic_unmask_irq b 0,
               outb b PIT_CMD 0x36,
               outb b PIT_CH0 (ucast (divisor AND 0xFF)),
               outb b PIT_CH0 (ucast (drop_bit 8 divisor))])
            (\<lambda>_. ret (p, hs)) d)"

definition pit_ticks :: "pit \<Rightarrow> u64" where
  "pit_ticks p = tick_count p"

text \<open>
  \<^verbatim>\<open>pit_sleep_ms\<close> halts until the target is reached.  \<open>irqs\<close> says of each interrupt that ends a
  \<^verbatim>\<open>hlt\<close> whether it is the timer's; \<open>None\<close> means that it still sleeps after all of them.
\<close>

fun pit_wait :: "u64 \<Rightarrow> bool list \<Rightarrow> pit \<Rightarrow> pit option" where
  "pit_wait target [] p = (if tick_count p < target then None else Some p)"
| "pit_wait target (t # irqs) p =
     (if tick_count p < target then pit_wait target irqs (if t then pit_handler p else p) else Some p)"

definition pit_sleep_ms :: "u32 \<Rightarrow> bool list \<Rightarrow> pit \<Rightarrow> pit option" where
  "pit_sleep_ms ms irqs p = pit_wait (tick_count p + ucast ms * ucast (ticks_per_ms p)) irqs p"

text \<open>The interrupt part of \<^verbatim>\<open>kmain\<close>: its own timer handler is registered before \<^verbatim>\<open>pit_init(100)\<close>.\<close>

definition kmain_interrupts :: "'d bus \<Rightarrow> pit \<Rightarrow> handlers \<Rightarrow> ('d, pit \<times> handlers) io" where
  "kmain_interrupts b p hs =
     andthen (isr_init b hs) (\<lambda>hs. pit_init b 100 p (isr_register 32 Kmain_pit_handler hs))"

section \<open>Round trips of the descriptor encodings\<close>

lemma mask_words: "(0xFFFF :: 'a::len word) = mask 16" "(0xFF :: 'a word) = mask 8" "(0x0F :: 'a word) = mask 4"
  "(0xFFFFFFFF :: 'a word) = mask 32"
  by (simp_all add: mask_eq_exp_minus_1)

lemma seg_base_gdt_set:
  assumes "i < length gdt"
  shows "seg_base (gdt_set i base limit acc gran gdt ! i) = base"
  unfolding seg_base_def gdt_set_def mask_words
  apply (rule bit_word_eqI)
  subgoal for n using assms by (cases "n < 24") (auto simp: bit_simps)
  done

lemma seg_limit_gdt_set:
  assumes "i < length gdt"
  shows "seg_limit (gdt_set i base limit acc gran gdt ! i) = limit AND 0xFFFFF"
proof -
  have m: "(0xFFFFF :: u32) = mask 20" "(0xF0 :: u8) = push_bit 4 (mask 4)" by (simp_all add: mask_eq_exp_minus_1 push_bit_eq_mult)
  show ?thesis using assms unfolding seg_limit_def gdt_set_def mask_words m
    by (intro bit_word_eqI) (auto simp: bit_simps)
qed

lemma gate32_offset_of: "gate32_offset (gate32_of base sel flags) = base"
  unfolding gate32_offset_def gate32_of_def mask_words
  by (rule bit_word_eqI) (auto simp: bit_simps)

lemma gate64_offset_of: "gate64_offset (gate64_of base sel flags) = base"
  unfolding gate64_offset_def gate64_of_def mask_words
  apply (rule bit_word_eqI)
  subgoal for n by (cases "n < 32") (auto simp: bit_simps)
  done

lemma unat_of_nat_u8: "n < 48 \<Longrightarrow> unat (of_nat n :: u8) = n"
  by (simp add: unat_of_nat)

lemma idt_gates_updates:
  "idt_gates32 stubs32 idt32 = fold (\<lambda>i d. d[i := gate32_of (stubs32 ! i) 0x08 0x8E]) [0..<48] idt32"
  "idt_gates64 stubs64 idt64 = fold (\<lambda>i d. d[i := gate64_of (stubs64 ! i) 0x08 0x8E]) [0..<48] idt64"
  unfolding idt_gates32_def idt_gates64_def
  by (rule fold_cong [OF refl refl]; simp add: idt_set_gate32_def idt_set_gate64_def unat_of_nat_u8 fun_eq_iff)+

section \<open>The interrupt masks\<close>

text \<open>
  What the code relies on of the two interrupt controllers once they are initialised: reading a
  data port gives the mask register without changing it, and writing it replaces that mask and
  leaves the other controller's alone.
\<close>

definition pic_laws :: "'d bus \<Rightarrow> ('d \<Rightarrow> u8) \<Rightarrow> ('d \<Rightarrow> u8) \<Rightarrow> bool" where
  "pic_laws b m1 m2 \<longleftrightarrow>
     (\<forall>d. in8 b PIC1_DATA d = (m1 d, d)) \<and> (\<forall>d. in8 b PIC2_DATA d = (m2 d, d)) \<and>
     (\<forall>v d. m1 (out8 b PIC1_DATA v d) = v \<and> m2 (out8 b PIC1_DATA v d) = m2 d) \<and>
     (\<forall>v d. m2 (out8 b PIC2_DATA v d) = v \<and> m1 (out8 b PIC2_DATA v d) = m1 d)"

definition irq_masked :: "('d \<Rightarrow> u8) \<Rightarrow> ('d \<Rightarrow> u8) \<Rightarrow> nat \<Rightarrow> 'd \<Rightarrow> bool" where
  "irq_masked m1 m2 i d = (if i < 8 then bit (m1 d) i else bit (m2 d) (i - 8))"

lemma pic_bit_unat: "irq < 16 \<Longrightarrow> pic_bit irq = (if unat irq < 8 then unat irq else unat irq - 8)"
  by (simp add: pic_bit_def word_less_nat_alt unat_sub word_le_nat_alt)

lemma pic_mask_step:
  assumes "pic_laws b m1 m2" "irq < 16" "i < 16"
  shows "pic_mask_irq b irq d = Some ((), d') \<Longrightarrow>
      irq_masked m1 m2 i d' = (i = unat irq \<or> irq_masked m1 m2 i d)"
    and "pic_unmask_irq b irq d = Some ((), d') \<Longrightarrow>
      irq_masked m1 m2 i d' = (i \<noteq> unat irq \<and> irq_masked m1 m2 i d)"
proof -
  note L = assms(1) [unfolded pic_laws_def]
  have lt: "irq < 8 \<longleftrightarrow> unat irq < 8" by (simp add: word_less_nat_alt)
  note B = pic_bit_unat [OF assms(2)]
  have u: "unat irq < 16" using assms(2) by (simp add: word_less_nat_alt)
  show "irq_masked m1 m2 i d' = (i = unat irq \<or> irq_masked m1 m2 i d)"
    if "pic_mask_irq b irq d = Some ((), d')"
    using that L assms(3) u by (cases "unat irq < 8")
      (auto simp: pic_mask_irq_def pic_port_def lt B irq_masked_def bit_simps)
  show "irq_masked m1 m2 i d' = (i \<noteq> unat irq \<and> irq_masked m1 m2 i d)"
    if "pic_unmask_irq b irq d = Some ((), d')"
    using that L assms(3) u by (cases "unat irq < 8")
      (auto simp: pic_unmask_irq_def pic_port_def lt B irq_masked_def bit_simps)
qed

text \<open>Two mask registers and nothing else.\<close>

definition mask_bus :: "(u8 \<times> u8) bus" where
  "mask_bus = (byte_bus (\<lambda>p (x, y). if p = PIC1_DATA then x else if p = PIC2_DATA then y else 0)
     (\<lambda>p v (x, y). if p = PIC1_DATA then (v, y) else if p = PIC2_DATA then (x, v) else (x, y)))"

lemma mask_bus_laws: "pic_laws mask_bus fst snd"
  by (simp add: pic_laws_def mask_bus_def byte_bus_def PIC1_DATA_def PIC2_DATA_def split: prod.splits)

section \<open>The timer\<close>

lemma pit_wait_ticks:
  assumes "unat (tick_count p) + k < 2 ^ 64" "target = tick_count p + of_nat k"
  shows "pit_wait target (replicate n True) p \<noteq> None \<longleftrightarrow> k \<le> n"
  using assms
proof (induction n arbitrary: p k)
  case 0
  have "unat target = unat (tick_count p) + k"
    using 0 by (simp add: unat_word_ariths unat_of_nat)
  then show ?case by (auto simp: word_less_nat_alt)
next
  case (Suc n)
  have t: "unat target = unat (tick_count p) + k"
    using Suc.prems by (simp add: unat_word_ariths unat_of_nat)
  show ?case
  proof (cases k)
    case 0
    with t show ?thesis by (simp add: word_less_nat_alt)
  next
    case (Suc j)
    have "unat (tick_count p + 1) = unat (tick_count p) + 1"
      using Suc Suc.prems(1) by (simp add: unat_word_ariths)
    then have "pit_wait target (replicate n True) (pit_handler p) \<noteq> None \<longleftrightarrow> j \<le> n"
      using Suc Suc.prems by (intro Suc.IH) (simp_all add: pit_handler_def)
    with t Suc show ?thesis by (simp add: word_less_nat_alt)
  qed
qed

section \<open>Correctness\<close>

text \<open>On both targets \<^verbatim>\<open>idt_init\<close> installs 48 gates from which the processor reads back exactly the
  addresses of the assembly stubs, with the kernel's code segment and the flags of a present
  interrupt gate, and leaves the other 208 gates as they were.\<close>

theorem idt_init_gates:
  assumes "length idt32 = 256" "length idt64 = 256" "i < 256"
    and "idt_init32 addr32 stubs32 idt32 = (ptr32, t32)" "idt_init64 addr64 stubs64 idt64 = (ptr64, t64)"
  shows "unat (ip32_limit ptr32) = 8 * length t32 - 1 \<and> unat (ip64_limit ptr64) = 16 * length t64 - 1 \<and>
    (if i < 48
     then gate32_offset (t32 ! i) = stubs32 ! i \<and> g32_selector (t32 ! i) = 0x08 \<and> g32_flags (t32 ! i) = 0x8E \<and>
       gate64_offset (t64 ! i) = stubs64 ! i \<and> g64_selector (t64 ! i) = 0x08 \<and> g64_flags (t64 ! i) = 0x8E
     else t32 ! i = idt32 ! i \<and> t64 ! i = idt64 ! i)"
  using assms fold_update_nth [of i idt32] fold_update_nth [of i idt64]
  by (auto simp: idt_init32_def idt_init64_def fold_update_length idt_gates_updates gate32_offset_of gate64_offset_of) (simp_all add: gate32_of_def gate64_of_def)

theorem idt_init_gates_witness:
  "gate64_offset (snd (idt_init64 0x5000 (map (\<lambda>k. 0xFFFFFFFF80000000 + of_nat (16 * k)) [0..<48])
     (replicate 256 (gate64_of 0 0 0))) ! 3) = 0xFFFFFFFF80000030"
  using idt_init_gates [of "replicate 256 (gate32_of 0 0 0)" "replicate 256 (gate64_of 0 0 0)" 3
    0 "[]" _ _ "0x5000" "map (\<lambda>k. 0xFFFFFFFF80000000 + of_nat (16 * k)) [0..<48]"]
  by (simp add: prod_eq_iff)

text \<open>On any interrupt controllers that keep their mask registers, \<^verbatim>\<open>pic_unmask_irq\<close> enables exactly
  the line it is given, of either controller, and leaves every other line's mask as it was.\<close>

theorem pic_unmask_exact:
  assumes "pic_laws b m1 m2" "irq < 16" "i < 16"
  shows "\<exists>d'. pic_unmask_irq b irq d = Some ((), d') \<and>
    irq_masked m1 m2 i d' = (i \<noteq> unat irq \<and> irq_masked m1 m2 i d)"
proof -
  obtain d' where "pic_unmask_irq b irq d = Some ((), d')"
    by (cases "in8 b (pic_port irq) d") (simp add: pic_unmask_irq_def andthen_def)
  with pic_mask_step(2) [OF assms] show ?thesis by blast
qed

theorem pic_unmask_exact_witness:
  "\<exists>d. pic_unmask_irq mask_bus 12 (0xFF, 0xFF) = Some ((), d) \<and> \<not> irq_masked fst snd 12 d"
  using pic_unmask_exact [OF mask_bus_laws, of 12 12] by auto

text \<open>What \<^verbatim>\<open>isr_dispatch\<close> does on every vector.  A registered handler runs first; a vector below 32
  without one panics with its name and sends nothing; after vectors 32 to 47 the end of
  interrupt goes to the second controller first, exactly for lines 8 to 15, and then to the first.\<close>

theorem isr_dispatch_cases:
  "isr_dispatch a b run hs num d =
    (case hs num of
       None \<Rightarrow>
         if num < 32 then Some (Panic (exception_names a ! num), d)
         else if num < 40 then Some (Done (), out8 b PIC1_CMD PIC_EOI d)
         else if num < 48 then Some (Done (), out8 b PIC1_CMD PIC_EOI (out8 b PIC2_CMD PIC_EOI d))
         else Some (Done (), d)
     | Some h \<Rightarrow>
         (case run h d of
            None \<Rightarrow> None
          | Some (_, d) \<Rightarrow>
              if num < 32 \<or> 48 \<le> num then Some (Done (), d)
              else if num < 40 then Some (Done (), out8 b PIC1_CMD PIC_EOI d)
              else Some (Done (), out8 b PIC1_CMD PIC_EOI (out8 b PIC2_CMD PIC_EOI d))))"
proof -
  have "pic_send_eoi b (of_nat (num - 32)) d =
      Some ((), if num < 40 then out8 b PIC1_CMD PIC_EOI d else out8 b PIC1_CMD PIC_EOI (out8 b PIC2_CMD PIC_EOI d))"
    if "32 \<le> num" "num < 48" for d
  proof -
    have "unat (of_nat (num - 32) :: u8) = num - 32"
      using that by (simp only: unat_of_nat) simp
    then have "(8 :: u8) \<le> of_nat (num - 32) \<longleftrightarrow> 40 \<le> num"
      unfolding word_le_nat_alt using that by (simp only:) auto
    then show ?thesis unfolding pic_send_eoi_def by (cases "40 \<le> num") (simp_all only: if_True if_False, simp_all)
  qed
  then have eoi: "pic_send_eoi b (of_nat num - 32) d =
      Some ((), if num < 40 then out8 b PIC1_CMD PIC_EOI d else out8 b PIC1_CMD PIC_EOI (out8 b PIC2_CMD PIC_EOI d))"
    if "32 \<le> num" "num < 48" for d using that by simp
  show ?thesis
    by (cases "hs num"; cases "32 \<le> num \<and> num < 48")
       (auto simp: isr_dispatch_def andthen_def eoi split: option.splits)
qed

text \<open>After the interrupt part of \<^verbatim>\<open>kmain\<close> vector 32 belongs to the timer driver's own handler:
  \<^verbatim>\<open>pit_init\<close> replaces the handler that would call \<^verbatim>\<open>sched_tick\<close>, so the scheduler gets no ticks.\<close>

theorem kmain_drops_sched_tick:
  "\<exists>p' hs' d'. kmain_interrupts b p hs d = Some ((p', hs'), d') \<and>
     hs' 32 = Some Pit_handler \<and> Kmain_pit_handler \<notin> ran hs' \<and> ticks_per_ms p' = 1"
proof -
  obtain v d1 where v: "in8 b (pic_port 0) (snd (the (pic_remap b d))) = (v, d1)" by fastforce
  then show ?thesis
    by (simp add: kmain_interrupts_def isr_init_def pic_remap_def io_wait_def pit_init_def Let_def
        isr_register_def pic_unmask_irq_def andthen_def)
qed

text \<open>With the timer at the kernel's 100 interrupts a second, \<^verbatim>\<open>pit_sleep_ms\<close> returns after exactly
  one tick per requested millisecond: it sleeps ten times too long.\<close>

theorem pit_sleep_counts_ticks:
  assumes "ticks_per_ms p = 1" "unat (tick_count p) + unat ms < 2 ^ 64"
  shows "pit_sleep_ms ms (replicate n True) p \<noteq> None \<longleftrightarrow> unat ms \<le> n"
  unfolding pit_sleep_ms_def
  using pit_wait_ticks [OF assms(2), of "tick_count p + ucast ms * ucast (ticks_per_ms p)" n] assms(1)
  by (simp add: unsigned_ucast_eq)

theorem pit_sleep_counts_ticks_witness:
  "pit_sleep_ms 20 (replicate 19 True) \<lparr>tick_count = 5, ticks_per_ms = 1\<rparr> = None"
  using pit_sleep_counts_ticks [of "\<lparr>tick_count = 5, ticks_per_ms = 1\<rparr>" 20 19] by simp

end
