(* ===== verification/Pci.thy ===== *)
theory Pci
  imports Ports
begin

text \<open>
  The PCI bus driver \<^verbatim>\<open>drivers/bus/pci.c\<close>: access to configuration space through the address and data
  ports, the scan of all buses and the table of devices it fills.  Configuration space is
  hardware; what the code relies on is \<open>pci_laws\<close>: the data port shows the register that was last
  written to the address port.
\<close>

section \<open>Configuration space\<close>

definition PCI_CFG_ADDR :: u16 where "PCI_CFG_ADDR = 0xCF8"
definition PCI_CFG_DATA :: u16 where "PCI_CFG_DATA = 0xCFC"
definition PCI_MAX_DEVICES :: nat where "PCI_MAX_DEVICES = 64"
definition PCI_VENDOR_NONE :: u32 where "PCI_VENDOR_NONE = 0xFFFF"

definition pci_addr :: "u8 \<Rightarrow> u8 \<Rightarrow> u8 \<Rightarrow> u8 \<Rightarrow> u32" where
  "pci_addr bus dev fn offset =
     0x80000000 OR push_bit 16 (ucast bus) OR push_bit 11 (ucast dev) OR push_bit 8 (ucast fn)
     OR ucast (offset AND 0xFC)"

definition pci_read :: "'d bus \<Rightarrow> u8 \<Rightarrow> u8 \<Rightarrow> u8 \<Rightarrow> u8 \<Rightarrow> ('d, u32) io" where
  "pci_read b bus dev fn offset =
     andthen (outl b PCI_CFG_ADDR (pci_addr bus dev fn offset)) (\<lambda>_. inl b PCI_CFG_DATA)"

definition pci_write :: "'d bus \<Rightarrow> u8 \<Rightarrow> u8 \<Rightarrow> u8 \<Rightarrow> u8 \<Rightarrow> u32 \<Rightarrow> ('d, unit) io" where
  "pci_write b bus dev fn offset val =
     andthen (outl b PCI_CFG_ADDR (pci_addr bus dev fn offset)) (\<lambda>_. outl b PCI_CFG_DATA val)"

section \<open>The device table\<close>

record pci_dev =
  d_bus :: u8
  d_dev :: u8
  d_fn :: u8
  vendor_id :: u16
  device_id :: u16
  class_code :: u8
  sub_class :: u8
  prog_if :: u8
  revision :: u8
  bar :: "u32 list"
  irq_line :: u8

record pci =
  devices :: "pci_dev list"
  ndevices :: nat

definition pci_bars :: "'d bus \<Rightarrow> u8 \<Rightarrow> u8 \<Rightarrow> u8 \<Rightarrow> u32 list \<Rightarrow> ('d, u32 list) io" where
  "pci_bars b bus dev fn = io_fold (\<lambda>i bars.
     andthen (pci_read b bus dev fn (0x10 + of_nat i * 4)) (\<lambda>v. ret (bars[i := v]))) [0 ..< 6]"

definition probe :: "'d bus \<Rightarrow> u8 \<Rightarrow> u8 \<Rightarrow> u8 \<Rightarrow> pci \<Rightarrow> ('d, pci) io" where
  "probe b bus dev fn s =
     andthen (pci_read b bus dev fn 0x00) (\<lambda>id.
       if id AND 0xFFFF = PCI_VENDOR_NONE then ret s
       else if ndevices s \<ge> PCI_MAX_DEVICES then ret s
       else
         andthen (pci_read b bus dev fn 0x08) (\<lambda>cc.
         andthen (pci_bars b bus dev fn (replicate 6 0)) (\<lambda>bars.
         andthen (pci_read b bus dev fn 0x3C) (\<lambda>irq.
           ret \<lparr>devices = (devices s)[ndevices s :=
                  \<lparr>d_bus = bus, d_dev = dev, d_fn = fn,
                   vendor_id = ucast (id AND 0xFFFF), device_id = ucast (drop_bit 16 id),
                   class_code = ucast (drop_bit 24 cc AND 0xFF), sub_class = ucast (drop_bit 16 cc AND 0xFF),
                   prog_if = ucast (drop_bit 8 cc AND 0xFF), revision = ucast (cc AND 0xFF),
                   bar = bars, irq_line = ucast (irq AND 0xFF)\<rparr>],
                ndevices = ndevices s + 1\<rparr>))))"

definition scan_fn :: "'d bus \<Rightarrow> nat \<Rightarrow> nat \<Rightarrow> nat \<Rightarrow> pci \<Rightarrow> ('d, pci) io" where
  "scan_fn b bus dev fn s =
     andthen (pci_read b (of_nat bus) (of_nat dev) (of_nat fn) 0x00) (\<lambda>fid.
       if fid AND 0xFFFF \<noteq> PCI_VENDOR_NONE then probe b (of_nat bus) (of_nat dev) (of_nat fn) s else ret s)"

definition scan_dev :: "'d bus \<Rightarrow> nat \<Rightarrow> nat \<Rightarrow> pci \<Rightarrow> ('d, pci) io" where
  "scan_dev b bus dev s =
     andthen (pci_read b (of_nat bus) (of_nat dev) 0 0x00) (\<lambda>id.
       if id AND 0xFFFF = PCI_VENDOR_NONE then ret s
       else
         andthen (pci_read b (of_nat bus) (of_nat dev) 0 0x0C) (\<lambda>hdr.
         let multi = (ucast (drop_bit 16 hdr) :: u8) AND 0x80
         in andthen (probe b (of_nat bus) (of_nat dev) 0 s) (\<lambda>s.
              if multi \<noteq> 0 then io_fold (scan_fn b bus dev) [1 ..< 8] s else ret s)))"

definition pci_init :: "'d bus \<Rightarrow> pci \<Rightarrow> ('d, pci) io" where
  "pci_init b s =
     io_fold (\<lambda>bus. io_fold (scan_dev b bus) [0 ..< 32]) [0 ..< 256] (s\<lparr>ndevices := 0\<rparr>)"

definition pci_count :: "pci \<Rightarrow> nat" where
  "pci_count s = ndevices s"

text \<open>A pointer into the table is the index it points at.\<close>

definition pci_get :: "int \<Rightarrow> pci \<Rightarrow> int option" where
  "pci_get i s = (if i < int (ndevices s) then Some i else None)"

fun find_class_from :: "u8 \<Rightarrow> u8 \<Rightarrow> u8 \<Rightarrow> nat \<Rightarrow> pci_dev list \<Rightarrow> nat option" where
  "find_class_from cls sub pif i [] = None"
| "find_class_from cls sub pif i (d # ds) =
     (if class_code d = cls \<and> sub_class d = sub \<and> (pif = 0xFF \<or> prog_if d = pif) then Some i
      else find_class_from cls sub pif (Suc i) ds)"

definition pci_find_class :: "u8 \<Rightarrow> u8 \<Rightarrow> u8 \<Rightarrow> pci \<Rightarrow> nat option" where
  "pci_find_class cls sub pif s = find_class_from cls sub pif 0 (take (ndevices s) (devices s))"

section \<open>Reference: the functions of a configuration space\<close>

definition pci_laws :: "'d bus \<Rightarrow> (u32 \<Rightarrow> u32) \<Rightarrow> bool" where
  "pci_laws b cfg \<longleftrightarrow> (\<forall>d a. fst (in32 b PCI_CFG_DATA (out32 b PCI_CFG_ADDR a d)) = cfg a)"

definition present :: "(u32 \<Rightarrow> u32) \<Rightarrow> nat \<times> nat \<times> nat \<Rightarrow> bool" where
  "present cfg = (\<lambda>(bus, dev, fn). cfg (pci_addr (of_nat bus) (of_nat dev) (of_nat fn) 0) AND 0xFFFF \<noteq> PCI_VENDOR_NONE)"

definition multi :: "(u32 \<Rightarrow> u32) \<Rightarrow> nat \<Rightarrow> nat \<Rightarrow> bool" where
  "multi cfg bus dev \<longleftrightarrow> bit (cfg (pci_addr (of_nat bus) (of_nat dev) 0 0x0C)) 23"

definition describe :: "(u32 \<Rightarrow> u32) \<Rightarrow> nat \<times> nat \<times> nat \<Rightarrow> pci_dev" where
  "describe cfg = (\<lambda>(bus, dev, fn).
     let reg = (\<lambda>off. cfg (pci_addr (of_nat bus) (of_nat dev) (of_nat fn) off))
     in \<lparr>d_bus = of_nat bus, d_dev = of_nat dev, d_fn = of_nat fn,
         vendor_id = ucast (reg 0), device_id = ucast (drop_bit 16 (reg 0)),
         class_code = ucast (drop_bit 24 (reg 8)), sub_class = ucast (drop_bit 16 (reg 8)),
         prog_if = ucast (drop_bit 8 (reg 8)), revision = ucast (reg 8),
         bar = map reg [0x10, 0x14, 0x18, 0x1C, 0x20, 0x24], irq_line = ucast (reg 0x3C)\<rparr>)"

definition slot_functions :: "(u32 \<Rightarrow> u32) \<Rightarrow> nat \<Rightarrow> nat \<Rightarrow> (nat \<times> nat \<times> nat) list" where
  "slot_functions cfg bus dev =
     (if present cfg (bus, dev, 0)
      then filter (present cfg) (map (\<lambda>fn. (bus, dev, fn)) (if multi cfg bus dev then [0 ..< 8] else [0]))
      else [])"

definition pci_functions :: "(u32 \<Rightarrow> u32) \<Rightarrow> (nat \<times> nat \<times> nat) list" where
  "pci_functions cfg = concat (map (\<lambda>bus. concat (map (slot_functions cfg bus) [0 ..< 32])) [0 ..< 256])"

section \<open>The scan\<close>

lemma returns_pci_read: "pci_laws b cfg \<Longrightarrow> returns (pci_read b bus dev fn off) (cfg (pci_addr bus dev fn off))"
  by (simp add: returns_def pci_read_def pci_laws_def) (metis prod.collapse)

lemma low_bytes:
  "ucast (w AND 0xFF) = (ucast (w :: u32) :: u8)" "ucast (w AND 0xFFFF) = (ucast w :: u16)"
proof -
  have m: "(0xFF :: u32) = mask 8" "(0xFFFF :: u32) = mask 16" by (simp_all add: mask_eq_exp_minus_1)
  show "ucast (w AND 0xFF) = (ucast w :: u8)" "ucast (w AND 0xFFFF) = (ucast w :: u16)"
    unfolding m by (intro bit_word_eqI; auto simp: bit_simps)+
qed

lemma returns_pci_bars:
  assumes "pci_laws b cfg"
  shows "returns (pci_bars b bus dev fn (replicate 6 0))
    (map (\<lambda>off. cfg (pci_addr bus dev fn off)) [0x10, 0x14, 0x18, 0x1C, 0x20, 0x24])"
proof -
  let ?g = "\<lambda>i bars. bars[i := cfg (pci_addr bus dev fn (0x10 + of_nat i * 4))]"
  have "returns (pci_bars b bus dev fn (replicate 6 0)) (fold ?g [0 ..< 6] (replicate 6 0))"
    unfolding pci_bars_def
    by (rule returns_io_fold) (auto intro: returns_andthen [OF returns_pci_read [OF assms]])
  moreover have "fold ?g [0 ..< 6] (replicate 6 0) = map (\<lambda>off. cfg (pci_addr bus dev fn off)) [0x10, 0x14, 0x18, 0x1C, 0x20, 0x24]"
    by (simp add: upt_rec numeral_eq_Suc [of num.One] eval_nat_numeral)
  ultimately show ?thesis by simp
qed

text \<open>Adding a device to the table, or leaving a full table alone.\<close>

definition add_dev :: "pci_dev \<Rightarrow> pci \<Rightarrow> pci" where
  "add_dev d s = (if ndevices s < PCI_MAX_DEVICES
     then \<lparr>devices = (devices s)[ndevices s := d], ndevices = ndevices s + 1\<rparr> else s)"

lemma returns_probe:
  assumes "pci_laws b cfg"
  shows "returns (probe b (of_nat bus) (of_nat dev) (of_nat fn) s)
    (if present cfg (bus, dev, fn) then add_dev (describe cfg (bus, dev, fn)) s else s)"
  unfolding probe_def
  apply (rule returns_andthen [OF returns_pci_read [OF assms]])
  apply (auto simp: present_def add_dev_def)
  apply (rule returns_andthen [OF returns_pci_read [OF assms]])
  apply (rule returns_andthen [OF returns_pci_bars [OF assms]])
  apply (rule returns_andthen [OF returns_pci_read [OF assms]])
  apply (simp add: describe_def low_bytes Let_def returns_ret)
  done

lemma returns_scan_fn:
  assumes "pci_laws b cfg"
  shows "returns (scan_fn b bus dev fn s)
    (if present cfg (bus, dev, fn) then add_dev (describe cfg (bus, dev, fn)) s else s)"
  unfolding scan_fn_def
  using returns_probe [OF assms, of bus dev fn s]
  by (auto intro!: returns_andthen [OF returns_pci_read [OF assms]] simp: present_def split: if_splits)

definition add_all :: "(u32 \<Rightarrow> u32) \<Rightarrow> (nat \<times> nat \<times> nat) list \<Rightarrow> pci \<Rightarrow> pci" where
  "add_all cfg fs = fold add_dev (map (describe cfg) fs)"

lemma add_all_append: "add_all cfg (fs @ gs) s = add_all cfg gs (add_all cfg fs s)"
  by (simp add: add_all_def)

lemma fold_add_all: "fold (\<lambda>x. add_all cfg (f x)) xs = add_all cfg (concat (map f xs))"
  by (induction xs) (auto simp: add_all_def)

lemma fold_filter_add:
  "fold (\<lambda>x s. if P x then add_dev (describe cfg (f x)) s else s) xs = add_all cfg (map f (filter P xs))"
  by (induction xs) (auto simp: add_all_def)

lemma multi_bit: "(ucast (drop_bit 16 (w :: u32)) :: u8) AND 0x80 \<noteq> 0 \<longleftrightarrow> bit w 23"
  using and_power_iff_bit [of 7 "ucast (drop_bit 16 w) :: u8"] by (simp add: bit_simps)

lemma returns_scan_dev:
  assumes "pci_laws b cfg"
  shows "returns (scan_dev b bus dev s) (add_all cfg (slot_functions cfg bus dev) s)"
proof (cases "present cfg (bus, dev, 0)")
  case False
  then show ?thesis
    unfolding scan_dev_def
    by (auto intro!: returns_andthen [OF returns_pci_read [OF assms]] simp: present_def slot_functions_def add_all_def)
next
  case True
  let ?s = "add_dev (describe cfg (bus, dev, 0)) s"
  have first: "returns (probe b (of_nat bus) (of_nat dev) 0 s) ?s"
    using returns_probe [OF assms, of bus dev 0 s] True by simp
  have "returns (io_fold (scan_fn b bus dev) [1 ..< 8] ?s)
      (fold (\<lambda>fn s. if present cfg (bus, dev, fn) then add_dev (describe cfg (bus, dev, fn)) s else s) [1 ..< 8] ?s)"
    by (rule returns_io_fold) (rule returns_scan_fn [OF assms])
  then have rest: "returns (io_fold (scan_fn b bus dev) [1 ..< 8] ?s)
      (add_all cfg (map (\<lambda>fn. (bus, dev, fn)) (filter (\<lambda>fn. present cfg (bus, dev, fn)) [1 ..< 8])) ?s)"
    by (simp only: fold_filter_add)
  have eight: "[0 ..< 8] = 0 # [1 ..< 8]" by (simp add: upt_rec)
  have slots: "add_all cfg (slot_functions cfg bus dev) s =
      (if multi cfg bus dev
       then add_all cfg (map (\<lambda>fn. (bus, dev, fn)) (filter (\<lambda>fn. present cfg (bus, dev, fn)) [1 ..< 8])) ?s else ?s)"
    using True unfolding slot_functions_def eight by (simp add: add_all_def filter_map comp_def)
  have "returns (if (ucast (drop_bit 16 (cfg (pci_addr (of_nat bus) (of_nat dev) 0 0x0C))) :: u8) AND 0x80 \<noteq> 0
      then io_fold (scan_fn b bus dev) [1 ..< 8] ?s else ret ?s) (add_all cfg (slot_functions cfg bus dev) s)"
    unfolding slots using rest by (simp add: multi_bit multi_def returns_ret)
  then show ?thesis
    unfolding scan_dev_def Let_def using True
    by (intro returns_andthen [OF returns_pci_read [OF assms]])
       (auto intro!: returns_andthen [OF returns_pci_read [OF assms]] returns_andthen [OF first] simp: present_def)
qed

lemma returns_pci_init:
  assumes "pci_laws b cfg"
  shows "returns (pci_init b s) (add_all cfg (pci_functions cfg) (s\<lparr>ndevices := 0\<rparr>))"
proof -
  have "returns (io_fold (scan_dev b bus) [0 ..< 32] s) (add_all cfg (concat (map (slot_functions cfg bus) [0 ..< 32])) s)" for bus s
    unfolding fold_add_all [symmetric] by (rule returns_io_fold) (rule returns_scan_dev [OF assms])
  then show ?thesis
    unfolding pci_init_def pci_functions_def fold_add_all [symmetric, where xs = "[0 ..< 256]"]
    by (intro returns_io_fold)
qed

lemma add_all_table:
  fixes cfg :: "u32 \<Rightarrow> u32" and fs :: "(nat \<times> nat \<times> nat) list"
  assumes "length (devices s) = PCI_MAX_DEVICES" "ndevices s \<le> PCI_MAX_DEVICES"
  defines "t \<equiv> add_all cfg fs s"
  shows "length (devices t) = PCI_MAX_DEVICES" "ndevices t = min PCI_MAX_DEVICES (ndevices s + length fs)"
    and "take (ndevices t) (devices t) = take PCI_MAX_DEVICES (take (ndevices s) (devices s) @ map (describe cfg) fs)"
proof -
  have "length (devices t) = PCI_MAX_DEVICES \<and> ndevices t = min PCI_MAX_DEVICES (ndevices s + length fs) \<and>
    take (ndevices t) (devices t) = take PCI_MAX_DEVICES (take (ndevices s) (devices s) @ map (describe cfg) fs)"
    using assms(1,2) unfolding t_def
  proof (induction fs arbitrary: s)
    case Nil
    then show ?case by (simp add: add_all_def)
  next
    case (Cons f fs)
    define u where "u = add_dev (describe cfg f) s"
    have u: "length (devices u) = PCI_MAX_DEVICES" "ndevices u \<le> PCI_MAX_DEVICES"
      "ndevices u = min PCI_MAX_DEVICES (Suc (ndevices s))"
      using Cons.prems by (auto simp: u_def add_dev_def)
    have "take PCI_MAX_DEVICES (take (ndevices u) (devices u) @ map (describe cfg) fs) =
        take PCI_MAX_DEVICES (take (ndevices s) (devices s) @ map (describe cfg) (f # fs))"
    proof (cases "ndevices s < PCI_MAX_DEVICES")
      case True
      then have "take (ndevices u) (devices u) = take (ndevices s) (devices s) @ [describe cfg f]"
        using Cons.prems by (simp add: u_def add_dev_def take_Suc_conv_app_nth)
      then show ?thesis by simp
    next
      case False
      then have "u = s" "ndevices s = PCI_MAX_DEVICES" using Cons.prems by (simp_all add: u_def add_dev_def)
      with Cons.prems show ?thesis by simp
    qed
    note same = this
    have step: "add_all cfg (f # fs) s = add_all cfg fs u" by (simp add: add_all_def u_def)
    have "min PCI_MAX_DEVICES (ndevices u + length fs) = min PCI_MAX_DEVICES (ndevices s + length (f # fs))"
      unfolding u(3) by simp
    with Cons.IH [OF u(1,2)] show ?case unfolding step same [symmetric] by metis
  qed
  then show "length (devices t) = PCI_MAX_DEVICES" "ndevices t = min PCI_MAX_DEVICES (ndevices s + length fs)"
    and "take (ndevices t) (devices t) = take PCI_MAX_DEVICES (take (ndevices s) (devices s) @ map (describe cfg) fs)" by blast+
qed

section \<open>Properties\<close>

text \<open>A configuration space in which every slot answers every register with the same word.\<close>

definition sample_cfg :: "u32 \<Rightarrow> u32" where "sample_cfg a = 0x12341234"

definition cfg_bus :: "(u32 \<Rightarrow> u32) \<Rightarrow> u32 bus" where
  "cfg_bus cfg = \<lparr>in8 = (\<lambda>p d. (0, d)), out8 = (\<lambda>p v d. d), in16 = (\<lambda>p d. (0, d)), out16 = (\<lambda>p v d. d),
     in32 = (\<lambda>p a. (if p = PCI_CFG_DATA then cfg a else 0, a)), out32 = (\<lambda>p v a. if p = PCI_CFG_ADDR then v else a)\<rparr>"

lemma cfg_bus_laws: "pci_laws (cfg_bus cfg) cfg"
  by (simp add: pci_laws_def cfg_bus_def)



text \<open>\<^verbatim>\<open>pci_find_class\<close> returns the first device of the table with the class, and none only if there is none.\<close>

theorem pci_find_class_first:
  fixes cls sub pif
  assumes "ndevices s \<le> length (devices s)"
  defines "wanted \<equiv> \<lambda>d. class_code d = cls \<and> sub_class d = sub \<and> (pif = 0xFF \<or> prog_if d = pif)"
  shows "pci_find_class cls sub pif s = Some n \<longleftrightarrow>
    n < ndevices s \<and> wanted (devices s ! n) \<and> (\<forall>k<n. \<not> wanted (devices s ! k))"
proof -
  have "find_class_from cls sub pif i ds = Some n \<longleftrightarrow>
      i \<le> n \<and> n < i + length ds \<and> wanted (ds ! (n - i)) \<and> (\<forall>k < n - i. \<not> wanted (ds ! k))" for i ds
  proof (induction ds arbitrary: i)
    case (Cons d ds)
    show ?case
    proof (cases "wanted d")
      case True
      then have "n = i \<or> \<not> (\<forall>k < n - i. \<not> wanted ((d # ds) ! k)) \<or> n < i" by (cases "n \<le> i") (auto intro: exI [of _ 0])
      with True show ?thesis by (auto simp: wanted_def)
    next
      case False
      then have "find_class_from cls sub pif i (d # ds) = find_class_from cls sub pif (Suc i) ds" by (auto simp: wanted_def)
      moreover have "n - i = Suc (n - Suc i)" if "Suc i \<le> n" using that by simp
      ultimately show ?thesis using Cons.IH False by (cases "n = i") (auto simp: less_Suc_eq_0_disj nth_Cons')
    qed
  qed simp
  from this [of 0 "take (ndevices s) (devices s)"] assms(1) show ?thesis by (auto simp: pci_find_class_def)
qed

text \<open>\<^verbatim>\<open>pci_get\<close> does not check for negative indices: it returns a pointer before the table.\<close>

lemma pci_get_negative: "pci_get (-1) s = Some (-1)"
  by (simp add: pci_get_def)


end
