(* ===== verification/Ata.thy ===== *)
theory Ata
  imports Ports
begin

text \<open>
  The ATA disk driver \<^verbatim>\<open>drivers/storage/ata.c\<close>: bounded polling of the status register, identification of
  up to four drives and programmed transfers of sectors.  The drive is hardware behind the
  ports; what \<^verbatim>\<open>ata_read\<close> relies on is \<open>ata_laws\<close>.  Return values are those of the code, 0 or -1.
\<close>

section \<open>Registers\<close>

definition ATA_PRIMARY_BASE :: u16 where "ATA_PRIMARY_BASE = 0x1F0"
definition ATA_PRIMARY_ALT :: u16 where "ATA_PRIMARY_ALT = 0x3F6"
definition ATA_SECONDARY_BASE :: u16 where "ATA_SECONDARY_BASE = 0x170"
definition ATA_SECONDARY_ALT :: u16 where "ATA_SECONDARY_ALT = 0x376"
definition ATA_REG_DATA :: u16 where "ATA_REG_DATA = 0"
definition ATA_REG_SECCOUNT :: u16 where "ATA_REG_SECCOUNT = 2"
definition ATA_REG_LBA_LO :: u16 where "ATA_REG_LBA_LO = 3"
definition ATA_REG_LBA_MID :: u16 where "ATA_REG_LBA_MID = 4"
definition ATA_REG_LBA_HI :: u16 where "ATA_REG_LBA_HI = 5"
definition ATA_REG_DRIVE :: u16 where "ATA_REG_DRIVE = 6"
definition ATA_REG_STATUS :: u16 where "ATA_REG_STATUS = 7"
definition ATA_REG_CMD :: u16 where "ATA_REG_CMD = 7"
definition ATA_SR_BSY :: u8 where "ATA_SR_BSY = 0x80"
definition ATA_SR_DRQ :: u8 where "ATA_SR_DRQ = 0x08"
definition ATA_SR_ERR :: u8 where "ATA_SR_ERR = 0x01"
definition ATA_CMD_READ_PIO :: u8 where "ATA_CMD_READ_PIO = 0x20"
definition ATA_CMD_WRITE_PIO :: u8 where "ATA_CMD_WRITE_PIO = 0x30"
definition ATA_CMD_IDENTIFY :: u8 where "ATA_CMD_IDENTIFY = 0xEC"
definition ATA_MAX_DRIVES :: nat where "ATA_MAX_DRIVES = 4"

record ata_drive =
  d_present :: bool
  d_base :: u16
  d_alt :: u16
  d_slave :: u8
  d_sectors :: u32
  d_model :: "u8 list"

record ata =
  drives :: "ata_drive list"
  ndrives :: nat

section \<open>Polling\<close>

definition delay400 :: "'d bus \<Rightarrow> u16 \<Rightarrow> ('d, unit) io" where
  "delay400 b p = io_fold (\<lambda>_ _. andthen (inb b p) (\<lambda>_. ret ())) [0 ..< 4] ()"

fun wait_busy_n :: "nat \<Rightarrow> 'd bus \<Rightarrow> u16 \<Rightarrow> ('d, int) io" where
  "wait_busy_n 0 b base = ret (-1)"
| "wait_busy_n (Suc n) b base =
     andthen (inb b (base + ATA_REG_STATUS)) (\<lambda>s.
       if s AND ATA_SR_BSY = 0 then ret (if s AND ATA_SR_ERR \<noteq> 0 then -1 else 0) else wait_busy_n n b base)"

definition POLLS :: nat where "POLLS = 100000" \<comment> \<open>the bound of both polling loops\<close>

definition wait_busy :: "'d bus \<Rightarrow> u16 \<Rightarrow> ('d, int) io" where
  "wait_busy = wait_busy_n POLLS"

fun wait_drq_n :: "nat \<Rightarrow> 'd bus \<Rightarrow> u16 \<Rightarrow> ('d, int) io" where
  "wait_drq_n 0 b base = ret (-1)"
| "wait_drq_n (Suc n) b base =
     andthen (inb b (base + ATA_REG_STATUS)) (\<lambda>s.
       if s AND ATA_SR_ERR \<noteq> 0 then ret (-1)
       else if s AND ATA_SR_DRQ \<noteq> 0 then ret 0 else wait_drq_n n b base)"

definition wait_drq :: "'d bus \<Rightarrow> u16 \<Rightarrow> ('d, int) io" where
  "wait_drq = wait_drq_n POLLS"

section \<open>Identification\<close>

definition read_words :: "'d bus \<Rightarrow> u16 \<Rightarrow> u16 list \<Rightarrow> ('d, u16 list) io" where
  "read_words b base ws = io_fold (\<lambda>_ ws. andthen (inw b (base + ATA_REG_DATA)) (\<lambda>w. ret (ws @ [w]))) [0 ..< 256] ws"

definition model_bytes :: "u16 list \<Rightarrow> u8 list" where
  "model_bytes ws = concat (map (\<lambda>i. [ucast (drop_bit 8 (ws ! (27 + i))), ucast (ws ! (27 + i) AND 0xFF)]) [0 ..< 20]) @ [0]"

text \<open>The loop that replaces trailing blanks, from index \<^verbatim>\<open>end\<close> down to but not including index 0.\<close>

fun trim_model :: "nat \<Rightarrow> u8 list \<Rightarrow> u8 list" where
  "trim_model 0 m = m"
| "trim_model (Suc e) m = (if m ! Suc e = 0x20 then trim_model e (m[Suc e := 0]) else m)"

definition probe :: "'d bus \<Rightarrow> u16 \<Rightarrow> u16 \<Rightarrow> u8 \<Rightarrow> nat \<Rightarrow> ata \<Rightarrow> ('d, ata) io" where
  "probe b base alt slave idx s =
     andthen (io_seq [outb b (base + ATA_REG_DRIVE) (if slave \<noteq> 0 then 0xB0 else 0xA0), delay400 b alt,
        outb b (base + ATA_REG_SECCOUNT) 0, outb b (base + ATA_REG_LBA_LO) 0, outb b (base + ATA_REG_LBA_MID) 0,
        outb b (base + ATA_REG_LBA_HI) 0, outb b (base + ATA_REG_CMD) ATA_CMD_IDENTIFY, delay400 b alt]) (\<lambda>_.
     andthen (inb b (base + ATA_REG_STATUS)) (\<lambda>st.
     if st = 0 then ret s else
     andthen (wait_busy b base) (\<lambda>r.
     if r < 0 then ret s else
     andthen (inb b (base + ATA_REG_LBA_MID)) (\<lambda>mid.
     andthen (inb b (base + ATA_REG_LBA_HI)) (\<lambda>hi.
     if mid \<noteq> 0 \<or> hi \<noteq> 0 then ret s else
     andthen (wait_drq b base) (\<lambda>r.
     if r < 0 then ret s else
     andthen (read_words b base []) (\<lambda>id.
     ret (s\<lparr>drives := (drives s)[idx :=
       \<lparr>d_present = True, d_base = base, d_alt = alt, d_slave = slave,
        d_sectors = ucast (id ! 60) OR push_bit 16 (ucast (id ! 61)),
        d_model = trim_model 39 (model_bytes id)\<rparr>]\<rparr>))))))))"

definition ata_init :: "'d bus \<Rightarrow> ata \<Rightarrow> ('d, int \<times> ata) io" where
  "ata_init b s =
     andthen (probe b ATA_PRIMARY_BASE ATA_PRIMARY_ALT 0 0 s) (\<lambda>s.
     andthen (probe b ATA_PRIMARY_BASE ATA_PRIMARY_ALT 1 1 s) (\<lambda>s.
     andthen (probe b ATA_SECONDARY_BASE ATA_SECONDARY_ALT 0 2 s) (\<lambda>s.
     andthen (probe b ATA_SECONDARY_BASE ATA_SECONDARY_ALT 1 3 s) (\<lambda>s.
       let s = fold (\<lambda>i s. if d_present (drives s ! i) then s\<lparr>ndrives := ndrives s + 1\<rparr> else s) [0 ..< ATA_MAX_DRIVES] s
       in ret (int (ndrives s), s)))))"

definition ata_drive_ptr :: "u8 \<Rightarrow> nat option" where
  "ata_drive_ptr idx = (if unat idx < ATA_MAX_DRIVES then Some (unat idx) else None)"

section \<open>Transfers\<close>

definition setup_transfer :: "'d bus \<Rightarrow> ata_drive \<Rightarrow> u32 \<Rightarrow> u8 \<Rightarrow> u8 \<Rightarrow> ('d, unit) io" where
  "setup_transfer b d lba count cmd = io_seq
     [outb b (d_base d + ATA_REG_DRIVE) (ucast (0xE0 OR push_bit 4 (ucast (d_slave d)) OR (drop_bit 24 lba AND 0x0F))),
      outb b (d_base d + ATA_REG_SECCOUNT) count,
      outb b (d_base d + ATA_REG_LBA_LO) (ucast (lba AND 0xFF)),
      outb b (d_base d + ATA_REG_LBA_MID) (ucast (drop_bit 8 lba AND 0xFF)),
      outb b (d_base d + ATA_REG_LBA_HI) (ucast (drop_bit 16 lba AND 0xFF)),
      outb b (d_base d + ATA_REG_CMD) cmd]"

text \<open>The loop over the sectors, with the words stored to the buffer so far.\<close>

fun read_sectors :: "nat \<Rightarrow> 'd bus \<Rightarrow> u16 \<Rightarrow> u16 list \<Rightarrow> ('d, int \<times> u16 list) io" where
  "read_sectors 0 b base dst = ret (0, dst)"
| "read_sectors (Suc n) b base dst =
     andthen (wait_drq b base) (\<lambda>r.
       if r < 0 then ret (-1, dst)
       else andthen (read_words b base dst) (read_sectors n b base))"

definition ata_read :: "'d bus \<Rightarrow> ata \<Rightarrow> u8 \<Rightarrow> u32 \<Rightarrow> u8 \<Rightarrow> ('d, int \<times> u16 list) io" where
  "ata_read b s drv lba count =
     (if unat drv \<ge> ATA_MAX_DRIVES \<or> \<not> d_present (drives s ! unat drv) then ret (-1, [])
      else let d = drives s ! unat drv
           in andthen (wait_busy b (d_base d)) (\<lambda>r.
                if r < 0 then ret (-1, [])
                else andthen (setup_transfer b d lba count ATA_CMD_READ_PIO) (\<lambda>_.
                       read_sectors (unat count) b (d_base d) [])))"

definition write_words :: "'d bus \<Rightarrow> u16 \<Rightarrow> u16 list \<Rightarrow> ('d, unit) io" where
  "write_words b base ws = io_fold (\<lambda>w _. outw b (base + ATA_REG_DATA) w) ws ()"

fun write_sectors :: "nat \<Rightarrow> 'd bus \<Rightarrow> u16 \<Rightarrow> u16 list \<Rightarrow> ('d, int) io" where
  "write_sectors 0 b base src = ret 0"
| "write_sectors (Suc n) b base src =
     andthen (wait_drq b base) (\<lambda>r.
       if r < 0 then ret (-1)
       else andthen (write_words b base (take 256 src)) (\<lambda>_.
            andthen (outb b (base + ATA_REG_CMD) 0xE7) (\<lambda>_.
            andthen (wait_busy b base) (\<lambda>r.
              if r < 0 then ret (-1) else write_sectors n b base (drop 256 src)))))"

definition ata_write :: "'d bus \<Rightarrow> ata \<Rightarrow> u8 \<Rightarrow> u32 \<Rightarrow> u8 \<Rightarrow> u16 list \<Rightarrow> ('d, int) io" where
  "ata_write b s drv lba count src =
     (if unat drv \<ge> ATA_MAX_DRIVES \<or> \<not> d_present (drives s ! unat drv) then ret (-1)
      else let d = drives s ! unat drv
           in andthen (wait_busy b (d_base d)) (\<lambda>r.
                if r < 0 then ret (-1)
                else andthen (setup_transfer b d lba count ATA_CMD_WRITE_PIO) (\<lambda>_.
                       write_sectors (unat count) b (d_base d) src)))"

text \<open>The sector reader \<^verbatim>\<open>kmain\<close> hands to the FAT32 file system.\<close>

definition ata_read_cb :: "'d bus \<Rightarrow> ata \<Rightarrow> u8 \<Rightarrow> u32 \<Rightarrow> ('d, int \<times> u16 list) io" where
  "ata_read_cb b s drv lba = ata_read b s drv lba 1"

section \<open>Every routine returns\<close>

text \<open>The polling loops are bounded, so a routine returns whatever the device does.\<close>

context still_bus
begin

lemma safe_polls [intro!, simp]: "safe Q (wait_busy b base)" "safe Q (wait_drq b base)"
proof -
  have "safe Q (wait_busy_n n b base)" "safe Q (wait_drq_n n b base)" for n by (induction n) auto
  then show "safe Q (wait_busy b base)" "safe Q (wait_drq b base)" by (simp_all add: wait_busy_def wait_drq_def)
qed

lemma safe_words [intro!, simp]:
  "safe Q (delay400 b p)" "safe Q (read_words b base ws)" "safe Q (write_words b base ws)" "safe Q (setup_transfer b d lba c cmd)"
  by (auto simp: delay400_def read_words_def write_words_def setup_transfer_def)

lemma safe_sectors [intro!, simp]: "safe Q (read_sectors n b base dst)" "safe Q (write_sectors n b base src)"
  by (induction n arbitrary: dst src) (auto intro!: safe_andthen safe_if)

lemma safe_probe [intro!, simp]: "safe Q (probe b bs al sl i s)"
  unfolding probe_def by (intro safe_andthen safe_if safe_io_seq) auto

lemma safe_ata [intro!, simp]: "safe Q (ata_init b a)" "safe Q (ata_read b a drv lba count)" "safe Q (ata_write b a drv lba count src)"
  unfolding ata_init_def ata_read_def ata_write_def Let_def by (intro safe_andthen safe_if; auto)+

end


section \<open>What a read relies on\<close>

text \<open>
  The documented behaviour of a drive in programmed input, on a view of the device state: the
  registers a command is made of, the number of status reads for which the drive stays busy, and
  the words it has ready.  A read command makes the drive offer the sectors one after another,
  busy for \<open>delay\<close> status reads before each.
\<close>

record ata_view =
  v_sel :: u8
  v_count :: u8
  v_lo :: u8
  v_mid :: u8
  v_hi :: u8
  v_busy :: nat
  v_data :: "u16 list"

definition cmd_lba :: "ata_view \<Rightarrow> nat" where
  "cmd_lba v = unat (v_lo v) + 2 ^ 8 * unat (v_mid v) + 2 ^ 16 * unat (v_hi v) + 2 ^ 24 * unat (v_sel v AND 0x0F)"

definition cmd_count :: "ata_view \<Rightarrow> nat" where
  "cmd_count v = (if v_count v = 0 then 256 else unat (v_count v))"

definition sectors_of :: "(nat \<Rightarrow> u16 list) \<Rightarrow> nat \<Rightarrow> nat \<Rightarrow> u16 list" where
  "sectors_of disk lba n = concat (map disk [lba ..< lba + n])"

definition status_law :: "'d bus \<Rightarrow> u16 \<Rightarrow> ('d \<Rightarrow> ata_view) \<Rightarrow> bool" where
  "status_law b base view \<longleftrightarrow> (\<forall>d st d'. in8 b (base + 7) d = (st, d') \<longrightarrow>
     view d' = (view d)\<lparr>v_busy := v_busy (view d) - 1\<rparr> \<and> \<not> bit st 0 \<and>
     (bit st 7 \<longleftrightarrow> v_busy (view d) \<noteq> 0) \<and> (bit st 3 \<longleftrightarrow> v_busy (view d) = 0 \<and> v_data (view d) \<noteq> []))"

definition command_law :: "'d bus \<Rightarrow> u16 \<Rightarrow> (bool \<Rightarrow> nat \<Rightarrow> u16 list) \<Rightarrow> nat \<Rightarrow> ('d \<Rightarrow> ata_view) \<Rightarrow> bool" where
  "command_law b base disk delay view \<longleftrightarrow> (\<forall>d x. v_busy (view d) = 0 \<longrightarrow>
     view (out8 b (base + 6) x d) = (view d)\<lparr>v_sel := x\<rparr> \<and> view (out8 b (base + 2) x d) = (view d)\<lparr>v_count := x\<rparr> \<and>
     view (out8 b (base + 3) x d) = (view d)\<lparr>v_lo := x\<rparr> \<and> view (out8 b (base + 4) x d) = (view d)\<lparr>v_mid := x\<rparr> \<and>
     view (out8 b (base + 5) x d) = (view d)\<lparr>v_hi := x\<rparr> \<and>
     view (out8 b (base + 7) 0x20 d) = (view d)\<lparr>v_busy := delay,
       v_data := sectors_of (disk (bit (v_sel (view d)) 4)) (cmd_lba (view d)) (cmd_count (view d))\<rparr>)"

definition data_law :: "'d bus \<Rightarrow> u16 \<Rightarrow> nat \<Rightarrow> ('d \<Rightarrow> ata_view) \<Rightarrow> bool" where
  "data_law b base delay view \<longleftrightarrow>
     (\<forall>d w ws x d'. v_busy (view d) = 0 \<longrightarrow> v_data (view d) = w # ws \<longrightarrow> in16 b base d = (x, d') \<longrightarrow> x = w \<and>
        view d' = (view d)\<lparr>v_data := ws, v_busy := if ws \<noteq> [] \<and> length ws mod 256 = 0 then delay else 0\<rparr>)"

definition ata_laws :: "'d bus \<Rightarrow> u16 \<Rightarrow> (bool \<Rightarrow> nat \<Rightarrow> u16 list) \<Rightarrow> nat \<Rightarrow> ('d \<Rightarrow> ata_view) \<Rightarrow> bool" where
  "ata_laws b base disk delay view \<longleftrightarrow> delay < POLLS \<and> (\<forall>sl k. length (disk sl k) = 256) \<and>
     status_law b base view \<and> command_law b base disk delay view \<and> data_law b base delay view"

lemma status_bits:
  "w AND ATA_SR_BSY = 0 \<longleftrightarrow> \<not> bit w 7" "w AND ATA_SR_DRQ = 0 \<longleftrightarrow> \<not> bit w 3" "w AND ATA_SR_ERR = 0 \<longleftrightarrow> \<not> bit w 0"
  using and_power_iff_bit [of 7 w] and_power_iff_bit [of 3 w] and_power_iff_bit [of 0 w]
  by (auto simp: ATA_SR_BSY_def ATA_SR_DRQ_def ATA_SR_ERR_def)

lemma ata_status:
  assumes "ata_laws b base disk delay view"
  obtains st d' where "in8 b (base + ATA_REG_STATUS) d = (st, d')" "view d' = (view d)\<lparr>v_busy := v_busy (view d) - 1\<rparr>"
    "\<not> bit st 0" "bit st 7 \<longleftrightarrow> v_busy (view d) \<noteq> 0" "bit st 3 \<longleftrightarrow> v_busy (view d) = 0 \<and> v_data (view d) \<noteq> []"
proof -
  obtain st d' where r: "in8 b (base + ATA_REG_STATUS) d = (st, d')" by fastforce
  moreover have "status_law b base view" using assms by (simp add: ata_laws_def)
  ultimately show ?thesis using that unfolding status_law_def ATA_REG_STATUS_def by metis
qed

lemma wait_busy_ready:
  assumes "ata_laws b base disk delay view" "v_busy (view d) < POLLS"
  shows "\<exists>d'. wait_busy b base d = Some (0, d') \<and> view d' = (view d)\<lparr>v_busy := 0\<rparr>"
proof -
  have "\<exists>d'. wait_busy_n n b base d = Some (0, d') \<and> view d' = (view d)\<lparr>v_busy := 0\<rparr>" if "v_busy (view d) < n" for n d
    using that
  proof (induction n arbitrary: d)
    case (Suc n)
    obtain st d' where st: "in8 b (base + ATA_REG_STATUS) d = (st, d')" "view d' = (view d)\<lparr>v_busy := v_busy (view d) - 1\<rparr>"
      "\<not> bit st 0" "bit st 7 \<longleftrightarrow> v_busy (view d) \<noteq> 0" by (rule ata_status [OF assms(1)])
    show ?case
    proof (cases "v_busy (view d)")
      case 0
      with st show ?thesis by (simp add: status_bits)
    next
      case (Suc k)
      with st Suc.prems have "v_busy (view d') < n" by simp
      from Suc.IH [OF this] st Suc show ?thesis by (simp add: status_bits)
    qed
  qed simp
  from this [OF assms(2)] show ?thesis by (simp add: wait_busy_def)
qed

lemma wait_drq_ready:
  assumes "ata_laws b base disk delay view" "v_busy (view d) < POLLS" "v_data (view d) \<noteq> []"
  shows "\<exists>d'. wait_drq b base d = Some (0, d') \<and> view d' = (view d)\<lparr>v_busy := 0\<rparr>"
proof -
  have "\<exists>d'. wait_drq_n n b base d = Some (0, d') \<and> view d' = (view d)\<lparr>v_busy := 0\<rparr>"
    if "v_busy (view d) < n" "v_data (view d) \<noteq> []" for n d
    using that
  proof (induction n arbitrary: d)
    case (Suc n)
    obtain st d' where st: "in8 b (base + ATA_REG_STATUS) d = (st, d')" "view d' = (view d)\<lparr>v_busy := v_busy (view d) - 1\<rparr>"
      "\<not> bit st 0" "bit st 7 \<longleftrightarrow> v_busy (view d) \<noteq> 0" "bit st 3 \<longleftrightarrow> v_busy (view d) = 0 \<and> v_data (view d) \<noteq> []"
      by (rule ata_status [OF assms(1)])
    show ?case
    proof (cases "v_busy (view d)")
      case 0
      with st Suc.prems show ?thesis by (simp add: status_bits)
    next
      case (Suc k)
      with st Suc.prems have "v_busy (view d') < n" "v_data (view d') \<noteq> []" by simp_all
      from Suc.IH [OF this] st Suc show ?thesis by (simp add: status_bits)
    qed
  qed simp
  from this [OF assms(2,3)] show ?thesis by (simp add: wait_drq_def)
qed

text \<open>One sector is read as the next 256 words, and leaves the drive busy if more follow.\<close>

lemma read_words_sector:
  assumes "ata_laws b base disk delay view" "v_busy (view d) = 0" "v_data (view d) = xs @ ys" "length xs = 256"
    and "length ys mod 256 = 0"
  shows "\<exists>d'. read_words b base dst d = Some (dst @ xs, d') \<and>
    view d' = (view d)\<lparr>v_data := ys, v_busy := if ys \<noteq> [] then delay else 0\<rparr>"
proof -
  let ?step = "\<lambda>(_::nat) ws. andthen (inw b (base + ATA_REG_DATA)) (\<lambda>w. ret (ws @ [w]))"
  have "\<exists>d'. io_fold ?step is dst d = Some (dst @ xs, d') \<and>
      view d' = (view d)\<lparr>v_data := ys, v_busy := if xs \<noteq> [] \<and> ys \<noteq> [] then delay else 0\<rparr>"
    if "v_busy (view d) = 0" "v_data (view d) = xs @ ys" "length xs = length is" "length xs \<le> 256" for "is" xs d dst
    using that
  proof (induction "is" arbitrary: xs d dst)
    case Nil
    then show ?case by simp
  next
    case (Cons i "is")
    then obtain w ws where xs: "xs = w # ws" by (cases xs) auto
    obtain x d1 where r: "in16 b base d = (x, d1)" by fastforce
    have "x = w \<and> view d1 = (view d)\<lparr>v_data := ws @ ys, v_busy := if ws @ ys \<noteq> [] \<and> length (ws @ ys) mod 256 = 0 then delay else 0\<rparr>"
    proof -
      have "data_law b base delay view" using assms(1) by (simp add: ata_laws_def)
      moreover have "v_data (view d) = w # (ws @ ys)" using Cons.prems(2) xs by simp
      ultimately show ?thesis using Cons.prems(1) r unfolding data_law_def by blast
    qed
    moreover have "length (ws @ ys) mod 256 \<noteq> 0" if "ws \<noteq> []"
    proof -
      have "length ws < 256" "0 < length ws" using Cons.prems(4) that by (simp_all add: xs)
      then have "length ws mod 256 \<noteq> 0" by simp
      moreover have "length (ws @ ys) mod 256 = (length ws + length ys mod 256) mod 256" by (simp only: length_append mod_add_right_eq)
      ultimately show ?thesis using assms(5) by simp
    qed
    ultimately have x: "x = w" and v: "view d1 = (view d)\<lparr>v_data := ws @ ys, v_busy := if ws = [] \<and> ys \<noteq> [] then delay else 0\<rparr>"
      using assms(5) by (auto split: if_splits)
    show ?case
    proof (cases "ws = []")
      case True
      with Cons.prems(3) xs have "is = []" by simp
      with True x v r xs show ?thesis by (simp add: ATA_REG_DATA_def)
    next
      case False
      then have "v_busy (view d1) = 0" "v_data (view d1) = ws @ ys" using v by simp_all
      from Cons.IH [OF this, of "dst @ [w]"] Cons.prems(3,4) xs False x r v
      show ?thesis by (auto simp: ATA_REG_DATA_def)
    qed
  qed
  note gen = this
  have "length xs = length [0 ..< 256]" "length xs \<le> 256" using assms(4) by simp_all
  note gen = gen [OF assms(2,3) this, of dst]
  have "xs \<noteq> []" using assms(4) by auto
  with gen show ?thesis unfolding read_words_def by (simp only: simp_thms)
qed


lemma read_sectors_data:
  assumes "ata_laws b base disk delay view"
  shows "v_data (view d) = sectors_of dk lba n \<Longrightarrow> (\<And>k. length (dk k) = 256) \<Longrightarrow> n = 0 \<or> v_busy (view d) < POLLS \<Longrightarrow>
    \<exists>d'. read_sectors n b base dst d = Some ((0, dst @ sectors_of dk lba n), d') \<and> v_data (view d') = []"
proof (induction n arbitrary: d dst lba)
  case 0
  then show ?case by (simp add: sectors_of_def)
next
  case (Suc n)
  have split: "sectors_of dk lba (Suc n) = dk lba @ sectors_of dk (Suc lba) n"
    by (simp add: sectors_of_def upt_conv_Cons del: upt_Suc)
  have "length (sectors_of dk l n) = 256 * n" for l using Suc.prems(2) by (simp add: sectors_of_def length_concat comp_def sum_list_triv)
  then have len: "length (sectors_of dk (Suc lba) n) mod 256 = 0" by simp
  have "v_data (view d) \<noteq> []" using Suc.prems(1,2) split by (metis append_is_Nil_conv list.size(3) zero_neq_numeral)
  with wait_drq_ready [OF assms] Suc.prems(3) obtain d1 where
    d1: "wait_drq b base d = Some (0, d1)" "view d1 = (view d)\<lparr>v_busy := 0\<rparr>" by blast
  have "v_busy (view d1) = 0" "v_data (view d1) = dk lba @ sectors_of dk (Suc lba) n"
    using d1(2) Suc.prems(1) split by simp_all
  from read_words_sector [OF assms this Suc.prems(2) len] obtain d2 where
    d2: "read_words b base dst d1 = Some (dst @ dk lba, d2)" "v_data (view d2) = sectors_of dk (Suc lba) n"
      "v_busy (view d2) = (if sectors_of dk (Suc lba) n \<noteq> [] then delay else 0)" by fastforce
  have "delay < POLLS" using assms by (simp add: ata_laws_def)
  then have "n = 0 \<or> v_busy (view d2) < POLLS" using d2(3) by (simp add: POLLS_def)
  from Suc.IH [OF d2(2) Suc.prems(2) this, of "dst @ dk lba"] d1 d2 split show ?case by auto
qed

text \<open>The command registers hold the address and the drive.\<close>

lemma lba_bytes:
  fixes lba :: u32
  assumes "unat lba < 2 ^ 28"
  shows "unat (ucast (lba AND 0xFF) :: u8) + 2 ^ 8 * unat (ucast (drop_bit 8 lba AND 0xFF) :: u8) +
    2 ^ 16 * unat (ucast (drop_bit 16 lba AND 0xFF) :: u8) + 2 ^ 24 * (unat lba div 2 ^ 24) = unat lba"
proof -
  have byte: "unat (ucast (w AND 0xFF) :: u8) = unat w mod 2 ^ 8" for w :: u32
  proof -
    have "(0xFF :: u32) = mask 8" by (simp add: mask_eq_exp_minus_1)
    then have "w AND 0xFF = take_bit 8 w" by (simp only: take_bit_eq_mask)
    then have "(ucast (w AND 0xFF) :: u8) = ucast w" by (intro bit_word_eqI) (auto simp: bit_simps)
    then show ?thesis by (simp add: unsigned_ucast_eq take_bit_eq_mod)
  qed
  define u where "u = unat lba"
  have "u div 2 ^ 16 = u div 2 ^ 8 div 2 ^ 8" "u div 2 ^ 24 = u div 2 ^ 16 div 2 ^ 8" by (simp_all flip: div_mult2_eq)
  then have "2 ^ 8 * (u div 2 ^ 8) + u mod 2 ^ 8 = u" "2 ^ 8 * (u div 2 ^ 16) + u div 2 ^ 8 mod 2 ^ 8 = u div 2 ^ 8"
    "2 ^ 8 * (u div 2 ^ 24) + u div 2 ^ 16 mod 2 ^ 8 = u div 2 ^ 16"
    by (simp_all only: mult_div_mod_eq)
  moreover have "2 ^ 8 * A + r = n \<Longrightarrow> 2 ^ 8 * B + r1 = A \<Longrightarrow> 2 ^ 8 * C + r2 = B \<Longrightarrow>
      r + 2 ^ 8 * r1 + 2 ^ 16 * r2 + 2 ^ 24 * C = n" for A B C r r1 r2 n :: nat by simp
  ultimately show ?thesis unfolding byte unat_drop_bit_div u_def [symmetric] by blast
qed

lemma sel_bits:
  fixes lba :: u32 and sl :: u8
  assumes "unat lba < 2 ^ 28" "sl = 0 \<or> sl = 1"
  defines "x \<equiv> ucast (0xE0 OR push_bit 4 (ucast sl) OR (drop_bit 24 lba AND 0x0F)) :: u8"
  shows "unat (x AND 0x0F) = unat lba div 2 ^ 24" "bit x 4 \<longleftrightarrow> sl = 1"
proof -
  have m: "(0x0F :: u32) = mask 4" "(0x0F :: u8) = mask 4" by (simp_all add: mask_eq_exp_minus_1)
  have e: "(0xE0 :: u32) = push_bit 5 1 OR push_bit 6 1 OR push_bit 7 1" by simp
  have e0: "bit (0xE0 :: u32) n \<longleftrightarrow> n \<in> {5, 6, 7}" for n
    by (simp only: e bit_or_iff bit_push_bit_one) auto
  have sl: "bit sl n \<longleftrightarrow> n = 0 \<and> sl = 1" for n using assms(2) by (auto simp: bit_1_iff)
  have "unat (drop_bit 24 lba) < 2 ^ 4" using assms(1) by (simp add: unat_drop_bit_div)
  then have low: "take_bit 4 (drop_bit 24 lba) = drop_bit 24 lba"
    by (intro unat_inj) (simp only: unsigned_take_bit_eq take_bit_nat_eq_self)
  have "bit x n \<longleftrightarrow> n < 8 \<and> (n \<in> {5, 6, 7} \<or> n = 4 \<and> sl = 1 \<or> n < 4 \<and> bit (drop_bit 24 lba) n)" for n
    unfolding x_def m bit_unsigned_iff bit_or_iff e0 bit_push_bit_iff bit_and_iff bit_mask_iff sl by auto
  note x = this
  have "x AND 0x0F = ucast (drop_bit 24 lba)"
  proof (rule bit_word_eqI)
    fix n assume "n < LENGTH(8)"
    moreover have "bit (drop_bit 24 lba) n \<longleftrightarrow> n < 4 \<and> bit (drop_bit 24 lba) n" by (subst (1) low [symmetric]) (simp add: bit_take_bit_iff)
    ultimately show "bit (x AND 0x0F) n = bit (ucast (drop_bit 24 lba) :: u8) n"
      unfolding bit_and_iff bit_unsigned_iff m bit_mask_iff x by auto
  qed
  then show "unat (x AND 0x0F) = unat lba div 2 ^ 24"
    using \<open>unat (drop_bit 24 lba) < 2 ^ 4\<close> by (simp add: unsigned_ucast_eq take_bit_nat_eq_self unat_drop_bit_div)
  show "bit x 4 \<longleftrightarrow> sl = 1" unfolding x by simp
qed


section \<open>Properties\<close>

lemma setup_transfer_view:
  assumes "ata_laws b (d_base dr) disk delay view" "v_busy (view d) = 0"
  shows "\<exists>d'. setup_transfer b dr lba count ATA_CMD_READ_PIO d = Some ((), d') \<and> v_busy (view d') = delay \<and>
    (let v = (view d)\<lparr>v_sel := ucast (0xE0 OR push_bit 4 (ucast (d_slave dr)) OR (drop_bit 24 lba AND 0x0F)), v_count := count,
       v_lo := ucast (lba AND 0xFF), v_mid := ucast (drop_bit 8 lba AND 0xFF), v_hi := ucast (drop_bit 16 lba AND 0xFF)\<rparr>
     in v_data (view d') = sectors_of (disk (bit (v_sel v) 4)) (cmd_lba v) (cmd_count v))"
proof -
  have "command_law b (d_base dr) disk delay view" using assms(1) by (simp add: ata_laws_def)
  then have law: "v_busy (view d) = 0 \<Longrightarrow> view (out8 b (d_base dr + 6) x d) = (view d)\<lparr>v_sel := x\<rparr>"
    "v_busy (view d) = 0 \<Longrightarrow> view (out8 b (d_base dr + 2) x d) = (view d)\<lparr>v_count := x\<rparr>"
    "v_busy (view d) = 0 \<Longrightarrow> view (out8 b (d_base dr + 3) x d) = (view d)\<lparr>v_lo := x\<rparr>"
    "v_busy (view d) = 0 \<Longrightarrow> view (out8 b (d_base dr + 4) x d) = (view d)\<lparr>v_mid := x\<rparr>"
    "v_busy (view d) = 0 \<Longrightarrow> view (out8 b (d_base dr + 5) x d) = (view d)\<lparr>v_hi := x\<rparr>"
    "v_busy (view d) = 0 \<Longrightarrow> view (out8 b (d_base dr + 7) 0x20 d) = (view d)\<lparr>v_busy := delay,
       v_data := sectors_of (disk (bit (v_sel (view d)) 4)) (cmd_lba (view d)) (cmd_count (view d))\<rparr>" for d x
    by (simp_all add: command_law_def)
  show ?thesis
    by (simp add: setup_transfer_def law assms(2) ATA_CMD_READ_PIO_def ATA_REG_DRIVE_def ATA_REG_SECCOUNT_def ATA_REG_LBA_LO_def
        ATA_REG_LBA_MID_def ATA_REG_LBA_HI_def ATA_REG_CMD_def Let_def)
qed

text \<open>
  C33: on a drive that follows the documented protocol and is busy for fewer than 100000 status
  reads at a time, \<^verbatim>\<open>ata_read\<close> of a present drive returns 0 and the words of exactly the \<open>count\<close>
  sectors from \<open>lba\<close> on of the drive that the slave bit selects, for every 28-bit address.
\<close>

theorem ata_read_correct:
  fixes s drv
  defines "dr \<equiv> drives s ! unat drv"
  assumes "unat drv < ATA_MAX_DRIVES" "d_present dr" "d_slave dr = 0 \<or> d_slave dr = 1"
    and "ata_laws b (d_base dr) disk delay view" "v_busy (view d) < POLLS" "unat lba < 2 ^ 28" "count \<noteq> 0"
  shows "\<exists>d'. ata_read b s drv lba count d =
    Some ((0, sectors_of (disk (d_slave dr = 1)) (unat lba) (unat count)), d')"
proof -
  from wait_busy_ready [OF assms(5,6)] obtain d1 where
    d1: "wait_busy b (d_base dr) d = Some (0, d1)" "v_busy (view d1) = 0" by force
  from setup_transfer_view [OF assms(5) d1(2), of lba count] obtain d2 where
    d2: "setup_transfer b dr lba count ATA_CMD_READ_PIO d1 = Some ((), d2)" "v_busy (view d2) = delay"
      "v_data (view d2) = sectors_of (disk (d_slave dr = 1)) (unat lba) (unat count)"
    using sel_bits [OF assms(7,4)] lba_bytes [OF assms(7)] assms(8)
    by (auto simp: Let_def cmd_lba_def cmd_count_def)
  have "delay < POLLS" "length (disk x k) = 256" for x k using assms(5) by (simp_all add: ata_laws_def)
  with read_sectors_data [OF assms(5) d2(3), of "[]"] d2(2) obtain d3 where
    "read_sectors (unat count) b (d_base dr) [] d2 = Some ((0, sectors_of (disk (d_slave dr = 1)) (unat lba) (unat count)), d3)"
    by auto
  with d1 d2 assms(2,3) show ?thesis by (simp add: ata_read_def dr_def [symmetric])
qed

text \<open>A drive that is never busy, with the sector number in every word of a sector.\<close>

definition sample_disk :: "bool \<Rightarrow> nat \<Rightarrow> u16 list" where
  "sample_disk sl k = replicate 256 (of_nat k)"

definition sample_drive :: "ata_view bus" where
  "sample_drive =
     \<lparr>in8 = (\<lambda>p v. (if v_busy v \<noteq> 0 then 0x80 else if v_data v \<noteq> [] then 0x48 else 0x40, v\<lparr>v_busy := v_busy v - 1\<rparr>)),
      out8 = (\<lambda>p x v.
        if p = 0x1F6 then v\<lparr>v_sel := x\<rparr> else if p = 0x1F2 then v\<lparr>v_count := x\<rparr> else if p = 0x1F3 then v\<lparr>v_lo := x\<rparr>
        else if p = 0x1F4 then v\<lparr>v_mid := x\<rparr> else if p = 0x1F5 then v\<lparr>v_hi := x\<rparr>
        else v\<lparr>v_busy := 2, v_data := sectors_of (sample_disk (bit (v_sel v) 4)) (cmd_lba v) (cmd_count v)\<rparr>),
      in16 = (\<lambda>p v. case v_data v of [] \<Rightarrow> (0, v)
        | w # ws \<Rightarrow> (w, v\<lparr>v_data := ws, v_busy := if ws \<noteq> [] \<and> length ws mod 256 = 0 then 2 else 0\<rparr>)),
      out16 = (\<lambda>p x v. v), in32 = (\<lambda>p v. (0, v)), out32 = (\<lambda>p x v. v)\<rparr>"

lemma sample_drive_laws: "ata_laws sample_drive 0x1F0 sample_disk 2 (\<lambda>v. v)"
proof -
  have "status_law sample_drive 0x1F0 (\<lambda>v. v)" by (auto simp: status_law_def sample_drive_def)
  moreover have "command_law sample_drive 0x1F0 sample_disk 2 (\<lambda>v. v)" by (simp add: command_law_def sample_drive_def)
  moreover have "data_law sample_drive 0x1F0 2 (\<lambda>v. v)" by (simp add: data_law_def sample_drive_def)
  ultimately show ?thesis by (simp add: ata_laws_def POLLS_def sample_disk_def)
qed

definition sample_ata :: ata where
  "sample_ata = \<lparr>drives = \<lparr>d_present = True, d_base = 0x1F0, d_alt = 0x3F6, d_slave = 0, d_sectors = 0x1000, d_model = []\<rparr> #
     replicate 3 \<lparr>d_present = False, d_base = 0, d_alt = 0, d_slave = 0, d_sectors = 0, d_model = []\<rparr>, ndrives = 1\<rparr>"

definition sample_view :: ata_view where
  "sample_view = \<lparr>v_sel = 0, v_count = 0, v_lo = 0, v_mid = 0, v_hi = 0, v_busy = 7, v_data = []\<rparr>"

theorem ata_read_correct_witness:
  "\<exists>d'. ata_read sample_drive sample_ata 0 0x123456 2 sample_view =
     Some ((0, replicate 256 0x3456 @ replicate 256 0x3457), d')"
proof -
  have two: "sectors_of (sample_disk x) 0x123456 2 = replicate 256 0x3456 @ replicate 256 0x3457" for x
    by (simp add: sectors_of_def sample_disk_def upt_rec)
  have dr: "drives sample_ata ! unat (0 :: u8) = \<lparr>d_present = True, d_base = 0x1F0, d_alt = 0x3F6, d_slave = 0, d_sectors = 0x1000, d_model = []\<rparr>"
    by (simp add: sample_ata_def)
  from ata_read_correct [of "0 :: u8" sample_ata sample_drive sample_disk 2 "\<lambda>v. v" sample_view "0x123456" 2, unfolded dr]
  show ?thesis using sample_drive_laws by (simp add: ATA_MAX_DRIVES_def sample_view_def POLLS_def two)
qed

text \<open>
  Identification and transfers always return, whatever the device does: every polling loop is
  bounded.  Without a present drive of that number a transfer fails before it touches a port.
\<close>

theorem ata_always_returns:
  "(\<exists>n t d'. ata_init b s d = Some ((n, t), d')) \<and>
   (\<exists>r ws d'. ata_read b s drv lba count d = Some ((r, ws), d')) \<and>
   (\<exists>r d'. ata_write b s drv lba count src d = Some (r, d')) \<and>
   (unat drv \<ge> ATA_MAX_DRIVES \<or> \<not> d_present (drives s ! unat drv) \<longrightarrow>
      ata_read b s drv lba count d = Some ((-1, []), d) \<and> ata_write b s drv lba count src d = Some (-1, d))"
proof -
  have "\<exists>x d'. ata_init b s d = Some (x, d')" "\<exists>x d'. ata_read b s drv lba count d = Some (x, d')"
    "\<exists>r d'. ata_write b s drv lba count src d = Some (r, d')"
    using safeD [OF any_bus.safe_ata(1)] safeD [OF any_bus.safe_ata(2)] safeD [OF any_bus.safe_ata(3)] by simp_all
  then show ?thesis by (auto simp: ata_read_def ata_write_def)
qed

theorem ata_always_returns_witness:
  "ata_read sample_drive sample_ata 3 0 1 sample_view = Some ((-1, []), sample_view)"
  using ata_always_returns [of sample_drive sample_ata sample_view 3 0 1 "[]"] by (simp add: sample_ata_def)


end
