(* ===== verification/Rtl8139.thy ===== *)
theory Rtl8139
  imports Ports Pci Pmm
begin

text \<open>
  The network card driver \<^verbatim>\<open>drivers/net/rtl8139.c\<close>.  The card reads and writes memory on its own, so the
  memory it shares with the driver is part of the device state, seen through \<open>'d dma\<close>.  The receive callback is
  the client's code: \<open>call\<close> says what the function a callback value of type \<open>'c\<close> stands for does to the driver and
  to the client's own state.
\<close>

section \<open>State and registers\<close>

definition RX_BUF_SIZE :: nat where "RX_BUF_SIZE = 8192 + 16 + 1500"
definition TX_BUFS :: nat where "TX_BUFS = 4"
definition RTL_IDR0 :: u8 where "RTL_IDR0 = 0x00"
definition RTL_TXSTATUS :: u8 where "RTL_TXSTATUS = 0x10"
definition RTL_TXADDR :: u8 where "RTL_TXADDR = 0x20"
definition RTL_RXBUF :: u8 where "RTL_RXBUF = 0x30"
definition RTL_CMD :: u8 where "RTL_CMD = 0x37"
definition RTL_CAPR :: u8 where "RTL_CAPR = 0x38"
definition RTL_IMR :: u8 where "RTL_IMR = 0x3C"
definition RTL_ISR :: u8 where "RTL_ISR = 0x3E"
definition RTL_TCR :: u8 where "RTL_TCR = 0x40"
definition RTL_RCR :: u8 where "RTL_RCR = 0x44"
definition RTL_CONFIG1 :: u8 where "RTL_CONFIG1 = 0x52"
definition CMD_RESET :: u8 where "CMD_RESET = 0x10"
definition CMD_RXEN :: u8 where "CMD_RXEN = 0x08"
definition CMD_TXEN :: u8 where "CMD_TXEN = 0x04"
definition ISR_ROK :: u16 where "ISR_ROK = 0x0001"
definition ISR_TOK :: u16 where "ISR_TOK = 0x0004"
definition RTL_VENDOR :: u16 where "RTL_VENDOR = 0x10EC"
definition RTL_DEVICE :: u16 where "RTL_DEVICE = 0x8139"

record 'd dma =
  peek :: "nat \<Rightarrow> 'd \<Rightarrow> u8"
  poke :: "nat \<Rightarrow> u8 \<Rightarrow> 'd \<Rightarrow> 'd"

record 'c rtl =
  io_base :: u16
  rx_buf :: nat
  tx_bufs :: "nat list"
  tx_cur :: nat
  rx_ptr :: u16
  rtl_up :: bool
  rx_cb :: "'c option"
  rtl_mac :: "u8 list"

definition rtl_rb :: "'d bus \<Rightarrow> 'c rtl \<Rightarrow> u8 \<Rightarrow> ('d, u8) io" where
  "rtl_rb b s reg = inb b (io_base s + ucast reg)"

definition rtl_rw :: "'d bus \<Rightarrow> 'c rtl \<Rightarrow> u8 \<Rightarrow> ('d, u16) io" where
  "rtl_rw b s reg = inw b (io_base s + ucast reg)"

definition rtl_wb :: "'d bus \<Rightarrow> 'c rtl \<Rightarrow> u8 \<Rightarrow> u8 \<Rightarrow> ('d, unit) io" where
  "rtl_wb b s reg v = outb b (io_base s + ucast reg) v"

definition rtl_ww :: "'d bus \<Rightarrow> 'c rtl \<Rightarrow> u8 \<Rightarrow> u16 \<Rightarrow> ('d, unit) io" where
  "rtl_ww b s reg v = outw b (io_base s + ucast reg) v"

definition rtl_wl :: "'d bus \<Rightarrow> 'c rtl \<Rightarrow> u8 \<Rightarrow> u32 \<Rightarrow> ('d, unit) io" where
  "rtl_wl b s reg v = outl b (io_base s + ucast reg) v"

text \<open>\<^verbatim>\<open>memcpy\<close> and \<^verbatim>\<open>memset\<close> into shared memory.\<close>

definition store_bytes :: "'d dma \<Rightarrow> nat \<Rightarrow> u8 list \<Rightarrow> ('d, unit) io" where
  "store_bytes mm p bs d = Some ((), fold (\<lambda>i. poke mm (p + i) (bs ! i)) [0 ..< length bs] d)"

section \<open>Start-up\<close>

fun await_reset :: "nat \<Rightarrow> 'd bus \<Rightarrow> 'c rtl \<Rightarrow> ('d, unit) io" where
  "await_reset 0 b s = ret ()"
| "await_reset (Suc n) b s =
     andthen (rtl_rb b s RTL_CMD) (\<lambda>v. if v AND CMD_RESET = 0 then ret () else await_reset n b s)"

definition read_mac :: "'d bus \<Rightarrow> 'c rtl \<Rightarrow> ('d, 'c rtl) io" where
  "read_mac b = io_fold (\<lambda>i s. andthen (rtl_rb b s (RTL_IDR0 + of_nat i)) (\<lambda>v. ret (s\<lparr>rtl_mac := (rtl_mac s)[i := v]\<rparr>))) [0 ..< 6]"

text \<open>A transmit buffer is a frame; an allocation that fails is not noticed and clears the memory at 0.\<close>

definition alloc_tx :: "'w::len itself \<Rightarrow> 'd dma \<Rightarrow> nat \<Rightarrow> 'c rtl \<times> pmm \<Rightarrow> ('d, 'c rtl \<times> pmm) io" where
  "alloc_tx w mm i = (\<lambda>(s, f).
     let (p, f) = (pmm_alloc f :: 'w word \<times> pmm)
     in andthen (store_bytes mm (unat p) (replicate 4096 0)) (\<lambda>_. ret (s\<lparr>tx_bufs := (tx_bufs s)[i := unat p]\<rparr>, f)))"

definition rtl_program :: "'d bus \<Rightarrow> 'c rtl \<Rightarrow> ('d, unit) io" where
  "rtl_program b s = io_seq
     ([rtl_wl b s RTL_RXBUF (of_nat (rx_buf s))] @
      map (\<lambda>i. rtl_wl b s (RTL_TXADDR + of_nat i * 4) (of_nat (tx_bufs s ! i))) [0 ..< TX_BUFS] @
      [rtl_ww b s RTL_IMR (ISR_ROK OR ISR_TOK), rtl_wl b s RTL_RCR (0x0F OR push_bit 7 1), rtl_wl b s RTL_TCR 0x03000700,
       rtl_wb b s RTL_CMD (CMD_RXEN OR CMD_TXEN)])"

text \<open>The three parts of \<^verbatim>\<open>rtl8139_init\<close>: finding the card, resetting it, and setting up its buffers.\<close>

definition rtl_find :: "pci \<Rightarrow> pci_dev option" where
  "rtl_find p =
     (case pci_find_class 0x02 0x00 0xFF p of
        None \<Rightarrow> None
      | Some i \<Rightarrow>
          let d = devices p ! i
          in if vendor_id d \<noteq> RTL_VENDOR \<or> device_id d \<noteq> RTL_DEVICE then None
             else if bar d ! 0 AND 1 = 0 then None
             else Some d)"

definition rtl_reset :: "'d bus \<Rightarrow> 'c \<Rightarrow> pci_dev \<Rightarrow> 'c rtl \<Rightarrow> ('d, 'c rtl) io" where
  "rtl_reset b cb dev s =
     (let s = s\<lparr>io_base := ucast (bar dev ! 0 AND NOT 3)\<rparr>
      in andthen (pci_read b (d_bus dev) (d_dev dev) (d_fn dev) 0x04) (\<lambda>pci_cmd.
         andthen (pci_write b (d_bus dev) (d_dev dev) (d_fn dev) 0x04 (pci_cmd OR 0x04)) (\<lambda>_.
         let s = s\<lparr>rx_cb := Some cb\<rparr>
         in andthen (rtl_wb b s RTL_CONFIG1 0x00) (\<lambda>_.
            andthen (rtl_wb b s RTL_CMD CMD_RESET) (\<lambda>_.
            andthen (await_reset 10000 b s) (\<lambda>_. read_mac b s))))))"

definition rtl_buffers :: "'w::len itself \<Rightarrow> 'd bus \<Rightarrow> 'd dma \<Rightarrow> 'c rtl \<times> pmm \<Rightarrow> ('d, bool \<times> 'c rtl \<times> pmm) io" where
  "rtl_buffers w b mm = (\<lambda>(s, f).
     let (p, f) = (pmm_alloc_n (of_nat ((RX_BUF_SIZE + 4095) div 4096)) f :: 'w word \<times> pmm);
         s = s\<lparr>rx_buf := unat p\<rparr>
     in if p = 0 then ret (False, s, f)
        else andthen (store_bytes mm (rx_buf s) (replicate RX_BUF_SIZE 0)) (\<lambda>_.
             andthen (io_fold (alloc_tx w mm) [0 ..< TX_BUFS] (s, f)) (\<lambda>(s, f).
             andthen (rtl_program b s) (\<lambda>_. ret (True, s\<lparr>rx_ptr := 0, rtl_up := True\<rparr>, f)))))"

definition rtl8139_init ::
  "'w::len itself \<Rightarrow> 'd bus \<Rightarrow> 'd dma \<Rightarrow> 'c \<Rightarrow> pci \<Rightarrow> 'c rtl \<times> pmm \<Rightarrow> ('d, bool \<times> 'c rtl \<times> pmm) io" where
  "rtl8139_init w b mm cb p = (\<lambda>(s, f).
     case rtl_find p of
       None \<Rightarrow> ret (False, s, f)
     | Some dev \<Rightarrow> andthen (rtl_reset b cb dev s) (\<lambda>s. rtl_buffers w b mm (s, f)))"

definition rtl8139_present :: "'c rtl \<Rightarrow> bool" where
  "rtl8139_present s = rtl_up s"

definition rtl8139_get_mac :: "'c rtl \<Rightarrow> u8 list" where
  "rtl8139_get_mac s = take 6 (rtl_mac s)"

section \<open>Sending and receiving\<close>

definition rtl8139_send :: "'d bus \<Rightarrow> 'd dma \<Rightarrow> u8 list \<Rightarrow> u32 \<Rightarrow> 'c rtl \<Rightarrow> ('d, int \<times> 'c rtl) io" where
  "rtl8139_send b mm data len s =
     (if \<not> rtl_up s \<or> len > 1500 then ret (- 1, s)
      else
        andthen (store_bytes mm (tx_bufs s ! tx_cur s) (take (unat len) data)) (\<lambda>_.
        andthen (rtl_wl b s (RTL_TXSTATUS + of_nat (tx_cur s) * 4) len) (\<lambda>_.
        ret (0, s\<lparr>tx_cur := (tx_cur s + 1) mod TX_BUFS\<rparr>))))"

definition rx_header :: "'c rtl \<Rightarrow> nat" where
  "rx_header s = rx_buf s + unat (rx_ptr s mod 8192)"

definition rx_plen :: "'d dma \<Rightarrow> 'c rtl \<Rightarrow> 'd \<Rightarrow> u16" where
  "rx_plen mm s d = push_bit 8 (ucast (peek mm (rx_header s + 3) d)) OR ucast (peek mm (rx_header s + 2) d)"

definition next_ptr :: "u16 \<Rightarrow> u16 \<Rightarrow> u16" where
  "next_ptr ptr plen = (ptr + plen + 4 + 3) AND NOT 3"

partial_function (option) rx_loop ::
  "'d bus \<Rightarrow> 'd dma \<Rightarrow> ('c \<Rightarrow> u8 list \<Rightarrow> 'c rtl \<times> 'n \<Rightarrow> ('d, 'c rtl \<times> 'n) io) \<Rightarrow> 'c rtl \<times> 'n \<Rightarrow> ('d, 'c rtl \<times> 'n) io" where
  "rx_loop b mm call s d =
     (case rtl_rb b (fst s) RTL_CMD d of
        None \<Rightarrow> None
      | Some (c, d) \<Rightarrow>
          if c AND 0x01 \<noteq> 0 then Some (s, d)
          else
            let hdr = rx_header (fst s); plen = rx_plen mm (fst s) d
            in if plen < 4 \<or> plen > 1514 then Some (s, d)
               else
                 case (case rx_cb (fst s) of
                         None \<Rightarrow> Some (s, d)
                       | Some cb \<Rightarrow> call cb (map (\<lambda>k. peek mm (hdr + 4 + k) d) [0 ..< unat plen - 4]) s d) of
                   None \<Rightarrow> None
                 | Some (s, d) \<Rightarrow>
                     let s = ((fst s)\<lparr>rx_ptr := next_ptr (rx_ptr (fst s)) plen\<rparr>, snd s)
                     in case rtl_ww b (fst s) RTL_CAPR (rx_ptr (fst s) - 16) d of
                          None \<Rightarrow> None
                        | Some (_, d) \<Rightarrow> rx_loop b mm call s d)"

definition rtl8139_poll ::
  "'d bus \<Rightarrow> 'd dma \<Rightarrow> ('c \<Rightarrow> u8 list \<Rightarrow> 'c rtl \<times> 'n \<Rightarrow> ('d, 'c rtl \<times> 'n) io) \<Rightarrow> 'c rtl \<times> 'n \<Rightarrow> ('d, 'c rtl \<times> 'n) io" where
  "rtl8139_poll b mm call s =
     (if \<not> rtl_up (fst s) then ret s
      else
        andthen (rtl_rw b (fst s) RTL_ISR) (\<lambda>isr.
          if isr = 0 then ret s
          else
            andthen (rtl_ww b (fst s) RTL_ISR isr) (\<lambda>_.
              if isr AND ISR_ROK \<noteq> 0 then rx_loop b mm call s else ret s)))"

section \<open>What the driver relies on of the card\<close>

text \<open>
  The card keeps a read and a write pointer into the receive ring and a record of the frames it
  has put on the wire.  Its command register shows an empty ring when the two pointers meet, a
  store to \<^verbatim>\<open>CAPR\<close> sets the read pointer to the value plus 16, and a length stored in a transmit status
  register sends that many bytes of the buffer of that descriptor.
\<close>

definition same_view :: "'d dma \<Rightarrow> ('d \<Rightarrow> u16) \<Rightarrow> ('d \<Rightarrow> u16) \<Rightarrow> ('d \<Rightarrow> u8 list list) \<Rightarrow> 'd \<Rightarrow> 'd \<Rightarrow> bool" where
  "same_view mm rd wr sent d' d \<longleftrightarrow> (\<forall>a. peek mm a d' = peek mm a d) \<and> rd d' = rd d \<and> wr d' = wr d \<and> sent d' = sent d"

definition rtl_laws ::
  "'d bus \<Rightarrow> 'd dma \<Rightarrow> u16 \<Rightarrow> nat list \<Rightarrow> ('d \<Rightarrow> u16) \<Rightarrow> ('d \<Rightarrow> u16) \<Rightarrow> ('d \<Rightarrow> u8 list list) \<Rightarrow> bool" where
  "rtl_laws b mm base txs rd wr sent \<longleftrightarrow>
     (\<forall>d c d'. in8 b (base + ucast RTL_CMD) d = (c, d') \<longrightarrow> (bit c 0 \<longleftrightarrow> rd d = wr d) \<and> same_view mm rd wr sent d' d) \<and>
     (\<forall>d v d'. in16 b (base + ucast RTL_ISR) d = (v, d') \<longrightarrow> same_view mm rd wr sent d' d) \<and>
     (\<forall>d v. same_view mm rd wr sent (out16 b (base + ucast RTL_ISR) v d) d) \<and>
     (\<forall>d v d'. out16 b (base + ucast RTL_CAPR) v d = d' \<longrightarrow>
        rd d' = v + 16 \<and> wr d' = wr d \<and> sent d' = sent d \<and> (\<forall>a. peek mm a d' = peek mm a d)) \<and>
     (\<forall>d i len d'. i < TX_BUFS \<longrightarrow> out32 b (base + ucast (RTL_TXSTATUS + of_nat i * 4)) len d = d' \<longrightarrow>
        sent d' = sent d @ [map (\<lambda>k. peek mm (txs ! i + k) d) [0 ..< unat len]] \<and>
        rd d' = rd d \<and> wr d' = wr d \<and> (\<forall>a. peek mm a d' = peek mm a d)) \<and>
     (\<forall>d a v x. peek mm x (poke mm a v d) = (if x = a then v else peek mm x d)) \<and>
     (\<forall>d a v. rd (poke mm a v d) = rd d \<and> wr (poke mm a v d) = wr d \<and> sent (poke mm a v d) = sent d)"

lemma store_bytes_run:
  assumes "rtl_laws b mm base txs rd wr sent"
  shows "\<exists>d'. store_bytes mm p bs d = Some ((), d') \<and> rd d' = rd d \<and> wr d' = wr d \<and> sent d' = sent d \<and>
    (\<forall>a. peek mm a d' = (if p \<le> a \<and> a < p + length bs then bs ! (a - p) else peek mm a d))"
proof -
  define w where "w n = fold (\<lambda>i. poke mm (p + i) (bs ! i)) [0 ..< n] d" for n
  have "rd (w n) = rd d \<and> wr (w n) = wr d \<and> sent (w n) = sent d \<and>
      (\<forall>a. peek mm a (w n) = (if p \<le> a \<and> a < p + n then bs ! (a - p) else peek mm a d))" for n
  proof (induction n)
    case (Suc n)
    have "w (Suc n) = poke mm (p + n) (bs ! n) (w n)" by (simp add: w_def)
    moreover have "p \<le> a \<and> a < p + Suc n \<longleftrightarrow> a = p + n \<or> p \<le> a \<and> a < p + n" for a by auto
    ultimately show ?case using assms Suc by (auto simp: rtl_laws_def)
  qed (auto simp: w_def)
  from this [of "length bs"] show ?thesis by (auto simp: store_bytes_def w_def)
qed

text \<open>A frame that fits leaves on the wire as it is, from the buffer of the current descriptor.\<close>

lemma send_transmits:
  assumes "rtl_laws b mm (io_base s) (tx_bufs s) rd wr sent" "rtl_up s" "tx_cur s < TX_BUFS"
    and "len \<le> 1500" "unat len \<le> length data"
  shows "\<exists>d'. rtl8139_send b mm data len s d = Some ((0, s\<lparr>tx_cur := (tx_cur s + 1) mod TX_BUFS\<rparr>), d') \<and>
    sent d' = sent d @ [take (unat len) data] \<and> rd d' = rd d \<and> wr d' = wr d \<and>
    (\<forall>a. \<not> (tx_bufs s ! tx_cur s \<le> a \<and> a < tx_bufs s ! tx_cur s + 1500) \<longrightarrow> peek mm a d' = peek mm a d)"
proof -
  let ?p = "tx_bufs s ! tx_cur s" and ?bs = "take (unat len) data"
  from store_bytes_run [OF assms(1)] obtain d1 where
    d1: "store_bytes mm ?p ?bs d = Some ((), d1)" "rd d1 = rd d" "wr d1 = wr d" "sent d1 = sent d"
      "\<forall>a. peek mm a d1 = (if ?p \<le> a \<and> a < ?p + length ?bs then ?bs ! (a - ?p) else peek mm a d)" by blast
  define d' where "d' = out32 b (io_base s + ucast (RTL_TXSTATUS + of_nat (tx_cur s) * 4)) len d1"
  have law: "sent d' = sent d1 @ [map (\<lambda>k. peek mm (?p + k) d1) [0 ..< unat len]]"
      "rd d' = rd d1" "wr d' = wr d1" "peek mm a d' = peek mm a d1" for a
    using assms(1,3) unfolding rtl_laws_def d'_def by blast+
  have "map (\<lambda>k. peek mm (?p + k) d1) [0 ..< unat len] = ?bs"
    using d1(5) assms(5) by (intro nth_equalityI) simp_all
  moreover have "unat len \<le> 1500" using assms(4) by (simp add: word_le_nat_alt)
  ultimately show ?thesis
    using d1 law assms(2,4) by (auto simp: rtl8139_send_def rtl_wl_def d'_def [symmetric] not_less)
qed

text \<open>
  The receive ring: frames one after the other from the pointer \<open>p\<close> to the write pointer \<open>e\<close>, each with a
  header that holds its length together with the four bytes of its checksum.
\<close>

definition frame_plen :: "u8 list \<Rightarrow> u16" where
  "frame_plen f = of_nat (length f + 4)"

fun ring_holds :: "(nat \<Rightarrow> u8) \<Rightarrow> nat \<Rightarrow> u16 \<Rightarrow> u8 list list \<Rightarrow> u16 \<Rightarrow> bool" where
  "ring_holds m buf p [] e \<longleftrightarrow> p = e"
| "ring_holds m buf p (f # fs) e \<longleftrightarrow>
     (let hdr = buf + unat (p mod 8192)
      in p \<noteq> e \<and> push_bit 8 (ucast (m (hdr + 3))) OR ucast (m (hdr + 2)) = frame_plen f \<and>
         map (\<lambda>k. m (hdr + 4 + k)) [0 ..< length f] = f \<and> ring_holds m buf (next_ptr p (frame_plen f)) fs e)"

text \<open>The memory that the ring takes: 8 KiB and the longest frame that may start at its end.\<close>

definition in_ring :: "nat \<Rightarrow> nat \<Rightarrow> bool" where
  "in_ring buf a \<longleftrightarrow> buf \<le> a \<and> a < buf + 8192 + 1514"

lemma ring_holds_cong:
  assumes "\<And>a. in_ring buf a \<Longrightarrow> m' a = m a" "\<forall>f \<in> set fs. length f \<le> 1510"
  shows "ring_holds m' buf p fs e = ring_holds m buf p fs e"
  using assms(2)
proof (induction fs arbitrary: p)
  case (Cons f fs)
  have "unat (p mod 8192) < 8192" by (simp add: unat_mod_distrib)
  then have "m' (buf + unat (p mod 8192) + k) = m (buf + unat (p mod 8192) + k)" if "k < 1514" for k
    using that by (intro assms(1)) (simp add: in_ring_def)
  note e = this [of 2] this [of 3] this [of "4 + _"]
  have "m' (buf + unat (p mod 8192) + 4 + k) = m (buf + unat (p mod 8192) + 4 + k)" if "k < length f" for k
    using e(3) [of k] that Cons.prems by (simp add: add.assoc)
  then have body: "map (\<lambda>k. m' (buf + unat (p mod 8192) + 4 + k)) [0 ..< length f] = map (\<lambda>k. m (buf + unat (p mod 8192) + 4 + k)) [0 ..< length f]"
    by simp
  have rest: "ring_holds m' buf q fs e = ring_holds m buf q fs e" for q using Cons by simp
  have "m' (buf + unat (p mod 8192) + 2) = m (buf + unat (p mod 8192) + 2)"
    "m' (buf + unat (p mod 8192) + 3) = m (buf + unat (p mod 8192) + 3)" using e(1,2) by simp_all
  then show ?case by (simp only: ring_holds.simps Let_def body rest)
qed simp


section \<open>One frame and a frame that does not fit\<close>

lemma rtl_lawsD:
  assumes "rtl_laws b mm base txs rd wr sent"
  shows "in8 b (base + ucast RTL_CMD) d = (c, d') \<Longrightarrow> (bit c 0 \<longleftrightarrow> rd d = wr d) \<and> same_view mm rd wr sent d' d"
    and "in16 b (base + ucast RTL_ISR) d = (v, d') \<Longrightarrow> same_view mm rd wr sent d' d"
    and "same_view mm rd wr sent (out16 b (base + ucast RTL_ISR) v d) d"
    and "rd (out16 b (base + ucast RTL_CAPR) v d) = v + 16"
    and "wr (out16 b (base + ucast RTL_CAPR) v d) = wr d" "sent (out16 b (base + ucast RTL_CAPR) v d) = sent d"
    and "peek mm a (out16 b (base + ucast RTL_CAPR) v d) = peek mm a d"
  using assms by (auto simp: rtl_laws_def)

lemma and_one_bit0: "(c :: 'a::len word) AND 1 \<noteq> 0 \<longleftrightarrow> bit c 0"
  using drop_bit_and_one_eq_bit [of 0 c] by simp

lemma rx_plen_cong: "same_view mm rd wr sent d' d \<Longrightarrow> rx_plen mm s d' = rx_plen mm s d"
  by (simp add: rx_plen_def same_view_def)

lemma same_view_trans:
  "same_view mm rd wr sent d2 d1 \<Longrightarrow> same_view mm rd wr sent d1 d \<Longrightarrow> same_view mm rd wr sent d2 d"
  by (simp add: same_view_def)

lemma rx_loop_empty:
  assumes "rtl_laws b mm (io_base (fst s)) txs rd wr sent" "rd d = wr d"
  shows "\<exists>d'. rx_loop b mm call s d = Some (s, d') \<and> same_view mm rd wr sent d' d"
proof -
  obtain c d' where r: "in8 b (io_base (fst s) + ucast RTL_CMD) d = (c, d')" by fastforce
  with rtl_lawsD(1) [OF assms(1) this] assms(2) show ?thesis
    by (subst rx_loop.simps) (simp add: rtl_rb_def and_one_bit0)
qed

lemma rx_loop_bad:
  assumes "rtl_laws b mm (io_base (fst s)) txs rd wr sent" "rx_plen mm (fst s) d < 4 \<or> rx_plen mm (fst s) d > 1514"
  shows "\<exists>d'. rx_loop b mm call s d = Some (s, d') \<and> same_view mm rd wr sent d' d"
proof -
  obtain c d' where r: "in8 b (io_base (fst s) + ucast RTL_CMD) d = (c, d')" by fastforce
  note v = rtl_lawsD(1) [OF assms(1) r]
  then have "rx_plen mm (fst s) d' = rx_plen mm (fst s) d" by (simp add: rx_plen_cong [OF v [THEN conjunct2]])
  with v r assms(2) show ?thesis by (subst rx_loop.simps) (auto simp: rtl_rb_def Let_def)
qed

lemma rx_loop_step:
  assumes "rtl_laws b mm (io_base (fst s)) txs rd wr sent" "rd d \<noteq> wr d" "rx_cb (fst s) = Some cb"
    and "rx_plen mm (fst s) d = frame_plen f" "length f \<le> 1510"
    and "map (\<lambda>k. peek mm (rx_header (fst s) + 4 + k) d) [0 ..< length f] = f"
  shows "\<exists>d1. same_view mm rd wr sent d1 d \<and> rx_loop b mm call s d =
    (case call cb f s d1 of
       None \<Rightarrow> None
     | Some (s, d) \<Rightarrow>
         let s = ((fst s)\<lparr>rx_ptr := next_ptr (rx_ptr (fst s)) (frame_plen f)\<rparr>, snd s)
         in rx_loop b mm call s (out16 b (io_base (fst s) + ucast RTL_CAPR) (rx_ptr (fst s) - 16) d))"
proof -
  obtain c d1 where r: "in8 b (io_base (fst s) + ucast RTL_CMD) d = (c, d1)" by fastforce
  note v = rtl_lawsD(1) [OF assms(1) r]
  then have view: "same_view mm rd wr sent d1 d" and c: "c AND 1 = 0" using assms(2) and_one_bit0 [of c] by auto
  have len: "unat (frame_plen f) = length f + 4" using assms(5) unfolding frame_plen_def unat_of_nat by simp
  then have ok: "\<not> (frame_plen f < 4 \<or> frame_plen f > 1514)" using assms(5) by (simp add: word_less_nat_alt)
  have "map (\<lambda>k. peek mm (rx_header (fst s) + 4 + k) d1) [0 ..< unat (frame_plen f) - 4] = f"
    using assms(6) view by (simp add: len same_view_def)
  with r c ok assms(3,4) rx_plen_cong [OF view, of "fst s"] have "rx_loop b mm call s d =
    (case call cb f s d1 of
       None \<Rightarrow> None
     | Some (s, d) \<Rightarrow>
         let s = ((fst s)\<lparr>rx_ptr := next_ptr (rx_ptr (fst s)) (frame_plen f)\<rparr>, snd s)
         in rx_loop b mm call s (out16 b (io_base (fst s) + ucast RTL_CAPR) (rx_ptr (fst s) - 16) d))"
    by (subst rx_loop.simps) (simp add: rtl_rb_def rtl_ww_def Let_def split: option.split)
  with view show ?thesis by blast
qed

lemma poll_rx:
  assumes "rtl_laws b mm (io_base (fst s)) txs rd wr sent" "rtl_up (fst s)"
  shows "\<exists>d1. same_view mm rd wr sent d1 d \<and> rtl8139_poll b mm call s d =
    (if fst (in16 b (io_base (fst s) + ucast RTL_ISR) d) AND ISR_ROK \<noteq> 0 then rx_loop b mm call s d1 else Some (s, d1))"
proof -
  obtain v d0 where r: "in16 b (io_base (fst s) + ucast RTL_ISR) d = (v, d0)" by fastforce
  define d1 where "d1 = (if v = 0 then d0 else out16 b (io_base (fst s) + ucast RTL_ISR) v d0)"
  have "same_view mm rd wr sent d1 d0" using rtl_lawsD(3) [OF assms(1)] by (simp add: d1_def same_view_def)
  with rtl_lawsD(2) [OF assms(1) r] have "same_view mm rd wr sent d1 d" by (simp add: same_view_def)
  moreover have "rtl8139_poll b mm call s d = (if v AND ISR_ROK \<noteq> 0 then rx_loop b mm call s d1 else Some (s, d1))"
    using assms(2) r by (simp add: rtl8139_poll_def rtl_rw_def rtl_ww_def d1_def)
  ultimately show ?thesis using r by auto
qed

section \<open>Properties\<close>

fun send_all :: "'d bus \<Rightarrow> 'd dma \<Rightarrow> u8 list list \<Rightarrow> 'c rtl \<Rightarrow> ('d, 'c rtl) io" where
  "send_all b mm fs = io_fold (\<lambda>f s. andthen (rtl8139_send b mm f (of_nat (length f)) s) (\<lambda>(_, s). ret s)) fs"

text \<open>
  On a card that sends a buffer when its length is stored, frames of at most 1500 bytes leave on
  the wire in the order and with the contents they were passed to \<^verbatim>\<open>rtl8139_send\<close>, going round the four
  descriptors.
\<close>

theorem rtl8139_sends_in_order:
  assumes "rtl_laws b mm (io_base s) (tx_bufs s) rd wr sent" "rtl_up s" "tx_cur s < TX_BUFS" "\<forall>f \<in> set fs. length f \<le> 1500"
  shows "\<exists>d'. send_all b mm fs s d = Some (s\<lparr>tx_cur := (tx_cur s + length fs) mod TX_BUFS\<rparr>, d') \<and> sent d' = sent d @ fs"
  using assms
proof (induction fs arbitrary: s d)
  case (Cons f fs)
  let ?s = "s\<lparr>tx_cur := (tx_cur s + 1) mod TX_BUFS\<rparr>"
  have n: "unat (of_nat (length f) :: u32) = length f" "(of_nat (length f) :: u32) \<le> 1500"
    using Cons.prems(4) by (simp_all add: unat_of_nat word_le_nat_alt)
  from send_transmits [OF Cons.prems(1-3) n(2), of f d] n obtain d1 where
    d1: "rtl8139_send b mm f (of_nat (length f)) s d = Some ((0, ?s), d1)" "sent d1 = sent d @ [f]" by auto
  have "rtl_laws b mm (io_base ?s) (tx_bufs ?s) rd wr sent" "rtl_up ?s" "tx_cur ?s < TX_BUFS" "\<forall>f \<in> set fs. length f \<le> 1500"
    using Cons.prems by (simp_all add: TX_BUFS_def)
  from Cons.IH [OF this, of d1] obtain d' where
    "send_all b mm fs ?s d1 = Some (?s\<lparr>tx_cur := ((tx_cur s + 1) mod TX_BUFS + length fs) mod TX_BUFS\<rparr>, d')" "sent d' = sent d1 @ fs"
    by auto
  with d1 show ?case by (simp add: mod_add_left_eq)
qed simp

text \<open>
  A frame whose header gives a length over 1514, and with its checksum a frame of the full size of
  1514 bytes is 1518 long, stops reception for ever: however often the card is polled, nothing is
  delivered and the read pointer stays where it is.
\<close>

theorem rtl8139_poll_stalls:
  assumes "rtl_laws b mm (io_base (fst s)) txs rd wr sent" "rtl_up (fst s)" "rx_plen mm (fst s) d > 1514"
  shows "\<exists>d'. io_fold (\<lambda>_. rtl8139_poll b mm call) [0 ..< n] s d = Some (s, d') \<and> rd d' = rd d \<and> wr d' = wr d \<and> sent d' = sent d"
proof -
  have poll: "\<exists>d'. rtl8139_poll b mm call s d = Some (s, d') \<and> same_view mm rd wr sent d' d" if "rx_plen mm (fst s) d > 1514" for d
  proof -
    from poll_rx [OF assms(1,2)] obtain d1 where d1: "same_view mm rd wr sent d1 d" "rtl8139_poll b mm call s d =
      (if fst (in16 b (io_base (fst s) + ucast RTL_ISR) d) AND ISR_ROK \<noteq> 0 then rx_loop b mm call s d1 else Some (s, d1))" by blast
    have "rx_plen mm (fst s) d1 > 1514" using that by (simp add: rx_plen_cong [OF d1(1)])
    with rx_loop_bad [OF assms(1)] d1 show ?thesis by (metis same_view_trans)
  qed
  have "\<exists>d'. io_fold (\<lambda>_. rtl8139_poll b mm call) xs s d = Some (s, d') \<and> same_view mm rd wr sent d' d"
    if "rx_plen mm (fst s) d > 1514" for xs :: "nat list" and d
    using that
  proof (induction xs arbitrary: d)
    case (Cons x xs)
    from poll [OF Cons.prems] obtain d1 where d1: "rtl8139_poll b mm call s d = Some (s, d1)" "same_view mm rd wr sent d1 d" by blast
    have "rx_plen mm (fst s) d1 > 1514" using Cons.prems by (simp add: rx_plen_cong [OF d1(2)])
    from Cons.IH [OF this] d1 show ?case by (auto intro: same_view_trans)
  qed (simp add: same_view_def)
  from this [OF assms(3), of "[0 ..< n]"] show ?thesis by (auto simp: same_view_def)
qed


text \<open>A card at port 0xC000 with its transmit buffers at 0x20000.\<close>

record card =
  c_mem :: "nat \<Rightarrow> u8"
  c_rd :: u16
  c_wr :: u16
  c_sent :: "u8 list list"

definition sample_txs :: "nat list" where
  "sample_txs = [0x20000, 0x21000, 0x22000, 0x23000]"

definition card_send :: "nat \<Rightarrow> u32 \<Rightarrow> card \<Rightarrow> card" where
  "card_send i len d = d\<lparr>c_sent := c_sent d @ [map (\<lambda>k. c_mem d (sample_txs ! i + k)) [0 ..< unat len]]\<rparr>"

definition card_bus :: "card bus" where
  "card_bus = \<lparr>in8 = (\<lambda>p d. (if p = 0xC037 \<and> c_rd d = c_wr d then 1 else 0, d)), out8 = (\<lambda>p v d. d),
     in16 = (\<lambda>p d. (1, d)), out16 = (\<lambda>p v d. if p = 0xC038 then d\<lparr>c_rd := v + 16\<rparr> else d),
     in32 = (\<lambda>p d. (0, d)),
     out32 = (\<lambda>p v d. if p = 0xC010 then card_send 0 v d else if p = 0xC014 then card_send 1 v d
       else if p = 0xC018 then card_send 2 v d else if p = 0xC01C then card_send 3 v d else d)\<rparr>"

definition card_dma :: "card dma" where
  "card_dma = \<lparr>peek = (\<lambda>a d. c_mem d a), poke = (\<lambda>a v d. d\<lparr>c_mem := (c_mem d)(a := v)\<rparr>)\<rparr>"

lemma card_laws: "rtl_laws card_bus card_dma 0xC000 sample_txs c_rd c_wr c_sent"
proof -
  have "i = 0 \<or> i = 1 \<or> i = 2 \<or> i = 3" if "i < TX_BUFS" for i using that by (auto simp: TX_BUFS_def)
  then show ?thesis
    by (fastforce simp: rtl_laws_def same_view_def card_bus_def card_dma_def card_send_def RTL_CMD_def RTL_ISR_def
        RTL_CAPR_def RTL_TXSTATUS_def)
qed

definition sample_rtl :: "unit rtl" where
  "sample_rtl = \<lparr>io_base = 0xC000, rx_buf = 0x10000, tx_bufs = sample_txs, tx_cur = 3, rx_ptr = 0, rtl_up = True,
     rx_cb = Some (), rtl_mac = [2, 0, 0, 0, 0, 1]\<rparr>"

theorem rtl8139_sends_in_order_witness:
  "\<exists>d. send_all card_bus card_dma [[1, 2], [3]] sample_rtl \<lparr>c_mem = (\<lambda>_. 0), c_rd = 0, c_wr = 0, c_sent = []\<rparr> =
     Some (sample_rtl\<lparr>tx_cur := 1\<rparr>, d) \<and> c_sent d = [[1, 2], [3]]"
proof -
  have laws: "rtl_laws card_bus card_dma (io_base sample_rtl) (tx_bufs sample_rtl) c_rd c_wr c_sent"
    using card_laws by (simp add: sample_rtl_def)
  have "rtl_up sample_rtl" "tx_cur sample_rtl = 3" by (simp_all add: sample_rtl_def)
  with rtl8139_sends_in_order [OF laws, of "[[1, 2], [3]]" "\<lparr>c_mem = (\<lambda>_. 0), c_rd = 0, c_wr = 0, c_sent = []\<rparr>"]
  show ?thesis by (auto simp: TX_BUFS_def)
qed

text \<open>The header of a frame of 1518 bytes at the start of the ring.\<close>

definition big_frame :: "nat \<Rightarrow> u8" where
  "big_frame = (\<lambda>_. 0)(0x10000 := 1, 0x10002 := 0xEE, 0x10003 := 0x05)"

theorem rtl8139_poll_stalls_witness:
  "\<exists>d. io_fold (\<lambda>_. rtl8139_poll card_bus card_dma (\<lambda>_ f (s, n). ret (s, n @ [f]))) [0 ..< 1000] (sample_rtl, [])
     \<lparr>c_mem = big_frame, c_rd = 0, c_wr = 0x600, c_sent = []\<rparr> = Some ((sample_rtl, []), d) \<and> c_rd d = 0 \<and> c_wr d = 0x600"
proof -
  have laws: "rtl_laws card_bus card_dma (io_base (fst (sample_rtl, [] :: u8 list list))) sample_txs c_rd c_wr c_sent"
    using card_laws by (simp add: sample_rtl_def)
  have "rx_plen card_dma (fst (sample_rtl, [] :: u8 list list)) \<lparr>c_mem = big_frame, c_rd = 0, c_wr = 0x600, c_sent = []\<rparr> > 1514"
    by (simp add: rx_plen_def rx_header_def sample_rtl_def card_dma_def big_frame_def)
  from rtl8139_poll_stalls [OF laws _ this, of "\<lambda>_ f (s, n). ret (s, n @ [f])" 1000] show ?thesis
    by (auto simp: sample_rtl_def)
qed


end
