(* ===== verification/Usb.thy ===== *)
theory Usb
  imports Pci Pmm Rtl8139
begin

text \<open>
  The USB controller start-up \<^verbatim>\<open>drivers/usb/xhci.c\<close> and the Bluetooth probe \<^verbatim>\<open>drivers/usb/bluetooth.c\<close>.  The controller's
  registers are in memory space: reading or writing one is an action on the device, given by
  \<open>'d mmio\<close>.  Every polling loop is bounded.
\<close>

section \<open>State\<close>

definition XHCI_CLASS :: u8 where "XHCI_CLASS = 0x0C"
definition XHCI_SUBCLASS :: u8 where "XHCI_SUBCLASS = 0x03"
definition XHCI_PROGIF :: u8 where "XHCI_PROGIF = 0x30"
definition XHCI_CAPLENGTH :: nat where "XHCI_CAPLENGTH = 0x00"
definition XHCI_HCSPARAMS1 :: nat where "XHCI_HCSPARAMS1 = 0x04"
definition XHCI_USBCMD :: nat where "XHCI_USBCMD = 0x00"
definition XHCI_USBSTS :: nat where "XHCI_USBSTS = 0x04"
definition XHCI_DNCTRL :: nat where "XHCI_DNCTRL = 0x14"
definition XHCI_DCBAAP :: nat where "XHCI_DCBAAP = 0x30"
definition XHCI_CONFIG :: nat where "XHCI_CONFIG = 0x38"
definition XHCI_PORTSC_BASE :: nat where "XHCI_PORTSC_BASE = 0x400"

record 'd mmio =
  rd32 :: "nat \<Rightarrow> 'd \<Rightarrow> u32 \<times> 'd"
  wr32 :: "nat \<Rightarrow> u32 \<Rightarrow> 'd \<Rightarrow> 'd"

record xhci =
  x_found :: bool
  x_mmio :: nat
  cap_len :: u8
  n_ports :: u32

definition cap_reg :: "xhci \<Rightarrow> nat \<Rightarrow> nat" where
  "cap_reg x off = x_mmio x + off"

definition op_reg :: "xhci \<Rightarrow> nat \<Rightarrow> nat" where
  "op_reg x off = x_mmio x + unat (cap_len x) + off"

definition load_reg :: "'d mmio \<Rightarrow> nat \<Rightarrow> ('d, u32) io" where
  "load_reg io a d = Some (rd32 io a d)"

definition store_reg :: "'d mmio \<Rightarrow> nat \<Rightarrow> u32 \<Rightarrow> ('d, unit) io" where
  "store_reg io a v d = Some ((), wr32 io a v d)"

text \<open>\<^verbatim>\<open>for (int i = 0; i < 100000; i++) if (P(*reg)) break;\<close>\<close>

fun poll_reg :: "nat \<Rightarrow> 'd mmio \<Rightarrow> nat \<Rightarrow> (u32 \<Rightarrow> bool) \<Rightarrow> ('d, unit) io" where
  "poll_reg 0 io a P = ret ()"
| "poll_reg (Suc n) io a P = andthen (load_reg io a) (\<lambda>v. if P v then ret () else poll_reg n io a P)"

definition update_reg :: "'d mmio \<Rightarrow> nat \<Rightarrow> (u32 \<Rightarrow> u32) \<Rightarrow> ('d, unit) io" where
  "update_reg io a f = andthen (load_reg io a) (\<lambda>v. store_reg io a (f v))"

section \<open>Start-up\<close>

definition xhci_reset :: "'d mmio \<Rightarrow> xhci \<Rightarrow> ('d, unit) io" where
  "xhci_reset io x = io_seq
     [update_reg io (op_reg x XHCI_USBCMD) (\<lambda>v. v AND NOT 1),
      poll_reg 100000 io (op_reg x XHCI_USBSTS) (\<lambda>v. v AND 1 \<noteq> 0),
      update_reg io (op_reg x XHCI_USBCMD) (\<lambda>v. v OR push_bit 1 1),
      poll_reg 100000 io (op_reg x XHCI_USBCMD) (\<lambda>v. v AND push_bit 1 1 = 0),
      poll_reg 100000 io (op_reg x XHCI_USBSTS) (\<lambda>v. v AND push_bit 11 1 = 0)]"

text \<open>The device context array; \<^verbatim>\<open>memset\<close> clears it in memory the controller shares.\<close>

definition xhci_contexts :: "'w::len itself \<Rightarrow> 'd mmio \<Rightarrow> 'd dma \<Rightarrow> xhci \<Rightarrow> pmm \<Rightarrow> ('d, pmm) io" where
  "xhci_contexts w io mm x f =
     (let (p, f) = (pmm_alloc f :: 'w word \<times> pmm)
      in if p = 0 then ret f
         else andthen (io_seq [store_bytes mm (unat p) (replicate 4096 0),
                store_reg io (op_reg x XHCI_DCBAAP) (ucast (p AND 0xFFFFFFFF)), store_reg io (op_reg x (XHCI_DCBAAP + 4)) 0])
                (\<lambda>_. ret f))"

text \<open>The ports that report a connected device; the code only prints them.\<close>

definition xhci_ports :: "'d mmio \<Rightarrow> xhci \<Rightarrow> ('d, u32 list) io" where
  "xhci_ports io x = io_fold (\<lambda>p ports.
     andthen (load_reg io (op_reg x (XHCI_PORTSC_BASE + p * 0x10))) (\<lambda>portsc.
       ret (if portsc AND 1 \<noteq> 0 then ports @ [of_nat (p + 1)] else ports)))
     [0 ..< min (unat (n_ports x)) 8] []"

definition xhci_start :: "'w::len itself \<Rightarrow> 'd bus \<Rightarrow> 'd mmio \<Rightarrow> 'd dma \<Rightarrow> pci_dev \<Rightarrow> u32 \<Rightarrow> xhci \<Rightarrow> pmm \<Rightarrow> ('d, pmm) io" where
  "xhci_start w b io mm dev n_slots x f =
     andthen (pci_read b (d_bus dev) (d_dev dev) (d_fn dev) 0x04) (\<lambda>pci_cmd.
     andthen (io_seq [pci_write b (d_bus dev) (d_dev dev) (d_fn dev) 0x04 (pci_cmd OR 0x06), xhci_reset io x,
       store_reg io (op_reg x XHCI_CONFIG) (n_slots AND 0xFF), store_reg io (op_reg x XHCI_DNCTRL) 0]) (\<lambda>_.
     andthen (xhci_contexts w io mm x f) (\<lambda>f.
     andthen (io_seq [store_reg io (op_reg x XHCI_USBCMD) 1, poll_reg 100000 io (op_reg x XHCI_USBSTS) (\<lambda>v. v AND 1 = 0)]) (\<lambda>_.
     andthen (xhci_ports io x) (\<lambda>_. ret f)))))"

definition xhci_init ::
  "'w::len itself \<Rightarrow> 'd bus \<Rightarrow> 'd mmio \<Rightarrow> 'd dma \<Rightarrow> pci \<Rightarrow> xhci \<times> pmm \<Rightarrow> ('d, bool \<times> xhci \<times> pmm) io" where
  "xhci_init w b io mm p = (\<lambda>(x, f).
     case pci_find_class XHCI_CLASS XHCI_SUBCLASS XHCI_PROGIF p of
       None \<Rightarrow> ret (False, x, f)
     | Some i \<Rightarrow>
         let dev = devices p ! i;
             x = x\<lparr>x_mmio := unat (bar dev ! 0 AND NOT 0xF)\<rparr>
         in if x_mmio x = 0 then ret (False, x, f)
            else andthen (load_reg io (cap_reg x XHCI_CAPLENGTH)) (\<lambda>c.
                 let x = x\<lparr>cap_len := ucast (c AND 0xFF)\<rparr>
                 in andthen (load_reg io (cap_reg x XHCI_HCSPARAMS1)) (\<lambda>hcs1.
                    let x = x\<lparr>n_ports := drop_bit 24 hcs1 AND 0xFF\<rparr>
                    in andthen (xhci_start w b io mm dev (hcs1 AND 0xFF) x f) (\<lambda>f.
                       ret (True, x\<lparr>x_found := True\<rparr>, f)))))"

definition xhci_present :: "xhci \<Rightarrow> bool" where
  "xhci_present x = x_found x"

section \<open>Bluetooth\<close>

definition BT_CLASS :: u8 where "BT_CLASS = 0x0E"
definition BT_SUBCLASS :: u8 where "BT_SUBCLASS = 0x00"

definition bluetooth_detect :: "pci \<Rightarrow> bool \<Rightarrow> bool \<times> bool" where
  "bluetooth_detect p bt_found =
     (case pci_find_class BT_CLASS BT_SUBCLASS 0xFF p of None \<Rightarrow> (False, bt_found) | Some _ \<Rightarrow> (True, True))"

definition bluetooth_present :: "bool \<Rightarrow> bool" where
  "bluetooth_present bt_found = bt_found"

section \<open>Every path returns\<close>

locale still_machine = still_bus b Q for b :: "'d bus" and Q +
  fixes mm :: "'d dma" and io :: "'d mmio"
  assumes quiet_poke: "Q d \<Longrightarrow> Q (poke mm a x d)"
    and quiet_rd32: "Q d \<Longrightarrow> Q (snd (rd32 io a d))" and quiet_wr32: "Q d \<Longrightarrow> Q (wr32 io a y d)"
begin

lemma safe_registers [intro!, simp]:
  "safe Q (load_reg io a)" "safe Q (store_reg io a v)" "safe Q (store_bytes mm a bs)"
proof -
  show "safe Q (load_reg io a)" using quiet_rd32 by (auto simp: safe_def load_reg_def) (metis snd_conv surj_pair)
  show "safe Q (store_reg io a v)" using quiet_wr32 by (simp add: safe_def store_reg_def)
  have "Q (fold (\<lambda>i. poke mm (a + i) (bs ! i)) is d)" if "Q d" for "is" d
    using that by (induction "is" arbitrary: d) (simp_all add: quiet_poke)
  then show "safe Q (store_bytes mm a bs)" by (simp add: safe_def store_bytes_def)
qed

lemma safe_poll [intro!, simp]: "safe Q (poll_reg n io a P)"
  by (induction n) auto

lemma safe_update [intro!, simp]: "safe Q (update_reg io a f)"
  by (auto simp: update_reg_def)

lemma safe_config [intro!, simp]: "safe Q (pci_read b bus dev fn off)" "safe Q (pci_write b bus dev fn off v)"
  by (auto simp: pci_read_def pci_write_def)

lemma safe_xhci [intro!, simp]:
  "safe Q (xhci_reset io x)" "safe Q (xhci_contexts w io mm x f)" "safe Q (xhci_ports io x)"
  by (auto simp: xhci_reset_def xhci_contexts_def xhci_ports_def Let_def split: prod.split)

lemma safe_xhci_init [intro!, simp]: "safe Q (xhci_init w b io mm p s)"
proof -
  have "safe Q (xhci_start w b io mm dev n x f)" for dev n x f by (auto simp: xhci_start_def)
  then show ?thesis by (auto simp: xhci_init_def Let_def split: option.split prod.split)
qed

end

interpretation any_machine: still_machine b "\<lambda>_. True" mm io for b mm io
  by unfold_locales simp_all

text \<open>Start-up of the USB controller returns on every machine, also when the controller never answers: none
  of its loops depends on the hardware to end.\<close>

theorem xhci_init_returns: "\<exists>r. xhci_init w b io mm p (x, f) d = Some r"
  using any_machine.safe_xhci_init [of w b io mm p "(x, f)"] by (simp add: ends_Some)

end
