(* ===== verification/Console.thy ===== *)
theory Console
  imports Ports
begin

text \<open>
  The text console \<^verbatim>\<open>drivers/display/vga_text.c\<close> and the serial port \<^verbatim>\<open>drivers/serial/serial.c\<close>.  The screen memory is
  an array of cells, indexed from \<^verbatim>\<open>VGA_BASE\<close>; an index outside the 2000 cells of the screen is a
  store to other memory and is kept as such.  The hardware cursor is set through the ports.
\<close>

section \<open>The text screen\<close>

definition CRTC_ADDR :: u16 where "CRTC_ADDR = 0x3D4"
definition CRTC_DATA :: u16 where "CRTC_DATA = 0x3D5"
definition VGA_COLS :: int where "VGA_COLS = 80"
definition VGA_ROWS :: int where "VGA_ROWS = 25"

record vga =
  vga_base :: "int \<Rightarrow> u16"
  vga_row :: int
  vga_col :: int
  vga_attr :: u8

definition make_attr :: "u32 \<Rightarrow> u32 \<Rightarrow> u8" where
  "make_attr fg bg = ucast (push_bit 4 bg OR (fg AND 0x0F))"

definition cell :: "u8 \<Rightarrow> u8 \<Rightarrow> u16" where
  "cell c attr = ucast c OR push_bit 8 (ucast attr)"

definition update_cursor :: "'d bus \<Rightarrow> vga \<Rightarrow> ('d, unit) io" where
  "update_cursor b v =
     (let pos = word_of_int (vga_row v * VGA_COLS + vga_col v) :: u16
      in io_seq [outb b CRTC_ADDR 0x0E, outb b CRTC_DATA (ucast (drop_bit 8 pos)),
                 outb b CRTC_ADDR 0x0F, outb b CRTC_DATA (ucast (pos AND 0xFF))])"

definition scroll :: "vga \<Rightarrow> vga" where
  "scroll v =
     (let blank = cell 0x20 (vga_attr v);
          m = fold (\<lambda>r. fold (\<lambda>c m. m((r - 1) * VGA_COLS + c := m (r * VGA_COLS + c))) [0 .. VGA_COLS - 1])
                [1 .. VGA_ROWS - 1] (vga_base v);
          m = fold (\<lambda>c m. m((VGA_ROWS - 1) * VGA_COLS + c := blank)) [0 .. VGA_COLS - 1] m
      in v\<lparr>vga_base := m\<rparr>)"

definition vga_clear :: "'d bus \<Rightarrow> vga \<Rightarrow> ('d, vga) io" where
  "vga_clear b v =
     (let blank = cell 0x20 (vga_attr v);
          v = v\<lparr>vga_base := fold (\<lambda>i m. m(i := blank)) [0 .. VGA_COLS * VGA_ROWS - 1] (vga_base v), vga_row := 0, vga_col := 0\<rparr>
      in andthen (update_cursor b v) (\<lambda>_. ret v))"

definition vga_init :: "'d bus \<Rightarrow> vga \<Rightarrow> ('d, vga) io" where
  "vga_init b v =
     andthen (vga_clear b (v\<lparr>vga_attr := make_attr 7 0\<rparr>)) (\<lambda>v.
     andthen (io_seq [outb b CRTC_ADDR 0x0A, outb b CRTC_DATA 0x0E, outb b CRTC_ADDR 0x0B, outb b CRTC_DATA 0x0F, update_cursor b v])
       (\<lambda>_. ret v))"

definition vga_set_color :: "u32 \<Rightarrow> u32 \<Rightarrow> vga \<Rightarrow> vga" where
  "vga_set_color fg bg v = v\<lparr>vga_attr := make_attr fg bg\<rparr>"

definition vga_get_pos :: "vga \<Rightarrow> int \<times> int" where
  "vga_get_pos v = (vga_row v, vga_col v)"

definition vga_set_pos :: "'d bus \<Rightarrow> int \<Rightarrow> int \<Rightarrow> vga \<Rightarrow> ('d, vga) io" where
  "vga_set_pos b row col v =
     (let v = v\<lparr>vga_row := row, vga_col := col\<rparr> in andthen (update_cursor b v) (\<lambda>_. ret v))"

definition vga_write_at :: "int \<Rightarrow> int \<Rightarrow> u8 \<Rightarrow> u8 \<Rightarrow> vga \<Rightarrow> vga" where
  "vga_write_at row col c attr v = v\<lparr>vga_base := (vga_base v)(row * VGA_COLS + col := cell c attr)\<rparr>"

fun vga_puts_at :: "int \<Rightarrow> int \<Rightarrow> u8 list \<Rightarrow> u8 \<Rightarrow> vga \<Rightarrow> vga" where
  "vga_puts_at row col [] attr v = v"
| "vga_puts_at row col (c # s) attr v = vga_puts_at row (col + 1) s attr (vga_write_at row col c attr v)"

definition put_cell :: "u8 \<Rightarrow> vga \<Rightarrow> vga" where
  "put_cell c v = v\<lparr>vga_base := (vga_base v)(vga_row v * VGA_COLS + vga_col v := cell c (vga_attr v))\<rparr>"

definition wrap_line :: "vga \<Rightarrow> vga" where
  "wrap_line v = (if vga_col v \<ge> VGA_COLS then v\<lparr>vga_col := 0, vga_row := vga_row v + 1\<rparr> else v)"

text \<open>\<^verbatim>\<open>vga_putc\<close> up to the update of the hardware cursor.\<close>

definition putc_cells :: "u8 \<Rightarrow> vga \<Rightarrow> vga" where
  "putc_cells c v =
     (let v =
        (if c = 0x0A then v\<lparr>vga_col := 0, vga_row := vga_row v + 1\<rparr>
         else if c = 0x0D then v\<lparr>vga_col := 0\<rparr>
         else if c = 0x08 then
           (if vga_col v > 0 then put_cell 0x20 (v\<lparr>vga_col := vga_col v - 1\<rparr>) else v)
         else if c = 0x09 then wrap_line (v\<lparr>vga_col := (vga_col v + 8) AND NOT 7\<rparr>)
         else wrap_line ((put_cell c v)\<lparr>vga_col := vga_col v + 1\<rparr>))
      in if vga_row v \<ge> VGA_ROWS then (scroll v)\<lparr>vga_row := VGA_ROWS - 1\<rparr> else v)"

definition vga_putc :: "'d bus \<Rightarrow> u8 \<Rightarrow> vga \<Rightarrow> ('d, vga) io" where
  "vga_putc b c v = (let v = putc_cells c v in andthen (update_cursor b v) (\<lambda>_. ret v))"

text \<open>A string is the list of its characters before the terminating zero.\<close>

fun vga_puts :: "'d bus \<Rightarrow> u8 list \<Rightarrow> vga \<Rightarrow> ('d, vga) io" where
  "vga_puts b [] v = ret v"
| "vga_puts b (c # s) v = andthen (vga_putc b c v) (vga_puts b s)"

section \<open>Reference terminal\<close>

text \<open>
  A terminal with one linear cursor over the 2000 cells.  Characters advance it by one, a tab to
  the next multiple of 8, a new line to the next multiple of 80, a carriage return back to the
  last one; passing the end shifts the screen up by 80 cells.
\<close>

record tty =
  screen :: "int \<Rightarrow> u16"
  cursor :: int

definition tty_shift :: "u16 \<Rightarrow> tty \<Rightarrow> tty" where
  "tty_shift blank t = (if cursor t < 2000 then t
     else t\<lparr>screen := (\<lambda>i. if 0 \<le> i \<and> i < 1920 then screen t (i + 80) else if 1920 \<le> i \<and> i < 2000 then blank else screen t i),
            cursor := cursor t - 80\<rparr>)"

definition tty_move :: "u8 \<Rightarrow> u8 \<Rightarrow> tty \<Rightarrow> tty" where
  "tty_move attr c t =
     (let p = cursor t in
        (if c = 0x0A then t\<lparr>cursor := p - p mod 80 + 80\<rparr>
         else if c = 0x0D then t\<lparr>cursor := p - p mod 80\<rparr>
         else if c = 0x08 then
           (if p mod 80 > 0 then t\<lparr>screen := (screen t)(p - 1 := cell 0x20 attr), cursor := p - 1\<rparr> else t)
         else if c = 0x09 then t\<lparr>cursor := p - p mod 8 + 8\<rparr>
         else t\<lparr>screen := (screen t)(p := cell c attr), cursor := p + 1\<rparr>))"

definition tty_putc :: "u8 \<Rightarrow> u8 \<Rightarrow> tty \<Rightarrow> tty" where
  "tty_putc attr c t = tty_shift (cell 0x20 attr) (tty_move attr c t)"

definition vga_inv :: "vga \<Rightarrow> bool" where
  "vga_inv v \<longleftrightarrow> 0 \<le> vga_row v \<and> vga_row v < 25 \<and> 0 \<le> vga_col v \<and> vga_col v < 80"

definition tty_of :: "vga \<Rightarrow> tty" where
  "tty_of v = \<lparr>screen = vga_base v, cursor = 80 * vga_row v + vga_col v\<rparr>"

section \<open>The screen refines the terminal\<close>

lemma and_not_7: "(x :: int) AND NOT 7 = x - x mod 8"
proof -
  have "(7 :: int) = mask 3" by (simp add: mask_eq_exp_minus_1)
  moreover have "x AND NOT (mask 3) = push_bit 3 (drop_bit 3 x)"
    by (intro bit_eqI) (auto simp: bit_simps)
  ultimately show ?thesis by (simp add: push_bit_eq_mult drop_bit_eq_div minus_mod_eq_div_mult)
qed

lemma and_minus_8: "(x :: int) AND - 8 = x - x mod 8"
  using and_not_7 [of x] by simp

lemma fold_copy:
  fixes k d :: int and m :: "int \<Rightarrow> 'a"
  assumes "\<And>c c'. c \<in> set xs \<Longrightarrow> c' \<in> set xs \<Longrightarrow> d + c \<noteq> c'"
  shows "fold (\<lambda>c m. m(k + c := m (k + d + c))) xs m = (\<lambda>i. if i - k \<in> set xs then m (i + d) else m i)"
  using assms
proof (induction xs arbitrary: m)
  case (Cons c xs)
  let ?m = "m(k + c := m (k + d + c))"
  have "fold (\<lambda>c m. m(k + c := m (k + d + c))) (c # xs) m = (\<lambda>i. if i - k \<in> set xs then ?m (i + d) else ?m i)"
  proof -
    have "fold (\<lambda>c m. m(k + c := m (k + d + c))) xs ?m = (\<lambda>i. if i - k \<in> set xs then ?m (i + d) else ?m i)"
      by (rule Cons.IH) (use Cons.prems in auto)
    then show ?thesis by (simp only: fold_simps)
  qed
  moreover have "(if i - k \<in> set xs then ?m (i + d) else ?m i) = (if i - k \<in> set (c # xs) then m (i + d) else m i)" for i
    using Cons.prems [of "i - k" c] by (cases "i = k + c") (auto simp: algebra_simps)
  ultimately show ?case by (simp only:)
qed simp

lemma fold_store:
  fixes k :: int and m :: "int \<Rightarrow> 'a"
  shows "fold (\<lambda>c m. m(k + c := x)) xs m = (\<lambda>i. if i - k \<in> set xs then x else m i)"
  by (induction xs arbitrary: m) (auto simp: fun_eq_iff)

lemma scroll_rows:
  fixes m :: "int \<Rightarrow> 'a"
  shows "fold (\<lambda>r. fold (\<lambda>c m. m((r - 1) * 80 + c := m (r * 80 + c))) [0 .. 79]) [1 .. int n] m =
    (\<lambda>i. if 0 \<le> i \<and> i < 80 * int n then m (i + 80) else m i)"
proof (induction n)
  case (Suc n)
  have row: "fold (\<lambda>c m. m((r - 1) * 80 + c := m (r * 80 + c))) [0 .. 79] m =
      (\<lambda>i. if i - (r - 1) * 80 \<in> {0 .. 79} then m (i + 80) else m i)" for r and m :: "int \<Rightarrow> 'a"
    using fold_copy [of "[0 .. 79]" 80 "(r - 1) * 80" m] by (simp add: algebra_simps)
  have split: "[1 .. int (Suc n)] = [1 .. int n] @ [int (Suc n)]" by (simp add: upto_rec2)
  show ?case unfolding split fold_append o_apply Suc.IH unfolding fold_simps row by (auto simp: fun_eq_iff)
qed (auto simp: fun_eq_iff)

lemma scroll_base:
  "vga_base (scroll v) = (\<lambda>i. if 0 \<le> i \<and> i < 1920 then vga_base v (i + 80)
     else if 1920 \<le> i \<and> i < 2000 then cell 0x20 (vga_attr v) else vga_base v i)"
  using scroll_rows [of 24 "vga_base v"] fold_store [of 1920 "cell 0x20 (vga_attr v)" "[0 .. 79]"]
  by (simp add: scroll_def VGA_COLS_def VGA_ROWS_def Let_def) (auto simp: fun_eq_iff)

lemma returns_update_cursor: "returns (update_cursor b v) ()"
  unfolding update_cursor_def Let_def by (rule returns_io_seq) auto

text \<open>The cursor arithmetic: rows and columns against one linear position.\<close>

lemma pos_mod:
  assumes "0 \<le> c" "c < 80"
  shows "(80 * r + c) mod 80 = (c :: int)" "(80 * r + c) mod 8 = c mod 8"
proof -
  show "(80 * r + c) mod 80 = c" using assms by simp
  have "80 * r + c = c + 8 * (10 * r)" by simp
  then show "(80 * r + c) mod 8 = c mod 8" by (metis mod_mult_self2)
qed

lemma returns_vga_putc: "returns (vga_putc b c v) (putc_cells c v)"
  unfolding vga_putc_def Let_def by (rule returns_andthen [OF returns_update_cursor]) auto

lemma scroll_fields [simp]: "vga_row (scroll v) = vga_row v" "vga_col (scroll v) = vga_col v" "vga_attr (scroll v) = vga_attr v"
  by (simp_all add: scroll_def Let_def)

text \<open>The common end of all cases: a position that may have passed the last row.\<close>

lemma finish_line:
  assumes "0 \<le> vga_row v" "vga_row v \<le> 25" "0 \<le> vga_col v" "vga_col v < 80"
  defines "u \<equiv> if vga_row v \<ge> VGA_ROWS then (scroll v)\<lparr>vga_row := VGA_ROWS - 1\<rparr> else v"
  shows "vga_inv u \<and> vga_attr u = vga_attr v \<and> tty_of u = tty_shift (cell 0x20 (vga_attr v)) (tty_of v)"
proof (cases "vga_row v \<ge> 25")
  case True
  with assms(2) have row: "vga_row v = 25" by simp
  with assms(3,4) show ?thesis
    by (auto simp: u_def VGA_ROWS_def vga_inv_def tty_of_def tty_shift_def scroll_base fun_eq_iff)
next
  case False
  with assms(1,3,4) show ?thesis
    by (simp add: u_def VGA_ROWS_def vga_inv_def tty_of_def tty_shift_def)
qed

lemma putc_cells_tty:
  assumes "vga_inv v"
  shows "vga_inv (putc_cells c v) \<and> vga_attr (putc_cells c v) = vga_attr v \<and>
    tty_of (putc_cells c v) = tty_putc (vga_attr v) c (tty_of v)"
proof -
  define u where "u =
     (if c = 0x0A then v\<lparr>vga_col := 0, vga_row := vga_row v + 1\<rparr>
      else if c = 0x0D then v\<lparr>vga_col := 0\<rparr>
      else if c = 0x08 then
        (if vga_col v > 0 then put_cell 0x20 (v\<lparr>vga_col := vga_col v - 1\<rparr>) else v)
      else if c = 0x09 then wrap_line (v\<lparr>vga_col := (vga_col v + 8) AND NOT 7\<rparr>)
      else wrap_line ((put_cell c v)\<lparr>vga_col := vga_col v + 1\<rparr>))"
  have run: "putc_cells c v = (if vga_row u \<ge> VGA_ROWS then (scroll u)\<lparr>vga_row := VGA_ROWS - 1\<rparr> else u)"
    by (simp add: putc_cells_def u_def Let_def)
  have bounds: "0 \<le> vga_row v" "vga_row v < 25" "0 \<le> vga_col v" "vga_col v < 80" using assms by (simp_all add: vga_inv_def)
  have mod: "(80 * vga_row v + vga_col v) mod 80 = vga_col v" "(80 * vga_row v + vga_col v) mod 8 = vga_col v mod 8"
    using pos_mod bounds by simp_all
  have tab: "vga_col v - vga_col v mod 8 + 8 \<le> 80" using bounds by presburger
  have "vga_attr u = vga_attr v \<and> 0 \<le> vga_row u \<and> vga_row u \<le> 25 \<and> 0 \<le> vga_col u \<and> vga_col u < 80 \<and>
    tty_of u = tty_move (vga_attr v) c (tty_of v)"
    using bounds mod tab
    by (auto simp: u_def wrap_line_def put_cell_def VGA_COLS_def tty_move_def tty_of_def and_minus_8 Let_def algebra_simps)
  with finish_line [of u] show ?thesis unfolding run tty_putc_def by simp
qed

lemma vga_puts_run:
  assumes "vga_inv v"
  shows "\<exists>v' d'. vga_puts b s v d = Some (v', d') \<and> vga_inv v' \<and> vga_attr v' = vga_attr v \<and>
    tty_of v' = fold (tty_putc (vga_attr v)) s (tty_of v) \<and>
    (\<forall>i. \<not> (0 \<le> i \<and> i < 2000) \<longrightarrow> vga_base v' i = vga_base v i)"
  using assms
proof (induction s arbitrary: v d)
  case Nil
  then show ?case by simp
next
  case (Cons c s)
  obtain d1 where d1: "vga_putc b c v d = Some (putc_cells c v, d1)"
    using returns_vga_putc [of b c v] unfolding returns_def by blast
  note step = putc_cells_tty [OF Cons.prems, of c]
  from step Cons.IH [of "putc_cells c v" d1] obtain v' d' where
    r: "vga_puts b s (putc_cells c v) d1 = Some (v', d')" "vga_inv v'" "vga_attr v' = vga_attr v"
      "tty_of v' = fold (tty_putc (vga_attr v)) s (tty_of (putc_cells c v))"
      "\<forall>i. \<not> (0 \<le> i \<and> i < 2000) \<longrightarrow> vga_base v' i = vga_base (putc_cells c v) i" by auto
  have "vga_base (putc_cells c v) = screen (tty_putc (vga_attr v) c (tty_of v))"
    using step by (metis tty.select_convs(1) tty_of_def)
  moreover have "screen (tty_putc (vga_attr v) c (tty_of v)) i = vga_base v i" if "\<not> (0 \<le> i \<and> i < 2000)" for i
    using that Cons.prems pos_mod(1) [of "vga_col v" "vga_row v"]
    by (auto simp: tty_putc_def tty_move_def tty_shift_def tty_of_def vga_inv_def Let_def)
  ultimately show ?case using r d1 step by simp
qed

text \<open>Printing only sets the cursor of the display controller; what that keeps, printing keeps.\<close>

lemma vga_puts_keeps:
  assumes "\<And>d x. f (out8 b CRTC_ADDR x d) = f d" "\<And>d x. f (out8 b CRTC_DATA x d) = f d" "vga_puts b s v d = Some (v', d')"
  shows "f d' = f d"
  using assms(3)
proof (induction s arbitrary: v d)
  case (Cons c s)
  obtain d1 where d1: "vga_putc b c v d = Some (putc_cells c v, d1)"
    using returns_vga_putc [of b c v] unfolding returns_def by blast
  then have "f d1 = f d" by (auto simp: vga_putc_def update_cursor_def Let_def assms(1,2))
  with Cons d1 show ?case by auto
qed simp

section \<open>The serial port\<close>

definition COM1 :: u16 where "COM1 = 0x3F8"

definition serial_init :: "'d bus \<Rightarrow> ('d, unit) io" where
  "serial_init b = io_seq [outb b (COM1 + 1) 0x00, outb b (COM1 + 3) 0x80, outb b (COM1 + 0) 0x01, outb b (COM1 + 1) 0x00,
     outb b (COM1 + 3) 0x03, outb b (COM1 + 2) 0xC7, outb b (COM1 + 4) 0x0B]"

definition serial_ready :: "'d bus \<Rightarrow> ('d, u8) io" where
  "serial_ready b = andthen (inb b (COM1 + 5)) (\<lambda>s. ret (s AND 0x20))"

partial_function (option) await_serial :: "'d bus \<Rightarrow> ('d, unit) io" where
  "await_serial b d = (case serial_ready b d of None \<Rightarrow> None
     | Some (r, d) \<Rightarrow> if r = 0 then await_serial b d else Some ((), d))"

definition serial_putc :: "'d bus \<Rightarrow> u8 \<Rightarrow> ('d, unit) io" where
  "serial_putc b c =
     andthen (await_serial b) (\<lambda>_.
     andthen (if c = 0x0A then andthen (outb b COM1 0x0D) (\<lambda>_. await_serial b) else ret ()) (\<lambda>_.
     outb b COM1 c))"

definition serial_puts :: "'d bus \<Rightarrow> u8 list \<Rightarrow> ('d, unit) io" where
  "serial_puts b s = io_fold (\<lambda>c _. serial_putc b c) s ()"

text \<open>
  What the driver relies on of the port: it becomes ready after finitely many status reads, the
  status can be read without sending anything, and a byte stored in the data register while
  ready is sent.
\<close>

definition uart_laws :: "'d bus \<Rightarrow> ('d \<Rightarrow> nat) \<Rightarrow> ('d \<Rightarrow> u8 list) \<Rightarrow> bool" where
  "uart_laws b busy sent \<longleftrightarrow>
     (\<forall>d s d'. in8 b (COM1 + 5) d = (s, d') \<longrightarrow> sent d' = sent d \<and> (bit s 5 \<longleftrightarrow> busy d = 0) \<and> busy d' = busy d - 1) \<and>
     (\<forall>d v. busy d = 0 \<longrightarrow> sent (out8 b COM1 v d) = sent d @ [v])"

definition serial_text :: "u8 list \<Rightarrow> u8 list" where
  "serial_text s = concat (map (\<lambda>c. if c = 0x0A then [0x0D, 0x0A] else [c]) s)"

lemma await_serial_ready:
  assumes "uart_laws b busy sent"
  shows "\<exists>d'. await_serial b d = Some ((), d') \<and> busy d' = 0 \<and> sent d' = sent d"
proof (induction "busy d" arbitrary: d rule: less_induct)
  case less
  obtain s d1 where r: "in8 b (COM1 + 5) d = (s, d1)" by fastforce
  with assms have law: "sent d1 = sent d" "bit s 5 \<longleftrightarrow> busy d = 0" "busy d1 = busy d - 1" by (auto simp: uart_laws_def)
  have bit: "s AND 0x20 = 0 \<longleftrightarrow> \<not> bit s 5" using and_power_iff_bit [of 5 s] by simp
  have ready: "serial_ready b d = Some (s AND 0x20, d1)" using r by (simp add: serial_ready_def)
  show ?case
  proof (cases "busy d = 0")
    case True
    with ready bit law show ?thesis by (subst await_serial.simps) simp
  next
    case False
    then have "busy d1 < busy d" using law by simp
    from less.hyps [OF this] ready bit law False show ?thesis by (subst await_serial.simps) simp
  qed
qed

lemma serial_putc_sends:
  assumes "uart_laws b busy sent"
  shows "\<exists>d'. serial_putc b c d = Some ((), d') \<and> sent d' = sent d @ serial_text [c]"
proof -
  from await_serial_ready [OF assms] obtain d1 where d1: "await_serial b d = Some ((), d1)" "busy d1 = 0" "sent d1 = sent d" by blast
  have out: "sent (out8 b COM1 v x) = sent x @ [v]" if "busy x = 0" for v x using that assms by (simp add: uart_laws_def)
  show ?thesis
  proof (cases "c = 0x0A")
    case False
    with d1 out show ?thesis by (simp add: serial_putc_def serial_text_def)
  next
    case True
    from await_serial_ready [OF assms] obtain d2 where
      d2: "await_serial b (out8 b COM1 0x0D d1) = Some ((), d2)" "busy d2 = 0" "sent d2 = sent (out8 b COM1 0x0D d1)" by blast
    from d1 d2 out True show ?thesis by (simp add: serial_putc_def serial_text_def)
  qed
qed

section \<open>Properties\<close>

text \<open>
  C34: the text console is a terminal.  From any state with the cursor on the screen, printing a
  string returns, keeps the cursor on the screen, and has exactly the effect of the reference
  terminal with one linear cursor: characters, new lines, carriage returns, backspaces, tabs,
  line wrapping and scrolling, with no store outside the 2000 cells.
\<close>

theorem vga_puts_refines_tty:
  assumes "vga_inv v"
  shows "\<exists>v' d'. vga_puts b s v d = Some (v', d') \<and> vga_inv v' \<and>
    tty_of v' = fold (tty_putc (vga_attr v)) s (tty_of v) \<and>
    (\<forall>i. \<not> (0 \<le> i \<and> i < 2000) \<longrightarrow> vga_base v' i = vga_base v i)"
  using vga_puts_run [OF assms, of b s d] by auto

text \<open>A cleared screen, and devices that do nothing but record what is sent.\<close>

definition sample_vga :: vga where
  "sample_vga = \<lparr>vga_base = (\<lambda>_. 0x0720), vga_row = 0, vga_col = 78, vga_attr = 7\<rparr>"

definition quiet_bus :: "u8 list bus" where
  "quiet_bus = byte_bus (\<lambda>p d. 0x20) (\<lambda>p v d. if p = COM1 then d @ [v] else d)"

theorem vga_puts_refines_tty_witness:
  "\<exists>v d. vga_puts quiet_bus [0x41, 0x42, 0x43] sample_vga [] = Some (v, d) \<and> vga_inv v \<and> cursor (tty_of v) = 81 \<and>
     screen (tty_of v) 80 = cell 0x43 7"
proof -
  have "vga_inv sample_vga" by (simp add: vga_inv_def sample_vga_def)
  from vga_puts_refines_tty [OF this, of quiet_bus "[0x41, 0x42, 0x43]" "[]"] show ?thesis
    by (auto simp: tty_putc_def tty_move_def tty_shift_def tty_of_def sample_vga_def Let_def)
qed

text \<open>
  On a port that becomes ready in finite time, \<^verbatim>\<open>serial_puts\<close> returns and sends exactly the string,
  in order, with a carriage return before every new line.
\<close>

theorem serial_puts_sends:
  assumes "uart_laws b busy sent"
  shows "\<exists>d'. serial_puts b s d = Some ((), d') \<and> sent d' = sent d @ serial_text s"
  unfolding serial_puts_def
proof (induction s arbitrary: d)
  case Nil
  then show ?case by (simp add: serial_text_def)
next
  case (Cons c s)
  from serial_putc_sends [OF assms] obtain d1 where d1: "serial_putc b c d = Some ((), d1)" "sent d1 = sent d @ serial_text [c]" by blast
  from Cons.IH [of d1] d1 show ?case by (auto simp: serial_text_def)
qed


theorem serial_puts_sends_witness:
  "\<exists>d. serial_puts quiet_bus [0x48, 0x69, 0x0A] [] = Some ((), d) \<and> d = [0x48, 0x69, 0x0D, 0x0A]"
proof -
  have "bit (0x20 :: u8) 5" by simp
  then have "uart_laws quiet_bus (\<lambda>_. 0) (\<lambda>d. d)" by (simp add: uart_laws_def quiet_bus_def byte_bus_def)
  from serial_puts_sends [OF this, of "[0x48, 0x69, 0x0A]" "[]"] show ?thesis by (simp add: serial_text_def)
qed

end
