(* ===== verification/Framebuffer.thy ===== *)
theory Framebuffer
  imports CString
begin

text \<open>
  The frame buffer \<^verbatim>\<open>drivers/display/framebuffer.c\<close> over byte-addressed memory: pixels of 32 or 24 bits, lines,
  rectangles, Bresenham's line and the 8 by 16 font.  Coordinates are C integers; the casts of the
  clipping test and of the address computation are the ones of the code, so their truncation is
  part of the model.  Sums of coordinates are assumed not to overflow a C integer.
\<close>

section \<open>The font\<close>

definition font_8x16 :: "u8 list list" where
  "font_8x16 = [
     [0x00, 0x00, 0x00, 0x00, 0x00, 0x00, 0x00, 0x00, 0x00, 0x00, 0x00, 0x00, 0x00, 0x00, 0x00, 0x00],
     [0x00, 0x00, 0x00, 0x00, 0x00, 0x00, 0x00, 0x00, 0x00, 0x00, 0x00, 0x00, 0x00, 0x00, 0x00, 0x00],
     [0x00, 0x00, 0x00, 0x00, 0x00, 0x00, 0x00, 0x00, 0x00, 0x00, 0x00, 0x00, 0x00, 0x00, 0x00, 0x00],
     [0x00, 0x00, 0x00, 0x00, 0x00, 0x00, 0x00, 0x00, 0x00, 0x00, 0x00, 0x00, 0x00, 0x00, 0x00, 0x00],
     [0x00, 0x00, 0x00, 0x00, 0x00, 0x00, 0x00, 0x00, 0x00, 0x00, 0x00, 0x00, 0x00, 0x00, 0x00, 0x00],
     [0x00, 0x00, 0x00, 0x00, 0x00, 0x00, 0x00, 0x00, 0x00, 0x00, 0x00, 0x00, 0x00, 0x00, 0x00, 0x00],
     [0x00, 0x00, 0x00, 0x00, 0x00, 0x00, 0x00, 0x00, 0x00, 0x00, 0x00, 0x00, 0x00, 0x00, 0x00, 0x00],
     [0x00, 0x00, 0x00, 0x00, 0x00, 0x00, 0x00, 0x00, 0x00, 0x00, 0x00, 0x00, 0x00, 0x00, 0x00, 0x00],
     [0x00, 0x00, 0x00, 0x00, 0x00, 0x00, 0x00, 0x00, 0x00, 0x00, 0x00, 0x00, 0x00, 0x00, 0x00, 0x00],
     [0x00, 0x00, 0x00, 0x00, 0x00, 0x00, 0x00, 0x00, 0x00, 0x00, 0x00, 0x00, 0x00, 0x00, 0x00, 0x00],
     [0x00, 0x00, 0x00, 0x00, 0x00, 0x00, 0x00, 0x00, 0x00, 0x00, 0x00, 0x00, 0x00, 0x00, 0x00, 0x00],
     [0x00, 0x00, 0x00, 0x00, 0x00, 0x00, 0x00, 0x00, 0x00, 0x00, 0x00, 0x00, 0x00, 0x00, 0x00, 0x00],
     [0x00, 0x00, 0x00, 0x00, 0x00, 0x00, 0x00, 0x00, 0x00, 0x00, 0x00, 0x00, 0x00, 0x00, 0x00, 0x00],
     [0x00, 0x00, 0x00, 0x00, 0x00, 0x00, 0x00, 0x00, 0x00, 0x00, 0x00, 0x00, 0x00, 0x00, 0x00, 0x00],
     [0x00, 0x00, 0x00, 0x00, 0x00, 0x00, 0x00, 0x00, 0x00, 0x00, 0x00, 0x00, 0x00, 0x00, 0x00, 0x00],
     [0x00, 0x00, 0x00, 0x00, 0x00, 0x00, 0x00, 0x00, 0x00, 0x00, 0x00, 0x00, 0x00, 0x00, 0x00, 0x00],
     [0x00, 0x00, 0x00, 0x00, 0x00, 0x00, 0x00, 0x00, 0x00, 0x00, 0x00, 0x00, 0x00, 0x00, 0x00, 0x00],
     [0x00, 0x00, 0x00, 0x00, 0x00, 0x00, 0x00, 0x00, 0x00, 0x00, 0x00, 0x00, 0x00, 0x00, 0x00, 0x00],
     [0x00, 0x00, 0x00, 0x00, 0x00, 0x00, 0x00, 0x00, 0x00, 0x00, 0x00, 0x00, 0x00, 0x00, 0x00, 0x00],
     [0x00, 0x00, 0x00, 0x00, 0x00, 0x00, 0x00, 0x00, 0x00, 0x00, 0x00, 0x00, 0x00, 0x00, 0x00, 0x00],
     [0x00, 0x00, 0x00, 0x00, 0x00, 0x00, 0x00, 0x00, 0x00, 0x00, 0x00, 0x00, 0x00, 0x00, 0x00, 0x00],
     [0x00, 0x00, 0x00, 0x00, 0x00, 0x00, 0x00, 0x00, 0x00, 0x00, 0x00, 0x00, 0x00, 0x00, 0x00, 0x00],
     [0x00, 0x00, 0x00, 0x00, 0x00, 0x00, 0x00, 0x00, 0x00, 0x00, 0x00, 0x00, 0x00, 0x00, 0x00, 0x00],
     [0x00, 0x00, 0x00, 0x00, 0x00, 0x00, 0x00, 0x00, 0x00, 0x00, 0x00, 0x00, 0x00, 0x00, 0x00, 0x00],
     [0x00, 0x00, 0x00, 0x00, 0x00, 0x00, 0x00, 0x00, 0x00, 0x00, 0x00, 0x00, 0x00, 0x00, 0x00, 0x00],
     [0x00, 0x00, 0x00, 0x00, 0x00, 0x00, 0x00, 0x00, 0x00, 0x00, 0x00, 0x00, 0x00, 0x00, 0x00, 0x00],
     [0x00, 0x00, 0x00, 0x00, 0x00, 0x00, 0x00, 0x00, 0x00, 0x00, 0x00, 0x00, 0x00, 0x00, 0x00, 0x00],
     [0x00, 0x00, 0x00, 0x00, 0x00, 0x00, 0x00, 0x00, 0x00, 0x00, 0x00, 0x00, 0x00, 0x00, 0x00, 0x00],
     [0x00, 0x00, 0x00, 0x00, 0x00, 0x00, 0x00, 0x00, 0x00, 0x00, 0x00, 0x00, 0x00, 0x00, 0x00, 0x00],
     [0x00, 0x00, 0x00, 0x00, 0x00, 0x00, 0x00, 0x00, 0x00, 0x00, 0x00, 0x00, 0x00, 0x00, 0x00, 0x00],
     [0x00, 0x00, 0x00, 0x00, 0x00, 0x00, 0x00, 0x00, 0x00, 0x00, 0x00, 0x00, 0x00, 0x00, 0x00, 0x00],
     [0x00, 0x00, 0x00, 0x00, 0x00, 0x00, 0x00, 0x00, 0x00, 0x00, 0x00, 0x00, 0x00, 0x00, 0x00, 0x00],
     [0x00, 0x00, 0x00, 0x00, 0x00, 0x00, 0x00, 0x00, 0x00, 0x00, 0x00, 0x00, 0x00, 0x00, 0x00, 0x00],
     [0x00, 0x00, 0x18, 0x3C, 0x3C, 0x18, 0x18, 0x00, 0x18, 0x00, 0x00, 0x00, 0x00, 0x00, 0x00, 0x00],
     [0x00, 0x00, 0x66, 0x66, 0x24, 0x00, 0x00, 0x00, 0x00, 0x00, 0x00, 0x00, 0x00, 0x00, 0x00, 0x00],
     [0x00, 0x00, 0x6C, 0x6C, 0xFE, 0x6C, 0xFE, 0x6C, 0x6C, 0x00, 0x00, 0x00, 0x00, 0x00, 0x00, 0x00],
     [0x00, 0x00, 0x18, 0x3E, 0x03, 0x3E, 0x30, 0x3E, 0x18, 0x00, 0x00, 0x00, 0x00, 0x00, 0x00, 0x00],
     [0x00, 0x00, 0x63, 0x33, 0x18, 0x0C, 0x06, 0x33, 0x63, 0x00, 0x00, 0x00, 0x00, 0x00, 0x00, 0x00],
     [0x00, 0x00, 0x1C, 0x36, 0x1C, 0x6E, 0x3B, 0x33, 0x6E, 0x00, 0x00, 0x00, 0x00, 0x00, 0x00, 0x00],
     [0x00, 0x00, 0x18, 0x18, 0x0C, 0x00, 0x00, 0x00, 0x00, 0x00, 0x00, 0x00, 0x00, 0x00, 0x00, 0x00],
     [0x00, 0x00, 0x18, 0x0C, 0x06, 0x06, 0x06, 0x0C, 0x18, 0x00, 0x00, 0x00, 0x00, 0x00, 0x00, 0x00],
     [0x00, 0x00, 0x06, 0x0C, 0x18, 0x18, 0x18, 0x0C, 0x06, 0x00, 0x00, 0x00, 0x00, 0x00, 0x00, 0x00],
     [0x00, 0x00, 0x00, 0x66, 0x3C, 0xFF, 0x3C, 0x66, 0x00, 0x00, 0x00, 0x00, 0x00, 0x00, 0x00, 0x00],
     [0x00, 0x00, 0x00, 0x18, 0x18, 0x7E, 0x18, 0x18, 0x00, 0x00, 0x00, 0x00, 0x00, 0x00, 0x00, 0x00],
     [0x00, 0x00, 0x00, 0x00, 0x00, 0x00, 0x00, 0x18, 0x18, 0x0C, 0x00, 0x00, 0x00, 0x00, 0x00, 0x00],
     [0x00, 0x00, 0x00, 0x00, 0x00, 0x7E, 0x00, 0x00, 0x00, 0x00, 0x00, 0x00, 0x00, 0x00, 0x00, 0x00],
     [0x00, 0x00, 0x00, 0x00, 0x00, 0x00, 0x00, 0x18, 0x18, 0x00, 0x00, 0x00, 0x00, 0x00, 0x00, 0x00],
     [0x00, 0x00, 0x60, 0x30, 0x18, 0x0C, 0x06, 0x03, 0x01, 0x00, 0x00, 0x00, 0x00, 0x00, 0x00, 0x00],
     [0x00, 0x00, 0x3C, 0x66, 0x76, 0x6E, 0x66, 0x66, 0x3C, 0x00, 0x00, 0x00, 0x00, 0x00, 0x00, 0x00],
     [0x00, 0x00, 0x18, 0x1C, 0x18, 0x18, 0x18, 0x18, 0x7E, 0x00, 0x00, 0x00, 0x00, 0x00, 0x00, 0x00],
     [0x00, 0x00, 0x3C, 0x66, 0x60, 0x30, 0x18, 0x0C, 0x7E, 0x00, 0x00, 0x00, 0x00, 0x00, 0x00, 0x00],
     [0x00, 0x00, 0x3C, 0x66, 0x60, 0x38, 0x60, 0x66, 0x3C, 0x00, 0x00, 0x00, 0x00, 0x00, 0x00, 0x00],
     [0x00, 0x00, 0x30, 0x38, 0x3C, 0x36, 0x7F, 0x30, 0x30, 0x00, 0x00, 0x00, 0x00, 0x00, 0x00, 0x00],
     [0x00, 0x00, 0x7E, 0x06, 0x3E, 0x60, 0x60, 0x66, 0x3C, 0x00, 0x00, 0x00, 0x00, 0x00, 0x00, 0x00],
     [0x00, 0x00, 0x38, 0x0C, 0x06, 0x3E, 0x66, 0x66, 0x3C, 0x00, 0x00, 0x00, 0x00, 0x00, 0x00, 0x00],
     [0x00, 0x00, 0x7E, 0x60, 0x30, 0x18, 0x0C, 0x0C, 0x0C, 0x00, 0x00, 0x00, 0x00, 0x00, 0x00, 0x00],
     [0x00, 0x00, 0x3C, 0x66, 0x66, 0x3C, 0x66, 0x66, 0x3C, 0x00, 0x00, 0x00, 0x00, 0x00, 0x00, 0x00],
     [0x00, 0x00, 0x3C, 0x66, 0x66, 0x7C, 0x60, 0x30, 0x1C, 0x00, 0x00, 0x00, 0x00, 0x00, 0x00, 0x00],
     [0x00, 0x00, 0x00, 0x18, 0x18, 0x00, 0x18, 0x18, 0x00, 0x00, 0x00, 0x00, 0x00, 0x00, 0x00, 0x00],
     [0x00, 0x00, 0x00, 0x18, 0x18, 0x00, 0x18, 0x18, 0x0C, 0x00, 0x00, 0x00, 0x00, 0x00, 0x00, 0x00],
     [0x00, 0x00, 0x30, 0x18, 0x0C, 0x06, 0x0C, 0x18, 0x30, 0x00, 0x00, 0x00, 0x00, 0x00, 0x00, 0x00],
     [0x00, 0x00, 0x00, 0x00, 0x7E, 0x00, 0x7E, 0x00, 0x00, 0x00, 0x00, 0x00, 0x00, 0x00, 0x00, 0x00],
     [0x00, 0x00, 0x06, 0x0C, 0x18, 0x30, 0x18, 0x0C, 0x06, 0x00, 0x00, 0x00, 0x00, 0x00, 0x00, 0x00],
     [0x00, 0x00, 0x3C, 0x66, 0x60, 0x30, 0x18, 0x00, 0x18, 0x00, 0x00, 0x00, 0x00, 0x00, 0x00, 0x00],
     [0x00, 0x00, 0x3C, 0x66, 0x7A, 0x7A, 0x7A, 0x06, 0x3C, 0x00, 0x00, 0x00, 0x00, 0x00, 0x00, 0x00],
     [0x00, 0x00, 0x18, 0x3C, 0x66, 0x7E, 0x66, 0x66, 0x66, 0x00, 0x00, 0x00, 0x00, 0x00, 0x00, 0x00],
     [0x00, 0x00, 0x3E, 0x66, 0x66, 0x3E, 0x66, 0x66, 0x3E, 0x00, 0x00, 0x00, 0x00, 0x00, 0x00, 0x00],
     [0x00, 0x00, 0x3C, 0x66, 0x06, 0x06, 0x06, 0x66, 0x3C, 0x00, 0x00, 0x00, 0x00, 0x00, 0x00, 0x00],
     [0x00, 0x00, 0x1E, 0x36, 0x66, 0x66, 0x66, 0x36, 0x1E, 0x00, 0x00, 0x00, 0x00, 0x00, 0x00, 0x00],
     [0x00, 0x00, 0x7E, 0x06, 0x06, 0x3E, 0x06, 0x06, 0x7E, 0x00, 0x00, 0x00, 0x00, 0x00, 0x00, 0x00],
     [0x00, 0x00, 0x7E, 0x06, 0x06, 0x3E, 0x06, 0x06, 0x06, 0x00, 0x00, 0x00, 0x00, 0x00, 0x00, 0x00],
     [0x00, 0x00, 0x3C, 0x66, 0x06, 0x76, 0x66, 0x66, 0x3C, 0x00, 0x00, 0x00, 0x00, 0x00, 0x00, 0x00],
     [0x00, 0x00, 0x66, 0x66, 0x66, 0x7E, 0x66, 0x66, 0x66, 0x00, 0x00, 0x00, 0x00, 0x00, 0x00, 0x00],
     [0x00, 0x00, 0x3C, 0x18, 0x18, 0x18, 0x18, 0x18, 0x3C, 0x00, 0x00, 0x00, 0x00, 0x00, 0x00, 0x00],
     [0x00, 0x00, 0x78, 0x30, 0x30, 0x30, 0x33, 0x33, 0x1E, 0x00, 0x00, 0x00, 0x00, 0x00, 0x00, 0x00],
     [0x00, 0x00, 0x66, 0x36, 0x1E, 0x0E, 0x1E, 0x36, 0x66, 0x00, 0x00, 0x00, 0x00, 0x00, 0x00, 0x00],
     [0x00, 0x00, 0x06, 0x06, 0x06, 0x06, 0x06, 0x06, 0x7E, 0x00, 0x00, 0x00, 0x00, 0x00, 0x00, 0x00],
     [0x00, 0x00, 0x63, 0x77, 0x7F, 0x6B, 0x63, 0x63, 0x63, 0x00, 0x00, 0x00, 0x00, 0x00, 0x00, 0x00],
     [0x00, 0x00, 0x63, 0x67, 0x6F, 0x7B, 0x73, 0x63, 0x63, 0x00, 0x00, 0x00, 0x00, 0x00, 0x00, 0x00],
     [0x00, 0x00, 0x3C, 0x66, 0x66, 0x66, 0x66, 0x66, 0x3C, 0x00, 0x00, 0x00, 0x00, 0x00, 0x00, 0x00],
     [0x00, 0x00, 0x3E, 0x66, 0x66, 0x3E, 0x06, 0x06, 0x06, 0x00, 0x00, 0x00, 0x00, 0x00, 0x00, 0x00],
     [0x00, 0x00, 0x3C, 0x66, 0x66, 0x66, 0x6E, 0x3C, 0x70, 0x00, 0x00, 0x00, 0x00, 0x00, 0x00, 0x00],
     [0x00, 0x00, 0x3E, 0x66, 0x66, 0x3E, 0x36, 0x66, 0x66, 0x00, 0x00, 0x00, 0x00, 0x00, 0x00, 0x00],
     [0x00, 0x00, 0x3C, 0x66, 0x06, 0x1C, 0x60, 0x66, 0x3C, 0x00, 0x00, 0x00, 0x00, 0x00, 0x00, 0x00],
     [0x00, 0x00, 0x7E, 0x18, 0x18, 0x18, 0x18, 0x18, 0x18, 0x00, 0x00, 0x00, 0x00, 0x00, 0x00, 0x00],
     [0x00, 0x00, 0x66, 0x66, 0x66, 0x66, 0x66, 0x66, 0x3C, 0x00, 0x00, 0x00, 0x00, 0x00, 0x00, 0x00],
     [0x00, 0x00, 0x66, 0x66, 0x66, 0x66, 0x3C, 0x3C, 0x18, 0x00, 0x00, 0x00, 0x00, 0x00, 0x00, 0x00],
     [0x00, 0x00, 0x63, 0x63, 0x63, 0x6B, 0x7F, 0x77, 0x63, 0x00, 0x00, 0x00, 0x00, 0x00, 0x00, 0x00],
     [0x00, 0x00, 0x63, 0x36, 0x1C, 0x1C, 0x1C, 0x36, 0x63, 0x00, 0x00, 0x00, 0x00, 0x00, 0x00, 0x00],
     [0x00, 0x00, 0x66, 0x66, 0x66, 0x3C, 0x18, 0x18, 0x18, 0x00, 0x00, 0x00, 0x00, 0x00, 0x00, 0x00],
     [0x00, 0x00, 0x7E, 0x30, 0x18, 0x0C, 0x06, 0x06, 0x7E, 0x00, 0x00, 0x00, 0x00, 0x00, 0x00, 0x00],
     [0x00, 0x00, 0x1E, 0x06, 0x06, 0x06, 0x06, 0x06, 0x1E, 0x00, 0x00, 0x00, 0x00, 0x00, 0x00, 0x00],
     [0x00, 0x00, 0x03, 0x06, 0x0C, 0x18, 0x30, 0x60, 0x40, 0x00, 0x00, 0x00, 0x00, 0x00, 0x00, 0x00],
     [0x00, 0x00, 0x1E, 0x18, 0x18, 0x18, 0x18, 0x18, 0x1E, 0x00, 0x00, 0x00, 0x00, 0x00, 0x00, 0x00],
     [0x00, 0x00, 0x08, 0x1C, 0x36, 0x63, 0x00, 0x00, 0x00, 0x00, 0x00, 0x00, 0x00, 0x00, 0x00, 0x00],
     [0x00, 0x00, 0x00, 0x00, 0x00, 0x00, 0x00, 0x00, 0xFF, 0x00, 0x00, 0x00, 0x00, 0x00, 0x00, 0x00],
     [0x00, 0x00, 0x0C, 0x0C, 0x18, 0x00, 0x00, 0x00, 0x00, 0x00, 0x00, 0x00, 0x00, 0x00, 0x00, 0x00],
     [0x00, 0x00, 0x00, 0x00, 0x3C, 0x60, 0x7C, 0x66, 0x7C, 0x00, 0x00, 0x00, 0x00, 0x00, 0x00, 0x00],
     [0x00, 0x00, 0x06, 0x06, 0x3E, 0x66, 0x66, 0x66, 0x3E, 0x00, 0x00, 0x00, 0x00, 0x00, 0x00, 0x00],
     [0x00, 0x00, 0x00, 0x00, 0x3C, 0x06, 0x06, 0x66, 0x3C, 0x00, 0x00, 0x00, 0x00, 0x00, 0x00, 0x00],
     [0x00, 0x00, 0x60, 0x60, 0x7C, 0x66, 0x66, 0x66, 0x7C, 0x00, 0x00, 0x00, 0x00, 0x00, 0x00, 0x00],
     [0x00, 0x00, 0x00, 0x00, 0x3C, 0x66, 0x7E, 0x06, 0x3C, 0x00, 0x00, 0x00, 0x00, 0x00, 0x00, 0x00],
     [0x00, 0x00, 0x38, 0x0C, 0x0C, 0x3E, 0x0C, 0x0C, 0x0C, 0x00, 0x00, 0x00, 0x00, 0x00, 0x00, 0x00],
     [0x00, 0x00, 0x00, 0x00, 0x7C, 0x66, 0x66, 0x7C, 0x60, 0x3C, 0x00, 0x00, 0x00, 0x00, 0x00, 0x00],
     [0x00, 0x00, 0x06, 0x06, 0x3E, 0x66, 0x66, 0x66, 0x66, 0x00, 0x00, 0x00, 0x00, 0x00, 0x00, 0x00],
     [0x00, 0x00, 0x18, 0x00, 0x1E, 0x18, 0x18, 0x18, 0x3C, 0x00, 0x00, 0x00, 0x00, 0x00, 0x00, 0x00],
     [0x00, 0x00, 0x18, 0x00, 0x1E, 0x18, 0x18, 0x18, 0x18, 0x0E, 0x00, 0x00, 0x00, 0x00, 0x00, 0x00],
     [0x00, 0x00, 0x06, 0x06, 0x66, 0x36, 0x1E, 0x36, 0x66, 0x00, 0x00, 0x00, 0x00, 0x00, 0x00, 0x00],
     [0x00, 0x00, 0x1C, 0x18, 0x18, 0x18, 0x18, 0x18, 0x3C, 0x00, 0x00, 0x00, 0x00, 0x00, 0x00, 0x00],
     [0x00, 0x00, 0x00, 0x00, 0x33, 0x7F, 0x7F, 0x6B, 0x63, 0x00, 0x00, 0x00, 0x00, 0x00, 0x00, 0x00],
     [0x00, 0x00, 0x00, 0x00, 0x3E, 0x66, 0x66, 0x66, 0x66, 0x00, 0x00, 0x00, 0x00, 0x00, 0x00, 0x00],
     [0x00, 0x00, 0x00, 0x00, 0x3C, 0x66, 0x66, 0x66, 0x3C, 0x00, 0x00, 0x00, 0x00, 0x00, 0x00, 0x00],
     [0x00, 0x00, 0x00, 0x00, 0x3E, 0x66, 0x66, 0x3E, 0x06, 0x06, 0x00, 0x00, 0x00, 0x00, 0x00, 0x00],
     [0x00, 0x00, 0x00, 0x00, 0x7C, 0x66, 0x66, 0x7C, 0x60, 0x60, 0x00, 0x00, 0x00, 0x00, 0x00, 0x00],
     [0x00, 0x00, 0x00, 0x00, 0x3E, 0x06, 0x06, 0x06, 0x06, 0x00, 0x00, 0x00, 0x00, 0x00, 0x00, 0x00],
     [0x00, 0x00, 0x00, 0x00, 0x7C, 0x06, 0x3C, 0x60, 0x3E, 0x00, 0x00, 0x00, 0x00, 0x00, 0x00, 0x00],
     [0x00, 0x00, 0x18, 0x18, 0x7E, 0x18, 0x18, 0x18, 0x70, 0x00, 0x00, 0x00, 0x00, 0x00, 0x00, 0x00],
     [0x00, 0x00, 0x00, 0x00, 0x66, 0x66, 0x66, 0x66, 0x7C, 0x00, 0x00, 0x00, 0x00, 0x00, 0x00, 0x00],
     [0x00, 0x00, 0x00, 0x00, 0x66, 0x66, 0x66, 0x3C, 0x18, 0x00, 0x00, 0x00, 0x00, 0x00, 0x00, 0x00],
     [0x00, 0x00, 0x00, 0x00, 0x63, 0x6B, 0x7F, 0x36, 0x22, 0x00, 0x00, 0x00, 0x00, 0x00, 0x00, 0x00],
     [0x00, 0x00, 0x00, 0x00, 0x66, 0x3C, 0x18, 0x3C, 0x66, 0x00, 0x00, 0x00, 0x00, 0x00, 0x00, 0x00],
     [0x00, 0x00, 0x00, 0x00, 0x66, 0x66, 0x66, 0x7C, 0x60, 0x3C, 0x00, 0x00, 0x00, 0x00, 0x00, 0x00],
     [0x00, 0x00, 0x00, 0x00, 0x7E, 0x30, 0x18, 0x0C, 0x7E, 0x00, 0x00, 0x00, 0x00, 0x00, 0x00, 0x00],
     [0x00, 0x00, 0x38, 0x0C, 0x0C, 0x07, 0x0C, 0x0C, 0x38, 0x00, 0x00, 0x00, 0x00, 0x00, 0x00, 0x00],
     [0x00, 0x00, 0x18, 0x18, 0x18, 0x00, 0x18, 0x18, 0x18, 0x00, 0x00, 0x00, 0x00, 0x00, 0x00, 0x00],
     [0x00, 0x00, 0x07, 0x0C, 0x0C, 0x38, 0x0C, 0x0C, 0x07, 0x00, 0x00, 0x00, 0x00, 0x00, 0x00, 0x00],
     [0x00, 0x00, 0x6E, 0x3B, 0x00, 0x00, 0x00, 0x00, 0x00, 0x00, 0x00, 0x00, 0x00, 0x00, 0x00, 0x00],
     [0x00, 0x00, 0xFF, 0xFF, 0xFF, 0xFF, 0xFF, 0xFF, 0xFF, 0xFF, 0x00, 0x00, 0x00, 0x00, 0x00, 0x00]]"

section \<open>Pixels\<close>

record fb_info =
  fb_addr :: u32
  fb_pitch :: u32
  fb_width :: u16
  fb_height :: u16
  fb_bpp :: u8
  fb_active :: bool

definition load16 :: "memory \<Rightarrow> nat \<Rightarrow> u16" where
  "load16 m p = ucast (m p) OR push_bit 8 (ucast (m (p + 1)))"

definition load32 :: "memory \<Rightarrow> nat \<Rightarrow> u32" where
  "load32 m p = ucast (m p) OR push_bit 8 (ucast (m (p + 1))) OR push_bit 16 (ucast (m (p + 2))) OR push_bit 24 (ucast (m (p + 3)))"

definition store32 :: "nat \<Rightarrow> u32 \<Rightarrow> memory \<Rightarrow> memory" where
  "store32 p c m = m(p := ucast c, p + 1 := ucast (drop_bit 8 c), p + 2 := ucast (drop_bit 16 c), p + 3 := ucast (drop_bit 24 c))"

definition VBE_INFO_ADDR :: nat where "VBE_INFO_ADDR = 0x6000"
definition VBE_FLAG_ADDR :: nat where "VBE_FLAG_ADDR = 0x5FFC"

definition fb_init :: "memory \<Rightarrow> fb_info \<Rightarrow> bool \<times> fb_info" where
  "fb_init m fb =
     (if load32 m VBE_FLAG_ADDR \<noteq> 1 then (False, fb\<lparr>fb_active := False\<rparr>)
      else let info = VBE_INFO_ADDR;
               pitch = ucast (load16 m (info + 0x10)); width = load16 m (info + 0x12); height = load16 m (info + 0x14);
               bpp = m (info + 0x19); addr = load32 m (info + 0x28); active = 0 < width \<and> 0 < height \<and> 0 < addr
           in (active, \<lparr>fb_addr = addr, fb_pitch = pitch, fb_width = width, fb_height = height, fb_bpp = bpp, fb_active = active\<rparr>))"

definition put_pixel_32 :: "fb_info \<Rightarrow> int \<Rightarrow> int \<Rightarrow> u32 \<Rightarrow> memory \<Rightarrow> memory" where
  "put_pixel_32 fb x y c m =
     (if (word_of_int x :: u16) \<ge> fb_width fb \<or> (word_of_int y :: u16) \<ge> fb_height fb then m
      else store32 (unat (fb_addr fb + word_of_int y * fb_pitch fb + word_of_int x * 4)) c m)"

definition put_pixel_24 :: "fb_info \<Rightarrow> int \<Rightarrow> int \<Rightarrow> u32 \<Rightarrow> memory \<Rightarrow> memory" where
  "put_pixel_24 fb x y c m =
     (if (word_of_int x :: u16) \<ge> fb_width fb \<or> (word_of_int y :: u16) \<ge> fb_height fb then m
      else let p = unat (fb_addr fb + word_of_int y * fb_pitch fb + word_of_int x * 3)
           in m(p := ucast (c AND 0xFF), p + 1 := ucast (drop_bit 8 c AND 0xFF), p + 2 := ucast (drop_bit 16 c AND 0xFF)))"

definition fb_pixel :: "fb_info \<Rightarrow> int \<Rightarrow> int \<Rightarrow> u32 \<Rightarrow> memory \<Rightarrow> memory" where
  "fb_pixel fb x y c = (if fb_bpp fb = 32 then put_pixel_32 fb x y c else put_pixel_24 fb x y c)"

section \<open>Shapes\<close>

definition fb_hline :: "fb_info \<Rightarrow> int \<Rightarrow> int \<Rightarrow> int \<Rightarrow> u32 \<Rightarrow> memory \<Rightarrow> memory" where
  "fb_hline fb x y len c = fold (\<lambda>i. fb_pixel fb (x + i) y c) [0 .. len - 1]"

definition fb_vline :: "fb_info \<Rightarrow> int \<Rightarrow> int \<Rightarrow> int \<Rightarrow> u32 \<Rightarrow> memory \<Rightarrow> memory" where
  "fb_vline fb x y len c = fold (\<lambda>i. fb_pixel fb x (y + i) c) [0 .. len - 1]"

definition fb_clear :: "fb_info \<Rightarrow> u32 \<Rightarrow> memory \<Rightarrow> memory" where
  "fb_clear fb c =
     (if fb_bpp fb = 32 \<and> fb_pitch fb = ucast (fb_width fb) * 4
      then fold (\<lambda>i. store32 (unat (fb_addr fb) + 4 * i) c) [0 ..< unat (ucast (fb_width fb) * ucast (fb_height fb) :: u32)]
      else fold (\<lambda>y. fb_hline fb 0 y (uint (fb_width fb)) c) [0 .. uint (fb_height fb) - 1])"

definition fb_rect :: "fb_info \<Rightarrow> int \<Rightarrow> int \<Rightarrow> int \<Rightarrow> int \<Rightarrow> u32 \<Rightarrow> memory \<Rightarrow> memory" where
  "fb_rect fb x y w h c = fold (\<lambda>row. fb_hline fb x row w c) [y .. y + h - 1]"

definition fb_rect_outline :: "fb_info \<Rightarrow> int \<Rightarrow> int \<Rightarrow> int \<Rightarrow> int \<Rightarrow> int \<Rightarrow> u32 \<Rightarrow> memory \<Rightarrow> memory" where
  "fb_rect_outline fb x y w h t c m =
     fb_rect fb (x + w - t) y t h c (fb_rect fb x y t h c (fb_rect fb x (y + h - t) w t c (fb_rect fb x y w t c m)))"

text \<open>The loop of \<^verbatim>\<open>fb_line\<close>, with the values computed before it as parameters.\<close>

partial_function (option) line_loop ::
  "fb_info \<Rightarrow> u32 \<Rightarrow> int \<Rightarrow> int \<Rightarrow> int \<Rightarrow> int \<Rightarrow> int \<Rightarrow> int \<Rightarrow> int \<Rightarrow> int \<Rightarrow> int \<Rightarrow> memory \<Rightarrow> memory option" where
  "line_loop fb c ax ay sx sy x1 y1 x0 y0 err m =
     (let m = fb_pixel fb x0 y0 c m
      in if x0 = x1 \<and> y0 = y1 then Some m
         else let e2 = err;
                  (err, x0) = (if e2 > - ax then (err - ay, x0 + sx) else (err, x0));
                  (err, y0) = (if e2 < ay then (err + ax, y0 + sy) else (err, y0))
              in line_loop fb c ax ay sx sy x1 y1 x0 y0 err m)"

text \<open>C division rounds towards zero.\<close>

definition half :: "int \<Rightarrow> int" where
  "half e = (if e < 0 then - ((- e) div 2) else e div 2)"

definition fb_line :: "fb_info \<Rightarrow> int \<Rightarrow> int \<Rightarrow> int \<Rightarrow> int \<Rightarrow> u32 \<Rightarrow> memory \<Rightarrow> memory option" where
  "fb_line fb x0 y0 x1 y1 c =
     (let dx = x1 - x0; dy = y1 - y0;
          ax = (if dx < 0 then - dx else dx); ay = (if dy < 0 then - dy else dy);
          sx = (if dx < 0 then - 1 else 1); sy = (if dy < 0 then - 1 else 1)
      in line_loop fb c ax ay sx sy x1 y1 x0 y0 (half (if ax > ay then ax else - ay)))"

definition FB_FONT_W :: int where "FB_FONT_W = 8"
definition FB_FONT_H :: int where "FB_FONT_H = 16"

definition fb_char :: "fb_info \<Rightarrow> int \<Rightarrow> int \<Rightarrow> u8 \<Rightarrow> u32 \<Rightarrow> u32 \<Rightarrow> memory \<Rightarrow> memory" where
  "fb_char fb x y ch fg bg =
     (let idx = (if ch \<ge> 128 then 0x3F else ch); glyph = font_8x16 ! unat idx
      in fold (\<lambda>row. let bits = glyph ! nat row
           in fold (\<lambda>col. fb_pixel fb (x + col) (y + row) (if bits AND drop_bit (nat col) 0x80 \<noteq> 0 then fg else bg))
                [0 .. FB_FONT_W - 1]) [0 .. FB_FONT_H - 1])"

fun fb_string :: "fb_info \<Rightarrow> int \<Rightarrow> int \<Rightarrow> u8 list \<Rightarrow> u32 \<Rightarrow> u32 \<Rightarrow> memory \<Rightarrow> memory" where
  "fb_string fb x y [] fg bg m = m"
| "fb_string fb x y (c # s) fg bg m = fb_string fb (x + FB_FONT_W) y s fg bg (fb_char fb x y c fg bg m)"

section \<open>The screen as a grid of pixels\<close>

text \<open>A 32-bit mode whose rows do not overlap and whose memory does not wrap around.\<close>

definition fb_ok :: "fb_info \<Rightarrow> bool" where
  "fb_ok fb \<longleftrightarrow> fb_bpp fb = 32 \<and> 4 * unat (fb_width fb) \<le> unat (fb_pitch fb) \<and>
     unat (fb_addr fb) + unat (fb_height fb) * unat (fb_pitch fb) \<le> 2 ^ 32"

definition on_screen :: "fb_info \<Rightarrow> int \<Rightarrow> int \<Rightarrow> bool" where
  "on_screen fb x y \<longleftrightarrow> 0 \<le> x \<and> x < uint (fb_width fb) \<and> 0 \<le> y \<and> y < uint (fb_height fb)"

definition pixel_addr :: "fb_info \<Rightarrow> int \<Rightarrow> int \<Rightarrow> nat" where
  "pixel_addr fb x y = unat (fb_addr fb) + nat y * unat (fb_pitch fb) + 4 * nat x"

definition pixel :: "fb_info \<Rightarrow> memory \<Rightarrow> int \<Rightarrow> int \<Rightarrow> u32" where
  "pixel fb m x y = load32 m (pixel_addr fb x y)"

text \<open>The coordinates for which the 16-bit clipping test is exact.\<close>

definition in_range :: "fb_info \<Rightarrow> int \<Rightarrow> int \<Rightarrow> bool" where
  "in_range fb x y \<longleftrightarrow> uint (fb_width fb) - 65536 \<le> x \<and> x < 65536 \<and> uint (fb_height fb) - 65536 \<le> y \<and> y < 65536"

lemma clip_exact:
  assumes "uint (w :: u16) - 65536 \<le> x" "x < 65536"
  shows "(word_of_int x :: u16) \<ge> w \<longleftrightarrow> \<not> (0 \<le> x \<and> x < uint w)"
proof -
  have w: "0 \<le> uint w" "uint w < 65536" using uint_lt2p [of w] by simp_all
  have "uint (word_of_int x :: u16) = x mod 65536" by (simp add: uint_word_of_int)
  also have "\<dots> = (if 0 \<le> x then x else x + 65536)"
  proof (cases "0 \<le> x")
    case False
    then have "0 \<le> x + 65536" "x + 65536 < 65536" using assms(1) w by linarith+
    then have "x mod 65536 = x + 65536" by (metis mod_add_self2 mod_pos_pos_trivial)
    with False show ?thesis by simp
  qed (use assms(2) in simp)
  finally have "uint (word_of_int x :: u16) = (if 0 \<le> x then x else x + 65536)" .
  moreover have "(word_of_int x :: u16) \<ge> w \<longleftrightarrow> uint w \<le> uint (word_of_int x :: u16)" by (rule word_le_def)
  ultimately show ?thesis using assms(1) by auto
qed

lemma row_bound:
  assumes "fb_ok fb" "on_screen fb x y"
  shows "unat (fb_addr fb) \<le> pixel_addr fb x y"
    "pixel_addr fb x y + 4 \<le> unat (fb_addr fb) + (nat y + 1) * unat (fb_pitch fb)"
    "pixel_addr fb x y + 4 \<le> unat (fb_addr fb) + unat (fb_height fb) * unat (fb_pitch fb)"
proof -
  have xy: "nat x < unat (fb_width fb)" "nat y < unat (fb_height fb)" using assms(2) by (auto simp: on_screen_def nat_less_iff)
  have "4 * nat x + 4 \<le> unat (fb_pitch fb)" using xy(1) assms(1) by (simp add: fb_ok_def)
  then show row: "pixel_addr fb x y + 4 \<le> unat (fb_addr fb) + (nat y + 1) * unat (fb_pitch fb)"
    by (simp add: pixel_addr_def)
  have "(nat y + 1) * unat (fb_pitch fb) \<le> unat (fb_height fb) * unat (fb_pitch fb)"
    using xy(2) by (intro mult_right_mono) simp_all
  with row show "pixel_addr fb x y + 4 \<le> unat (fb_addr fb) + unat (fb_height fb) * unat (fb_pitch fb)" by linarith
  show "unat (fb_addr fb) \<le> pixel_addr fb x y" by (simp add: pixel_addr_def)
qed

lemma fb_pixel_store:
  assumes "fb_ok fb" "in_range fb x y"
  shows "fb_pixel fb x y c m = (if on_screen fb x y then store32 (pixel_addr fb x y) c m else m)"
proof (cases "on_screen fb x y")
  case True
  have "fb_addr fb + word_of_int y * fb_pitch fb + word_of_int x * 4 = of_nat (pixel_addr fb x y)"
    using True by (simp add: pixel_addr_def on_screen_def)
  moreover have "pixel_addr fb x y < 2 ^ 32" using row_bound(3) [OF assms(1) True] assms(1) by (simp add: fb_ok_def)
  ultimately have "unat (fb_addr fb + word_of_int y * fb_pitch fb + word_of_int x * 4) = pixel_addr fb x y"
    by (simp add: unat_of_nat)
  with True assms show ?thesis by (simp add: fb_pixel_def put_pixel_32_def fb_ok_def in_range_def clip_exact on_screen_def not_le)
next
  case False
  with assms show ?thesis by (auto simp: fb_pixel_def put_pixel_32_def fb_ok_def in_range_def clip_exact on_screen_def)
qed

lemma load_store32: "load32 (store32 p c m) p = c"
proof -
  have "load32 (store32 p c m) p = ucast (ucast c :: u8) OR push_bit 8 (ucast (ucast (drop_bit 8 c) :: u8)) OR
      push_bit 16 (ucast (ucast (drop_bit 16 c) :: u8)) OR push_bit 24 (ucast (ucast (drop_bit 24 c) :: u8))"
    by (simp add: load32_def store32_def)
  also have "\<dots> = c"
  proof (rule bit_word_eqI)
    fix n assume "n < LENGTH(32)"
    then consider "n < 8" | "8 \<le> n" "n < 16" | "16 \<le> n" "n < 24" | "24 \<le> n" "n < 32" by fastforce
    then show "bit (ucast (ucast c :: u8) OR push_bit 8 (ucast (ucast (drop_bit 8 c) :: u8)) OR
      push_bit 16 (ucast (ucast (drop_bit 16 c) :: u8)) OR push_bit 24 (ucast (ucast (drop_bit 24 c) :: u8)) :: u32) n = bit c n"
      by cases (auto simp: bit_simps)
  qed
  finally show ?thesis .
qed

lemma load_store32_other: "q + 4 \<le> p \<or> p + 4 \<le> q \<Longrightarrow> load32 (store32 p c m) q = load32 m q"
  by (auto simp: load32_def store32_def)

lemma pixel_apart:
  assumes "fb_ok fb" "on_screen fb x y" "on_screen fb x' y'" "(x, y) \<noteq> (x', y')"
  shows "pixel_addr fb x y + 4 \<le> pixel_addr fb x' y' \<or> pixel_addr fb x' y' + 4 \<le> pixel_addr fb x y"
proof -
  have step: "pixel_addr fb x y + 4 \<le> pixel_addr fb x' y'" if "on_screen fb x y" "nat y < nat y'" for x y x' y'
  proof -
    have "nat y + 1 \<le> nat y'" using that(2) by linarith
    then have "(nat y + 1) * unat (fb_pitch fb) \<le> nat y' * unat (fb_pitch fb)" by (rule mult_right_mono) simp
    then have "unat (fb_addr fb) + (nat y + 1) * unat (fb_pitch fb) \<le> pixel_addr fb x' y'" by (simp add: pixel_addr_def)
    with row_bound(2) [OF assms(1) that(1)] show ?thesis by linarith
  qed
  consider "nat y < nat y'" | "nat y' < nat y" | "nat y = nat y'" by linarith
  then show ?thesis
  proof cases
    case 3
    then have "nat x \<noteq> nat x'" using assms(2-4) by (auto simp: on_screen_def)
    with 3 show ?thesis by (auto simp: pixel_addr_def)
  qed (use step assms in blast)+
qed

text \<open>Drawing a list of points in one colour.\<close>

definition plot :: "fb_info \<Rightarrow> u32 \<Rightarrow> (int \<times> int) list \<Rightarrow> memory \<Rightarrow> memory" where
  "plot fb c ps = fold (\<lambda>(x, y). fb_pixel fb x y c) ps"

lemma plot_pixel:
  assumes "fb_ok fb" "\<forall>(x, y) \<in> set ps. in_range fb x y" "on_screen fb px py"
  shows "pixel fb (plot fb c ps m) px py = (if (px, py) \<in> set ps then c else pixel fb m px py)"
  using assms(2)
proof (induction ps arbitrary: m)
  case (Cons p ps)
  obtain x y where p: "p = (x, y)" by fastforce
  have "pixel fb (fb_pixel fb x y c m) px py = (if (px, py) = (x, y) then c else pixel fb m px py)"
    using fb_pixel_store [OF assms(1), of x y c m] Cons.prems assms(3) pixel_apart [OF assms(1) _ assms(3), of x y]
    by (auto simp: p pixel_def load_store32 load_store32_other)
  with Cons show ?case by (auto simp: plot_def p)
qed (simp add: plot_def)

lemma plot_frame:
  assumes "fb_ok fb" "\<forall>(x, y) \<in> set ps. in_range fb x y"
    and "a < unat (fb_addr fb) \<or> unat (fb_addr fb) + unat (fb_height fb) * unat (fb_pitch fb) \<le> a"
  shows "plot fb c ps m a = m a"
  using assms(2)
proof (induction ps arbitrary: m)
  case (Cons p ps)
  obtain x y where p: "p = (x, y)" by fastforce
  have "fb_pixel fb x y c m a = m a"
    using fb_pixel_store [OF assms(1), of x y c m] Cons.prems assms(3) row_bound [OF assms(1), of x y]
    by (auto simp: p store32_def)
  with Cons show ?case by (auto simp: plot_def p)
qed (simp add: plot_def)

lemma plot_append: "plot fb c (ps @ qs) m = plot fb c qs (plot fb c ps m)"
  by (simp add: plot_def)

definition rect_points :: "int \<Rightarrow> int \<Rightarrow> int \<Rightarrow> int \<Rightarrow> (int \<times> int) list" where
  "rect_points x y w h = concat (map (\<lambda>row. map (\<lambda>i. (x + i, row)) [0 .. w - 1]) [y .. y + h - 1])"

lemma set_rect_points: "(px, py) \<in> set (rect_points x y w h) \<longleftrightarrow> x \<le> px \<and> px < x + w \<and> y \<le> py \<and> py < y + h"
proof -
  have "px \<in> (\<lambda>i. x + i) ` {0 .. w - 1} \<longleftrightarrow> x \<le> px \<and> px < x + w"
    by (auto intro: image_eqI [of _ _ "px - x"])
  then show ?thesis by (auto simp: rect_points_def intro!: bexI [of _ py] image_eqI [of _ _ "px - x"])
qed

lemma fb_rect_plot: "fb_rect fb x y w h c = plot fb c (rect_points x y w h)"
proof -
  have "fb_hline fb x row w c = plot fb c (map (\<lambda>i. (x + i, row)) [0 .. w - 1])" for row
    by (simp add: fb_hline_def plot_def fold_map comp_def)
  moreover have "fold (\<lambda>r. plot fb c (f r)) rs = plot fb c (concat (map f rs))" for f rs
    by (induction rs) (auto simp: plot_def)
  ultimately show ?thesis by (simp add: fb_rect_def rect_points_def)
qed

section \<open>Lines\<close>

text \<open>A path of pixels: each touches the one before.\<close>

definition touching :: "int \<times> int \<Rightarrow> int \<times> int \<Rightarrow> bool" where
  "touching p q \<longleftrightarrow> \<bar>fst q - fst p\<bar> \<le> 1 \<and> \<bar>snd q - snd p\<bar> \<le> 1"

definition line_path :: "int \<times> int \<Rightarrow> int \<times> int \<Rightarrow> nat \<Rightarrow> (int \<times> int) list \<Rightarrow> bool" where
  "line_path p q n ps \<longleftrightarrow> length ps = Suc n \<and> hd ps = p \<and> last ps = q \<and> successively touching ps"

lemma line_path_Cons:
  assumes "line_path p' q n ps" "touching p p'"
  shows "line_path p q (Suc n) (p # ps)"
  using assms by (cases ps) (auto simp: line_path_def)

lemma line_loop_end: "line_loop fb c ax ay sx sy x1 y1 x1 y1 err m = Some (plot fb c [(x1, y1)] m)"
  by (subst line_loop.simps) (simp add: plot_def)

lemma line_loop_step:
  assumes "x0 \<noteq> x1 \<or> y0 \<noteq> y1"
  shows "line_loop fb c ax ay sx sy x1 y1 x0 y0 err m =
    line_loop fb c ax ay sx sy x1 y1 (if err > - ax then x0 + sx else x0) (if err < ay then y0 + sy else y0)
      (err - (if err > - ax then ay else 0) + (if err < ay then ax else 0)) (plot fb c [(x0, y0)] m)"
  using assms by (subst line_loop.simps) (auto simp: plot_def Let_def)

text \<open>
  The loop when the horizontal distance is the larger one.  \<open>n\<close> is the horizontal and \<open>k\<close> the vertical
  distance still to go, and the error term records how far the two are out of step.
\<close>

lemma line_loop_flat:
  assumes "ay < ax" "0 \<le> ay" "sx = 1 \<or> sx = - 1" "sy = 1 \<or> sy = - 1"
    and "0 \<le> e0" "e0 < ax" "0 \<le> err" "err < ax" "err + ax * k - ay * int n = e0"
  shows "\<exists>ps. line_path (x1 - sx * int n, y1 - sy * k) (x1, y1) n ps \<and>
    (\<forall>m. line_loop fb c ax ay sx sy x1 y1 (x1 - sx * int n) (y1 - sy * k) err m = Some (plot fb c ps m))"
  using assms(7-9)
proof (induction n arbitrary: err k)
  case 0
  have "k = 0"
  proof (rule ccontr)
    assume "k \<noteq> 0"
    then have "ax \<le> \<bar>ax * k\<bar>" using assms(1,2) by (auto simp: abs_mult intro: mult_le_cancel_left1 [THEN iffD2])
    with 0 assms(5,6) show False by (auto simp: abs_if split: if_splits)
  qed
  then show ?case by (intro exI [of _ "[(x1, y1)]"]) (simp add: line_path_def line_loop_end)
next
  case (Suc n)
  define k' where "k' = (if err < ay then k - 1 else k)"
  define err' where "err' = err - ay + (if err < ay then ax else 0)"
  have "0 \<le> err'" "err' < ax" "err' + ax * k' - ay * int n = e0"
    using Suc.prems assms(1,2) by (auto simp: err'_def k'_def algebra_simps)
  from Suc.IH [OF this] obtain ps where
    ps: "line_path (x1 - sx * int n, y1 - sy * k') (x1, y1) n ps"
      "\<And>m. line_loop fb c ax ay sx sy x1 y1 (x1 - sx * int n) (y1 - sy * k') err' m = Some (plot fb c ps m)" by blast
  define p where "p = (x1 - sx * int (Suc n), y1 - sy * k)"
  have "touching p (x1 - sx * int n, y1 - sy * k')"
    using assms(3,4) by (auto simp: p_def touching_def k'_def algebra_simps)
  with ps(1) have "line_path p (x1, y1) (Suc n) (p # ps)" by (rule line_path_Cons)
  moreover have "line_loop fb c ax ay sx sy x1 y1 (fst p) (snd p) err m = Some (plot fb c (p # ps) m)" for m
  proof -
    have ne: "fst p \<noteq> x1 \<or> snd p \<noteq> y1" using assms(3) by (auto simp: p_def)
    have "err > - ax" using Suc.prems(1) assms(1,2) by simp
    moreover have "fst p + sx = x1 - sx * int n" "(if err < ay then snd p + sy else snd p) = y1 - sy * k'"
      by (simp_all add: p_def k'_def algebra_simps)
    moreover have "err - ay + (if err < ay then ax else 0) = err'" by (simp add: err'_def)
    ultimately show ?thesis unfolding line_loop_step [OF ne] by (simp add: ps(2) plot_def)
  qed
  ultimately show ?case unfolding p_def by auto
qed

lemma line_loop_steep:
  assumes "ax \<le> ay" "0 \<le> ax" "0 < ay" "sx = 1 \<or> sx = - 1" "sy = 1 \<or> sy = - 1"
    and "- ay < e0" "e0 \<le> 0" "- ay < err" "err \<le> 0" "err + ax * int n - ay * k = e0"
  shows "\<exists>ps. line_path (x1 - sx * k, y1 - sy * int n) (x1, y1) n ps \<and>
    (\<forall>m. line_loop fb c ax ay sx sy x1 y1 (x1 - sx * k) (y1 - sy * int n) err m = Some (plot fb c ps m))"
  using assms(8-10)
proof (induction n arbitrary: err k)
  case 0
  have "k = 0"
  proof (rule ccontr)
    assume "k \<noteq> 0"
    then have "ay \<le> \<bar>ay * k\<bar>" using assms(3) by (auto simp: abs_mult intro: mult_le_cancel_left1 [THEN iffD2])
    with 0 assms(6,7) show False by (auto simp: abs_if split: if_splits)
  qed
  then show ?case by (intro exI [of _ "[(x1, y1)]"]) (simp add: line_path_def line_loop_end)
next
  case (Suc n)
  define k' where "k' = (if err > - ax then k - 1 else k)"
  define err' where "err' = err + ax - (if err > - ax then ay else 0)"
  have "- ay < err'" "err' \<le> 0" "err' + ax * int n - ay * k' = e0"
    using Suc.prems assms(1-3) by (auto simp: err'_def k'_def algebra_simps)
  from Suc.IH [OF this] obtain ps where
    ps: "line_path (x1 - sx * k', y1 - sy * int n) (x1, y1) n ps"
      "\<And>m. line_loop fb c ax ay sx sy x1 y1 (x1 - sx * k') (y1 - sy * int n) err' m = Some (plot fb c ps m)" by blast
  define p where "p = (x1 - sx * k, y1 - sy * int (Suc n))"
  have "touching p (x1 - sx * k', y1 - sy * int n)"
    using assms(4,5) by (auto simp: p_def touching_def k'_def algebra_simps)
  with ps(1) have "line_path p (x1, y1) (Suc n) (p # ps)" by (rule line_path_Cons)
  moreover have "line_loop fb c ax ay sx sy x1 y1 (fst p) (snd p) err m = Some (plot fb c (p # ps) m)" for m
  proof -
    have ne: "fst p \<noteq> x1 \<or> snd p \<noteq> y1" using assms(5) by (auto simp: p_def)
    have "err < ay" using Suc.prems(2) assms(3) by simp
    moreover have "snd p + sy = y1 - sy * int n" "(if err > - ax then fst p + sx else fst p) = x1 - sx * k'"
      by (simp_all add: p_def k'_def algebra_simps)
    moreover have "err - (if err > - ax then ay else 0) + ax = err'" by (simp add: err'_def)
    ultimately show ?thesis unfolding line_loop_step [OF ne] by (simp add: ps(2) plot_def)
  qed
  ultimately show ?case unfolding p_def by auto
qed

text \<open>Each direction of travel is a multiple of its step.\<close>

lemma line_ends:
  assumes "sx = (if d < 0 then - 1 else 1)"
  shows "\<exists>n. (if d < 0 then - d else d) = int n \<and> (x + d) - sx * int n = (x :: int)"
  using assms by (intro exI [of _ "nat \<bar>d\<bar>"]) auto

section \<open>Properties\<close>

text \<open>
  \<^verbatim>\<open>fb_line\<close> terminates for all end points and draws a path of exactly \<open>max |dx| |dy| + 1\<close> pixels, from
  the first end point to the second, each pixel touching the one before.
\<close>

theorem fb_line_connects:
  "\<exists>ps. line_path (x0, y0) (x1, y1) (nat (max \<bar>x1 - x0\<bar> \<bar>y1 - y0\<bar>)) ps \<and>
    (\<forall>m. fb_line fb x0 y0 x1 y1 c m = Some (plot fb c ps m))"
proof -
  define sx sy where s: "sx = (if x1 - x0 < 0 then - 1 else (1 :: int))" "sy = (if y1 - y0 < 0 then - 1 else (1 :: int))"
  obtain n k where n: "(if x1 - x0 < 0 then - (x1 - x0) else x1 - x0) = int n" "x1 - sx * int n = x0"
    and k: "(if y1 - y0 < 0 then - (y1 - y0) else y1 - y0) = int k" "y1 - sy * int k = y0"
    using line_ends [OF s(1), of x0] line_ends [OF s(2), of y0] by auto
  have run: "fb_line fb x0 y0 x1 y1 c m =
      line_loop fb c (int n) (int k) sx sy x1 y1 x0 y0 (half (if int n > int k then int n else - int k)) m" for m
    unfolding fb_line_def Let_def n(1) k(1) s [symmetric] ..
  have abs: "\<bar>x1 - x0\<bar> = int n" "\<bar>y1 - y0\<bar> = int k" using n(1) k(1) by (auto split: if_splits)
  have sg: "sx = 1 \<or> sx = - 1" "sy = 1 \<or> sy = - 1" by (simp_all add: s)
  consider "k < n" | "n \<le> k" "0 < k" | "n = 0" "k = 0" by linarith
  then show ?thesis
  proof cases
    case 1
    from line_loop_flat [of "int k" "int n" sx sy "int n div 2" "int n div 2" "int k" n x1 y1 fb c] 1 sg n(2) k(2)
    show ?thesis unfolding run abs by (simp add: half_def)
  next
    case 2
    from line_loop_steep [of "int n" "int k" sx sy "- (int k div 2)" "- (int k div 2)" k "int n" x1 y1 fb c] 2 sg n(2) k(2)
    show ?thesis unfolding run abs by (simp add: half_def)
  next
    case 3
    then have "x0 = x1" "y0 = y1" using n(2) k(2) by simp_all
    then show ?thesis unfolding run abs using 3
      by (intro exI [of _ "[(x1, y1)]"]) (simp add: line_path_def line_loop_end)
  qed
qed

text \<open>
  In a 32-bit mode whose rows do not overlap, \<^verbatim>\<open>fb_rect\<close> paints exactly the part of the rectangle that
  is on the screen: every pixel inside has the colour, every other pixel and every byte outside
  the frame buffer is unchanged.  It holds for rectangles whose coordinates fit the 16-bit
  clipping test, also when they are partly or wholly outside the screen.
\<close>

theorem fb_rect_paints:
  assumes "fb_ok fb" "\<forall>px py. x \<le> px \<and> px < x + w \<and> y \<le> py \<and> py < y + h \<longrightarrow> in_range fb px py"
  shows "(\<forall>px py. on_screen fb px py \<longrightarrow> pixel fb (fb_rect fb x y w h c m) px py =
      (if x \<le> px \<and> px < x + w \<and> y \<le> py \<and> py < y + h then c else pixel fb m px py)) \<and>
    (\<forall>a. a < unat (fb_addr fb) \<or> unat (fb_addr fb) + unat (fb_height fb) * unat (fb_pitch fb) \<le> a \<longrightarrow>
      fb_rect fb x y w h c m a = m a)"
proof -
  have "\<forall>(px, py) \<in> set (rect_points x y w h). in_range fb px py"
    using assms(2) by (auto simp: set_rect_points)
  with plot_pixel [OF assms(1) this] plot_frame [OF assms(1) this] show ?thesis
    unfolding fb_rect_plot by (simp add: set_rect_points)
qed

definition sample_fb :: fb_info where
  "sample_fb = \<lparr>fb_addr = 0xE0000000, fb_pitch = 4096, fb_width = 1024, fb_height = 768, fb_bpp = 32, fb_active = True\<rparr>"

lemma sample_fb_ok: "fb_ok sample_fb"
  by (simp add: fb_ok_def sample_fb_def)

theorem fb_rect_paints_witness:
  "pixel sample_fb (fb_rect sample_fb (- 5) 760 20 100 0x00CC0000 (\<lambda>_. 0)) 14 767 = 0x00CC0000 \<and>
   pixel sample_fb (fb_rect sample_fb (- 5) 760 20 100 0x00CC0000 (\<lambda>_. 0)) 15 767 = pixel sample_fb (\<lambda>_. 0) 15 767"
proof -
  have "\<forall>px py. - 5 \<le> px \<and> px < - 5 + 20 \<and> 760 \<le> py \<and> py < 760 + 100 \<longrightarrow> in_range sample_fb px py"
    by (simp add: in_range_def sample_fb_def)
  from fb_rect_paints [OF sample_fb_ok this, of "0x00CC0000" "\<lambda>_. 0"] show ?thesis
    by (simp add: on_screen_def sample_fb_def)
qed

text \<open>The clipping test truncates: a pixel 65536 columns to the right of the screen passes it and is stored
  256 KiB further on, outside its row.\<close>

theorem fb_pixel_clip_wraps:
  "fb_pixel sample_fb 0x10000 0 c m = store32 (0xE0000000 + 0x40000) c m"
  by (simp add: fb_pixel_def put_pixel_32_def sample_fb_def)

text \<open>The font has the leftmost column of a glyph in bit 0, \<^verbatim>\<open>fb_char\<close> draws it in bit 7: letters are mirrored.
  The stem of an L is drawn in columns 5 and 6 of 8.\<close>

theorem fb_char_mirrors:
  "map (\<lambda>row. map (\<lambda>col. font_8x16 ! 0x4C ! row AND drop_bit col 0x80 \<noteq> 0) [0 ..< 8]) [2 ..< 8] =
     replicate 6 [False, False, False, False, False, True, True, False]"
proof -
  have "font_8x16 ! 0x4C = [0, 0, 6, 6, 6, 6, 6, 6, 0x7E, 0, 0, 0, 0, 0, 0, 0]" by (simp add: font_8x16_def)
  moreover have "[0 ..< 8] = [0, 1, 2, 3, 4, 5, 6, 7 :: nat]" "[2 ..< 8] = [2, 3, 4, 5, 6, 7 :: nat]"
    by (simp_all add: upt_rec)
  moreover have "replicate 6 x = [x, x, x, x, x, x]" for x :: "bool list" by (simp add: eval_nat_numeral)
  ultimately show ?thesis by (simp add: drop_bit_Suc)
qed

end
