(* ===== verification/Gui.thy ===== *)
theory Gui
  imports Framebuffer
begin

text \<open>
  The window system \<^verbatim>\<open>kernel/gui/gui.c\<close>: a table of eight windows, each with a text cursor, drawn through the
  frame buffer.  A \<^verbatim>\<open>gui_window_t *\<close> is the index of the window in the table, \<open>None\<close> for \<^verbatim>\<open>NULL\<close>.  A key
  handler is a code address; \<^verbatim>\<open>NULL\<close> is \<open>None\<close>.
\<close>

section \<open>Windows\<close>

definition GUI_TITLEBAR_H :: int where "GUI_TITLEBAR_H = 20"
definition GUI_BORDER :: int where "GUI_BORDER = 2"
definition GUI_MAX_WINDOWS :: nat where "GUI_MAX_WINDOWS = 8"

definition RGB :: "u32 \<Rightarrow> u32 \<Rightarrow> u32 \<Rightarrow> u32" where
  "RGB r g b = push_bit 16 r OR push_bit 8 g OR b"

definition COLOR_BLACK :: u32 where "COLOR_BLACK = RGB 0 0 0"
definition COLOR_WHITE :: u32 where "COLOR_WHITE = RGB 0xFF 0xFF 0xFF"
definition COLOR_RED :: u32 where "COLOR_RED = RGB 0xCC 0 0"
definition COLOR_CYAN :: u32 where "COLOR_CYAN = RGB 0 0xCC 0xCC"
definition COLOR_NAVY :: u32 where "COLOR_NAVY = RGB 0 0 0x80"
definition COLOR_LTBLUE :: u32 where "COLOR_LTBLUE = RGB 0x60 0x90 0xD0"

record gui_window =
  win_x :: int
  win_y :: int
  win_w :: int
  win_h :: int
  win_title :: "u8 list"
  win_visible :: bool
  win_bg_color :: u32
  win_on_key :: "nat option"

record gui =
  windows :: "gui_window list"
  nwindows :: nat
  cursor_x :: "int list"
  cursor_y :: "int list"

definition desktop_bg :: u32 where "desktop_bg = COLOR_NAVY"
definition taskbar_bg :: u32 where "taskbar_bg = RGB 0x20 0x40 0x80"
definition title_active :: u32 where "title_active = COLOR_LTBLUE"
definition title_text :: u32 where "title_text = COLOR_WHITE"
definition border_col :: u32 where "border_col = RGB 0x90 0xB0 0xD0"
definition win_bg :: u32 where "win_bg = RGB 0xF0 0xF0 0xF0"

section \<open>Drawing\<close>

definition desktop_row :: "fb_info \<Rightarrow> int \<Rightarrow> memory \<Rightarrow> memory" where
  "desktop_row fb y =
     (let shade = (ucast (word_of_int (y * 0x30 div uint (fb_height fb)) :: u32) :: u8)
      in fb_hline fb 0 y (uint (fb_width fb)) (RGB 0 (ucast shade) (0x80 + ucast shade)))"

definition gui_draw_desktop :: "fb_info \<Rightarrow> memory \<Rightarrow> memory" where
  "gui_draw_desktop fb m =
     (let w = uint (fb_width fb); h = uint (fb_height fb); th = 28;
          m = fb_clear fb desktop_bg m;
          m = fold (desktop_row fb) [0 .. h - 1] m;
          m = fb_rect fb 0 (h - th) w th taskbar_bg m;
          m = fb_hline fb 0 (h - th) w COLOR_LTBLUE m;
          m = fb_string fb 8 (h - th + 6) (c_string ''Aerogel OS v0.1.0'') COLOR_WHITE taskbar_bg m
      in fb_string fb (w - 100) (h - th + 6) (c_string ''Phase 8'') COLOR_CYAN taskbar_bg m)"

definition gui_draw_window :: "fb_info \<Rightarrow> gui_window \<Rightarrow> memory \<Rightarrow> memory" where
  "gui_draw_window fb win m =
     (if \<not> win_visible win then m
      else
        let m = fb_rect fb (win_x win) (win_y win) (win_w win) (win_h win) win_bg m;
            m = fb_rect fb (win_x win) (win_y win) (win_w win) GUI_TITLEBAR_H title_active m;
            m = fb_string fb (win_x win + 6) (win_y win + 3) (win_title win) title_text title_active m;
            cx = win_x win + win_w win - 18;
            cy = win_y win + 3;
            m = fb_rect fb cx cy 14 14 COLOR_RED m;
            m = fb_string fb (cx + 4) (cy + 1) (c_string ''x'') COLOR_WHITE COLOR_RED m
        in fb_rect_outline fb (win_x win) (win_y win) (win_w win) (win_h win) GUI_BORDER border_col m)"

definition gui_draw_all :: "fb_info \<Rightarrow> gui \<Rightarrow> memory \<Rightarrow> memory" where
  "gui_draw_all fb g m =
     fold (\<lambda>i. gui_draw_window fb (windows g ! i)) [0 ..< nwindows g] (gui_draw_desktop fb m)"

section \<open>The window table\<close>

definition zero_window :: gui_window where
  "zero_window = \<lparr>win_x = 0, win_y = 0, win_w = 0, win_h = 0, win_title = [], win_visible = False, win_bg_color = 0, win_on_key = None\<rparr>"

definition gui_init :: "fb_info \<Rightarrow> gui \<times> memory \<Rightarrow> gui \<times> memory" where
  "gui_init fb = (\<lambda>(g, m). (g\<lparr>windows := replicate GUI_MAX_WINDOWS zero_window, nwindows := 0\<rparr>, gui_draw_desktop fb m))"

text \<open>The title array is cleared before \<^verbatim>\<open>strncpy\<close> stores at most 63 characters in its 64 bytes.\<close>

definition gui_create_window ::
  "fb_info \<Rightarrow> u8 list \<Rightarrow> int \<Rightarrow> int \<Rightarrow> int \<Rightarrow> int \<Rightarrow> gui \<times> memory \<Rightarrow> nat option \<times> gui \<times> memory" where
  "gui_create_window fb title x y w h = (\<lambda>(g, m).
     if nwindows g \<ge> GUI_MAX_WINDOWS then (None, g, m)
     else
       let idx = nwindows g;
           win = zero_window\<lparr>win_x := x, win_y := y, win_w := w, win_h := h, win_visible := True,
             win_bg_color := win_bg, win_title := take 63 title\<rparr>;
           g = g\<lparr>nwindows := idx + 1, windows := (windows g)[idx := win],
             cursor_x := (cursor_x g)[idx := 4], cursor_y := (cursor_y g)[idx := GUI_TITLEBAR_H + 4]\<rparr>
       in (Some idx, g, gui_draw_window fb win m))"

definition gui_destroy_window :: "fb_info \<Rightarrow> nat option \<Rightarrow> gui \<times> memory \<Rightarrow> gui \<times> memory" where
  "gui_destroy_window fb win = (\<lambda>(g, m).
     case win of
       None \<Rightarrow> (g, m)
     | Some i \<Rightarrow>
         let g = g\<lparr>windows := (windows g)[i := (windows g ! i)\<lparr>win_visible := False\<rparr>]\<rparr>
         in (g, fold (\<lambda>j m. if j \<noteq> i then gui_draw_window fb (windows g ! j) m else m) [0 ..< nwindows g]
                  (gui_draw_desktop fb m)))"

section \<open>Text in a window\<close>

definition client_right :: "gui_window \<Rightarrow> int" where
  "client_right win = win_x win + win_w win - GUI_BORDER - 2"

definition client_bot :: "gui_window \<Rightarrow> int" where
  "client_bot win = win_y win + win_h win - GUI_BORDER - 2"

text \<open>One round of the loop of \<^verbatim>\<open>gui_window_print\<close> on the two cursor variables and the screen.\<close>

definition print_char :: "fb_info \<Rightarrow> gui_window \<Rightarrow> u32 \<Rightarrow> u8 \<Rightarrow> int \<times> int \<times> memory \<Rightarrow> int \<times> int \<times> memory" where
  "print_char fb win fg c = (\<lambda>(cx, cy, m).
     if c = 0x0A then (4, cy + FB_FONT_H, m)
     else
       let (cx, cy) = (if win_x win + cx + FB_FONT_W > client_right win then (4, cy + FB_FONT_H) else (cx, cy));
           (cy, m) =
             (if win_y win + cy + FB_FONT_H > client_bot win
              then (GUI_TITLEBAR_H + 4,
                    fb_rect fb (win_x win + 2) (win_y win + GUI_TITLEBAR_H) (win_w win - 4)
                      (win_h win - GUI_TITLEBAR_H - 2) (win_bg_color win) m)
              else (cy, m));
           m = fb_char fb (win_x win + cx) (win_y win + cy) c fg (win_bg_color win) m
       in (cx + FB_FONT_W, cy, m))"

definition gui_window_print :: "fb_info \<Rightarrow> nat \<Rightarrow> u8 list \<Rightarrow> u32 \<Rightarrow> gui \<times> memory \<Rightarrow> gui \<times> memory" where
  "gui_window_print fb idx cs fg = (\<lambda>(g, m).
     let (cx, cy, m) = fold (print_char fb (windows g ! idx) fg) cs (cursor_x g ! idx, cursor_y g ! idx, m)
     in (g\<lparr>cursor_x := (cursor_x g)[idx := cx], cursor_y := (cursor_y g)[idx := cy]\<rparr>, m))"

definition gui_window_clear :: "fb_info \<Rightarrow> nat \<Rightarrow> gui \<times> memory \<Rightarrow> gui \<times> memory" where
  "gui_window_clear fb idx = (\<lambda>(g, m).
     let win = windows g ! idx
     in (g\<lparr>cursor_x := (cursor_x g)[idx := 4], cursor_y := (cursor_y g)[idx := GUI_TITLEBAR_H + 4]\<rparr>,
         fb_rect fb (win_x win + GUI_BORDER) (win_y win + GUI_TITLEBAR_H) (win_w win - GUI_BORDER * 2)
           (win_h win - GUI_TITLEBAR_H - GUI_BORDER) (win_bg_color win) m))"

text \<open>
  \<^verbatim>\<open>gui_dispatch_key\<close> calls the handlers, which are unknown code: \<open>call\<close> says what the handler at an address does
  with a key to the windows.  The bound of the loop is read again in every round.
\<close>

partial_function (option) dispatch_key_from :: "(nat \<Rightarrow> u8 \<Rightarrow> gui \<Rightarrow> gui) \<Rightarrow> u8 \<Rightarrow> nat \<Rightarrow> gui \<Rightarrow> gui option" where
  "dispatch_key_from call c i g =
     (if i < nwindows g then
        let win = windows g ! i
        in dispatch_key_from call c (i + 1)
             (case win_on_key win of None \<Rightarrow> g | Some h \<Rightarrow> if win_visible win then call h c g else g)
      else Some g)"

definition gui_dispatch_key :: "(nat \<Rightarrow> u8 \<Rightarrow> gui \<Rightarrow> gui) \<Rightarrow> u8 \<Rightarrow> gui \<Rightarrow> gui option" where
  "gui_dispatch_key call c g = dispatch_key_from call c 0 g"

section \<open>A page of text\<close>

text \<open>
  The reference for the text of a window: a page of \<open>cols\<close> by \<open>rows\<close> characters.  A character that does not
  fit in its line goes to the next line, a line that does not fit on the page wipes the page and
  starts again at the top.
\<close>

datatype page_event = Wipe | Glyph int int u8

fun page_step :: "int \<Rightarrow> int \<Rightarrow> u8 \<Rightarrow> int \<times> int \<times> page_event list \<Rightarrow> int \<times> int \<times> page_event list" where
  "page_step cols rows c (col, row, evs) =
     (if c = 0x0A then (0, row + 1, evs)
      else
        let (col, row) = (if col < cols then (col, row) else (0, row + 1));
            (row, evs) = (if row < rows then (row, evs) else (0, evs @ [Wipe]))
        in (col + 1, row, evs @ [Glyph col row c]))"

definition win_cols :: "gui_window \<Rightarrow> int" where "win_cols win = (win_w win - 8) div 8"
definition win_rows :: "gui_window \<Rightarrow> int" where "win_rows win = (win_h win - 28) div 16"

fun paint :: "fb_info \<Rightarrow> gui_window \<Rightarrow> u32 \<Rightarrow> page_event \<Rightarrow> memory \<Rightarrow> memory" where
  "paint fb win fg Wipe = fb_rect fb (win_x win + 2) (win_y win + 20) (win_w win - 4) (win_h win - 22) (win_bg_color win)"
| "paint fb win fg (Glyph col row c) = fb_char fb (win_x win + 4 + 8 * col) (win_y win + 24 + 16 * row) c fg (win_bg_color win)"

definition on_page :: "gui_window \<Rightarrow> page_event \<Rightarrow> bool" where
  "on_page win e = (case e of Wipe \<Rightarrow> True | Glyph col row c \<Rightarrow> 0 \<le> col \<and> col < win_cols win \<and> 0 \<le> row \<and> row < win_rows win)"

lemma fits_cols: "win_x win + (4 + 8 * col) + FB_FONT_W > client_right win \<longleftrightarrow> \<not> col < win_cols win"
  by (simp add: client_right_def GUI_BORDER_def FB_FONT_W_def win_cols_def) presburger

lemma fits_rows: "win_y win + (24 + 16 * row) + FB_FONT_H > client_bot win \<longleftrightarrow> \<not> row < win_rows win"
  by (simp add: client_bot_def GUI_BORDER_def FB_FONT_H_def win_rows_def) presburger

lemma print_char_page:
  assumes "page_step (win_cols win) (win_rows win) c (col, row, evs) = (col', row', evs')"
  shows "print_char fb win fg c (4 + 8 * col, 24 + 16 * row, fold (paint fb win fg) evs m) =
    (4 + 8 * col', 24 + 16 * row', fold (paint fb win fg) evs' m)"
proof -
  have next_row: "24 + 16 * row + FB_FONT_H = 24 + 16 * (row + 1)" "24 + 16 * row + 16 = 24 + 16 * (row + 1)" for row
    by (simp_all add: FB_FONT_H_def)
  show ?thesis
    using assms fits_cols [of win col] fits_rows [of win row] fits_rows [of win "row + 1"] fits_cols [of win 0]
    by (auto simp: print_char_def Let_def FB_FONT_W_def FB_FONT_H_def GUI_TITLEBAR_H_def algebra_simps split: if_splits)
qed

lemma print_page:
  assumes "fold (page_step (win_cols win) (win_rows win)) cs (col, row, evs) = (col', row', evs')"
  shows "fold (print_char fb win fg) cs (4 + 8 * col, 24 + 16 * row, fold (paint fb win fg) evs m) =
    (4 + 8 * col', 24 + 16 * row', fold (paint fb win fg) evs' m)"
  using assms
proof (induction cs arbitrary: col row evs)
  case (Cons c cs)
  obtain col1 row1 evs1 where s: "page_step (win_cols win) (win_rows win) c (col, row, evs) = (col1, row1, evs1)"
    using prod_cases3 by blast
  from Cons s show ?case by (simp only: fold_simps print_char_page [OF s])
qed simp

text \<open>Every character lands on the page, and the column and row stay within one step of it.\<close>

lemma page_step_inv:
  assumes "page_step cols rows c (col, row, evs) = (col', row', evs')" "0 \<le> col" "0 \<le> row" "0 < cols" "0 < rows"
  shows "0 \<le> col'" "0 \<le> row'" "\<exists>new. evs' = evs @ new \<and> (\<forall>e \<in> set new. e = Wipe \<or>
    (\<exists>x y. e = Glyph x y c \<and> 0 \<le> x \<and> x < cols \<and> 0 \<le> y \<and> y < rows))"
  using assms by (auto simp: Let_def split: if_splits)

lemma page_text_inv:
  assumes "fold (page_step cols rows) cs (col, row, evs) = (col', row', evs')" "0 \<le> col" "0 \<le> row" "0 < cols" "0 < rows"
    and "\<forall>x y c. Glyph x y c \<in> set evs \<longrightarrow> 0 \<le> x \<and> x < cols \<and> 0 \<le> y \<and> y < rows"
  shows "0 \<le> col' \<and> 0 \<le> row' \<and> (\<forall>x y c. Glyph x y c \<in> set evs' \<longrightarrow> 0 \<le> x \<and> x < cols \<and> 0 \<le> y \<and> y < rows)"
  using assms(1-3,6)
proof (induction cs arbitrary: col row evs)
  case (Cons c cs)
  obtain col1 row1 evs1 where s: "page_step cols rows c (col, row, evs) = (col1, row1, evs1)"
    using prod_cases3 by blast
  note I = page_step_inv [OF s Cons.prems(2,3) assms(4,5)]
  have "\<forall>x y c. Glyph x y c \<in> set evs1 \<longrightarrow> 0 \<le> x \<and> x < cols \<and> 0 \<le> y \<and> y < rows"
    using I(3) Cons.prems(4) by fastforce
  moreover have "fold (page_step cols rows) cs (col1, row1, evs1) = (col', row', evs')"
    using Cons.prems(1) by (simp only: fold_simps s)
  ultimately show ?case using Cons.IH I(1,2) by blast
qed simp


section \<open>Where text is drawn\<close>

lemma fb_pixel_elsewhere:
  assumes "fb_ok fb" "in_range fb x y" "on_screen fb px py" "(px, py) \<noteq> (x, y)"
  shows "pixel fb (fb_pixel fb x y c m) px py = pixel fb m px py"
  using plot_pixel [OF assms(1) _ assms(3), of "[(x, y)]" c m] assms(2,4) by (auto simp: plot_def)

lemma fb_char_elsewhere:
  assumes "fb_ok fb" "on_screen fb px py" "\<not> (x \<le> px \<and> px < x + 8 \<and> y \<le> py \<and> py < y + 16)"
    and "\<And>i j. 0 \<le> i \<Longrightarrow> i < 8 \<Longrightarrow> 0 \<le> j \<Longrightarrow> j < 16 \<Longrightarrow> in_range fb (x + i) (y + j)"
  shows "pixel fb (fb_char fb x y c fg bg m) px py = pixel fb m px py"
  unfolding fb_char_def Let_def
proof (rule fold_unchanged [where g = "\<lambda>m. pixel fb m px py"], rule fold_unchanged [where g = "\<lambda>m. pixel fb m px py"])
  fix row col :: int and s c
  assume "row \<in> set [0 .. FB_FONT_H - 1]" "col \<in> set [0 .. FB_FONT_W - 1]"
  then have r: "0 \<le> row" "row < 16" "0 \<le> col" "col < 8" by (simp_all add: FB_FONT_H_def FB_FONT_W_def)
  then have "(px, py) \<noteq> (x + col, y + row)" using assms(3) by auto
  with r show "pixel fb (fb_pixel fb (x + col) (y + row) c s) px py = pixel fb s px py"
    using fb_pixel_elsewhere [OF assms(1) assms(4) assms(2)] by simp
qed

text \<open>The part of a window inside its border and below its title bar.\<close>

definition client_area :: "gui_window \<Rightarrow> int \<Rightarrow> int \<Rightarrow> bool" where
  "client_area win px py \<longleftrightarrow> win_x win + 2 \<le> px \<and> px < win_x win + win_w win - 2 \<and>
     win_y win + 20 \<le> py \<and> py < win_y win + win_h win - 2"

definition win_in_range :: "fb_info \<Rightarrow> gui_window \<Rightarrow> bool" where
  "win_in_range fb win \<longleftrightarrow> (\<forall>px py. client_area win px py \<longrightarrow> in_range fb px py)"

lemma glyph_in_client:
  assumes "0 \<le> col" "col < win_cols win" "0 \<le> row" "row < win_rows win" "0 \<le> i" "i < 8" "0 \<le> j" "j < 16"
  shows "client_area win (win_x win + 4 + 8 * col + i) (win_y win + 24 + 16 * row + j)"
proof -
  have "8 * (col + 1) \<le> win_w win - 8" "16 * (row + 1) \<le> win_h win - 28"
    using assms(2,4) unfolding win_cols_def win_rows_def by presburger+
  with assms show ?thesis by (simp add: client_area_def)
qed

lemma paint_elsewhere:
  assumes "fb_ok fb" "win_in_range fb win" "on_page win e" "on_screen fb px py" "\<not> client_area win px py"
  shows "pixel fb (paint fb win fg e m) px py = pixel fb m px py"
proof (cases e)
  case Wipe
  have r: "\<forall>(x, y) \<in> set (rect_points (win_x win + 2) (win_y win + 20) (win_w win - 4) (win_h win - 22)). in_range fb x y"
    using assms(2) by (auto simp: set_rect_points win_in_range_def client_area_def)
  have "(px, py) \<notin> set (rect_points (win_x win + 2) (win_y win + 20) (win_w win - 4) (win_h win - 22))"
    using assms(5) by (auto simp: set_rect_points client_area_def)
  with plot_pixel [OF assms(1) r assms(4)] show ?thesis by (simp add: Wipe fb_rect_plot)
next
  case (Glyph col row c)
  let ?x = "win_x win + 4 + 8 * col" and ?y = "win_y win + 24 + 16 * row"
  have inside: "client_area win (?x + i) (?y + j)" if "0 \<le> i" "i < 8" "0 \<le> j" "j < 16" for i j
    using glyph_in_client [of col win row] that assms(3) by (simp add: Glyph on_page_def)
  have "\<not> (?x \<le> px \<and> px < ?x + 8 \<and> ?y \<le> py \<and> py < ?y + 16)"
    using inside [of "px - ?x" "py - ?y"] assms(5) by auto
  with fb_char_elsewhere [OF assms(1,4)] inside assms(2) show ?thesis by (simp add: Glyph win_in_range_def)
qed

section \<open>Sequences of operations\<close>

datatype gui_op = Create "u8 list" int int int int | Destroy nat | Print nat "u8 list" u32 | Clear nat

fun gui_do :: "fb_info \<Rightarrow> gui_op \<Rightarrow> gui \<times> memory \<Rightarrow> gui \<times> memory" where
  "gui_do fb (Create t x y w h) s = snd (gui_create_window fb t x y w h s)"
| "gui_do fb (Destroy i) s = gui_destroy_window fb (Some i) s"
| "gui_do fb (Print i t fg) s = gui_window_print fb i t fg s"
| "gui_do fb (Clear i) s = gui_window_clear fb i s"

definition gui_inv :: "gui \<Rightarrow> bool" where
  "gui_inv g \<longleftrightarrow> length (windows g) = GUI_MAX_WINDOWS \<and> length (cursor_x g) = GUI_MAX_WINDOWS \<and>
     length (cursor_y g) = GUI_MAX_WINDOWS \<and> nwindows g \<le> GUI_MAX_WINDOWS"

fun is_create :: "gui_op \<Rightarrow> bool" where
  "is_create (Create t x y w h) = True"
| "is_create _ = False"

lemma gui_do_inv:
  assumes "gui_inv (fst s)"
  shows "gui_inv (fst (gui_do fb p s))"
    "nwindows (fst (gui_do fb p s)) = (if is_create p then min GUI_MAX_WINDOWS (nwindows (fst s) + 1) else nwindows (fst s))"
  using assms
  by (cases p; cases s; simp add: gui_inv_def gui_create_window_def gui_destroy_window_def gui_window_print_def
      gui_window_clear_def Let_def split: prod.split)+

section \<open>Properties\<close>

text \<open>
  C36: Printing into a window is printing on a page.  For every text, the cursor variables and the
  screen after \<^verbatim>\<open>gui_window_print\<close> are those of a page of \<open>(w - 8) / 8\<close> columns and \<open>(h - 28) / 16\<close> rows:
  new lines, wrapping at the right edge and starting again on a wiped page at the bottom.  In a
  window with at least one column and one row no character is drawn off the page.
\<close>

theorem gui_print_refines_page:
  assumes "cursor_x g ! idx = 4 + 8 * col" "cursor_y g ! idx = 24 + 16 * row" "0 \<le> col" "0 \<le> row"
    and "0 < win_cols (windows g ! idx)" "0 < win_rows (windows g ! idx)"
  shows "\<exists>col' row' evs.
    fold (page_step (win_cols (windows g ! idx)) (win_rows (windows g ! idx))) cs (col, row, []) = (col', row', evs) \<and>
    gui_window_print fb idx cs fg (g, m) =
      (g\<lparr>cursor_x := (cursor_x g)[idx := 4 + 8 * col'], cursor_y := (cursor_y g)[idx := 24 + 16 * row']\<rparr>,
       fold (paint fb (windows g ! idx) fg) evs m) \<and>
    (\<forall>e \<in> set evs. on_page (windows g ! idx) e)"
proof -
  let ?w = "windows g ! idx"
  obtain col' row' evs where r: "fold (page_step (win_cols ?w) (win_rows ?w)) cs (col, row, []) = (col', row', evs)"
    using prod_cases3 by blast
  have "gui_window_print fb idx cs fg (g, m) =
      (g\<lparr>cursor_x := (cursor_x g)[idx := 4 + 8 * col'], cursor_y := (cursor_y g)[idx := 24 + 16 * row']\<rparr>,
       fold (paint fb ?w fg) evs m)"
    using print_page [OF r, of fb fg m] by (simp add: gui_window_print_def assms(1,2))
  moreover have "\<forall>e \<in> set evs. on_page ?w e"
    using page_text_inv [OF r assms(3-6)] by (auto simp: on_page_def split: page_event.split)
  ultimately show ?thesis using r by blast
qed


text \<open>The window table: through every sequence of operations its arrays keep their lengths, and the
  number of windows is the number ever created, up to eight.  Destroying a window gives no slot
  back, so after eight windows \<^verbatim>\<open>gui_create_window\<close> returns \<^verbatim>\<open>NULL\<close> for ever.\<close>

theorem gui_slots_used_up:
  assumes "gui_inv g"
  shows "gui_inv (fst (fold (gui_do fb) ops (g, m))) \<and>
    nwindows (fst (fold (gui_do fb) ops (g, m))) = min GUI_MAX_WINDOWS (nwindows g + length (filter is_create ops)) \<and>
    (GUI_MAX_WINDOWS \<le> nwindows g + length (filter is_create ops) \<longrightarrow>
      fst (gui_create_window fb t x y w h (fold (gui_do fb) ops (g, m))) = None)"
proof -
  have "gui_inv (fst (fold (gui_do fb) ops s)) \<and>
      nwindows (fst (fold (gui_do fb) ops s)) = min GUI_MAX_WINDOWS (nwindows (fst s) + length (filter is_create ops))"
    if "gui_inv (fst s)" for s
    using that
  proof (induction ops arbitrary: s)
    case (Cons p ops)
    note G = gui_do_inv [OF Cons.prems, of fb p]
    from Cons.IH [OF G(1)] G(2) show ?case by (auto simp: min_def)
  qed (simp add: gui_inv_def)
  from this [of "(g, m)"] assms show ?thesis
    by (auto simp: gui_create_window_def split: prod.split)
qed


text \<open>The terminal window that \<^verbatim>\<open>kmain\<close> opens on a screen of 1024 by 768.\<close>

definition sample_gui :: gui where
  "sample_gui = fst (snd (gui_create_window sample_fb (c_string ''Terminal'') 20 30 984 688
     (\<lparr>windows = replicate 8 zero_window, nwindows = 0, cursor_x = replicate 8 0, cursor_y = replicate 8 0\<rparr>, \<lambda>_. 0)))"

lemma sample_gui_simps [simp]:
  "cursor_x sample_gui ! 0 = 4" "cursor_y sample_gui ! 0 = 24" "gui_inv sample_gui" "nwindows sample_gui = 1"
  "win_x (windows sample_gui ! 0) = 20" "win_y (windows sample_gui ! 0) = 30"
  "win_w (windows sample_gui ! 0) = 984" "win_h (windows sample_gui ! 0) = 688"
  by (simp_all add: sample_gui_def gui_create_window_def gui_inv_def GUI_MAX_WINDOWS_def GUI_TITLEBAR_H_def Let_def)

lemma sample_page: "win_cols (windows sample_gui ! 0) = 122" "win_rows (windows sample_gui ! 0) = 41"
  by (simp_all add: win_cols_def win_rows_def)

lemma sample_win_in_range: "win_in_range sample_fb (windows sample_gui ! 0)"
  by (auto simp: win_in_range_def client_area_def in_range_def sample_fb_def)

theorem gui_print_refines_page_witness:
  "\<exists>g m. gui_window_print sample_fb 0 [0x48, 0x69, 0x0A, 0x21] COLOR_BLACK (sample_gui, \<lambda>_. 0) = (g, m) \<and>
     cursor_x g ! 0 = 12 \<and> cursor_y g ! 0 = 40"
proof -
  have "length (cursor_x sample_gui) = 8" "length (cursor_y sample_gui) = 8"
    using sample_gui_simps(3) by (simp_all add: gui_inv_def GUI_MAX_WINDOWS_def)
  then show ?thesis
    using gui_print_refines_page [of sample_gui 0 0 0 "[0x48, 0x69, 0x0A, 0x21]" sample_fb COLOR_BLACK "\<lambda>_. 0"]
    by (auto simp: sample_page)
qed


theorem gui_slots_used_up_witness:
  "fst (gui_create_window sample_fb [] 0 0 100 100
     (fold (gui_do sample_fb) (replicate 7 (Create [] 0 0 100 100) @ [Destroy 0, Destroy 3]) (sample_gui, \<lambda>_. 0))) = None"
  using gui_slots_used_up [OF sample_gui_simps(3), where ops = "replicate 7 (Create [] 0 0 100 100) @ [Destroy 0, Destroy 3]"]
  by (simp add: GUI_MAX_WINDOWS_def)


end
