(* ===== verification/Klog.thy ===== *)
theory Klog
  imports Gui Console Printf
begin

text \<open>
  Kernel messages: \<^verbatim>\<open>libs/libk/kprintf.c\<close> formats into a buffer on its stack and hands the text to the backend that
  \<^verbatim>\<open>kernel/kmain.c\<close> has set, which copies it to the serial port and to the text screen or the terminal window.
\<close>

section \<open>The terminal\<close>

datatype kprint_backend = No_backend | Kprint_vga | Kprint_fb

record terminal =
  t_mem :: memory
  t_vga :: vga
  t_fb :: fb_info
  t_gui :: gui
  use_fb :: bool
  term_win :: "nat option"
  backend :: kprint_backend

definition kprintf_set_backend :: "kprint_backend \<Rightarrow> terminal \<Rightarrow> terminal" where
  "kprintf_set_backend fn t = t\<lparr>backend := fn\<rparr>"

definition term_vga_puts :: "'d bus \<Rightarrow> u8 list \<Rightarrow> terminal \<Rightarrow> ('d, terminal) io" where
  "term_vga_puts b s t = andthen (vga_puts b s (t_vga t)) (\<lambda>v. ret (t\<lparr>t_vga := v\<rparr>))"

definition kprint_vga :: "'d bus \<Rightarrow> u8 list \<Rightarrow> terminal \<Rightarrow> ('d, terminal) io" where
  "kprint_vga b s t = andthen (serial_puts b s) (\<lambda>_. term_vga_puts b s t)"

definition kprint_fb :: "'d bus \<Rightarrow> u8 list \<Rightarrow> terminal \<Rightarrow> ('d, terminal) io" where
  "kprint_fb b s t =
     andthen (serial_puts b s) (\<lambda>_.
       case term_win t of
         Some w \<Rightarrow>
           if use_fb t then
             (let (g, m) = gui_window_print (t_fb t) w s COLOR_BLACK (t_gui t, t_mem t)
              in ret (t\<lparr>t_gui := g, t_mem := m\<rparr>))
           else term_vga_puts b s t
       | None \<Rightarrow> term_vga_puts b s t)"

fun run_backend :: "'d bus \<Rightarrow> kprint_backend \<Rightarrow> u8 list \<Rightarrow> terminal \<Rightarrow> ('d, terminal) io" where
  "run_backend b No_backend s t = ret t"
| "run_backend b Kprint_vga s t = kprint_vga b s t"
| "run_backend b Kprint_fb s t = kprint_fb b s t"

text \<open>The string that starts at an address, read up to its terminating zero.\<close>

partial_function (option) string_at :: "memory \<Rightarrow> nat \<Rightarrow> u8 list option" where
  "string_at m p =
     (if m p = 0 then Some []
      else Option.bind (string_at m (p + 1)) (\<lambda>s. Some (m p # s)))"

text \<open>
  \<^verbatim>\<open>kvprintf\<close> with its 1024 bytes of buffer at \<open>buf\<close>; a format that asks for arguments that were not passed
  has no meaning.  \<^verbatim>\<open>kprintf\<close> is the same on its own argument list.
\<close>

definition kvprintf :: "'d bus \<Rightarrow> nat \<Rightarrow> u8 list \<Rightarrow> varg list \<Rightarrow> terminal \<Rightarrow> ('d, terminal) io" where
  "kvprintf b buf fmt ap t =
     (case vsnprintf buf 1024 fmt ap (t_mem t) of
        None \<Rightarrow> (\<lambda>_. None)
      | Some (n, m) \<Rightarrow>
          (case string_at m buf of
             None \<Rightarrow> (\<lambda>_. None)
           | Some s \<Rightarrow> run_backend b (backend t) s (t\<lparr>t_mem := m\<rparr>)))"

definition kprintf :: "'d bus \<Rightarrow> nat \<Rightarrow> u8 list \<Rightarrow> varg list \<Rightarrow> terminal \<Rightarrow> ('d, terminal) io" where
  "kprintf b buf fmt ap t = kvprintf b buf fmt ap t"

section \<open>What is printed\<close>

lemma string_at_cstr: "cstr m p s \<Longrightarrow> string_at m p = Some s"
proof (induction s arbitrary: p)
  case Nil
  then show ?case by (subst string_at.simps) simp
next
  case (Cons c s)
  then show ?case by (subst string_at.simps) simp
qed

text \<open>A format whose text fits the buffer reaches the backend as it is.\<close>

lemma kprintf_run:
  assumes "format_text fmt ap = Some s" "length s < 1024" "0 \<notin> set s"
  shows "\<exists>m. kprintf b buf fmt ap t d = run_backend b (backend t) s (t\<lparr>t_mem := m\<rparr>) d \<and>
    (\<forall>x. x < buf \<or> buf + 1024 \<le> x \<longrightarrow> m x = t_mem t x)"
proof -
  define m where "m = (\<lambda>x. if x = buf + length s then 0 else if buf \<le> x \<and> x < buf + length s \<and> x < buf + 1024 - 1 then s ! (x - buf) else t_mem t x)"
  have v: "vsnprintf buf 1024 fmt ap (t_mem t) = Some (length s, m)"
    using vsnprintf_text [OF assms(1), of 1024 buf "t_mem t"] unfolding m_def by simp
  have "bytes_at m buf (length s) = s" using assms(2) by (auto simp: bytes_at_def m_def intro!: nth_equalityI)
  then have "cstr m buf s" using assms(3) by (simp add: cstr_iff m_def)
  then have "kprintf b buf fmt ap t d = run_backend b (backend t) s (t\<lparr>t_mem := m\<rparr>) d"
    by (simp add: kprintf_def kvprintf_def v string_at_cstr)
  moreover have "\<forall>x. x < buf \<or> buf + 1024 \<le> x \<longrightarrow> m x = t_mem t x" using assms(2) by (auto simp: m_def)
  ultimately show ?thesis by blast
qed

lemma kprintf_spec:
  assumes "format_text fmt ap = Some s" "length s < 1024" "0 \<notin> set s" "backend t = Kprint_vga" "vga_inv (t_vga t)"
    and "uart_laws b busy sent"
    and "\<And>d x. sent (out8 b CRTC_ADDR x d) = sent d" "\<And>d x. sent (out8 b CRTC_DATA x d) = sent d"
  shows "\<exists>t' d'. kprintf b buf fmt ap t d = Some (t', d') \<and> sent d' = sent d @ serial_text s \<and> vga_inv (t_vga t') \<and>
    vga_attr (t_vga t') = vga_attr (t_vga t) \<and> backend t' = backend t \<and>
    tty_of (t_vga t') = fold (tty_putc (vga_attr (t_vga t))) s (tty_of (t_vga t))"
proof -
  from kprintf_run [OF assms(1-3), of b buf t d] obtain m where
    run: "kprintf b buf fmt ap t d = kprint_vga b s (t\<lparr>t_mem := m\<rparr>) d" using assms(4) by auto
  from serial_puts_sends [OF assms(6)] obtain d1 where d1: "serial_puts b s d = Some ((), d1)" "sent d1 = sent d @ serial_text s" by blast
  from vga_puts_run [OF assms(5), of b s d1] obtain v' d' where v: "vga_puts b s (t_vga t) d1 = Some (v', d')" "vga_inv v'" "vga_attr v' = vga_attr (t_vga t)"
    "tty_of v' = fold (tty_putc (vga_attr (t_vga t))) s (tty_of (t_vga t))" by blast
  have "sent d' = sent d1" using vga_puts_keeps [where f = sent, OF assms(7,8) v(1)] .
  with d1 v show ?thesis by (simp add: run kprint_vga_def term_vga_puts_def)
qed

section \<open>Printing returns\<close>

context still_bus
begin

lemma safe_vga [intro!, simp]:
  "safe Q (update_cursor b v)" "safe Q (vga_clear b v)" "safe Q (vga_init b v)" "safe Q (vga_putc b c v)" "safe Q (vga_puts b s v)"
proof -
  show u: "safe Q (update_cursor b v)" for v unfolding update_cursor_def Let_def by auto
  show c: "safe Q (vga_clear b v)" for v unfolding vga_clear_def Let_def using u by auto
  show "safe Q (vga_init b v)" unfolding vga_init_def using u c by auto
  show p: "safe Q (vga_putc b c v)" for c v unfolding vga_putc_def Let_def using u by auto
  show "safe Q (vga_puts b s v)" using p by (induction s arbitrary: v) auto
qed

lemma safe_serial_init [intro!, simp]: "safe Q (serial_init b)"
  unfolding serial_init_def by auto

lemma safe_serial:
  assumes "uart_laws b busy sent"
  shows "safe Q (serial_puts b s)"
proof -
  have "\<exists>d'. await_serial b d = Some ((), d') \<and> Q d'" if "Q d" for d
    using that
  proof (induction "busy d" arbitrary: d rule: less_induct)
    case less
    obtain st d1 where r: "in8 b (COM1 + 5) d = (st, d1)" by fastforce
    with assms have law: "bit st 5 \<longleftrightarrow> busy d = 0" "busy d1 = busy d - 1" by (auto simp: uart_laws_def)
    have q: "Q d1" using quiet_in8 [OF less.prems, of "COM1 + 5"] r by simp
    have bit: "st AND 0x20 = 0 \<longleftrightarrow> \<not> bit st 5" using and_power_iff_bit [of 5 st] by simp
    have ready: "serial_ready b d = Some (st AND 0x20, d1)" using r by (simp add: serial_ready_def)
    show ?case
    proof (cases "busy d = 0")
      case True
      with ready bit law q show ?thesis by (subst await_serial.simps) simp
    next
      case False
      then have "busy d1 < busy d" using law by simp
      from less.hyps [OF this q] ready bit law False show ?thesis by (subst await_serial.simps) simp
    qed
  qed
  then have "safe Q (await_serial b)" by (auto simp: safe_def)
  then have "safe Q (serial_putc b c)" for c unfolding serial_putc_def by auto
  then show ?thesis unfolding serial_puts_def by auto
qed

text \<open>With every backend a format whose text fits the buffer is printed.\<close>

lemma safe_kprintf:
  assumes "uart_laws b busy sent" "format_text fmt ap = Some s" "length s < 1024" "0 \<notin> set s"
  shows "safe Q (kprintf b buf fmt ap t)"
proof -
  note p = safe_serial [OF assms(1)]
  have v: "safe Q (term_vga_puts b s t)" for s t unfolding term_vga_puts_def by auto
  then have vga: "safe Q (kprint_vga b s t)" for s t unfolding kprint_vga_def using p by auto
  have fb: "safe Q (kprint_fb b s t)" for s t
    unfolding kprint_fb_def using p v by (auto simp: Let_def split: option.split prod.split)
  have run: "safe Q (run_backend b k s t)" for k s t using vga fb by (cases k) auto
  show ?thesis unfolding safe_def
  proof (intro allI impI)
    fix d assume "Q d"
    from kprintf_run [OF assms(2-4), of b buf t d] obtain m where
      "kprintf b buf fmt ap t d = run_backend b (backend t) s (t\<lparr>t_mem := m\<rparr>) d" by blast
    with safeD [OF run \<open>Q d\<close>] show "\<exists>x d'. kprintf b buf fmt ap t d = Some (x, d') \<and> Q d'" by simp
  qed
qed

end

section \<open>Panic\<close>

text \<open>
  \<^verbatim>\<open>kpanic\<close> of \<^verbatim>\<open>kernel/panic.c\<close> prints and then halts for ever with interrupts off: \<open>kpanic\<close> gives the state in which it halts.
  \<^verbatim>\<open>__stack_chk_fail\<close> of \<^verbatim>\<open>kernel/canary.c\<close> panics.
\<close>

definition panic_prefix :: "u8 list" where
  "panic_prefix = [0x0A] @ c_string ''[KERNEL PANIC] ''"

definition kpanic :: "'d bus \<Rightarrow> nat \<Rightarrow> u8 list \<Rightarrow> varg list \<Rightarrow> terminal \<Rightarrow> ('d, terminal) io" where
  "kpanic b buf fmt ap t = andthen (kprintf b buf panic_prefix [] t) (\<lambda>t. kvprintf b buf fmt ap t)"

definition stack_chk_fail :: "'d bus \<Rightarrow> nat \<Rightarrow> terminal \<Rightarrow> ('d, terminal) io" where
  "stack_chk_fail b buf t = kpanic b buf (c_string ''Stack smashing detected '' @ [0xE2, 0x80, 0x94] @ c_string '' aborting'') [] t"

section \<open>Properties\<close>

text \<open>
  What a message does on the text screen: with the backend of \<^verbatim>\<open>kmain\<close>, a serial port that becomes ready in
  finite time and a display controller that is not the serial port, \<^verbatim>\<open>kprintf\<close> of a format whose text fits its
  buffer returns, sends exactly that text over the serial port and shows exactly that text on the
  screen.
\<close>

theorem kprintf_prints:
  assumes "format_text fmt ap = Some s" "length s < 1024" "0 \<notin> set s" "backend t = Kprint_vga" "vga_inv (t_vga t)"
    and "uart_laws b busy sent"
    and "\<And>d x. sent (out8 b CRTC_ADDR x d) = sent d" "\<And>d x. sent (out8 b CRTC_DATA x d) = sent d"
  shows "\<exists>t' d'. kprintf b buf fmt ap t d = Some (t', d') \<and> sent d' = sent d @ serial_text s \<and> vga_inv (t_vga t') \<and>
    tty_of (t_vga t') = fold (tty_putc (vga_attr (t_vga t))) s (tty_of (t_vga t))"
  using kprintf_spec [where sent = sent, OF assms, of buf d] by blast

text \<open>In frame buffer mode the text goes to the serial port and, as a whole, to the terminal window.\<close>

theorem kprintf_prints_window:
  assumes "format_text fmt ap = Some s" "length s < 1024" "0 \<notin> set s"
    and "backend t = Kprint_fb" "use_fb t" "term_win t = Some w" "uart_laws b busy sent"
  shows "\<exists>t' d' m. kprintf b buf fmt ap t d = Some (t', d') \<and> sent d' = sent d @ serial_text s \<and>
    (t_gui t', t_mem t') = gui_window_print (t_fb t) w s COLOR_BLACK (t_gui t, m) \<and>
    (\<forall>x. x < buf \<or> buf + 1024 \<le> x \<longrightarrow> m x = t_mem t x) \<and> t_vga t' = t_vga t"
proof -
  from kprintf_run [OF assms(1-3), of b buf t d] obtain m where
    run: "kprintf b buf fmt ap t d = kprint_fb b s (t\<lparr>t_mem := m\<rparr>) d" and
    m: "\<forall>x. x < buf \<or> buf + 1024 \<le> x \<longrightarrow> m x = t_mem t x" using assms(4) by auto
  from serial_puts_sends [OF assms(7)] obtain d1 where d1: "serial_puts b s d = Some ((), d1)" "sent d1 = sent d @ serial_text s" by blast
  obtain g m' where g: "gui_window_print (t_fb t) w s COLOR_BLACK (t_gui t, m) = (g, m')" by fastforce
  from d1 g have "kprintf b buf fmt ap t d = Some (t\<lparr>t_gui := g, t_mem := m'\<rparr>, d1)"
    by (simp add: run kprint_fb_def assms(5,6))
  with d1(2) g m show ?thesis by (intro exI [of _ "t\<lparr>t_gui := g, t_mem := m'\<rparr>"] exI [of _ d1] exI [of _ m]) simp
qed

text \<open>A panic message reaches the serial port, after its prefix, before the machine halts.\<close>

theorem kpanic_reports:
  assumes "format_text fmt ap = Some s" "length s < 1024" "0 \<notin> set s" "backend t = Kprint_vga" "vga_inv (t_vga t)"
    and "uart_laws b busy sent"
    and "\<And>d x. sent (out8 b CRTC_ADDR x d) = sent d" "\<And>d x. sent (out8 b CRTC_DATA x d) = sent d"
  shows "\<exists>t' d'. kpanic b buf fmt ap t d = Some (t', d') \<and> sent d' = sent d @ serial_text panic_prefix @ serial_text s"
proof -
  have p: "format_text panic_prefix [] = Some panic_prefix" "length panic_prefix < 1024" "0 \<notin> set panic_prefix"
    by (simp_all add: panic_prefix_def c_string_def)
  from kprintf_spec [where sent = sent, OF p assms(4-8), of buf d] obtain t1 d1 where
    1: "kprintf b buf panic_prefix [] t d = Some (t1, d1)" "sent d1 = sent d @ serial_text panic_prefix" "vga_inv (t_vga t1)" "backend t1 = Kprint_vga"
    using assms(4) by auto
  from kprintf_spec [where sent = sent, OF assms(1-3) 1(4,3) assms(6-8), of buf d1] obtain t2 d2 where
    2: "kprintf b buf fmt ap t1 d1 = Some (t2, d2)" "sent d2 = sent d1 @ serial_text s" by auto
  from 1 2 show ?thesis by (simp add: kpanic_def kprintf_def)
qed

definition sample_terminal :: terminal where
  "sample_terminal = \<lparr>t_mem = (\<lambda>_. 0xFF), t_vga = sample_vga, t_fb = sample_fb, t_gui = sample_gui,
     use_fb = False, term_win = None, backend = Kprint_vga\<rparr>"

lemma quiet_uart: "uart_laws quiet_bus (\<lambda>_. 0) (\<lambda>d. d)"
proof -
  have "bit (0x20 :: u8) 5" by simp
  then show ?thesis by (simp add: uart_laws_def quiet_bus_def byte_bus_def)
qed

lemma sample_format: "format_text [0x25, 0x75, 0x0A] [Ulong_arg 7] = Some [0x37, 0x0A]"
  by (simp add: uint_text_def tmp_digits.simps digit_def)

theorem kprintf_prints_witness:
  "\<exists>t d. kprintf quiet_bus 0x9000 [0x25, 0x75, 0x0A] [Ulong_arg 7] sample_terminal [] = Some (t, d) \<and> d = [0x37, 0x0D, 0x0A] \<and>
     cursor (tty_of (t_vga t)) = 80 \<and> screen (tty_of (t_vga t)) 78 = cell 0x37 7"
proof -
  have "vga_inv (t_vga sample_terminal)" "backend sample_terminal = Kprint_vga"
    by (simp_all add: sample_terminal_def sample_vga_def vga_inv_def)
  moreover have "out8 quiet_bus CRTC_ADDR x d = d" "out8 quiet_bus CRTC_DATA x d = d" for x d
    by (simp_all add: quiet_bus_def byte_bus_def CRTC_ADDR_def CRTC_DATA_def COM1_def)
  ultimately show ?thesis
    using kprintf_prints [OF sample_format _ _ _ _ quiet_uart, of sample_terminal "0x9000" "[]"]
    by (auto simp: serial_text_def tty_putc_def tty_move_def tty_shift_def tty_of_def sample_terminal_def sample_vga_def Let_def)
qed


end
