(* ===== verification/Net.thy ===== *)
theory Net
  imports Rtl8139
begin

text \<open>
  The network layer \<^verbatim>\<open>kernel/net/net.c\<close> on top of the card driver.  The protocols themselves are in
  \<^verbatim>\<open>net_process_packet\<close> and \<^verbatim>\<open>net_arp_announce\<close>, for which the file has fallbacks that the linker replaces when the Rust
  library is present: they are the parameters \<open>process\<close> and \<open>announce\<close>, and the fallbacks are instances.
\<close>

section \<open>State\<close>

definition NET_MTU :: nat where "NET_MTU = 1514"

datatype net_cb = Rtl_rx
datatype net_tx = Rtl_tx

record net =
  our_ip :: u32
  our_mac :: "u8 list"
  tx_fn :: "net_tx option"
  iface_up :: bool
  rx_reply :: "u8 list"

text \<open>
  A packet function gets a frame, the addresses and the reply buffer; it says whether there is a
  reply, of how many bytes, and leaves the buffer.  An announcement function fills its buffer.
\<close>

type_synonym packet_fn = "u8 list \<Rightarrow> u8 list \<Rightarrow> u32 \<Rightarrow> u8 list \<Rightarrow> bool \<times> u32 \<times> u8 list"
type_synonym announce_fn = "u8 list \<Rightarrow> u32 \<Rightarrow> u8 list \<Rightarrow> u32 \<times> u8 list"
type_synonym netdev = "net_cb rtl \<times> net"

definition net_process_packet :: packet_fn where
  "net_process_packet data mac ip reply_buf = (False, 0, reply_buf)"

definition net_arp_announce :: announce_fn where
  "net_arp_announce mac ip buf = (0, buf)"

section \<open>Operations\<close>

definition rtl_tx :: "'d bus \<Rightarrow> 'd dma \<Rightarrow> u8 list \<Rightarrow> u32 \<Rightarrow> net_cb rtl \<Rightarrow> ('d, net_cb rtl) io" where
  "rtl_tx b mm data len r = andthen (rtl8139_send b mm data len r) (\<lambda>(_, r). ret r)"

definition call_tx :: "'d bus \<Rightarrow> 'd dma \<Rightarrow> u8 list \<Rightarrow> u32 \<Rightarrow> netdev \<Rightarrow> ('d, netdev) io" where
  "call_tx b mm data len = (\<lambda>(r, n).
     case tx_fn n of
       None \<Rightarrow> ret (r, n)
     | Some Rtl_tx \<Rightarrow> andthen (rtl_tx b mm data len r) (\<lambda>r. ret (r, n)))"

definition rtl_rx :: "'d bus \<Rightarrow> 'd dma \<Rightarrow> packet_fn \<Rightarrow> u8 list \<Rightarrow> netdev \<Rightarrow> ('d, netdev) io" where
  "rtl_rx b mm process data = (\<lambda>(r, n).
     let (has_reply, reply_len, buf) = process data (our_mac n) (our_ip n) (rx_reply n);
         n = n\<lparr>rx_reply := buf\<rparr>
     in if has_reply \<and> reply_len > 0 then call_tx b mm (rx_reply n) reply_len (r, n) else ret (r, n))"

fun call_rx :: "'d bus \<Rightarrow> 'd dma \<Rightarrow> packet_fn \<Rightarrow> net_cb \<Rightarrow> u8 list \<Rightarrow> netdev \<Rightarrow> ('d, netdev) io" where
  "call_rx b mm process Rtl_rx data = rtl_rx b mm process data"

definition net_init :: "net \<Rightarrow> net" where
  "net_init n = n\<lparr>our_mac := replicate 6 0, our_ip := 0, iface_up := False\<rparr>"

definition net_set_interface :: "net_tx option \<Rightarrow> u8 list \<Rightarrow> net \<Rightarrow> bool \<times> net" where
  "net_set_interface tx mac n = (True, n\<lparr>tx_fn := tx, our_mac := take 6 mac, iface_up := True\<rparr>)"

text \<open>\<open>stack\<close> is what the 42 bytes of the local buffer hold before the call.\<close>

definition net_configure ::
  "'d bus \<Rightarrow> 'd dma \<Rightarrow> announce_fn \<Rightarrow> u8 list \<Rightarrow> u32 \<Rightarrow> u32 \<Rightarrow> u32 \<Rightarrow> netdev \<Rightarrow> ('d, netdev) io" where
  "net_configure b mm announce stack ip netmask gateway = (\<lambda>(r, n).
     let n = n\<lparr>our_ip := ip\<rparr>;
         (ann_len, ann) = announce (our_mac n) (our_ip n) stack
     in if ann_len > 0 then call_tx b mm ann ann_len (r, n) else ret (r, n))"

definition net_receive :: "'d bus \<Rightarrow> 'd dma \<Rightarrow> packet_fn \<Rightarrow> u8 list \<Rightarrow> netdev \<Rightarrow> ('d, netdev) io" where
  "net_receive b mm process data s = rtl_rx b mm process data s"

definition net_poll :: "'d bus \<Rightarrow> 'd dma \<Rightarrow> packet_fn \<Rightarrow> netdev \<Rightarrow> ('d, netdev) io" where
  "net_poll b mm process s = rtl8139_poll b mm (call_rx b mm process) s"

definition net_our_ip :: "net \<Rightarrow> u32" where "net_our_ip n = our_ip n"
definition net_get_mac :: "net \<Rightarrow> u8 list" where "net_get_mac n = take 6 (our_mac n)"
definition net_up :: "net \<Rightarrow> bool" where "net_up n = iface_up n"

definition net_bring_up ::
  "'w::len itself \<Rightarrow> 'd bus \<Rightarrow> 'd dma \<Rightarrow> announce_fn \<Rightarrow> u8 list \<Rightarrow> pci \<Rightarrow> netdev \<times> pmm \<Rightarrow> ('d, netdev \<times> pmm) io" where
  "net_bring_up w b mm announce stack p = (\<lambda>((r, n), f).
     andthen (rtl8139_init w b mm Rtl_rx p (r, f)) (\<lambda>(found, r, f).
       if found then
         (let n = snd (net_set_interface (Some Rtl_tx) (rtl8139_get_mac r) n)
          in andthen (net_configure b mm announce stack 0xC0A80002 0xFFFFFF00 0xC0A80001 (r, n)) (\<lambda>s. ret (s, f)))
       else ret ((r, n), f)))"

section \<open>Answering frames\<close>

text \<open>
  The replies to a sequence of frames: one for every frame the packet function has a reply for
  that the card takes.
\<close>

fun answers :: "packet_fn \<Rightarrow> u8 list \<Rightarrow> u32 \<Rightarrow> u8 list \<Rightarrow> u8 list list \<Rightarrow> u8 list list" where
  "answers process mac ip buf [] = []"
| "answers process mac ip buf (f # fs) =
     (let (has_reply, len, buf) = process f mac ip buf
      in (if has_reply \<and> 0 < len \<and> len \<le> 1500 then [take (unat len) buf] else []) @ answers process mac ip buf fs)"

definition fits_buffer :: "packet_fn \<Rightarrow> bool" where
  "fits_buffer process \<longleftrightarrow> (\<forall>f mac ip buf has len buf'. length mac = 6 \<longrightarrow> length buf = NET_MTU \<longrightarrow> process f mac ip buf = (has, len, buf') \<longrightarrow> length buf' = NET_MTU)"

text \<open>An interface that is up, whose transmit buffers lie outside the receive ring.\<close>

definition net_ready :: "netdev \<Rightarrow> bool" where
  "net_ready s \<longleftrightarrow> rtl_up (fst s) \<and> rx_cb (fst s) = Some Rtl_rx \<and> tx_cur (fst s) < TX_BUFS \<and>
     tx_fn (snd s) = Some Rtl_tx \<and> length (our_mac (snd s)) = 6 \<and> length (rx_reply (snd s)) = NET_MTU \<and>
     (\<forall>i<TX_BUFS. tx_bufs (fst s) ! i + 1500 \<le> rx_buf (fst s) \<or> rx_buf (fst s) + 8192 + 1514 \<le> tx_bufs (fst s) ! i)"

text \<open>What a step may change of the device: the wire and the transmit buffers.\<close>

definition same_rx :: "'d dma \<Rightarrow> ('d \<Rightarrow> u16) \<Rightarrow> ('d \<Rightarrow> u16) \<Rightarrow> nat \<Rightarrow> 'd \<Rightarrow> 'd \<Rightarrow> bool" where
  "same_rx mm rd wr buf d' d \<longleftrightarrow> rd d' = rd d \<and> wr d' = wr d \<and> (\<forall>a. in_ring buf a \<longrightarrow> peek mm a d' = peek mm a d)"

lemma answers_Cons:
  "answers process mac ip buf (f # fs) =
     answers process mac ip buf [f] @ answers process mac ip (snd (snd (process f mac ip buf))) fs"
  by (auto simp: Let_def split: prod.split)

text \<open>
  What the interface relies on of the protocol code: it leaves the reply buffer its size.  The driver's part is proved once for
  every such packet function.
\<close>

locale packet_handler =
  fixes process :: packet_fn
  assumes fits: "fits_buffer process"
begin

lemma rtl_rx_answers:
  assumes "rtl_laws b mm (io_base (fst s)) (tx_bufs (fst s)) rd wr sent" "net_ready s"
  shows "\<exists>s' d' buf. rtl_rx b mm process f s d = Some (s', d') \<and> same_rx mm rd wr (rx_buf (fst s)) d' d \<and> net_ready s' \<and>
    buf = snd (snd (process f (our_mac (snd s)) (our_ip (snd s)) (rx_reply (snd s)))) \<and> snd s' = (snd s)\<lparr>rx_reply := buf\<rparr> \<and>
    io_base (fst s') = io_base (fst s) \<and> tx_bufs (fst s') = tx_bufs (fst s) \<and> rx_buf (fst s') = rx_buf (fst s) \<and>
    rx_ptr (fst s') = rx_ptr (fst s) \<and>
    sent d' = sent d @ answers process (our_mac (snd s)) (our_ip (snd s)) (rx_reply (snd s)) [f]"
proof -
  obtain r n where s: "s = (r, n)" by fastforce
  obtain has len buf where p: "process f (our_mac n) (our_ip n) (rx_reply n) = (has, len, buf)"
    using prod_cases3 by blast
  have "length (our_mac n) = 6" "length (rx_reply n) = NET_MTU" using assms(2) by (simp_all add: s net_ready_def)
  with fits p have buf: "length buf = NET_MTU" unfolding fits_buffer_def by metis
  have ready: "net_ready (r, n\<lparr>rx_reply := buf\<rparr>)" "tx_fn n = Some Rtl_tx" using assms(2) buf by (simp_all add: s net_ready_def)
  show ?thesis
  proof (cases "has \<and> 0 < len \<and> len \<le> 1500")
    case True
    let ?p = "tx_bufs r ! tx_cur r"
    have "unat len \<le> length buf" using True by (simp add: buf NET_MTU_def word_le_nat_alt)
    with send_transmits [of b mm r rd wr sent len buf d] True assms(1,2) obtain d' where
      d': "rtl8139_send b mm buf len r d = Some ((0, r\<lparr>tx_cur := (tx_cur r + 1) mod TX_BUFS\<rparr>), d')"
        "sent d' = sent d @ [take (unat len) buf]" "rd d' = rd d" "wr d' = wr d"
        "\<forall>a. \<not> (?p \<le> a \<and> a < ?p + 1500) \<longrightarrow> peek mm a d' = peek mm a d"
      by (auto simp: s net_ready_def)
    have "?p + 1500 \<le> rx_buf r \<or> rx_buf r + 8192 + 1514 \<le> ?p" using assms(2) by (simp add: s net_ready_def)
    then have "same_rx mm rd wr (rx_buf r) d' d" using d' by (auto simp: same_rx_def in_ring_def)
    moreover have "net_ready (r\<lparr>tx_cur := (tx_cur r + 1) mod TX_BUFS\<rparr>, n\<lparr>rx_reply := buf\<rparr>)"
      using ready by (simp add: net_ready_def TX_BUFS_def)
    ultimately show ?thesis using d' True p ready by (simp add: s rtl_rx_def call_tx_def rtl_tx_def)
  next
    case False
    have "rtl8139_send b mm buf len r d = Some ((- 1, r), d)" if "0 < len" has using False that by (simp add: rtl8139_send_def not_le)
    then have "rtl_rx b mm process f (r, n) d = Some ((r, n\<lparr>rx_reply := buf\<rparr>), d)"
      using p ready(2) by (simp add: rtl_rx_def call_tx_def rtl_tx_def Let_def)
    then show ?thesis using False p ready by (auto simp: s same_rx_def)
  qed
qed

lemma rx_loop_answers:
  assumes "rtl_laws b mm (io_base (fst s)) (tx_bufs (fst s)) rd wr sent" "net_ready s"
    and "rx_ptr (fst s) = rd d" "ring_holds (\<lambda>a. peek mm a d) (rx_buf (fst s)) (rd d) fs (wr d)" "\<forall>f \<in> set fs. length f \<le> 1510"
  shows "\<exists>s' d'. rx_loop b mm (call_rx b mm process) s d = Some (s', d') \<and> rd d' = wr d \<and> wr d' = wr d \<and>
    rx_ptr (fst s') = wr d \<and> net_ready s' \<and>
    sent d' = sent d @ answers process (our_mac (snd s)) (our_ip (snd s)) (rx_reply (snd s)) fs"
  using assms
proof (induction fs arbitrary: s d)
  case Nil
  then have "rd d = wr d" by simp
  from rx_loop_empty [OF Nil.prems(1) this, of "call_rx b mm process"] Nil.prems show ?case by (cases s) (auto simp: same_view_def)
next
  case (Cons f fs)
  let ?buf = "rx_buf (fst s)" and ?e = "wr d"
  have ring: "rd d \<noteq> ?e" "rx_plen mm (fst s) d = frame_plen f"
      "map (\<lambda>k. peek mm (rx_header (fst s) + 4 + k) d) [0 ..< length f] = f"
      "ring_holds (\<lambda>a. peek mm a d) ?buf (next_ptr (rd d) (frame_plen f)) fs ?e"
    using Cons.prems(3,4) by (simp_all add: Let_def rx_plen_def rx_header_def)
  have cb: "rx_cb (fst s) = Some Rtl_rx" and short: "length f \<le> 1510" using Cons.prems(2,5) by (simp_all add: net_ready_def)
  from rx_loop_step [OF Cons.prems(1) ring(1) cb ring(2) short ring(3), of "call_rx b mm process"] obtain d1 where
    d1: "same_view mm rd wr sent d1 d" and
    step: "rx_loop b mm (call_rx b mm process) s d =
      (case call_rx b mm process Rtl_rx f s d1 of
         None \<Rightarrow> None
       | Some (s, d) \<Rightarrow>
           let s = ((fst s)\<lparr>rx_ptr := next_ptr (rx_ptr (fst s)) (frame_plen f)\<rparr>, snd s)
           in rx_loop b mm (call_rx b mm process) s (out16 b (io_base (fst s) + ucast RTL_CAPR) (rx_ptr (fst s) - 16) d))"
    by blast
  from rtl_rx_answers [OF Cons.prems(1,2), of f d1] obtain s2 d2 where
    r: "rtl_rx b mm process f s d1 = Some (s2, d2)" "same_rx mm rd wr ?buf d2 d1" "net_ready s2"
      "snd s2 = (snd s)\<lparr>rx_reply := snd (snd (process f (our_mac (snd s)) (our_ip (snd s)) (rx_reply (snd s))))\<rparr>"
      "io_base (fst s2) = io_base (fst s)" "tx_bufs (fst s2) = tx_bufs (fst s)" "rx_buf (fst s2) = ?buf" "rx_ptr (fst s2) = rx_ptr (fst s)"
      "sent d2 = sent d1 @ answers process (our_mac (snd s)) (our_ip (snd s)) (rx_reply (snd s)) [f]" by blast
  let ?p = "next_ptr (rd d) (frame_plen f)"
  define s3 where "s3 = ((fst s2)\<lparr>rx_ptr := ?p\<rparr>, snd s2)"
  define d3 where "d3 = out16 b (io_base (fst s) + ucast RTL_CAPR) (?p - 16) d2"
  note law = rtl_lawsD(4-7) [OF Cons.prems(1), where v = "?p - 16" and d = d2, folded d3_def]
  have run: "rx_loop b mm (call_rx b mm process) s d = rx_loop b mm (call_rx b mm process) s3 d3"
    using step r Cons.prems(3) by (simp add: s3_def d3_def Let_def)
  have rd3: "rd d3 = ?p" using law(1) by simp
  have wr3: "wr d3 = wr d" using law(2) r(2) d1 by (simp add: same_rx_def same_view_def)
  have mem: "peek mm a d3 = peek mm a d" if "in_ring ?buf a" for a
    using that law(4) r(2) d1 by (simp add: same_rx_def same_view_def)
  have "rtl_laws b mm (io_base (fst s3)) (tx_bufs (fst s3)) rd wr sent" using Cons.prems(1) r by (simp add: s3_def)
  moreover have "net_ready s3" using r(3) by (simp add: s3_def net_ready_def)
  moreover have "rx_ptr (fst s3) = rd d3" by (simp add: s3_def rd3)
  moreover have "ring_holds (\<lambda>a. peek mm a d3) (rx_buf (fst s3)) (rd d3) fs (wr d3)"
    using ring(4) ring_holds_cong [of ?buf "\<lambda>a. peek mm a d3" "\<lambda>a. peek mm a d" fs] mem Cons.prems(5)
    by (simp add: s3_def r(7) rd3 wr3)
  ultimately obtain s' d' where IH: "rx_loop b mm (call_rx b mm process) s3 d3 = Some (s', d')" "rd d' = wr d3" "wr d' = wr d3"
      "rx_ptr (fst s') = wr d3" "net_ready s'"
      "sent d' = sent d3 @ answers process (our_mac (snd s3)) (our_ip (snd s3)) (rx_reply (snd s3)) fs"
    using Cons.IH [of s3 d3] Cons.prems(5) by auto
  have "sent d3 = sent d @ answers process (our_mac (snd s)) (our_ip (snd s)) (rx_reply (snd s)) [f]"
    using law(3) r(9) d1 by (simp add: same_view_def)
  with IH have "sent d' = sent d @ answers process (our_mac (snd s)) (our_ip (snd s)) (rx_reply (snd s)) (f # fs)"
    unfolding answers_Cons [of _ _ _ _ f fs] by (simp add: s3_def r(4) del: answers.simps)
  with IH run wr3 show ?case by (auto simp del: answers.simps)
qed

text \<open>A poll runs the receive loop when the card signals a frame.\<close>

lemma net_poll_run:
  assumes "rtl_laws b mm (io_base (fst s)) (tx_bufs (fst s)) rd wr sent" "net_ready s"
    and "rx_ptr (fst s) = rd d" "ring_holds (\<lambda>a. peek mm a d) (rx_buf (fst s)) (rd d) fs (wr d)" "\<forall>f \<in> set fs. length f \<le> 1510"
    and "fst (in16 b (io_base (fst s) + ucast RTL_ISR) d) AND ISR_ROK \<noteq> 0"
  shows "\<exists>s' d'. net_poll b mm process s d = Some (s', d') \<and> rd d' = wr d \<and> wr d' = wr d \<and> rx_ptr (fst s') = wr d \<and>
    sent d' = sent d @ answers process (our_mac (snd s)) (our_ip (snd s)) (rx_reply (snd s)) fs"
proof -
  have up: "rtl_up (fst s)" using assms(2) by (simp add: net_ready_def)
  from poll_rx [OF assms(1) up, of d "call_rx b mm process"] assms(6) obtain d1 where
    d1: "same_view mm rd wr sent d1 d" "net_poll b mm process s d = rx_loop b mm (call_rx b mm process) s d1"
    by (auto simp: net_poll_def)
  have eq: "(\<lambda>a. peek mm a d1) = (\<lambda>a. peek mm a d)" "rd d1 = rd d" "wr d1 = wr d" "sent d1 = sent d"
    using d1(1) by (simp_all add: same_view_def)
  from rx_loop_answers [OF assms(1,2), of d1 fs] assms(3-5) obtain s' d' where
    "rx_loop b mm (call_rx b mm process) s d1 = Some (s', d')" "rd d' = wr d1" "wr d' = wr d1" "rx_ptr (fst s') = wr d1"
    "sent d' = sent d1 @ answers process (our_mac (snd s)) (our_ip (snd s)) (rx_reply (snd s)) fs"
    unfolding eq by auto
  then show ?thesis using d1(2) eq by simp
qed

end

section \<open>Properties\<close>

text \<open>
  A poll answers: when frames of at most 1510 bytes lie in the receive ring and the card signals
  them, \<^verbatim>\<open>net_poll\<close> returns with the ring empty, and what has gone out on the wire is exactly the packet
  function's replies to those frames, in order, less the replies of more than 1500 bytes, which
  the driver refuses.
\<close>

theorem net_poll_answers:
  assumes "rtl_laws b mm (io_base (fst s)) (tx_bufs (fst s)) rd wr sent" "net_ready s" "fits_buffer process"
    and "rx_ptr (fst s) = rd d" "ring_holds (\<lambda>a. peek mm a d) (rx_buf (fst s)) (rd d) fs (wr d)" "\<forall>f \<in> set fs. length f \<le> 1510"
    and "fst (in16 b (io_base (fst s) + ucast RTL_ISR) d) AND ISR_ROK \<noteq> 0"
  shows "\<exists>s' d'. net_poll b mm process s d = Some (s', d') \<and> rd d' = wr d \<and> wr d' = wr d \<and> rx_ptr (fst s') = wr d \<and>
    sent d' = sent d @ answers process (our_mac (snd s)) (our_ip (snd s)) (rx_reply (snd s)) fs"
  by (rule packet_handler.net_poll_run [OF packet_handler.intro [OF assms(3)] assms(1,2,4-7)])

text \<open>The fallback of \<^verbatim>\<open>net.c\<close> is such a function: without the Rust library nothing is ever answered.\<close>

interpretation fallback: packet_handler net_process_packet
  by unfold_locales (simp add: fits_buffer_def net_process_packet_def)

lemma fallback_answers: "answers net_process_packet mac ip buf fs = []"
  by (induction fs) (simp_all add: net_process_packet_def)

text \<open>A ring with one frame of two bytes, and a packet function that sends frames back.\<close>

definition echo_process :: packet_fn where
  "echo_process f mac ip buf = (True, of_nat (length f), take NET_MTU (f @ buf))"

definition sample_netdev :: netdev where
  "sample_netdev =
     (\<lparr>io_base = 0xC000, rx_buf = 0x10000, tx_bufs = sample_txs, tx_cur = 0, rx_ptr = 0, rtl_up = True,
       rx_cb = Some Rtl_rx, rtl_mac = [2, 0, 0, 0, 0, 1]\<rparr>,
      \<lparr>our_ip = 0xC0A80002, our_mac = [2, 0, 0, 0, 0, 1], tx_fn = Some Rtl_tx, iface_up = True, rx_reply = replicate NET_MTU 0\<rparr>)"

definition sample_ring :: card where
  "sample_ring = \<lparr>c_mem = (\<lambda>_. 0)(0x10000 := 1, 0x10002 := 6, 0x10004 := 0xAA, 0x10005 := 0xBB), c_rd = 0, c_wr = 12, c_sent = []\<rparr>"

lemma echo_fits: "fits_buffer echo_process"
  by (auto simp: fits_buffer_def echo_process_def)

lemma sample_ready: "net_ready sample_netdev"
proof -
  have "i = 0 \<or> i = 1 \<or> i = 2 \<or> i = 3" if "i < TX_BUFS" for i using that by (auto simp: TX_BUFS_def)
  then show ?thesis by (fastforce simp: net_ready_def sample_netdev_def sample_txs_def TX_BUFS_def)
qed

theorem net_poll_answers_witness:
  "\<exists>s d. net_poll card_bus card_dma echo_process sample_netdev sample_ring = Some (s, d) \<and> c_sent d = [[0xAA, 0xBB]] \<and> c_rd d = 12"
proof -
  have laws: "rtl_laws card_bus card_dma (io_base (fst sample_netdev)) (tx_bufs (fst sample_netdev)) c_rd c_wr c_sent"
    using card_laws by (simp add: sample_netdev_def)
  have ring: "ring_holds (\<lambda>a. peek card_dma a sample_ring) (rx_buf (fst sample_netdev)) (c_rd sample_ring) [[0xAA, 0xBB]] (c_wr sample_ring)"
    by (simp add: card_dma_def sample_ring_def sample_netdev_def frame_plen_def next_ptr_def)
  have isr: "fst (in16 card_bus (io_base (fst sample_netdev) + ucast RTL_ISR) sample_ring) AND ISR_ROK \<noteq> 0"
    by (simp add: card_bus_def ISR_ROK_def)
  have "rx_ptr (fst sample_netdev) = c_rd sample_ring" by (simp add: sample_netdev_def sample_ring_def)
  from net_poll_answers [OF laws sample_ready echo_fits this ring _ isr] obtain s d where
    "net_poll card_bus card_dma echo_process sample_netdev sample_ring = Some (s, d)" "c_rd d = c_wr sample_ring"
    "c_sent d = c_sent sample_ring @ answers echo_process (our_mac (snd sample_netdev)) (our_ip (snd sample_netdev))
       (rx_reply (snd sample_netdev)) [[0xAA, 0xBB]]" by auto
  then show ?thesis by (simp add: echo_process_def sample_ring_def NET_MTU_def)
qed


end
