(* ===== verification/Ipv4.thy ===== *)
theory Ipv4
  imports Prelude
begin

text \<open>
  Headers of the Rust crate \<^verbatim>\<open>rust/crates/aerogel-core/src/net\<close>: Ethernet, IPv4 and UDP.  A slice is a list of bytes; a routine that
  fills a \<^verbatim>\<open>&mut [u8]\<close> returns the buffer.  Every index and every slice of the code is behind a length
  check, and the indexing below is used only there.
\<close>

section \<open>Bytes\<close>

definition from_be16 :: "u8 \<Rightarrow> u8 \<Rightarrow> u16" where
  "from_be16 a b = push_bit 8 (ucast a) OR ucast b"

definition to_be16 :: "u16 \<Rightarrow> u8 list" where
  "to_be16 w = [ucast (drop_bit 8 w), ucast w]"

definition from_be32 :: "u8 \<Rightarrow> u8 \<Rightarrow> u8 \<Rightarrow> u8 \<Rightarrow> u32" where
  "from_be32 a b c d = push_bit 24 (ucast a) OR push_bit 16 (ucast b) OR push_bit 8 (ucast c) OR ucast d"

definition to_be32 :: "u32 \<Rightarrow> u8 list" where
  "to_be32 w = [ucast (drop_bit 24 w), ucast (drop_bit 16 w), ucast (drop_bit 8 w), ucast w]"

text \<open>\<^verbatim>\<open>&xs[i..j]\<close> and \<^verbatim>\<open>buf[i..i+n].copy_from_slice(bs)\<close> for \<open>n\<close> bytes.\<close>

definition slice :: "nat \<Rightarrow> nat \<Rightarrow> u8 list \<Rightarrow> u8 list" where
  "slice i j xs = take (j - i) (drop i xs)"

definition put :: "nat \<Rightarrow> u8 list \<Rightarrow> u8 list \<Rightarrow> u8 list" where
  "put i bs buf = take i buf @ bs @ drop (i + length bs) buf"

section \<open>Ethernet\<close>

datatype EtherType = Arp | Ipv4 | Unknown

definition from_u16 :: "u16 \<Rightarrow> EtherType" where
  "from_u16 v = (if v = 0x0806 then Arp else if v = 0x0800 then Ipv4 else Unknown)"

definition write_frame :: "u8 list \<Rightarrow> u8 list \<Rightarrow> u8 list \<Rightarrow> u16 \<Rightarrow> nat \<times> u8 list" where
  "write_frame buf dst src etype =
     (if length buf < 14 then (0, buf)
      else let buf = put 0 dst buf;
               buf = put 6 src buf;
               buf = buf[12 := ucast (drop_bit 8 etype)];
               buf = buf[13 := ucast etype]
           in (14, buf))"

section \<open>Checksum\<close>

function sum_words :: "u8 list \<Rightarrow> u32 \<Rightarrow> nat \<Rightarrow> u32 \<times> nat" where
  "sum_words data s i =
     (if i + 1 < length data then sum_words data (s + ucast (from_be16 (data ! i) (data ! (i + 1)))) (i + 2) else (s, i))"
  by pat_completeness auto
termination by (relation "measure (\<lambda>(data, s, i). length data - i)") auto

declare sum_words.simps [simp del]

lemma fold_step_less:
  fixes s :: u32
  assumes "drop_bit 16 s \<noteq> 0"
  shows "unat ((s AND 0xFFFF) + drop_bit 16 s) = unat s mod 2 ^ 16 + unat s div 2 ^ 16"
    "unat s mod 2 ^ 16 + unat s div 2 ^ 16 < unat s"
proof -
  have m: "unat (s AND 0xFFFF) = unat s mod 2 ^ 16"
  proof -
    have "(0xFFFF :: u32) = mask 16" by (simp add: mask_eq_exp_minus_1)
    then have "s AND 0xFFFF = take_bit 16 s" by (simp only: take_bit_eq_mask)
    then show ?thesis by (simp only: unsigned_take_bit_eq) (simp add: take_bit_eq_mod)
  qed
  have d: "unat (drop_bit 16 s) = unat s div 2 ^ 16" by (rule unat_drop_bit_div)
  have b: "unat s < 2 ^ 32" using unat_bound [of s] by simp
  then have q: "unat s div 2 ^ 16 < 2 ^ 16" by (simp add: less_mult_imp_div_less)
  then show "unat ((s AND 0xFFFF) + drop_bit 16 s) = unat s mod 2 ^ 16 + unat s div 2 ^ 16"
    by (simp add: unat_word_ariths m d)
  have "unat s div 2 ^ 16 \<noteq> 0" using assms d by (metis unat_eq_0)
  moreover have "unat s = 65536 * (unat s div 65536) + unat s mod 65536" by (rule mult_div_mod_eq [symmetric])
  moreover have "(2 :: nat) ^ 16 = 65536" by simp
  ultimately show "unat s mod 2 ^ 16 + unat s div 2 ^ 16 < unat s" by (metis add.commute add_less_cancel_left mult_less_cancel2 nat_mult_1 neq0_conv one_less_numeral_iff semiring_norm(76,77))
qed

function fold_carry :: "u32 \<Rightarrow> u32" where
  "fold_carry s = (if drop_bit 16 s \<noteq> 0 then fold_carry ((s AND 0xFFFF) + drop_bit 16 s) else s)"
  by pat_completeness auto
termination
proof (relation "measure unat")
  fix s :: u32 assume "drop_bit 16 s \<noteq> 0"
  from fold_step_less [OF this] show "((s AND 0xFFFF) + drop_bit 16 s, s) \<in> measure unat" by simp
qed simp

declare fold_carry.simps [simp del]

definition checksum :: "u8 list \<Rightarrow> u16" where
  "checksum data =
     (let (s, i) = sum_words data 0 0;
          s = (if i < length data then s + push_bit 8 (ucast (data ! i)) else s)
      in NOT (ucast (fold_carry s)))"

section \<open>IPv4\<close>

definition PROTO_ICMP :: u8 where "PROTO_ICMP = 1"

definition ipv4_parse :: "u8 list \<Rightarrow> (u8 list \<times> u8 \<times> u32 \<times> u32) option" where
  "ipv4_parse pkt =
     (if length pkt < 20 then None
      else
        let ihl = unat (pkt ! 0 AND 0x0F) * 4;
            proto = pkt ! 9;
            src_ip = from_be32 (pkt ! 12) (pkt ! 13) (pkt ! 14) (pkt ! 15);
            dst_ip = from_be32 (pkt ! 16) (pkt ! 17) (pkt ! 18) (pkt ! 19)
        in if length pkt < ihl then None else Some (drop ihl pkt, proto, src_ip, dst_ip))"

definition ipv4_write :: "u8 list \<Rightarrow> u8 \<Rightarrow> u32 \<Rightarrow> u32 \<Rightarrow> nat \<Rightarrow> nat \<times> u8 list" where
  "ipv4_write buf proto src_ip dst_ip payload_len =
     (let total = 20 + payload_len
      in if length buf < total then (0, buf)
         else
           let buf = buf[0 := 0x45];
               buf = buf[1 := 0];
               buf = put 2 (to_be16 (of_nat total)) buf;
               buf = put 4 [0, 1] buf;
               buf = put 6 [0x40, 0] buf;
               buf = buf[8 := 64];
               buf = buf[9 := proto];
               buf = put 10 [0, 0] buf;
               buf = put 12 (to_be32 src_ip) buf;
               buf = put 16 (to_be32 dst_ip) buf;
               csum = checksum (slice 0 20 buf);
               buf = put 10 (to_be16 csum) buf
           in (20, buf))"

section \<open>UDP\<close>

definition udp_parse :: "u8 list \<Rightarrow> (u16 \<times> u16 \<times> u8 list) option" where
  "udp_parse pkt =
     (if length pkt < 8 then None
      else Some (from_be16 (pkt ! 0) (pkt ! 1), from_be16 (pkt ! 2) (pkt ! 3), drop 8 pkt))"

definition udp_write :: "u8 list \<Rightarrow> u16 \<Rightarrow> u16 \<Rightarrow> u8 list \<Rightarrow> nat \<times> u8 list" where
  "udp_write buf src_port dst_port payload =
     (let total = 8 + length payload
      in if length buf < total then (0, buf)
         else
           let buf = put 0 (to_be16 src_port) buf;
               buf = put 2 (to_be16 dst_port) buf;
               buf = put 4 (to_be16 (of_nat total)) buf;
               buf = put 6 [0, 0] buf;
               buf = put 8 payload buf
           in (total, buf))"

section \<open>Encodings\<close>

lemma be16_roundtrip: "from_be16 (ucast (drop_bit 8 w)) (ucast w) = w"
  by (intro bit_word_eqI) (auto simp: from_be16_def bit_simps)

lemma be32_roundtrip: "from_be32 (ucast (drop_bit 24 w)) (ucast (drop_bit 16 w)) (ucast (drop_bit 8 w)) (ucast w) = w"
proof (rule bit_word_eqI)
  fix n assume "n < LENGTH(32)"
  then have "n < 8 \<or> n = 8 + (n - 8) \<and> n - 8 < 8 \<or> n = 16 + (n - 16) \<and> n - 16 < 8 \<or> n = 24 + (n - 24) \<and> n - 24 < 8" by auto
  then consider "n < 8" | k where "n = 8 + k" "k < 8" | k where "n = 16 + k" "k < 8" | k where "n = 24 + k" "k < 8"
    by blast
  then show "bit (from_be32 (ucast (drop_bit 24 w)) (ucast (drop_bit 16 w)) (ucast (drop_bit 8 w)) (ucast w)) n = bit w n"
    by cases (auto simp: from_be32_def bit_simps)
qed

lemma length_be [simp]: "length (to_be16 w) = 2" "length (to_be32 v) = 4"
  by (simp_all add: to_be16_def to_be32_def)

lemma unat_from_be16: "unat (from_be16 a b) = unat a * 256 + unat b"
proof -
  have "from_be16 a b = push_bit 8 (ucast a) + ucast b"
    unfolding from_be16_def by (subst disjunctive_add) (auto simp: bit_simps dest: bit_imp_le_length)
  moreover have "unat a < 256" "unat b < 256" using unat_bound [of a] unat_bound [of b] by simp_all
  ultimately show ?thesis by (simp add: push_bit_eq_mult unat_word_ariths unsigned_ucast_eq take_bit_nat_eq_self)
qed

lemma put_split:
  assumes "length a = i" "length b = length bs"
  shows "put i bs (a @ b @ c) = a @ bs @ c"
  using assms by (simp add: put_def)

section \<open>Reference: the one's complement sum\<close>

text \<open>The sum of the big-endian 16-bit words of the data, and its representative after the carries have been added in.\<close>

fun word_sum :: "u8 list \<Rightarrow> nat" where
  "word_sum [] = 0"
| "word_sum [a] = unat a * 256"
| "word_sum (a # b # xs) = unat a * 256 + unat b + word_sum xs"

definition ones_sum :: "nat \<Rightarrow> nat" where
  "ones_sum n = (if n = 0 then 0 else (n - 1) mod 65535 + 1)"

lemma word_sum_append: "even (length xs) \<Longrightarrow> word_sum (xs @ ys) = word_sum xs + word_sum ys"
  by (induction xs rule: word_sum.induct) auto

lemma word_sum_bound: "word_sum xs \<le> length xs * 65535"
proof (induction xs rule: word_sum.induct)
  case (2 a)
  then show ?case using unat_bound [of a] by simp
next
  case (3 a b xs)
  then show ?case using unat_bound [of a] unat_bound [of b] by simp
qed simp

lemma word_sum_be16: "word_sum (to_be16 w @ xs) = unat w + word_sum xs"
  using unat_from_be16 [of "ucast (drop_bit 8 w)" "ucast w"] by (simp add: to_be16_def be16_roundtrip)

lemma sum_words_total:
  assumes "i \<le> length data"
  shows "(let (s, j) = sum_words data s i in if j < length data then s + push_bit 8 (ucast (data ! j)) else s) =
    s + of_nat (word_sum (drop i data))"
  using assms
proof (induction data s i rule: sum_words.induct)
  case (1 data s i)
  have byte: "(push_bit 8 (ucast (x :: u8)) :: u32) = of_nat (unat x * 256)" for x
    by (simp add: push_bit_eq_mult)
  have be: "(ucast (from_be16 x y) :: u32) = of_nat (unat x * 256 + unat y)" for x y
    by (subst unat_from_be16 [symmetric]) simp
  have "i + 1 < length data \<or> length data = Suc i \<or> i = length data" using "1.prems" by linarith
  then consider (pair) "i + 1 < length data" | (single) "length data = Suc i" | (empty) "i = length data" by blast
  then show ?case
  proof cases
    case pair
    then have "drop i data = data ! i # data ! (i + 1) # drop (i + 2) data" by (simp add: Cons_nth_drop_Suc)
    with pair 1 show ?thesis by (subst sum_words.simps) (simp add: be add.assoc)
  next
    case single
    then have "drop i data = [data ! i]" by (simp add: Cons_nth_drop_Suc [symmetric])
    with single show ?thesis by (subst sum_words.simps) (simp add: byte)
  next
    case empty
    then show ?thesis by (subst sum_words.simps) simp
  qed
qed

lemma fold_carry_ones_sum: "unat (fold_carry s) = ones_sum (unat s)"
proof (induction s rule: fold_carry.induct)
  case (1 s)
  show ?case
  proof (cases "drop_bit 16 s = 0")
    case True
    then have "unat s div 2 ^ 16 = 0" using unat_drop_bit_div [of 16 s] by simp
    then have "unat s < 65536" by (simp add: div_eq_0_iff)
    with True show ?thesis by (subst fold_carry.simps) (cases "unat s"; auto simp: ones_sum_def unat_eq_0)
  next
    case False
    define q where "q = unat s div 2 ^ 16"
    define r where "r = unat s mod 2 ^ 16"
    note f = fold_step_less [OF False, folded q_def r_def]
    have s: "unat s = 65535 * q + (r + q)" by (simp add: q_def r_def)
    have "q \<noteq> 0" using False unat_drop_bit_div [of 16 s] by (metis q_def unat_eq_0)
    then have "unat s - 1 = 65535 * q + (r + q - 1)" using s by linarith
    then have "(unat s - 1) mod 65535 = (r + q - 1) mod 65535" by (simp only: mod_mult_self4)
    with \<open>q \<noteq> 0\<close> s have "ones_sum (unat s) = ones_sum (r + q)" unfolding ones_sum_def by auto
    with 1 [OF False] f(1) False show ?thesis by (subst fold_carry.simps) simp
  qed
qed

lemma unat_not_u16: "unat (NOT (w :: u16)) = 65535 - unat w"
proof -
  have "NOT w = of_nat (65535 - unat w)"
    using unat_bound [of w] by (simp add: not_eq_complement of_nat_diff word_of_nat_eq_0_iff minus_1_eq_mask mask_eq_exp_minus_1)
  then show ?thesis by (simp add: unat_of_nat)
qed

lemma checksum_ones_sum:
  assumes "length data \<le> 65536"
  shows "unat (checksum data) = 65535 - ones_sum (word_sum data)"
proof -
  have "word_sum data < 2 ^ 32" using word_sum_bound [of data] assms by simp
  then have u: "unat (of_nat (word_sum data) :: u32) = word_sum data" by (simp add: unat_of_nat)
  have c: "checksum data = NOT (ucast (fold_carry (of_nat (word_sum data))))"
    using sum_words_total [of 0 data 0] by (simp add: checksum_def Let_def split_beta)
  have f: "unat (fold_carry (of_nat (word_sum data))) = ones_sum (word_sum data)" by (simp add: fold_carry_ones_sum u)
  moreover have "ones_sum n < 65536" for n by (simp add: ones_sum_def)
  ultimately show ?thesis by (simp add: c unat_not_u16 unsigned_ucast_eq take_bit_nat_eq_self)
qed

text \<open>
  The checksum does its work: when the two bytes of its field, at an even offset, were zero while it was computed and it
  is then stored there, the receiver's sum over the data comes out as zero.
\<close>

lemma checksum_verifies:
  assumes "even (length a)" "length a + 2 + length b \<le> 65536"
  shows "checksum (a @ to_be16 (checksum (a @ [0, 0] @ b)) @ b) = 0"
proof -
  let ?n = "word_sum a + word_sum b" and ?c = "checksum (a @ [0, 0] @ b)"
  have "word_sum (a @ [0, 0] @ b) = ?n" using assms(1) by (simp add: word_sum_append)
  then have c: "unat ?c = 65535 - ones_sum ?n" using checksum_ones_sum [of "a @ [0, 0] @ b"] assms(2) by simp
  have "word_sum (a @ to_be16 ?c @ b) = ?n + (65535 - ones_sum ?n)"
    using assms(1) by (simp only: word_sum_append word_sum_be16 c)
  moreover have "ones_sum (n + (65535 - ones_sum n)) = 65535" for n
  proof (cases "n = 0")
    case False
    then obtain m where n: "n = Suc m" by (cases n) auto
    define q where "q = m div 65535"
    have "m = 65535 * q + m mod 65535" by (simp add: q_def)
    then have "n + (65535 - ones_sum n) = 65535 * Suc q" by (simp add: n ones_sum_def)
    then show ?thesis by (simp add: ones_sum_def)
  qed (simp add: ones_sum_def)
  ultimately have "unat (checksum (a @ to_be16 ?c @ b)) = 0"
    using checksum_ones_sum [of "a @ to_be16 ?c @ b"] assms(2) by simp
  then show ?thesis by (simp only: unat_eq_0)
qed

section \<open>What the writers store\<close>

text \<open>A list with at least so many elements, element by element.\<close>

lemma uncons:
  assumes "Suc n \<le> length xs"
  obtains y ys where "xs = y # ys" "n \<le> length ys"
  using assms by (cases xs) auto

lemma list5:
  assumes "5 + n \<le> length xs"
  obtains a b c d e ys where "xs = a # b # c # d # e # ys" "n \<le> length ys"
  using assms by (auto simp: Suc_le_length_iff eval_nat_numeral)

lemma put_rec:
  "put 0 [] xs = xs" "put 0 (b # bs) (x # xs) = b # put 0 bs xs" "put (Suc i) bs (x # xs) = x # put i bs xs"
  "put (numeral k) bs (x # xs) = x # put (pred_numeral k) bs xs"
  by (simp_all add: put_def numeral_eq_Suc)

lemma length_put [simp]: "i + length bs \<le> length buf \<Longrightarrow> length (put i bs buf) = length buf"
  by (simp add: put_def)

lemma length_write_frame [simp]:
  "length dst = 6 \<Longrightarrow> length src = 6 \<Longrightarrow> length (snd (write_frame buf dst src e)) = length buf"
  by (simp add: write_frame_def Let_def)

lemma length_ipv4_write [simp]: "length (snd (ipv4_write buf proto src dst n)) = length buf"
  by (simp add: ipv4_write_def Let_def)

lemma write_frame_spec:
  assumes "length dst = 6" "length src = 6" "14 \<le> length buf"
  shows "write_frame buf dst src e = (14, dst @ src @ to_be16 e @ drop 14 buf)"
proof -
  obtain x0 x1 x2 x3 x4 b where x: "buf = x0 # x1 # x2 # x3 # x4 # b" "9 \<le> length b" by (rule list5 [of 9 buf]) (use assms(3) in simp)
  obtain x5 x6 x7 x8 x9 c where y: "b = x5 # x6 # x7 # x8 # x9 # c" "4 \<le> length c" by (rule list5 [of 4 b]) (use x(2) in simp)
  then obtain y0 y1 y2 y3 p where z: "c = y0 # y1 # y2 # y3 # p" by (auto simp: Suc_le_length_iff eval_nat_numeral)
  show ?thesis using assms(1,2) by (simp add: write_frame_def Let_def x(1) y(1) z put_def to_be16_def list_update_append)
qed

definition ipv4_header :: "nat \<Rightarrow> u8 \<Rightarrow> u32 \<Rightarrow> u32 \<Rightarrow> u16 \<Rightarrow> u8 list" where
  "ipv4_header len proto src dst csum =
     [0x45, 0] @ to_be16 (of_nat len) @ [0, 1, 0x40, 0, 64, proto] @ to_be16 csum @ to_be32 src @ to_be32 dst"

lemma ipv4_write_spec:
  assumes "20 + n \<le> length buf"
  shows "ipv4_write buf proto src dst n =
    (20, ipv4_header (20 + n) proto src dst (checksum (ipv4_header (20 + n) proto src dst 0)) @ drop 20 buf)"
proof -
  obtain x0 x1 x2 x3 x4 b where x: "buf = x0 # x1 # x2 # x3 # x4 # b" "15 + n \<le> length b" by (rule list5 [of "15 + n" buf]) (use assms in simp)
  obtain x5 x6 x7 x8 x9 c where y: "b = x5 # x6 # x7 # x8 # x9 # c" "10 + n \<le> length c" by (rule list5 [of "10 + n" b]) (use x(2) in simp)
  obtain y0 y1 y2 y3 y4 e where z: "c = y0 # y1 # y2 # y3 # y4 # e" "5 + n \<le> length e" by (rule list5 [of "5 + n" c]) (use y(2) in simp)
  obtain y5 y6 y7 y8 y9 p where w: "e = y5 # y6 # y7 # y8 # y9 # p" "n \<le> length p" by (rule list5 [of n e]) (use z(2) in simp)
  show ?thesis using w(2) by (simp add: ipv4_write_def Let_def x(1) y(1) z(1) w(1) put_rec to_be16_def to_be32_def slice_def ipv4_header_def)
qed

lemma ipv4_header_checks: "checksum (ipv4_header len proto src dst (checksum (ipv4_header len proto src dst 0))) = 0"
proof -
  have "to_be16 0 = [0, 0]" by (simp add: to_be16_def)
  then show ?thesis
    using checksum_verifies [of "[0x45, 0] @ to_be16 (of_nat len) @ [0, 1, 0x40, 0, 64, proto]" "to_be32 src @ to_be32 dst"]
    by (simp add: ipv4_header_def)
qed

lemma length_ipv4_header [simp]: "length (ipv4_header len proto src dst c) = 20"
  by (simp add: ipv4_header_def)

lemma ipv4_parse_header: "ipv4_parse (ipv4_header len proto src dst c @ p) = Some (p, proto, src, dst)"
  by (simp add: ipv4_parse_def ipv4_header_def to_be16_def to_be32_def Let_def be32_roundtrip)

text \<open>
  A header that \<^verbatim>\<open>ipv4::write\<close> has put in front of a payload is read back by \<^verbatim>\<open>ipv4::parse\<close> with the same protocol,
  addresses and payload, and its checksum is the one a receiver accepts.
\<close>

theorem ipv4_write_parse:
  assumes "20 + n \<le> length buf"
  shows "\<exists>buf'. ipv4_write buf proto src dst n = (20, buf') \<and> checksum (take 20 buf') = 0 \<and>
    ipv4_parse buf' = Some (drop 20 buf, proto, src, dst) \<and> length buf' = length buf"
  using assms by (simp add: ipv4_write_spec ipv4_parse_header ipv4_header_checks)

theorem ipv4_write_parse_witness:
  "\<exists>buf'. ipv4_write (replicate 20 0 @ [1, 2]) 17 0xC0A80002 0xC0A80001 2 = (20, buf') \<and> checksum (take 20 buf') = 0 \<and>
     ipv4_parse buf' = Some ([1, 2], 17, 0xC0A80002, 0xC0A80001)"
  using ipv4_write_parse [of 2 "replicate 20 0 @ [1, 2]" 17 "0xC0A80002" "0xC0A80001"] by auto

text \<open>Likewise for UDP datagrams.\<close>

theorem udp_write_parse:
  assumes "8 + length payload \<le> length buf"
  shows "\<exists>buf'. udp_write buf sport dport payload = (8 + length payload, buf') \<and>
    udp_parse (take (8 + length payload) buf') = Some (sport, dport, payload) \<and> length buf' = length buf"
proof -
  obtain x0 x1 x2 x3 x4 b where x: "buf = x0 # x1 # x2 # x3 # x4 # b" "3 + length payload \<le> length b"
    by (rule list5 [of "3 + length payload" buf]) (use assms in simp)
  then obtain y0 y1 y2 p where y: "b = y0 # y1 # y2 # p" "length payload \<le> length p" by (auto simp: Suc_le_length_iff eval_nat_numeral)
  have "put 0 payload p = payload @ drop (length payload) p" by (simp add: put_def)
  with y(2) show ?thesis
    by (simp add: udp_write_def udp_parse_def Let_def x(1) y(1) put_rec to_be16_def be16_roundtrip drop_take)
qed

theorem udp_write_parse_witness:
  "\<exists>buf'. udp_write (replicate 12 0) 68 67 [9, 8, 7] = (11, buf') \<and> udp_parse (take 11 buf') = Some (68, 67, [9, 8, 7])"
  using udp_write_parse [of "[9, 8, 7]" "replicate 12 0" 68 67] by auto

end
