(* ===== verification/NetStack.thy ===== *)
theory NetStack
  imports Net Ipv4
begin

text \<open>
  The protocol code of the Rust crate, \<^verbatim>\<open>arp.rs\<close>, \<^verbatim>\<open>icmp.rs\<close> and \<^verbatim>\<open>lib.rs\<close>: the functions that replace the C fallbacks of the
  network layer.  The caller's pointers are never null, so the null checks of \<^verbatim>\<open>lib.rs\<close> do not appear; the reply
  buffer is the slice of 1514 bytes that \<^verbatim>\<open>lib.rs\<close> makes of it.
\<close>

section \<open>ARP and ICMP\<close>

definition arp_handle :: "u8 list \<Rightarrow> u8 list \<Rightarrow> u32 \<Rightarrow> u8 list \<Rightarrow> u8 list \<Rightarrow> nat \<times> u8 list" where
  "arp_handle payload omac ip src_mac out =
     (if length payload < 28 then (0, out)
      else
        let oper = from_be16 (payload ! 6) (payload ! 7);
            sender_ip = from_be32 (payload ! 14) (payload ! 15) (payload ! 16) (payload ! 17);
            target_ip = from_be32 (payload ! 24) (payload ! 25) (payload ! 26) (payload ! 27)
        in if oper \<noteq> 1 \<or> target_ip \<noteq> ip then (0, out)
           else
             let sender_mac = slice 8 14 payload;
                 (hlen, out) = write_frame out sender_mac omac 0x0806
             in if length out < hlen + 28 then (0, out)
                else
                  let p = drop hlen out;
                      p = put 0 [0x00, 0x01] p;
                      p = put 2 [0x08, 0x00] p;
                      p = p[4 := 6];
                      p = p[5 := 4];
                      p = put 6 [0x00, 0x02] p;
                      p = put 8 omac p;
                      p = put 14 (to_be32 ip) p;
                      p = put 18 sender_mac p;
                      p = put 24 (to_be32 sender_ip) p
                  in (hlen + 28, take hlen out @ p))"

definition icmp_handle :: "u8 list \<Rightarrow> u8 list \<Rightarrow> u32 \<Rightarrow> u8 list \<Rightarrow> u32 \<Rightarrow> u8 list \<Rightarrow> nat \<times> u8 list" where
  "icmp_handle payload omac ip src_mac src_ip out =
     (if length payload < 8 then (0, out)
      else if payload ! 0 \<noteq> 8 then (0, out)
      else
        let data_len = length payload
        in if length out < 14 + 20 + data_len then (0, out)
           else
             let (eh, out) = write_frame out src_mac omac 0x0800;
                 (ih, ip_buf) = ipv4_write (drop eh out) PROTO_ICMP ip src_ip data_len;
                 out = take eh out @ ip_buf;
                 eh = eh + ih;
                 icmp = put 0 payload (slice eh (eh + data_len) out);
                 icmp = icmp[0 := 0];
                 icmp = icmp[1 := 0];
                 icmp = icmp[2 := 0];
                 icmp = icmp[3 := 0];
                 csum = checksum (take data_len icmp);
                 icmp = put 2 (to_be16 csum) icmp
             in (eh + data_len, put eh icmp out))"

section \<open>Entry points\<close>

definition rust_process_packet :: packet_fn where
  "rust_process_packet pkt omac ip rbuf =
     (if length pkt < 14 then (False, 0, rbuf)
      else
        let etype = from_u16 (from_be16 (pkt ! 12) (pkt ! 13));
            smac = slice 6 12 pkt;
            payload = drop 14 pkt
        in case (case etype of
                   Arp \<Rightarrow> Some (arp_handle payload omac ip smac rbuf)
                 | Ipv4 \<Rightarrow>
                     (case ipv4_parse payload of
                        Some (ip_payload, proto, src_ip, dst_ip) \<Rightarrow>
                          if dst_ip \<noteq> ip then None
                          else if proto = PROTO_ICMP then Some (icmp_handle ip_payload omac ip smac src_ip rbuf)
                          else Some (0, rbuf)
                      | None \<Rightarrow> Some (0, rbuf))
                 | Unknown \<Rightarrow> Some (0, rbuf)) of
             None \<Rightarrow> (False, 0, rbuf)
           | Some (n, rbuf) \<Rightarrow> if n > 0 then (True, of_nat n, rbuf) else (False, 0, rbuf))"

definition rust_arp_announce :: announce_fn where
  "rust_arp_announce omac ip buf =
     (let fake = replicate 28 0;
          fake = put 0 [0x00, 0x01] fake;
          fake = put 2 [0x08, 0x00] fake;
          fake = fake[4 := 6];
          fake = fake[5 := 4];
          fake = put 6 [0x00, 0x01] fake;
          fake = put 8 omac fake;
          fake = put 14 (to_be32 ip) fake;
          fake = put 24 (to_be32 ip) fake;
          (n, buf) = arp_handle fake omac ip omac buf
      in (of_nat n, buf))"

section \<open>ARP replies\<close>

text \<open>The wire format of an ARP packet for Ethernet and IPv4.\<close>

definition arp_packet :: "u16 \<Rightarrow> u8 list \<Rightarrow> u32 \<Rightarrow> u8 list \<Rightarrow> u32 \<Rightarrow> u8 list" where
  "arp_packet oper smac sip tmac tip =
     [0, 1, 8, 0, 6, 4] @ to_be16 oper @ smac @ to_be32 sip @ tmac @ to_be32 tip"

definition eth_frame :: "u8 list \<Rightarrow> u8 list \<Rightarrow> u16 \<Rightarrow> u8 list \<Rightarrow> u8 list" where
  "eth_frame dst src etype p = dst @ src @ to_be16 etype @ p"

lemma list6: "length xs = 6 \<longleftrightarrow> (\<exists>a b c d e f. xs = [a, b, c, d, e, f])"
  by (auto simp: length_Suc_conv eval_nat_numeral)

lemma arp_handle_request:
  assumes "length mac = 6" "length smac = 6" "length tmac = 6" "42 \<le> length out"
  shows "arp_handle (arp_packet 1 smac sip tmac ip @ pad) mac ip eth out =
    (42, eth_frame smac mac 0x0806 (arp_packet 2 mac ip smac sip) @ drop 42 out)"
proof -
  let ?req = "arp_packet 1 smac sip tmac ip @ pad"
  obtain s0 s1 s2 s3 s4 s5 t0 t1 t2 t3 t4 t5 where
    m: "smac = [s0, s1, s2, s3, s4, s5]" "tmac = [t0, t1, t2, t3, t4, t5]" using assms(2,3) by (auto simp: list6)
  have f: "28 \<le> length ?req" "from_be16 (?req ! 6) (?req ! 7) = 1" "slice 8 14 ?req = smac"
    "from_be32 (?req ! 14) (?req ! 15) (?req ! 16) (?req ! 17) = sip"
    "from_be32 (?req ! 24) (?req ! 25) (?req ! 26) (?req ! 27) = ip"
    by (simp_all add: m arp_packet_def to_be16_def to_be32_def be32_roundtrip slice_def from_be16_def)
  define p where "p = drop 14 out"
  have p: "28 \<le> length p" "drop 42 out = drop 28 p" using assms(4) by (simp_all add: p_def)
  have w: "write_frame out smac mac 0x0806 = (14, smac @ mac @ to_be16 0x0806 @ p)"
    using write_frame_spec [OF assms(2,1), of out] assms(4) by (simp add: p_def)
  obtain p0 p1 p2 p3 p4 q where q: "p = p0 # p1 # p2 # p3 # p4 # q" "23 \<le> length q" by (rule list5 [of 23 p]) (use p in simp)
  obtain q0 q1 q2 q3 q4 r where r: "q = q0 # q1 # q2 # q3 # q4 # r" "18 \<le> length r" by (rule list5 [of 18 q]) (use q in simp)
  obtain r0 r1 r2 r3 r4 u where u: "r = r0 # r1 # r2 # r3 # r4 # u" "13 \<le> length u" by (rule list5 [of 13 r]) (use r in simp)
  obtain u0 u1 u2 u3 u4 v where v: "u = u0 # u1 # u2 # u3 # u4 # v" "8 \<le> length v" by (rule list5 [of 8 u]) (use u in simp)
  obtain v0 v1 v2 v3 v4 x where x: "v = v0 # v1 # v2 # v3 # v4 # x" "3 \<le> length x" by (rule list5 [of 3 v]) (use v in simp)
  obtain x0 x1 x2 z where z: "x = x0 # x1 # x2 # z" using x(2) by (auto simp: Suc_le_length_iff eval_nat_numeral)
  obtain m0 m1 m2 m3 m4 m5 where mac: "mac = [m0, m1, m2, m3, m4, m5]" using assms(1) by (auto simp: list6)
  show ?thesis unfolding arp_handle_def f Let_def w p(2)
    by (simp add: f m mac q(1) r(1) u(1) v(1) x(1) z put_rec to_be16_def to_be32_def eth_frame_def arp_packet_def)
qed

section \<open>Echo replies\<close>

text \<open>The message that answers an echo request with the bytes \<open>rest\<close> after its checksum.\<close>

definition echo_reply :: "u8 list \<Rightarrow> u8 list" where
  "echo_reply rest = [0, 0] @ to_be16 (checksum ([0, 0, 0, 0] @ rest)) @ rest"

lemma echo_reply_checks: "length rest \<le> 65532 \<Longrightarrow> checksum (echo_reply rest) = 0"
  using checksum_verifies [of "[0, 0]" rest] by (simp add: echo_reply_def)

definition echo_frame :: "u8 list \<Rightarrow> u32 \<Rightarrow> u8 list \<Rightarrow> u32 \<Rightarrow> u8 list \<Rightarrow> u8 list" where
  "echo_frame mac ip smac sip rest =
     (let len = 24 + length rest
      in eth_frame smac mac 0x0800
           (ipv4_header len PROTO_ICMP ip sip (checksum (ipv4_header len PROTO_ICMP ip sip 0)) @ echo_reply rest))"

lemma length_echo [simp]:
  "length (echo_reply rest) = 4 + length rest"
  "length mac = 6 \<Longrightarrow> length smac = 6 \<Longrightarrow> length (echo_frame mac ip smac sip rest) = 38 + length rest"
  by (simp_all add: echo_reply_def echo_frame_def eth_frame_def Let_def)

lemma icmp_handle_request:
  assumes "length mac = 6" "length smac = 6" "4 \<le> length rest" "38 + length rest \<le> length out"
  shows "icmp_handle ([8, c, k1, k2] @ rest) mac ip smac sip out =
    (38 + length rest, echo_frame mac ip smac sip rest @ drop (38 + length rest) out)"
proof -
  let ?pay = "[8, c, k1, k2] @ rest" and ?n = "4 + length rest"
  define pay where "pay = ?pay"
  have pay: "length pay = ?n" "pay ! 0 = 8" by (simp_all add: pay_def)
  define p where "p = drop 14 out"
  define q where "q = drop 20 p"
  let ?h = "ipv4_header (20 + ?n) PROTO_ICMP ip sip (checksum (ipv4_header (20 + ?n) PROTO_ICMP ip sip 0))"
  have q: "?n \<le> length q" "drop (38 + length rest) out = drop ?n q" using assms(4) by (simp_all add: p_def q_def)
  have w: "write_frame out smac mac 0x0800 = (14, (smac @ mac @ to_be16 0x0800) @ p)"
    using write_frame_spec [OF assms(2,1), of out] assms(4) by (simp add: p_def)
  have i: "ipv4_write p PROTO_ICMP ip sip ?n = (20, ?h @ q)"
    using ipv4_write_spec [of ?n p] assms(4) by (simp add: p_def q_def)
  have pre: "length (smac @ mac @ to_be16 0x0800) = 14" using assms by simp
  define pr where "pr = smac @ mac @ to_be16 0x0800"
  note w = w [folded pr_def] and pre = pre [folded pr_def]
  have put0: "put 0 pay (slice 34 (34 + ?n) (pr @ ?h @ q)) = ?pay" using pre q(1) by (simp add: slice_def put_def pay_def)
  have icmp: "put 2 (to_be16 (checksum ([0, 0, 0, 0] @ rest))) ([0, 0, 0, 0] @ rest) = echo_reply rest"
    by (simp add: echo_reply_def put_def)
  have fin: "put 34 (echo_reply rest) (pr @ ?h @ q) = pr @ ?h @ echo_reply rest @ drop ?n q"
    using pre by (simp add: put_def)
  have len: "\<not> ?n < 8" "\<not> length out < 14 + 20 + ?n" using assms(3,4) by simp_all
  have "icmp_handle pay mac ip smac sip out =
     (let icmp = put 0 pay (slice 34 (34 + ?n) (pr @ ?h @ q));
          icmp = icmp[0 := 0, 1 := 0, 2 := 0, 3 := 0]; csum = checksum (take ?n icmp);
          icmp = put 2 (to_be16 csum) icmp
      in (34 + ?n, put 34 icmp (pr @ ?h @ q)))"
    unfolding icmp_handle_def pay using len pre by (simp add: w i Let_def)
  also have "\<dots> = (34 + ?n, pr @ ?h @ echo_reply rest @ drop ?n q)"
    unfolding put0 Let_def using icmp fin by simp
  finally show ?thesis using q(2) by (simp add: echo_frame_def eth_frame_def pr_def pay_def Let_def)
qed

section \<open>What is answered\<close>

lemma eth_frame_fields:
  assumes "length dst = 6" "length src = 6"
  shows "length (eth_frame dst src e p) = 14 + length p" "drop 14 (eth_frame dst src e p) = p"
    "slice 6 12 (eth_frame dst src e p) = src"
    "from_be16 (eth_frame dst src e p ! 12) (eth_frame dst src e p ! 13) = e"
  using assms by (auto simp: list6 eth_frame_def slice_def to_be16_def be16_roundtrip)

lemma process_arp:
  assumes "length dst = 6" "length src = 6"
  shows "rust_process_packet (eth_frame dst src 0x0806 p) mac ip buf =
    (case arp_handle p mac ip src buf of (n, buf) \<Rightarrow> if 0 < n then (True, of_nat n, buf) else (False, 0, buf))"
  by (simp add: rust_process_packet_def eth_frame_fields [OF assms] from_u16_def Let_def split: prod.split)

lemma process_icmp:
  assumes "length dst = 6" "length src = 6" "ipv4_parse p = Some (q, PROTO_ICMP, sip, ip)"
  shows "rust_process_packet (eth_frame dst src 0x0800 p) mac ip buf =
    (case icmp_handle q mac ip src sip buf of (n, buf) \<Rightarrow> if 0 < n then (True, of_nat n, buf) else (False, 0, buf))"
  by (simp add: rust_process_packet_def eth_frame_fields [OF assms(1,2)] from_u16_def Let_def assms(3) split: prod.split)

lemma length_arp_handle:
  assumes "length mac = 6"
  shows "length (snd (arp_handle p mac ip src buf)) = length buf"
proof -
  have f: "length (snd (write_frame buf (slice 8 14 p) mac 0x0806)) = length buf" if "28 \<le> length p"
    using that assms by (intro length_write_frame) (simp_all add: slice_def)
  obtain h b where w: "write_frame buf (slice 8 14 p) mac 0x0806 = (h, b)" by fastforce
  show ?thesis
  proof (cases "28 \<le> length p")
    case True
    then have "length (slice 8 14 p) = 6" by (simp add: slice_def)
    with f True w assms show ?thesis by (auto simp: arp_handle_def Let_def)
  qed (simp add: arp_handle_def)
qed

lemma length_icmp_handle:
  assumes "length mac = 6" "length src = 6"
  shows "length (snd (icmp_handle q mac ip src sip buf)) = length buf"
proof (cases "8 \<le> length q \<and> q ! 0 = 8 \<and> 34 + length q \<le> length buf")
  case True
  then obtain c k1 k2 rest where q: "q = [8, c, k1, k2] @ rest" "4 \<le> length rest"
    by (cases q; cases "tl q"; cases "tl (tl q)"; cases "tl (tl (tl q))") auto
  with icmp_handle_request [OF assms q(2), of buf c k1 k2 ip sip] True assms show ?thesis by simp
next
  case False
  then show ?thesis by (auto simp: icmp_handle_def Let_def)
qed

text \<open>The Rust code keeps the contract of the network layer.\<close>

interpretation rust: packet_handler rust_process_packet
proof
  have "length (snd (snd (rust_process_packet f mac ip buf))) = length buf" if "length mac = 6" for f mac ip buf
  proof (cases "14 \<le> length f")
    case True
    then have "length (slice 6 12 f) = 6" by (simp add: slice_def)
    note h = length_arp_handle [OF that] length_icmp_handle [OF that this]
    have e: "length b = length buf" if "icmp_handle q mac ip (slice 6 12 f) sip buf = (n, b)" for q sip n b
      using h(2) [of q ip sip buf] that by simp
    show ?thesis
      using True h(1) [of "drop 14 f" ip "slice 6 12 f" buf]
      by (cases "from_u16 (from_be16 (f ! 12) (f ! 13))"; cases "ipv4_parse (drop 14 f)")
        (auto simp: rust_process_packet_def Let_def dest!: e split: prod.split)
  qed (simp add: rust_process_packet_def)
  then show "fits_buffer rust_process_packet" unfolding fits_buffer_def by (metis snd_conv)
qed

section \<open>Properties\<close>


text \<open>
  An ARP request for our address, from whatever station and however padded, is answered by the ARP reply that gives our hardware
  address, addressed to the sender.
\<close>

theorem arp_answered:
  assumes "length mac = 6" "length dst = 6" "length src = 6" "length smac = 6" "length tmac = 6" "length buf = NET_MTU"
  shows "\<exists>rbuf. rust_process_packet (eth_frame dst src 0x0806 (arp_packet 1 smac sip tmac ip @ pad)) mac ip buf = (True, 42, rbuf) \<and>
    take 42 rbuf = eth_frame smac mac 0x0806 (arp_packet 2 mac ip smac sip)"
proof -
  have "length (arp_packet 2 mac ip smac sip) = 28" using assms(1,4) by (simp add: arp_packet_def)
  with assms arp_handle_request [OF assms(1,4,5), of buf sip ip pad src] show ?thesis
    by (simp add: process_arp [OF assms(2,3)] NET_MTU_def eth_frame_fields)
qed



text \<open>
  The announcement at start-up is meant for every station, but it is built as the reply to a request of our own, so
  the frame is addressed to our own hardware address and no other station takes it.
\<close>

theorem announce_to_self:
  assumes "length mac = 6" "length buf = 42"
  shows "rust_arp_announce mac ip buf = (42, eth_frame mac mac 0x0806 (arp_packet 2 mac ip mac ip))"
proof -
  obtain m0 m1 m2 m3 m4 m5 where m: "mac = [m0, m1, m2, m3, m4, m5]" using assms(1) by (auto simp: list6)
  let ?z = "replicate 6 (0 :: u8)"
  have z: "replicate 28 (0 :: u8) = [0, 0, 0, 0, 0, 0, 0, 0, 0, 0, 0, 0, 0, 0, 0, 0, 0, 0, 0, 0, 0, 0, 0, 0, 0, 0, 0, 0]"
    "?z = [0, 0, 0, 0, 0, 0]" by (simp_all add: eval_nat_numeral)
  have "put 24 (to_be32 ip) (put 14 (to_be32 ip) (put 8 mac (put 6 [0, 1]
      ((put 2 [8, 0] (put 0 [0, 1] (replicate 28 0)))[4 := 6, 5 := 4])))) = arp_packet 1 mac ip ?z ip"
    by (simp add: z m put_rec to_be32_def to_be16_def arp_packet_def)
  with arp_handle_request [OF assms(1,1), of ?z buf ip ip "[]" mac] assms show ?thesis
    by (simp add: rust_arp_announce_def Let_def)
qed

section \<open>Samples\<close>

definition sample_ping :: "u8 list" where
  "sample_ping = ipv4_header 28 PROTO_ICMP 0xC0A80001 0xC0A80002 0 @ [8, 0, 0xF7, 0xFD, 0, 1, 0, 1]"

lemma sample_ping_parse: "ipv4_parse sample_ping = Some ([8, 0, 0xF7, 0xFD] @ [0, 1, 0, 1], PROTO_ICMP, 0xC0A80001, 0xC0A80002)"
  by (simp add: sample_ping_def ipv4_parse_header)

lemma length_sample_ping [simp]: "length sample_ping = 28"
  by (simp add: sample_ping_def)

definition sample_ping_ring :: card where
  "sample_ping_ring =
     \<lparr>c_mem = (\<lambda>a. if a = 0x10002 then 46 else if 0x10004 \<le> a \<and> a < 0x10004 + 42
         then eth_frame [2, 0, 0, 0, 0, 1] [2, 0, 0, 0, 0, 9] 0x0800 sample_ping ! (a - 0x10004) else 0),
      c_rd = 0, c_wr = 52, c_sent = []\<rparr>"


theorem arp_answered_witness:
  "\<exists>rbuf. rust_process_packet (eth_frame (replicate 6 0xFF) [2, 0, 0, 0, 0, 9] 0x0806
       (arp_packet 1 [2, 0, 0, 0, 0, 9] 0xC0A80001 (replicate 6 0) 0xC0A80002 @ replicate 18 0)) [2, 0, 0, 0, 0, 1] 0xC0A80002 (replicate NET_MTU 0)
       = (True, 42, rbuf) \<and>
     take 42 rbuf = eth_frame [2, 0, 0, 0, 0, 9] [2, 0, 0, 0, 0, 1] 0x0806 (arp_packet 2 [2, 0, 0, 0, 0, 1] 0xC0A80002 [2, 0, 0, 0, 0, 9] 0xC0A80001)"
  by (rule arp_answered) (simp_all add: NET_MTU_def)



end
