(* ===== verification/VfsNode.thy ===== *)
theory VfsNode
  imports Prelude
begin

text \<open>
  The node type of the virtual file system, \<^verbatim>\<open>kernel/fs/vfs.h\<close>, and the state the file systems
  share.  Pointers are natural numbers with 0 for \<^verbatim>\<open>NULL\<close>; each kind of object has its own store.
  A function pointer of a node is the name of the function it points to, and \<^verbatim>\<open>fs_data\<close> points to
  an object of its file system.  Names are C strings: byte lists without the terminating zero.
  \<^verbatim>\<open>kmalloc\<close> is modelled by a counter of fresh addresses, the part of its contract that the file
  systems use (\<open>kmalloc_correct\<close> of the heap theory).
\<close>

definition VFS_FILE :: u32 where "VFS_FILE = 0x01"
definition VFS_DIR :: u32 where "VFS_DIR = 0x02"

type_synonym name = "u8 list"

datatype read_fn = No_read | Tmpfs_read | Fat32_read_file
datatype write_fn = No_write | Tmpfs_write
datatype readdir_fn = No_readdir | Tmpfs_readdir | Fat32_readdir
datatype finddir_fn = No_finddir | Tmpfs_finddir | Fat32_finddir

record vfs_node =
  n_name :: name
  n_flags :: u32
  n_size :: u64
  fs_data :: nat
  n_read :: read_fn
  n_write :: write_fn
  n_readdir :: readdir_fn
  n_finddir :: finddir_fn

definition zero_node :: vfs_node where
  "zero_node = \<lparr>n_name = [], n_flags = 0, n_size = 0, fs_data = 0, n_read = No_read,
     n_write = No_write, n_readdir = No_readdir, n_finddir = No_finddir\<rparr>"

text \<open>\<^verbatim>\<open>tmpfs_dir_t\<close> and \<^verbatim>\<open>tmpfs_file_t\<close>; \<open>dir_entries\<close> is the array with its \<^verbatim>\<open>cap\<close> slots.\<close>

record tmpfs_dir =
  dir_entries :: "nat list"
  dir_count :: nat
  dir_cap :: nat

record tmpfs_file =
  f_data :: "u8 list"
  f_size :: nat

text \<open>
  \<^verbatim>\<open>fat32_vol_t\<close>, \<^verbatim>\<open>fat32_file_t\<close> and \<^verbatim>\<open>fat32_dir_t\<close>.  \<open>read_sector\<close> is the callback together with
  its context: from a sector number and the contents of the buffer before the call it gives the
  contents after it.
\<close>

record fat32_vol =
  part_lba :: u32
  fat_lba :: u32
  data_lba :: u32
  root_cluster :: u32
  sectors_per_cluster :: u32
  bytes_per_cluster :: u32
  read_sector :: "u32 \<Rightarrow> u8 list \<Rightarrow> u8 list"
  sector_buf :: "u8 list"

record fat32_file =
  ff_vol :: nat
  start_cluster :: u32
  file_size :: u64

record fat32_dir =
  fd_vol :: nat
  fd_cluster :: u32
  fd_entries :: "nat list"
  fd_loaded :: bool

record fs =
  nodes :: "nat \<Rightarrow> vfs_node"
  tdirs :: "nat \<Rightarrow> tmpfs_dir"
  tfiles :: "nat \<Rightarrow> tmpfs_file"
  fvols :: "nat \<Rightarrow> fat32_vol"
  ffiles :: "nat \<Rightarrow> fat32_file"
  fdirs :: "nat \<Rightarrow> fat32_dir"
  brk :: nat

definition alloc :: "fs \<Rightarrow> nat \<times> fs" where
  "alloc s = (brk s, s\<lparr>brk := brk s + 1\<rparr>)"

text \<open>The C string in an array: the bytes before the first zero.\<close>

definition cstring :: "u8 list \<Rightarrow> name" where
  "cstring xs = takeWhile (\<lambda>c. c \<noteq> 0) xs"

text \<open>The search loop both file systems have: the first entry whose name is equal.\<close>

fun find_entry :: "(nat \<Rightarrow> vfs_node) \<Rightarrow> name \<Rightarrow> nat list \<Rightarrow> nat" where
  "find_entry ns nm [] = 0"
| "find_entry ns nm (e # es) = (if n_name (ns e) = nm then e else find_entry ns nm es)"

section \<open>What a directory promises\<close>

text \<open>
  Both file systems search a directory by comparing the names of its entries one after the
  other and list it by index; both return the null pointer when there is nothing.
  \<open>entries s d\<close> are the nodes of directory \<open>d\<close> in order, \<open>nm s n\<close> is the name of node \<open>n\<close>.
\<close>

definition pointer :: "nat option \<Rightarrow> nat" where
  "pointer r = (case r of None \<Rightarrow> 0 | Some n \<Rightarrow> n)"

lemma find_entry_find: "find_entry ns x es = pointer (find (\<lambda>n. n_name (ns n) = x) es)"
  by (induction es) (auto simp: pointer_def)

locale directory =
  fixes inv :: "'s \<Rightarrow> bool"
    and entries :: "'s \<Rightarrow> 'd \<Rightarrow> nat list"
    and nm :: "'s \<Rightarrow> nat \<Rightarrow> name"
    and finddir :: "'d \<Rightarrow> name \<Rightarrow> 's \<Rightarrow> nat"
    and readdir :: "'d \<Rightarrow> u32 \<Rightarrow> 's \<Rightarrow> nat"
  assumes entries_nonnull: "inv s \<Longrightarrow> 0 \<notin> set (entries s d)"
    and finddir_find: "inv s \<Longrightarrow> finddir d x s = pointer (find (\<lambda>n. nm s n = x) (entries s d))"
    and readdir_nth: "inv s \<Longrightarrow>
      readdir d i s = (if unat i < length (entries s d) then entries s d ! unat i else 0)"
begin

lemma found_nonnull: "inv s \<Longrightarrow> find P (entries s d) = Some n \<Longrightarrow> n \<noteq> 0"
  using entries_nonnull [of s d] by (metis find_Some_iff nth_mem)

text \<open>What a search finds is listed, under that name, and nothing before it has the name.\<close>

lemma finddir_listed:
  assumes "inv s" "finddir d x s = n" "n \<noteq> 0" "length (entries s d) < 2 ^ 32"
  shows "nm s n = x \<and> (\<exists>i. readdir d i s = n \<and> (\<forall>j<i. nm s (readdir d j s) \<noteq> x))"
proof -
  have "find (\<lambda>n. nm s n = x) (entries s d) = Some n"
    using assms finddir_find [OF assms(1), of d x] by (auto simp: pointer_def split: option.splits)
  then obtain i where i: "i < length (entries s d)" "nm s (entries s d ! i) = x"
    "n = entries s d ! i" "\<forall>j<i. nm s (entries s d ! j) \<noteq> x" by (auto simp: find_Some_iff)
  have u: "unat (of_nat i :: u32) = i" using i(1) assms(4) by (simp add: unat_of_nat)
  have "nm s (readdir d j s) \<noteq> x" if "j < of_nat i" for j
  proof -
    have "unat j < i" using that u by (simp add: word_less_nat_alt)
    with i(1,4) show ?thesis by (simp add: readdir_nth [OF assms(1)])
  qed
  moreover have "readdir d (of_nat i) s = n" using i u by (simp add: readdir_nth [OF assms(1)])
  ultimately show ?thesis using i(2,3) by (intro conjI exI [of _ "of_nat i"]) auto
qed

lemma finddir_null_iff:
  assumes "inv s"
  shows "finddir d x s = 0 \<longleftrightarrow> (\<forall>n\<in>set (entries s d). nm s n \<noteq> x)"
proof (cases "find (\<lambda>n. nm s n = x) (entries s d)")
  case None
  then have "finddir d x s = 0" by (simp add: finddir_find [OF assms] pointer_def)
  with None show ?thesis by (auto simp: find_None_iff)
next
  case (Some n)
  with found_nonnull [OF assms Some] have "finddir d x s \<noteq> 0"
    by (simp add: finddir_find [OF assms] pointer_def)
  moreover have "n \<in> set (entries s d)" "nm s n = x" using Some by (auto simp: find_Some_iff)
  ultimately show ?thesis by blast
qed

text \<open>A new last entry is found unless an older one has its name.\<close>

lemma finddir_appended:
  assumes "inv s" "inv t" "entries t d = entries s d @ [n]"
    and "\<And>m. m \<in> set (entries s d) \<Longrightarrow> nm t m = nm s m"
  shows "finddir d x t = (if finddir d x s \<noteq> 0 then finddir d x s else if nm t n = x then n else 0)"
proof -
  have app: "find P (xs @ [z]) = (case find P xs of Some y \<Rightarrow> Some y | None \<Rightarrow> if P z then Some z else None)"
    for P :: "nat \<Rightarrow> bool" and xs z by (induction xs) auto
  have eq: "find (\<lambda>n. nm t n = x) (entries s d) = find (\<lambda>n. nm s n = x) (entries s d)"
    using assms(4) by (intro find_cong refl) auto
  show ?thesis
  proof (cases "find (\<lambda>n. nm s n = x) (entries s d)")
    case (Some m)
    with found_nonnull [OF assms(1) Some] show ?thesis
      by (simp add: finddir_find [OF assms(1)] finddir_find [OF assms(2)] assms(3) app eq pointer_def)
  qed (simp add: finddir_find [OF assms(1)] finddir_find [OF assms(2)] assms(3) app eq pointer_def)
qed

end

end
