(* ===== verification/Tmpfs.thy ===== *)
theory Tmpfs
  imports VfsNode
begin

text \<open>
  The memory file system \<^verbatim>\<open>kernel/fs/tmpfs.c\<close>.  A read or write that would touch memory outside
  a file's buffer has no defined result: it is \<open>None\<close>.  Bytes that \<^verbatim>\<open>krealloc\<close> or \<^verbatim>\<open>kmalloc\<close> leave
  uninitialised have whatever value \<open>junk\<close> gives them.  The number of entries of a directory
  stays far below the range of its \<^verbatim>\<open>u32\<close> counters, which are natural numbers here.
\<close>

section \<open>Files\<close>

definition tmpfs_read :: "nat \<Rightarrow> u64 \<Rightarrow> u32 \<Rightarrow> fs \<Rightarrow> u8 list" where
  "tmpfs_read node off sz s =
     (let f = tfiles s (fs_data (nodes s node))
      in if unat off \<ge> f_size f then []
         else
           let sz = (if unat off + unat sz > f_size f then f_size f - unat off else unat sz)
           in take sz (drop (unat off mod 2 ^ 32) (f_data f)))"

definition tmpfs_write :: "(nat \<Rightarrow> u8) \<Rightarrow> nat \<Rightarrow> u64 \<Rightarrow> u32 \<Rightarrow> u8 list \<Rightarrow> fs \<Rightarrow> (u32 \<times> fs) option" where
  "tmpfs_write junk node off sz buf s =
     (let p = fs_data (nodes s node);
          f = tfiles s p;
          off32 = (ucast off :: u32);
          last = unat (off32 + sz);
          (f, s) =
            (if last > f_size f then
               (let f = f\<lparr>f_data := f_data f @ map junk [length (f_data f) ..< last], f_size := last\<rparr>
                in (f, s\<lparr>nodes := (nodes s)(node := (nodes s node)\<lparr>n_size := of_nat last\<rparr>)\<rparr>))
             else (f, s));
          k = unat off32;
          n = unat sz
      in if k + n \<le> length (f_data f)
         then Some (sz, s\<lparr>tfiles := (tfiles s)(p :=
                f\<lparr>f_data := take k (f_data f) @ take n buf @ drop (k + n) (f_data f)\<rparr>)\<rparr>)
         else None)"

section \<open>Directories\<close>

definition tmpfs_entries :: "fs \<Rightarrow> nat \<Rightarrow> nat list" where
  "tmpfs_entries s node = take (dir_count (tdirs s (fs_data (nodes s node)))) (dir_entries (tdirs s (fs_data (nodes s node))))"

definition tmpfs_readdir :: "nat \<Rightarrow> u32 \<Rightarrow> fs \<Rightarrow> nat" where
  "tmpfs_readdir node idx s =
     (let d = tdirs s (fs_data (nodes s node))
      in if unat idx < dir_count d then dir_entries d ! unat idx else 0)"

definition tmpfs_finddir :: "nat \<Rightarrow> name \<Rightarrow> fs \<Rightarrow> nat" where
  "tmpfs_finddir node nm s = find_entry (nodes s) nm (tmpfs_entries s node)"

definition dir_add :: "nat \<Rightarrow> nat \<Rightarrow> fs \<Rightarrow> fs" where
  "dir_add p n s =
     (let d = tdirs s p;
          d = (if dir_count d \<ge> dir_cap d then
                 let cap = (if dir_cap d \<noteq> 0 then dir_cap d * 2 else 4)
                 in d\<lparr>dir_cap := cap, dir_entries := dir_entries d @ replicate (cap - length (dir_entries d)) 0\<rparr>
               else d);
          d = d\<lparr>dir_entries := (dir_entries d)[dir_count d := n], dir_count := dir_count d + 1\<rparr>
      in s\<lparr>tdirs := (tdirs s)(p := d)\<rparr>)"

definition tmpfs_create :: "name \<Rightarrow> fs \<Rightarrow> nat \<times> fs" where
  "tmpfs_create nm s =
     (let (d, s) = alloc s;
          s = s\<lparr>tdirs := (tdirs s)(d := \<lparr>dir_entries = [], dir_count = 0, dir_cap = 0\<rparr>)\<rparr>;
          (n, s) = alloc s;
          s = s\<lparr>nodes := (nodes s)(n := zero_node\<lparr>n_name := take 255 nm, n_flags := VFS_DIR,
                 fs_data := d, n_readdir := Tmpfs_readdir, n_finddir := Tmpfs_finddir\<rparr>)\<rparr>
      in (n, s))"

definition tmpfs_mkdir :: "nat \<Rightarrow> name \<Rightarrow> fs \<Rightarrow> nat \<times> fs" where
  "tmpfs_mkdir parent nm s =
     (let (n, s) = tmpfs_create nm s
      in (n, dir_add (fs_data (nodes s parent)) n s))"

text \<open>\<open>data\<close> is \<open>None\<close> for the null pointer; then the buffer keeps its uninitialised bytes.\<close>

definition tmpfs_mkfile :: "(nat \<Rightarrow> u8) \<Rightarrow> nat \<Rightarrow> name \<Rightarrow> u8 list option \<Rightarrow> u32 \<Rightarrow> fs \<Rightarrow> nat \<times> fs" where
  "tmpfs_mkfile junk parent nm data sz s =
     (let (f, s) = alloc s;
          bytes = (case data of None \<Rightarrow> map junk [0 ..< unat sz] | Some xs \<Rightarrow> take (unat sz) xs);
          s = s\<lparr>tfiles := (tfiles s)(f := \<lparr>f_data = bytes, f_size = unat sz\<rparr>)\<rparr>;
          (n, s) = alloc s;
          s = s\<lparr>nodes := (nodes s)(n := zero_node\<lparr>n_name := take 255 nm, n_flags := VFS_FILE,
                 n_size := ucast sz, fs_data := f, n_read := Tmpfs_read, n_write := Tmpfs_write\<rparr>)\<rparr>
      in (n, dir_add (fs_data (nodes s parent)) n s))"

section \<open>Well-formed file systems\<close>

text \<open>
  What every operation keeps: the count of a directory is within its array and the array has
  \<^verbatim>\<open>cap\<close> slots, entries are allocated nodes, a file's buffer has the size the file says, and no
  object lies beyond the allocation counter.
\<close>

definition dir_wf :: "tmpfs_dir \<Rightarrow> bool" where
  "dir_wf d \<longleftrightarrow> dir_count d \<le> dir_cap d \<and> length (dir_entries d) = dir_cap d"

definition file_wf :: "tmpfs_file \<Rightarrow> bool" where
  "file_wf f \<longleftrightarrow> length (f_data f) = f_size f \<and> f_size f < 2 ^ 32"

definition tmpfs_inv :: "fs \<Rightarrow> bool" where
  "tmpfs_inv s \<longleftrightarrow> 0 < brk s \<and> (\<forall>p. dir_wf (tdirs s p)) \<and> (\<forall>p. file_wf (tfiles s p)) \<and>
     (\<forall>p. \<forall>n\<in>set (take (dir_count (tdirs s p)) (dir_entries (tdirs s p))). 0 < n \<and> n < brk s)"

lemma take_update_end: "k < length xs \<Longrightarrow> take (Suc k) (xs[k := x]) = take k xs @ [x]"
  by (simp add: take_Suc_conv_app_nth)

lemma dir_add_entries:
  assumes "dir_wf (tdirs s p)"
  shows "dir_wf (tdirs (dir_add p n s) q) = (q = p \<or> dir_wf (tdirs s q))"
    and "take (dir_count (tdirs (dir_add p n s) q)) (dir_entries (tdirs (dir_add p n s) q)) =
      take (dir_count (tdirs s q)) (dir_entries (tdirs s q)) @ (if q = p then [n] else [])"
  using assms by (auto simp: dir_add_def Let_def dir_wf_def take_update_end)

lemma dir_add_frame [frame_simps]:
  "nodes (dir_add p n s) = nodes s" "tfiles (dir_add p n s) = tfiles s" "brk (dir_add p n s) = brk s"
  "fdirs (dir_add p n s) = fdirs s" "ffiles (dir_add p n s) = ffiles s" "fvols (dir_add p n s) = fvols s"
  by (simp_all add: dir_add_def Let_def)

lemma alloc_frame [frame_simps]:
  "fst (alloc s) = brk s" "brk (snd (alloc s)) = brk s + 1" "nodes (snd (alloc s)) = nodes s"
  "tdirs (snd (alloc s)) = tdirs s" "tfiles (snd (alloc s)) = tfiles s"
  by (simp_all add: alloc_def)

lemma dir_add_inv [inv_intros]:
  assumes "tmpfs_inv s" "0 < n" "n < brk s"
  shows "tmpfs_inv (dir_add p n s)"
proof -
  have wf: "dir_wf (tdirs s p)" using assms(1) by (simp add: tmpfs_inv_def)
  show ?thesis
    using assms dir_add_entries [OF wf] unfolding tmpfs_inv_def by (auto simp: frame_simps)
qed

lemma tmpfs_create_spec:
  assumes "tmpfs_inv s"
  shows "fst (tmpfs_create nm s) = brk s + 1" "brk (snd (tmpfs_create nm s)) = brk s + 2"
    "nodes (snd (tmpfs_create nm s)) = (nodes s)(brk s + 1 := zero_node\<lparr>n_name := take 255 nm,
       n_flags := VFS_DIR, fs_data := brk s, n_readdir := Tmpfs_readdir, n_finddir := Tmpfs_finddir\<rparr>)"
    "tdirs (snd (tmpfs_create nm s)) = (tdirs s)(brk s := \<lparr>dir_entries = [], dir_count = 0, dir_cap = 0\<rparr>)"
    "tfiles (snd (tmpfs_create nm s)) = tfiles s" "tmpfs_inv (snd (tmpfs_create nm s))"
  using assms by (auto simp: tmpfs_create_def alloc_def Let_def tmpfs_inv_def dir_wf_def) fastforce

lemma tmpfs_entries_pos:
  assumes "tmpfs_inv s" "n \<in> set (tmpfs_entries s d)"
  shows "0 < n" "n < brk s"
  using assms by (auto simp: tmpfs_inv_def tmpfs_entries_def)

lemma tmpfs_finddir_find:
  "tmpfs_finddir d x s = pointer (find (\<lambda>n. n_name (nodes s n) = x) (tmpfs_entries s d))"
  by (simp add: tmpfs_finddir_def find_entry_find)

interpretation tmp_dir: directory tmpfs_inv tmpfs_entries "\<lambda>s n. n_name (nodes s n)"
  tmpfs_finddir tmpfs_readdir
proof
  show "0 \<notin> set (tmpfs_entries s d)" if "tmpfs_inv s" for s d
    using tmpfs_entries_pos [OF that] by blast
  show "tmpfs_finddir d x s = pointer (find (\<lambda>n. n_name (nodes s n) = x) (tmpfs_entries s d))"
    if "tmpfs_inv s" for s d x by (rule tmpfs_finddir_find)
  show "tmpfs_readdir d i s = (if unat i < length (tmpfs_entries s d) then tmpfs_entries s d ! unat i else 0)"
    if "tmpfs_inv s" for s d i
    using that by (simp add: tmpfs_readdir_def tmpfs_entries_def Let_def tmpfs_inv_def dir_wf_def min_absorb2)
qed

section \<open>Writing and reading a file\<close>

definition file_of :: "fs \<Rightarrow> nat \<Rightarrow> tmpfs_file" where
  "file_of s node = tfiles s (fs_data (nodes s node))"

text \<open>The file after a write at \<open>k\<close>, grown with uninitialised bytes first when it is too short.\<close>

definition written :: "(nat \<Rightarrow> u8) \<Rightarrow> nat \<Rightarrow> u8 list \<Rightarrow> u8 list \<Rightarrow> u8 list" where
  "written junk k buf old =
     (let grown = old @ map junk [length old ..< k + length buf]
      in take k grown @ buf @ drop (k + length buf) grown)"

lemma length_written: "length (written junk k buf old) = max (length old) (k + length buf)"
  by (auto simp: written_def Let_def)

lemma tmpfs_write_exec:
  assumes "tmpfs_inv s" "length buf = unat sz" "unat off + unat sz < 2 ^ 32"
  shows "\<exists>s'. tmpfs_write junk node off sz buf s = Some (sz, s') \<and> fs_data (nodes s' node) = fs_data (nodes s node) \<and>
    f_data (file_of s' node) = written junk (unat off) buf (f_data (file_of s node)) \<and>
    f_size (file_of s' node) = max (f_size (file_of s node)) (unat off + unat sz) \<and> tmpfs_inv s'"
proof -
  let ?f = "file_of s node"
  have wf: "length (f_data ?f) = f_size ?f" "f_size ?f < 2 ^ 32"
    using assms(1) by (simp_all add: tmpfs_inv_def file_of_def file_wf_def)
  have k: "unat (ucast off :: u32) = unat off"
    using assms(3) by (simp add: unsigned_ucast_eq take_bit_nat_eq_self)
  then have l: "unat ((ucast off :: u32) + sz) = unat off + unat sz"
    using assms(3) by (simp add: unat_word_ariths)
  define g where "g = (if unat off + unat sz > f_size ?f
    then ?f\<lparr>f_data := f_data ?f @ map junk [length (f_data ?f) ..< unat off + unat sz], f_size := unat off + unat sz\<rparr>
    else ?f)"
  define t where "t = (if unat off + unat sz > f_size ?f
    then s\<lparr>nodes := (nodes s)(node := (nodes s node)\<lparr>n_size := of_nat (unat off + unat sz)\<rparr>)\<rparr> else s)"
  define u where "u = t\<lparr>tfiles := (tfiles t)(fs_data (nodes s node) :=
    g\<lparr>f_data := take (unat off) (f_data g) @ take (unat sz) buf @ drop (unat off + unat sz) (f_data g)\<rparr>)\<rparr>"
  have len: "length (f_data g) = max (f_size ?f) (unat off + unat sz)" "f_size g = max (f_size ?f) (unat off + unat sz)"
    using wf by (auto simp: g_def max_def)
  have w: "tmpfs_write junk node off sz buf s = Some (sz, u)"
    using wf by (simp add: tmpfs_write_def Let_def k l u_def t_def g_def file_of_def)
  have node: "fs_data (nodes u node) = fs_data (nodes s node)" by (simp add: u_def t_def)
  have fu: "file_of u node = g\<lparr>f_data := take (unat off) (f_data g) @ take (unat sz) buf @ drop (unat off + unat sz) (f_data g)\<rparr>"
    unfolding file_of_def node by (simp add: u_def)
  have "f_data g = f_data ?f @ map junk [length (f_data ?f) ..< unat off + unat sz]"
    using wf by (auto simp: g_def)
  with fu assms(2) have d: "f_data (file_of u node) = written junk (unat off) buf (f_data ?f)"
    by (simp add: written_def Let_def)
  have "file_wf (file_of u node)"
    unfolding file_wf_def d length_written using wf assms(2,3) len(2) by (simp add: fu)
  then have "file_wf (tfiles u (fs_data (nodes s node)))" unfolding file_of_def node .
  moreover have "tfiles u q = tfiles s q" if "q \<noteq> fs_data (nodes s node)" for q using that by (simp add: u_def t_def)
  ultimately have "file_wf (tfiles u q)" for q
    using assms(1) by (cases "q = fs_data (nodes s node)") (simp_all add: tmpfs_inv_def)
  then have "tmpfs_inv u" using assms(1) by (simp add: tmpfs_inv_def u_def t_def)
  with w node d len(2) show ?thesis by (simp add: fu)
qed

lemma tmpfs_read_data:
  assumes "tmpfs_inv s"
  shows "tmpfs_read node off sz s = take (unat sz) (drop (unat off) (f_data (file_of s node)))"
proof -
  let ?f = "file_of s node"
  have wf: "length (f_data ?f) = f_size ?f" "f_size ?f < 2 ^ 32"
    using assms by (simp_all add: tmpfs_inv_def file_of_def file_wf_def)
  show ?thesis
  proof (cases "unat off \<ge> f_size ?f")
    case True
    with wf show ?thesis by (simp add: tmpfs_read_def Let_def file_of_def)
  next
    case False
    with wf have "unat off mod 2 ^ 32 = unat off" by simp
    with False wf show ?thesis by (simp add: tmpfs_read_def Let_def file_of_def)
  qed
qed

lemma written_read: "take (length buf) (drop k (written junk k buf old)) = buf"
  by (simp add: written_def Let_def min_def)

lemma written_elsewhere:
  assumes "i < length old" "i < k \<or> k + length buf \<le> i"
  shows "written junk k buf old ! i = old ! i"
  using assms by (auto simp: written_def Let_def nth_append min_def)

section \<open>New entries\<close>

lemma tmpfs_mkfile_exec:
  fixes nm :: name and junk :: "nat \<Rightarrow> u8"
  assumes "tmpfs_inv s" "nodes s parent = p" "parent < brk s" "length bytes = unat sz"
  defines "r \<equiv> tmpfs_mkfile junk parent nm (Some bytes) sz s"
  shows "fst r = brk s + 1" "tmpfs_inv (snd r)" "file_of (snd r) (fst r) = \<lparr>f_data = bytes, f_size = unat sz\<rparr>"
    "tmpfs_entries (snd r) parent = tmpfs_entries s parent @ [fst r]"
    "n_name (nodes (snd r) (fst r)) = take 255 nm" "n_read (nodes (snd r) (fst r)) = Tmpfs_read"
    "n_write (nodes (snd r) (fst r)) = Tmpfs_write"
    "\<And>m. m < brk s \<Longrightarrow> nodes (snd r) m = nodes s m"
proof -
  let ?n = "brk s + 1"
  define node where "node = zero_node\<lparr>n_name := take 255 nm, n_flags := VFS_FILE,
    n_size := ucast sz, fs_data := brk s, n_read := Tmpfs_read, n_write := Tmpfs_write\<rparr>"
  define t where "t = s\<lparr>tfiles := (tfiles s)(brk s := \<lparr>f_data = bytes, f_size = unat sz\<rparr>),
    brk := brk s + 2, nodes := (nodes s)(?n := node)\<rparr>"
  have r: "r = (?n, dir_add (fs_data p) ?n t)"
    using assms(2,3,4) by (simp add: r_def tmpfs_mkfile_def alloc_def Let_def t_def node_def)
  have "file_wf \<lparr>f_data = bytes, f_size = unat sz\<rparr>"
    using assms(4) unat_bound [of sz] by (simp add: file_wf_def)
  then have t: "tmpfs_inv t"
    using assms(1) unfolding tmpfs_inv_def t_def by (auto intro!: less_SucI)
  then have wf: "dir_wf (tdirs t (fs_data p))" by (simp add: tmpfs_inv_def)
  show "fst r = ?n" "n_name (nodes (snd r) (fst r)) = take 255 nm" "n_read (nodes (snd r) (fst r)) = Tmpfs_read"
    "n_write (nodes (snd r) (fst r)) = Tmpfs_write"
    "file_of (snd r) (fst r) = \<lparr>f_data = bytes, f_size = unat sz\<rparr>"
    by (simp_all add: r frame_simps t_def node_def file_of_def)
  show "tmpfs_inv (snd r)" using dir_add_inv [OF t, of ?n "fs_data p"] by (simp add: r t_def)
  show "nodes (snd r) m = nodes s m" if "m < brk s" for m using that by (simp add: r frame_simps t_def)
  show "tmpfs_entries (snd r) parent = tmpfs_entries s parent @ [fst r]"
    using assms(2,3) dir_add_entries(2) [OF wf, of ?n "fs_data p"]
    by (simp add: r tmpfs_entries_def frame_simps t_def)
qed

section \<open>Correctness\<close>

definition empty_fs :: fs where
  "empty_fs = \<lparr>nodes = (\<lambda>_. zero_node), tdirs = (\<lambda>_. \<lparr>dir_entries = [], dir_count = 0, dir_cap = 0\<rparr>),
     tfiles = (\<lambda>_. \<lparr>f_data = [], f_size = 0\<rparr>),
     fvols = (\<lambda>_. \<lparr>part_lba = 0, fat_lba = 0, data_lba = 0, root_cluster = 0, sectors_per_cluster = 0,
       bytes_per_cluster = 0, read_sector = (\<lambda>_ b. b), sector_buf = []\<rparr>),
     ffiles = (\<lambda>_. \<lparr>ff_vol = 0, start_cluster = 0, file_size = 0\<rparr>),
     fdirs = (\<lambda>_. \<lparr>fd_vol = 0, fd_cluster = 0, fd_entries = [], fd_loaded = False\<rparr>), brk = 1\<rparr>"

lemma empty_fs_inv: "tmpfs_inv empty_fs"
  by (simp add: tmpfs_inv_def empty_fs_def dir_wf_def file_wf_def)



text \<open>A write whose end passes 4 GiB touches memory outside the file: the sum of offset and length
  wraps, so the buffer is not grown, and the copy runs past its end.\<close>

theorem tmpfs_write_overruns:
  assumes "tmpfs_inv s" "2 ^ 32 \<le> unat (ucast off :: u32) + unat sz"
  shows "tmpfs_write junk node off sz buf s = None"
proof -
  let ?f = "tfiles s (fs_data (nodes s node))" and ?k = "unat (ucast off :: u32)"
  have wf: "length (f_data ?f) = f_size ?f" "f_size ?f < 2 ^ 32"
    using assms(1) by (simp_all add: tmpfs_inv_def file_wf_def)
  have "unat ((ucast off :: u32) + sz) < 2 ^ 32" using unat_bound [of "(ucast off :: u32) + sz"] by simp
  with wf assms(2) have "\<not> ?k + unat sz \<le> length (f_data ?f @ map junk [length (f_data ?f) ..< unat ((ucast off :: u32) + sz)])"
    by (auto simp: max_def)
  with wf assms(2) show ?thesis by (simp add: tmpfs_write_def Let_def)
qed

theorem tmpfs_write_overruns_witness: "tmpfs_write (\<lambda>_. 0) 5 0xFFFFFFFF 2 [1, 2] empty_fs = None"
  using tmpfs_write_overruns [OF empty_fs_inv, of "0xFFFFFFFF" 2] by simp

end
