(* ===== verification/Fat32.thy ===== *)
theory Fat32
  imports VfsNode
begin

text \<open>
  The FAT32 file system \<^verbatim>\<open>kernel/fs/fat32.c\<close>, read only: the cluster chain, reading a file,
  loading a directory with short and long names, and mounting.  The sector reader is a callback,
  a field of the volume.  Sector and cluster numbers are 32-bit words; the byte counters of the
  read loops never pass the number of bytes asked for and are natural numbers.  Loops that follow
  the disk's data are partial functions: \<open>None\<close> is a run that does not end, or the divide
  exception of a volume with no sectors in a cluster.
\<close>

section \<open>The cluster chain\<close>

definition FAT_EOC :: u32 where "FAT_EOC = 0x0FFFFFF8"

definition le16 :: "u8 list \<Rightarrow> nat \<Rightarrow> u16" where
  "le16 xs i = ucast (xs ! i) OR push_bit 8 (ucast (xs ! (i + 1)))"

definition le32 :: "u8 list \<Rightarrow> nat \<Rightarrow> u32" where
  "le32 xs i = ucast (xs ! i) OR push_bit 8 (ucast (xs ! (i + 1))) OR
     push_bit 16 (ucast (xs ! (i + 2))) OR push_bit 24 (ucast (xs ! (i + 3)))"

definition read_buf :: "u32 \<Rightarrow> fat32_vol \<Rightarrow> fat32_vol" where
  "read_buf lba v = v\<lparr>sector_buf := read_sector v lba (sector_buf v)\<rparr>"

definition next_cluster :: "u32 \<Rightarrow> fat32_vol \<Rightarrow> u32 \<times> fat32_vol" where
  "next_cluster cluster v =
     (let fat_offset = cluster * 4;
          fat_sec = fat_lba v + fat_offset div 512;
          fat_off = fat_offset mod 512;
          v = read_buf fat_sec v
      in (le32 (sector_buf v) (unat fat_off) AND 0x0FFFFFFF, v))"

definition cluster_to_lba :: "fat32_vol \<Rightarrow> u32 \<Rightarrow> u32" where
  "cluster_to_lba v cluster = data_lba v + (cluster - 2) * sectors_per_cluster v"

section \<open>Reading a file\<close>

text \<open>\<open>skip_clusters\<close> is the first loop; it gives up at the end of the chain.\<close>

fun skip_clusters :: "nat \<Rightarrow> u32 \<Rightarrow> fat32_vol \<Rightarrow> u32 option \<times> fat32_vol" where
  "skip_clusters 0 cluster v = (Some cluster, v)"
| "skip_clusters (Suc n) cluster v =
     (let (cluster, v) = next_cluster cluster v
      in if cluster \<ge> FAT_EOC then (None, v) else skip_clusters n cluster v)"

text \<open>
  The inner loop copies one run of sectors.  The code's destination \<^verbatim>\<open>buf + read_total + wrote\<close> is
  always the end of what has been copied so far: \<open>out\<close> is the buffer up to there.
\<close>

partial_function (option) read_sectors ::
  "u32 \<Rightarrow> nat \<Rightarrow> nat \<Rightarrow> nat \<Rightarrow> nat \<Rightarrow> u8 list \<Rightarrow> fat32_vol \<Rightarrow> (u8 list \<times> fat32_vol) option" where
  "read_sectors lba sec_off byte_off wrote chunk out v =
     (if wrote < chunk then
        let v = read_buf (lba + of_nat sec_off) v;
            tk = 512 - byte_off;
            tk = (if tk > chunk - wrote then chunk - wrote else tk)
        in read_sectors lba (sec_off + 1) 0 (wrote + tk) chunk
             (out @ take tk (drop byte_off (sector_buf v))) v
      else Some (out, v))"

partial_function (option) read_clusters ::
  "nat \<Rightarrow> nat \<Rightarrow> nat \<Rightarrow> u32 \<Rightarrow> u8 list \<Rightarrow> fat32_vol \<Rightarrow> (u8 list \<times> fat32_vol) option" where
  "read_clusters sz read_total in_cluster cluster out v =
     (if read_total < sz \<and> cluster < FAT_EOC then
        let lba = cluster_to_lba v cluster;
            avail = unat (bytes_per_cluster v) - in_cluster;
            chunk = (if sz - read_total < avail then sz - read_total else avail)
        in case read_sectors lba (in_cluster div 512) (in_cluster mod 512) 0 chunk out v of
             None \<Rightarrow> None
           | Some (out, v) \<Rightarrow>
               let (cluster, v) = next_cluster cluster v
               in read_clusters sz (read_total + chunk) 0 cluster out v
      else Some (out, v))"

definition read_range :: "u32 \<Rightarrow> u64 \<Rightarrow> u64 \<Rightarrow> u32 \<Rightarrow> fat32_vol \<Rightarrow> (u8 list \<times> fat32_vol) option" where
  "read_range start fsize off sz v =
     (if off \<ge> fsize then Some ([], v)
      else
        let sz = (if off + ucast sz > fsize then (ucast (fsize - off) :: u32) else sz);
            bpc = unat (bytes_per_cluster v);
            off32 = unat (ucast off :: u32)
        in if bpc = 0 then None
           else
             case skip_clusters (off32 div bpc) start v of
               (None, v) \<Rightarrow> Some ([], v)
             | (Some cluster, v) \<Rightarrow> read_clusters (unat sz) 0 (off32 mod bpc) cluster [] v)"

definition fat32_read_file :: "nat \<Rightarrow> u64 \<Rightarrow> u32 \<Rightarrow> fs \<Rightarrow> (u8 list \<times> fs) option" where
  "fat32_read_file node off sz s =
     (let f = ffiles s (fs_data (nodes s node))
      in map_option (\<lambda>(out, v). (out, s\<lparr>fvols := (fvols s)(ff_vol f := v)\<rparr>))
           (read_range (start_cluster f) (file_size f) off sz (fvols s (ff_vol f))))"

section \<open>Directory entries\<close>

definition FAT_ATTR_VOLID :: u8 where "FAT_ATTR_VOLID = 0x08"
definition FAT_ATTR_DIR :: u8 where "FAT_ATTR_DIR = 0x10"
definition FAT_ATTR_LFN :: u8 where "FAT_ATTR_LFN = 0x0F"

text \<open>The fields of \<^verbatim>\<open>fat32_dirent_t\<close> in the 32 bytes of an entry.\<close>

definition de_name :: "u8 list \<Rightarrow> u8 list" where "de_name e = take 8 e"
definition de_ext :: "u8 list \<Rightarrow> u8 list" where "de_ext e = take 3 (drop 8 e)"
definition de_attr :: "u8 list \<Rightarrow> u8" where "de_attr e = e ! 11"
definition de_cluster :: "u8 list \<Rightarrow> u32" where
  "de_cluster e = push_bit 16 (ucast (le16 e 20)) OR ucast (le16 e 26)"
definition de_size :: "u8 list \<Rightarrow> u32" where "de_size e = le32 e 28"

definition parse_83 :: "u8 list \<Rightarrow> u8 list" where
  "parse_83 e =
     takeWhile (\<lambda>c. c \<noteq> 0x20) (de_name e) @
     (if de_ext e ! 0 \<noteq> 0x20 then 0x2E # takeWhile (\<lambda>c. c \<noteq> 0x20) (de_ext e) else [])"

text \<open>One of the three runs of UTF-16 units of a long-name entry, up to 255 characters in all.\<close>

definition lfn_run :: "u16 list \<Rightarrow> u8 list \<Rightarrow> u8 list" where
  "lfn_run ws out =
     out @ take (255 - length out) (map (\<lambda>w. ucast (w AND 0xFF)) (takeWhile (\<lambda>w. w \<noteq> 0 \<and> w \<noteq> 0xFFFF) ws))"

definition lfn_entry :: "u8 list \<Rightarrow> u8 list \<Rightarrow> u8 list" where
  "lfn_entry l out =
     lfn_run [le16 l 28, le16 l 30]
      (lfn_run [le16 l 14, le16 l 16, le16 l 18, le16 l 20, le16 l 22, le16 l 24]
        (lfn_run [le16 l 1, le16 l 3, le16 l 5, le16 l 7, le16 l 9] out))"

definition parse_lfn :: "u8 list list \<Rightarrow> u8 list" where
  "parse_lfn lfns = fold lfn_entry (rev lfns) []"

section \<open>Directories\<close>

definition make_dir_node :: "nat \<Rightarrow> name \<Rightarrow> u32 \<Rightarrow> fs \<Rightarrow> nat \<times> fs" where
  "make_dir_node v nm cluster s =
     (let (d, s) = alloc s;
          s = s\<lparr>fdirs := (fdirs s)(d := \<lparr>fd_vol = v, fd_cluster = cluster, fd_entries = [], fd_loaded = False\<rparr>)\<rparr>;
          (n, s) = alloc s;
          s = s\<lparr>nodes := (nodes s)(n := zero_node\<lparr>n_name := take 255 nm, n_flags := VFS_DIR,
                 fs_data := d, n_readdir := Fat32_readdir, n_finddir := Fat32_finddir\<rparr>)\<rparr>
      in (n, s))"

text \<open>One entry of a directory sector; the boolean says that the end marker was met.\<close>

definition load_entry :: "nat \<Rightarrow> nat \<Rightarrow> u8 list \<Rightarrow> u8 list list \<times> fs \<Rightarrow> bool \<times> u8 list list \<times> fs" where
  "load_entry v dir e = (\<lambda>(lfns, s).
     if e ! 0 = 0x00 then (True, lfns, s)
     else if e ! 0 = 0xE5 then (False, [], s)
     else if de_attr e = FAT_ATTR_LFN then (False, if length lfns < 20 then lfns @ [e] else lfns, s)
     else if de_attr e AND FAT_ATTR_VOLID \<noteq> 0 then (False, [], s)
     else if e ! 0 = 0x2E then (False, [], s)
     else
       let (n, s) = alloc s;
           nm = cstring (if lfns \<noteq> [] then parse_lfn lfns else parse_83 e);
           cluster = de_cluster e;
           s = (if de_attr e AND FAT_ATTR_DIR \<noteq> 0 then
                  let (m, s) = make_dir_node v nm cluster s
                  in s\<lparr>nodes := (nodes s)(n := zero_node\<lparr>n_name := nm, n_flags := VFS_DIR,
                         fs_data := fs_data (nodes s m), n_readdir := Fat32_readdir, n_finddir := Fat32_finddir\<rparr>)\<rparr>
                else
                  let (f, s) = alloc s;
                      s = s\<lparr>ffiles := (ffiles s)(f := \<lparr>ff_vol = v, start_cluster = cluster, file_size = ucast (de_size e)\<rparr>)\<rparr>
                  in s\<lparr>nodes := (nodes s)(n := zero_node\<lparr>n_name := nm, n_flags := VFS_FILE,
                         n_size := ucast (de_size e), fs_data := f, n_read := Fat32_read_file\<rparr>)\<rparr>);
           s = s\<lparr>fdirs := (fdirs s)(dir := (fdirs s dir)\<lparr>fd_entries := fd_entries (fdirs s dir) @ [n]\<rparr>)\<rparr>
       in (False, [], s))"

fun load_entries :: "nat \<Rightarrow> nat \<Rightarrow> u8 list list \<Rightarrow> u8 list list \<times> fs \<Rightarrow> bool \<times> u8 list list \<times> fs" where
  "load_entries v dir [] st = (False, st)"
| "load_entries v dir (e # es) st =
     (let (stop, st) = load_entry v dir e st in if stop then (True, st) else load_entries v dir es st)"

definition sector_entries :: "u8 list \<Rightarrow> u8 list list" where
  "sector_entries sec = map (\<lambda>i. take 32 (drop (32 * i) sec)) [0..<16]"

definition read_vol :: "nat \<Rightarrow> u32 \<Rightarrow> fs \<Rightarrow> fs" where
  "read_vol v lba s = s\<lparr>fvols := (fvols s)(v := read_buf lba (fvols s v))\<rparr>"

fun load_sectors :: "nat \<Rightarrow> nat \<Rightarrow> u32 list \<Rightarrow> u8 list list \<times> fs \<Rightarrow> bool \<times> u8 list list \<times> fs" where
  "load_sectors v dir [] st = (False, st)"
| "load_sectors v dir (lba # lbas) (lfns, s) =
     (let s = read_vol v lba s;
          (stop, st) = load_entries v dir (sector_entries (sector_buf (fvols s v))) (lfns, s)
      in if stop then (True, st) else load_sectors v dir lbas st)"

partial_function (option) load_clusters :: "nat \<Rightarrow> nat \<Rightarrow> u32 \<Rightarrow> u8 list list \<times> fs \<Rightarrow> fs option" where
  "load_clusters v dir cluster st =
     (if cluster < FAT_EOC then
        let vol = fvols (snd st) v;
            lba = cluster_to_lba vol cluster;
            (stop, (lfns, s)) = load_sectors v dir
              (map (\<lambda>k. lba + of_nat k) [0 ..< unat (sectors_per_cluster vol)]) st
        in if stop then Some s
           else
             let (cluster, vol) = next_cluster cluster (fvols s v)
             in load_clusters v dir cluster (lfns, s\<lparr>fvols := (fvols s)(v := vol)\<rparr>)
      else Some (snd st))"

definition load_dir :: "nat \<Rightarrow> fs \<Rightarrow> fs option" where
  "load_dir dir s =
     (let s = s\<lparr>fdirs := (fdirs s)(dir := (fdirs s dir)\<lparr>fd_entries := []\<rparr>)\<rparr>;
          d = fdirs s dir
      in map_option (\<lambda>s. s\<lparr>fdirs := (fdirs s)(dir := (fdirs s dir)\<lparr>fd_loaded := True\<rparr>)\<rparr>)
           (load_clusters (fd_vol d) dir (fd_cluster d) ([], s)))"

definition ensure_loaded :: "nat \<Rightarrow> fs \<Rightarrow> fs option" where
  "ensure_loaded dir s = (if fd_loaded (fdirs s dir) then Some s else load_dir dir s)"

definition fat32_finddir :: "nat \<Rightarrow> name \<Rightarrow> fs \<Rightarrow> (nat \<times> fs) option" where
  "fat32_finddir node nm s =
     (let d = fs_data (nodes s node)
      in map_option (\<lambda>s. (find_entry (nodes s) nm (fd_entries (fdirs s d)), s)) (ensure_loaded d s))"

definition fat32_readdir :: "nat \<Rightarrow> u32 \<Rightarrow> fs \<Rightarrow> (nat \<times> fs) option" where
  "fat32_readdir node idx s =
     (let d = fs_data (nodes s node)
      in map_option (\<lambda>s. (let es = fd_entries (fdirs s d) in if unat idx < length es then es ! unat idx else 0, s))
           (ensure_loaded d s))"

section \<open>Mounting\<close>

definition fat32_mount :: "u32 \<Rightarrow> (u32 \<Rightarrow> u8 list \<Rightarrow> u8 list) \<Rightarrow> fs \<Rightarrow> nat \<times> fs" where
  "fat32_mount lba read_fn s =
     (let (v, s) = alloc s;
          vol = \<lparr>part_lba = lba, fat_lba = 0, data_lba = 0, root_cluster = 0, sectors_per_cluster = 0,
                 bytes_per_cluster = 0, read_sector = read_fn, sector_buf = replicate 512 0\<rparr>;
          vol = read_buf lba vol;
          bpb = sector_buf vol
      in if le16 bpb 11 \<noteq> 512 then (0, s)
         else
           let spc = ucast (bpb ! 13);
               fat = lba + ucast (le16 bpb 14);
               vol = vol\<lparr>sectors_per_cluster := spc, bytes_per_cluster := spc * 512, fat_lba := fat,
                        data_lba := fat + ucast (bpb ! 16) * le32 bpb 36, root_cluster := le32 bpb 44\<rparr>;
               s = s\<lparr>fvols := (fvols s)(v := vol)\<rparr>
           in make_dir_node v [0x66, 0x61, 0x74, 0x33, 0x32] (root_cluster vol) s)"

section \<open>The bytes of a file on disk\<close>

text \<open>Reads succeed: whatever was in the buffer, it then holds the sector of the disk.\<close>

definition reads_disk :: "(u32 \<Rightarrow> u8 list) \<Rightarrow> fat32_vol \<Rightarrow> bool" where
  "reads_disk disk v \<longleftrightarrow> (\<forall>lba b. read_sector v lba b = disk lba) \<and> (\<forall>lba. length (disk lba) = 512)"

definition fat_next :: "(u32 \<Rightarrow> u8 list) \<Rightarrow> fat32_vol \<Rightarrow> u32 \<Rightarrow> u32" where
  "fat_next disk v c = le32 (disk (fat_lba v + (c * 4) div 512)) (unat ((c * 4) mod 512)) AND 0x0FFFFFFF"

definition run_data :: "(u32 \<Rightarrow> u8 list) \<Rightarrow> u32 \<Rightarrow> nat \<Rightarrow> u8 list" where
  "run_data disk lba n = concat (map (\<lambda>k. disk (lba + of_nat k)) [0..<n])"

definition cluster_data :: "(u32 \<Rightarrow> u8 list) \<Rightarrow> fat32_vol \<Rightarrow> u32 \<Rightarrow> u8 list" where
  "cluster_data disk v c = run_data disk (cluster_to_lba v c) (unat (sectors_per_cluster v))"

text \<open>\<open>cs\<close> are the first clusters of the chain that starts at \<open>c\<close>.\<close>

definition cluster_chain :: "(u32 \<Rightarrow> u8 list) \<Rightarrow> fat32_vol \<Rightarrow> u32 \<Rightarrow> u32 list \<Rightarrow> bool" where
  "cluster_chain disk v c cs \<longleftrightarrow> cs \<noteq> [] \<and> cs ! 0 = c \<and> (\<forall>k < length cs. cs ! k < FAT_EOC) \<and>
     (\<forall>k. Suc k < length cs \<longrightarrow> cs ! Suc k = fat_next disk v (cs ! k))"

lemma take_drop_concat:
  assumes "\<forall>b\<in>set bs. length b = B" "k < length bs" "j + t \<le> B"
  shows "take t (drop (k * B + j) (concat bs)) = take t (drop j (bs ! k))"
  using assms
proof (induction bs arbitrary: k)
  case (Cons b bs)
  show ?case
  proof (cases k)
    case 0
    with Cons.prems show ?thesis by simp
  next
    case (Suc m)
    with Cons.prems have "take t (drop (m * B + j) (concat bs)) = take t (drop j (bs ! m))"
      by (intro Cons.IH) auto
    with Suc Cons.prems show ?thesis by (simp add: add.assoc)
  qed
qed simp

lemma length_run_data: "(\<And>lba. length (disk lba) = 512) \<Longrightarrow> length (run_data disk lba n) = n * 512"
  by (induction n) (simp_all add: run_data_def)

lemma read_buf_disk:
  "reads_disk disk v \<Longrightarrow> read_buf lba v = v\<lparr>sector_buf := disk lba\<rparr>"
  by (simp add: read_buf_def reads_disk_def)

lemma vol_buf [simp]:
  "reads_disk disk (v\<lparr>sector_buf := b\<rparr>) = reads_disk disk v"
  "fat_next disk (v\<lparr>sector_buf := b\<rparr>) c = fat_next disk v c"
  "cluster_to_lba (v\<lparr>sector_buf := b\<rparr>) c = cluster_to_lba v c"
  by (simp_all add: reads_disk_def fat_next_def cluster_to_lba_def)

lemma next_cluster_disk:
  assumes "reads_disk disk v"
  shows "\<exists>b. next_cluster c v = (fat_next disk v c, v\<lparr>sector_buf := b\<rparr>)"
  using assms by (auto simp: next_cluster_def Let_def read_buf_disk fat_next_def)

lemma take_add_drop: "take (m + n) (drop k xs) = take m (drop k xs) @ take n (drop (k + m) xs)"
  by (simp add: take_add add.commute)

lemma read_sectors_run:
  assumes "reads_disk disk v" "byte_off < 512" "sec_off * 512 + byte_off + (chunk - wrote) \<le> n * 512"
  shows "\<exists>b. read_sectors lba sec_off byte_off wrote chunk out v =
    Some (out @ take (chunk - wrote) (drop (sec_off * 512 + byte_off) (run_data disk lba n)), v\<lparr>sector_buf := b\<rparr>)"
  using assms
proof (induction "chunk - wrote" arbitrary: sec_off byte_off wrote out v rule: less_induct)
  case less
  show ?case
  proof (cases "wrote < chunk")
    case False
    then show ?thesis
      by (subst read_sectors.simps) (auto intro!: exI [of _ "sector_buf v"])
  next
    case True
    define tk where "tk = (if 512 - byte_off > chunk - wrote then chunk - wrote else 512 - byte_off)"
    let ?v = "v\<lparr>sector_buf := disk (lba + of_nat sec_off)\<rparr>" and ?D = "run_data disk lba n"
    let ?out = "out @ take tk (drop byte_off (disk (lba + of_nat sec_off)))"
    have tk: "0 < tk" "byte_off + tk \<le> 512" "tk \<le> chunk - wrote" using True less.prems(2) by (auto simp: tk_def)
    have "sec_off < n" using less.prems(3) True by auto
    have "take tk (drop (sec_off * 512 + byte_off) ?D) = take tk (drop byte_off (disk (lba + of_nat sec_off)))"
      unfolding run_data_def
      using take_drop_concat [of "map (\<lambda>k. disk (lba + of_nat k)) [0..<n]" 512 sec_off byte_off tk]
        less.prems(1) tk(2) \<open>sec_off < n\<close> by (auto simp: reads_disk_def)
    moreover have "\<exists>b. read_sectors lba (sec_off + 1) 0 (wrote + tk) chunk ?out ?v =
      Some (?out @ take (chunk - (wrote + tk)) (drop ((sec_off + 1) * 512 + 0) ?D), ?v\<lparr>sector_buf := b\<rparr>)"
    proof (rule less.hyps)
      show "chunk - (wrote + tk) < chunk - wrote" using tk(1) True by linarith
      have "(sec_off + 1) * 512 \<le> n * 512" using \<open>sec_off < n\<close> by (intro mult_le_mono1) simp
      with less.prems(2,3) True show "(sec_off + 1) * 512 + 0 + (chunk - (wrote + tk)) \<le> n * 512" by (auto simp: tk_def)
    qed (use less.prems(1) in simp_all)
    moreover have "read_sectors lba sec_off byte_off wrote chunk out v =
        read_sectors lba (sec_off + 1) 0 (wrote + tk) chunk ?out ?v"
      using True less.prems(1) by (subst read_sectors.simps) (simp add: read_buf_disk Let_def tk_def [symmetric])
    moreover have "take (chunk - wrote) (drop (sec_off * 512 + byte_off) ?D) =
        take tk (drop (sec_off * 512 + byte_off) ?D) @
        take (chunk - (wrote + tk)) (drop ((sec_off + 1) * 512 + 0) ?D)"
    proof (cases "512 - byte_off > chunk - wrote")
      case False
      then have "sec_off * 512 + byte_off + tk = (sec_off + 1) * 512 + 0" using less.prems(2) by (simp add: tk_def)
      moreover have "tk + (chunk - (wrote + tk)) = chunk - wrote" using tk(3) True by linarith
      ultimately show ?thesis
        using take_add_drop [of tk "chunk - (wrote + tk)" "sec_off * 512 + byte_off" ?D] by (simp only:)
    qed (simp add: tk_def)
    ultimately show ?thesis by auto
  qed
qed

lemma skip_clusters_chain:
  assumes "reads_disk disk v" "cluster_chain disk v c cs" "k + n < length cs"
  shows "\<exists>b. skip_clusters n (cs ! k) v = (Some (cs ! (k + n)), v\<lparr>sector_buf := b\<rparr>)"
  using assms
proof (induction n arbitrary: k v)
  case 0
  then show ?case by (auto intro!: exI [of _ "sector_buf v"])
next
  case (Suc n)
  from next_cluster_disk [OF Suc.prems(1)] obtain b where
    b: "next_cluster (cs ! k) v = (fat_next disk v (cs ! k), v\<lparr>sector_buf := b\<rparr>)" by blast
  have "Suc k < length cs" using Suc.prems(3) by simp
  then have nx: "fat_next disk v (cs ! k) = cs ! Suc k" "cs ! Suc k < FAT_EOC"
    using Suc.prems(2) unfolding cluster_chain_def by metis+
  have "cluster_chain disk (v\<lparr>sector_buf := b\<rparr>) c cs" using Suc.prems(2) by (simp add: cluster_chain_def)
  with Suc.IH [of "v\<lparr>sector_buf := b\<rparr>" "Suc k"] Suc.prems(1,3) b nx show ?case by simp
qed

lemma read_clusters_chain:
  assumes "reads_disk disk v" "cluster_chain disk v c cs" "k < length cs" "j < B"
    and "B = unat (bytes_per_cluster v)" "B = unat (sectors_per_cluster v) * 512"
    and "k * B + j + (sz - got) \<le> length cs * B"
  shows "\<exists>b. read_clusters sz got j (cs ! k) out v =
    Some (out @ take (sz - got) (drop (k * B + j) (concat (map (cluster_data disk v) cs))), v\<lparr>sector_buf := b\<rparr>)"
  using assms
proof (induction "sz - got" arbitrary: k j got out v rule: less_induct)
  case less
  show ?case
  proof (cases "got < sz")
    case False
    then show ?thesis by (subst read_clusters.simps) (auto intro!: exI [of _ "sector_buf v"])
  next
    case True
    define chunk where "chunk = (if sz - got < B - j then sz - got else B - j)"
    let ?D = "concat (map (cluster_data disk v) cs)"
    have ch: "0 < chunk" "j + chunk \<le> B" "chunk \<le> sz - got" using True less.prems(4) by (auto simp: chunk_def)
    have lt: "cs ! k < FAT_EOC" using less.prems(2,3) by (simp add: cluster_chain_def)
    have "\<exists>b. read_sectors (cluster_to_lba v (cs ! k)) (j div 512) (j mod 512) 0 chunk out v =
      Some (out @ take (chunk - 0) (drop (j div 512 * 512 + j mod 512) (cluster_data disk v (cs ! k))), v\<lparr>sector_buf := b\<rparr>)"
      unfolding cluster_data_def
      by (rule read_sectors_run [OF less.prems(1)]) (use ch(2) less.prems(6) in auto)
    then obtain b1 where b1: "read_sectors (cluster_to_lba v (cs ! k)) (j div 512) (j mod 512) 0 chunk out v =
      Some (out @ take chunk (drop j (cluster_data disk v (cs ! k))), v\<lparr>sector_buf := b1\<rparr>)" by auto
    from next_cluster_disk [of disk "v\<lparr>sector_buf := b1\<rparr>" "cs ! k"] less.prems(1) obtain b2 where
      b2: "next_cluster (cs ! k) (v\<lparr>sector_buf := b1\<rparr>) = (fat_next disk v (cs ! k), v\<lparr>sector_buf := b2\<rparr>)" by auto
    let ?out = "out @ take chunk (drop j (cluster_data disk v (cs ! k)))" and ?v = "v\<lparr>sector_buf := b2\<rparr>"
    have step: "read_clusters sz got j (cs ! k) out v =
        read_clusters sz (got + chunk) 0 (fat_next disk v (cs ! k)) ?out ?v"
      using True lt by (subst read_clusters.simps) (simp add: Let_def less.prems(5) [symmetric] chunk_def [symmetric] b1 b2)
    have piece: "take chunk (drop (k * B + j) ?D) = take chunk (drop j (cluster_data disk v (cs ! k)))"
    proof -
      have "\<forall>d\<in>set (map (cluster_data disk v) cs). length d = B"
        using less.prems(1,6) by (auto simp: cluster_data_def reads_disk_def length_run_data)
      from take_drop_concat [OF this, of k j chunk] less.prems(3) ch(2) show ?thesis by simp
    qed
    show ?thesis
    proof (cases "sz - got < B - j \<or> sz - got = B - j")
      case stop: True
      then have e: "got + chunk = sz" "chunk = sz - got" using True by (auto simp: chunk_def)
      then show ?thesis
        unfolding step using piece by (subst read_clusters.simps) auto
    next
      case more: False
      then have c: "chunk = B - j" "k * B + j + chunk = Suc k * B + 0" using less.prems(4) by (auto simp: chunk_def)
      have sk: "Suc k < length cs"
      proof -
        have "Suc k * B < length cs * B" using more less.prems(4,7) c(2) by auto
        then show ?thesis by (rule mult_less_cancel2 [THEN iffD1, THEN conjunct2])
      qed
      then have nx: "fat_next disk v (cs ! k) = cs ! Suc k" using less.prems(2) by (simp add: cluster_chain_def)
      have "\<exists>b. read_clusters sz (got + chunk) 0 (cs ! Suc k) ?out ?v =
        Some (?out @ take (sz - (got + chunk)) (drop (Suc k * B + 0) (concat (map (cluster_data disk ?v) cs))),
          ?v\<lparr>sector_buf := b\<rparr>)"
      proof (rule less.hyps)
        show "sz - (got + chunk) < sz - got" using ch(1) True by linarith
        show "cluster_chain disk ?v c cs" using less.prems(2) by (simp add: cluster_chain_def)
        show "Suc k * B + 0 + (sz - (got + chunk)) \<le> length cs * B"
          using less.prems(7) c more True by auto
      qed (use less.prems sk in simp_all)
      moreover have "cluster_data disk ?v = cluster_data disk v" by (simp add: cluster_data_def fun_eq_iff)
      moreover have "take (sz - got) (drop (k * B + j) ?D) =
          take chunk (drop (k * B + j) ?D) @ take (sz - (got + chunk)) (drop (Suc k * B + 0) ?D)"
      proof -
        have "chunk + (sz - (got + chunk)) = sz - got" using ch(3) True by linarith
        with take_add_drop [of chunk "sz - (got + chunk)" "k * B + j" ?D] show ?thesis unfolding c(2) by (simp only:)
      qed
      ultimately show ?thesis unfolding step nx piece by auto
    qed
  qed
qed

lemma read_range_chain:
  assumes "reads_disk disk v" "cluster_chain disk v c cs" "0 < B"
    and "B = unat (bytes_per_cluster v)" "B = unat (sectors_per_cluster v) * 512"
    and "unat fsize \<le> length cs * B" "unat fsize < 2 ^ 32"
  shows "\<exists>b. read_range c fsize off sz v =
    Some (take (unat sz) (drop (unat off) (take (unat fsize) (concat (map (cluster_data disk v) cs)))), v\<lparr>sector_buf := b\<rparr>)"
proof (cases "off \<ge> fsize")
  case True
  then have "unat fsize \<le> unat off" by (simp add: word_le_nat_alt)
  with True show ?thesis by (auto simp: read_range_def intro!: exI [of _ "sector_buf v"])
next
  case False
  let ?D = "concat (map (cluster_data disk v) cs)" and ?k = "unat off div B" and ?j = "unat off mod B"
  have lt: "unat off < unat fsize" using False by (simp add: word_le_nat_alt)
  define n where "n = (if off + ucast sz > fsize then (ucast (fsize - off) :: u32) else sz)"
  have o: "unat (ucast off :: u32) = unat off"
    using lt assms(7) by (simp add: unsigned_ucast_eq take_bit_nat_eq_self)
  have "unat (ucast (fsize - off) :: u32) = unat fsize - unat off"
    using lt assms(7) False by (simp add: unsigned_ucast_eq take_bit_nat_eq_self unat_sub word_le_nat_alt)
  moreover have "unat (off + ucast sz) = unat off + unat sz"
  proof -
    have "unat off + unat sz < 2 ^ 64" using lt assms(7) unat_bound [of sz] by simp
    then show ?thesis by (simp add: unat_word_ariths unat_ucast_u64)
  qed
  ultimately have n: "unat n = min (unat sz) (unat fsize - unat off)"
    using lt by (simp add: n_def word_less_nat_alt min_def) linarith?
  have k: "?k < length cs" using lt assms(3,6) by (simp add: div_less_iff_less_mult)
  have start: "c = cs ! 0" using assms(2) by (simp add: cluster_chain_def)
  from skip_clusters_chain [OF assms(1,2), of 0 ?k] k obtain b1 where
    b1: "skip_clusters ?k c v = (Some (cs ! ?k), v\<lparr>sector_buf := b1\<rparr>)" using start by auto
  let ?v = "v\<lparr>sector_buf := b1\<rparr>"
  have "\<exists>b. read_clusters (unat n) 0 ?j (cs ! ?k) [] ?v =
      Some ([] @ take (unat n - 0) (drop (?k * B + ?j) (concat (map (cluster_data disk ?v) cs))), ?v\<lparr>sector_buf := b\<rparr>)"
  proof (rule read_clusters_chain)
    show "cluster_chain disk ?v c cs" using assms(2) by (simp add: cluster_chain_def)
    show "?k * B + ?j + (unat n - 0) \<le> length cs * B" using n lt assms(6) by simp
  qed (use assms k in simp_all)
  moreover have "cluster_data disk ?v = cluster_data disk v" by (simp add: cluster_data_def fun_eq_iff)
  ultimately obtain b where b: "read_clusters (unat n) 0 ?j (cs ! ?k) [] ?v =
      Some (take (unat n) (drop (unat off) ?D), v\<lparr>sector_buf := b\<rparr>)" by auto
  have "take (unat sz) (drop (unat off) (take (unat fsize) ?D)) = take (unat n) (drop (unat off) ?D)"
    by (simp add: drop_take n)
  moreover have "read_range c fsize off sz v = read_clusters (unat n) 0 ?j (cs ! ?k) [] ?v"
    using False assms(3) by (simp add: read_range_def Let_def n_def [symmetric] o assms(4) [symmetric] b1)
  ultimately show ?thesis using b by auto
qed

text \<open>A loaded directory meets the directory contract.\<close>

definition fat_entries :: "fs \<Rightarrow> nat \<Rightarrow> nat list" where
  "fat_entries s node = fd_entries (fdirs s (fs_data (nodes s node)))"

definition fat_loaded :: "fs \<Rightarrow> bool" where
  "fat_loaded s \<longleftrightarrow> (\<forall>d. fd_loaded (fdirs s d) \<and> 0 \<notin> set (fd_entries (fdirs s d)))"

interpretation fat_dir: directory fat_loaded fat_entries "\<lambda>s n. n_name (nodes s n)"
  "\<lambda>d x s. fst (the (fat32_finddir d x s))" "\<lambda>d i s. fst (the (fat32_readdir d i s))"
  by unfold_locales
     (auto simp: fat_loaded_def fat_entries_def fat32_finddir_def fat32_readdir_def ensure_loaded_def
       find_entry_find Let_def)

section \<open>Correctness\<close>

text \<open>
  A disk with a file of 700 bytes in clusters 3 and 5 of one sector each: the allocation table is
  sector 1, cluster \<open>c\<close> is sector \<open>c + 6\<close>.
\<close>

definition sample_disk :: "u32 \<Rightarrow> u8 list" where
  "sample_disk lba =
     (if lba = 1 then replicate 12 0 @ [5, 0, 0, 0] @ replicate 4 0 @ [0xFF, 0xFF, 0xFF, 0x0F] @ replicate 488 0
      else replicate 512 (ucast lba))"

definition sample_vol :: fat32_vol where
  "sample_vol = \<lparr>part_lba = 0, fat_lba = 1, data_lba = 8, root_cluster = 2, sectors_per_cluster = 1,
     bytes_per_cluster = 512, read_sector = (\<lambda>lba _. sample_disk lba), sector_buf = replicate 512 0\<rparr>"

definition sample_fat_fs :: fs where
  "sample_fat_fs = \<lparr>nodes = (\<lambda>_. zero_node),
     tdirs = (\<lambda>_. \<lparr>dir_entries = [], dir_count = 0, dir_cap = 0\<rparr>), tfiles = (\<lambda>_. \<lparr>f_data = [], f_size = 0\<rparr>),
     fvols = (\<lambda>_. sample_vol), ffiles = (\<lambda>_. \<lparr>ff_vol = 1, start_cluster = 3, file_size = 700\<rparr>),
     fdirs = (\<lambda>_. \<lparr>fd_vol = 1, fd_cluster = 2, fd_entries = [], fd_loaded = False\<rparr>), brk = 9\<rparr>"

lemma sample_vol_reads: "reads_disk sample_disk sample_vol"
  by (simp add: reads_disk_def sample_vol_def sample_disk_def)

lemma sample_vol_chain: "cluster_chain sample_disk sample_vol 3 [3, 5]"
  by (auto simp: cluster_chain_def FAT_EOC_def fat_next_def sample_vol_def sample_disk_def le32_def
      less_Suc_eq nth_append)

text \<open>Reading a file of a FAT32 volume is correct and ends.  When sector reads succeed and the
  clusters \<open>cs\<close> of the file's chain hold at least its size, \<^verbatim>\<open>fat32_read_file\<close> returns exactly the
  bytes of the file from the offset on, up to the length asked for and the end of the file,
  wherever sector and cluster boundaries fall; it returns nothing at or past the end.\<close>

theorem fat32_read_correct:
  assumes "f = ffiles s (fs_data (nodes s node))" "v = fvols s (ff_vol f)" "reads_disk disk v"
    and "cluster_chain disk v (start_cluster f) cs" "0 < unat (bytes_per_cluster v)"
    and "unat (bytes_per_cluster v) = unat (sectors_per_cluster v) * 512"
    and "unat (file_size f) \<le> length cs * unat (bytes_per_cluster v)" "unat (file_size f) < 2 ^ 32"
  shows "\<exists>s'. fat32_read_file node off sz s =
    Some (take (unat sz) (drop (unat off) (take (unat (file_size f)) (concat (map (cluster_data disk v) cs)))), s')"
proof -
  from read_range_chain [OF assms(3,4,5) refl assms(6,7,8)] obtain b where
    "read_range (start_cluster f) (file_size f) off sz v =
      Some (take (unat sz) (drop (unat off) (take (unat (file_size f)) (concat (map (cluster_data disk v) cs)))),
        v\<lparr>sector_buf := b\<rparr>)" by blast
  then show ?thesis unfolding fat32_read_file_def Let_def assms(1) [symmetric] assms(2) [symmetric] by simp
qed

theorem fat32_read_correct_witness:
  "\<exists>s'. fat32_read_file 0 510 4 sample_fat_fs = Some ([9, 9, 11, 11], s')"
proof -
  have d: "cluster_data sample_disk sample_vol 3 = replicate 512 9" "cluster_data sample_disk sample_vol 5 = replicate 512 11"
    by (simp_all add: cluster_data_def run_data_def cluster_to_lba_def sample_vol_def sample_disk_def)
  have two: "replicate 2 x = [x, x]" for x :: u8 by (simp add: numeral_2_eq_2)
  have f: "ffiles sample_fat_fs (fs_data (nodes sample_fat_fs 0)) = \<lparr>ff_vol = 1, start_cluster = 3, file_size = 700\<rparr>"
    "fvols sample_fat_fs (ff_vol \<lparr>ff_vol = 1, start_cluster = 3, file_size = 700\<rparr>) = sample_vol" by (simp_all add: sample_fat_fs_def)
  have u: "unat (bytes_per_cluster sample_vol) = 512" "unat (sectors_per_cluster sample_vol) = 1"
    by (simp_all add: sample_vol_def)
  have "\<exists>s'. fat32_read_file 0 510 4 sample_fat_fs =
      Some (take (unat (4 :: u32)) (drop (unat (510 :: u64)) (take (unat (700 :: u64))
        (concat (map (cluster_data sample_disk sample_vol) [3, 5])))), s')"
    using fat32_read_correct [OF f(1) [symmetric] f(2) [symmetric], of sample_disk "[3, 5]" 510 4]
      sample_vol_reads sample_vol_chain u by simp
  then show ?thesis by (simp add: d two)
qed

end
