(* ===== verification/Vfs.thy ===== *)
theory Vfs
  imports Tmpfs Fat32
begin

text \<open>
  The virtual file system \<^verbatim>\<open>kernel/fs/vfs.c\<close>: the mount table, path resolution and the calls that
  dispatch through a node's function pointers to the memory and FAT32 file systems.
\<close>

section \<open>Mounts\<close>

definition MAX_MOUNTS :: nat where "MAX_MOUNTS = 16"

record vfs =
  mounts :: "(name \<times> nat) list"
  vfs_root :: nat

definition vfs_init :: "vfs \<Rightarrow> vfs" where
  "vfs_init m = m\<lparr>mounts := [], vfs_root := 0\<rparr>"

definition vfs_mount :: "name \<Rightarrow> nat \<Rightarrow> vfs \<Rightarrow> bool \<times> vfs" where
  "vfs_mount path root m =
     (if length (mounts m) \<ge> MAX_MOUNTS then (False, m)
      else
        let m = m\<lparr>mounts := mounts m @ [(take 255 path, root)]\<rparr>;
            m = (if vfs_root m = 0 \<and> path = [0x2F] then m\<lparr>vfs_root := root\<rparr> else m)
        in (True, m))"

section \<open>Dispatch\<close>

definition call_finddir :: "nat \<Rightarrow> name \<Rightarrow> fs \<Rightarrow> (nat \<times> fs) option" where
  "call_finddir n nm s =
     (case n_finddir (nodes s n) of
        No_finddir \<Rightarrow> Some (0, s)
      | Tmpfs_finddir \<Rightarrow> Some (tmpfs_finddir n nm s, s)
      | Fat32_finddir \<Rightarrow> fat32_finddir n nm s)"

definition call_readdir :: "nat \<Rightarrow> u32 \<Rightarrow> fs \<Rightarrow> (nat \<times> fs) option" where
  "call_readdir n idx s =
     (case n_readdir (nodes s n) of
        No_readdir \<Rightarrow> Some (0, s)
      | Tmpfs_readdir \<Rightarrow> Some (tmpfs_readdir n idx s, s)
      | Fat32_readdir \<Rightarrow> fat32_readdir n idx s)"

section \<open>Path resolution\<close>

text \<open>
  The loop of \<^verbatim>\<open>resolve\<close>: \<^verbatim>\<open>strchr\<close> finds the end of the next component, and the walk ends when
  nothing is left.
\<close>

function resolve_from :: "nat \<Rightarrow> name \<Rightarrow> fs \<Rightarrow> (nat \<times> fs) option" where
  "resolve_from node tok s =
     (if tok = [] then Some (node, s)
      else
        let comp = takeWhile (\<lambda>c. c \<noteq> 0x2F) tok;
            rest = dropWhile (\<lambda>c. c \<noteq> 0x2F) tok
        in case call_finddir node comp s of
             None \<Rightarrow> None
           | Some (n, s) \<Rightarrow>
               if n = 0 then Some (0, s)
               else if rest = [] then Some (n, s)
               else resolve_from n (tl rest) s)"
  by pat_completeness auto
termination
proof (relation "measure (\<lambda>(node, tok, s). length tok)")
  fix tok :: name and rest node n comp and s s' :: fs and y z
  assume "tok \<noteq> []" "rest = dropWhile (\<lambda>c. c \<noteq> 0x2F) tok" "rest \<noteq> []"
  then have "length (tl rest) < length rest" "length rest \<le> length tok"
    by (simp_all add: length_dropWhile_le)
  then show "((n, tl rest, s'), (node, tok, s)) \<in> measure (\<lambda>(node, tok, s). length tok)" by simp
qed simp

declare resolve_from.simps [simp del]

text \<open>
  The path is copied into a buffer of 256 bytes with \<^verbatim>\<open>strncpy(buf, path + 1, 255)\<close>: a path of 255
  or more characters is not terminated there, and \<open>stale\<close> is the string that the stack happens to
  hold from the last byte on.
\<close>

definition resolve :: "name \<Rightarrow> vfs \<Rightarrow> name \<Rightarrow> fs \<Rightarrow> (nat \<times> fs) option" where
  "resolve stale m path s =
     (if path = [] \<or> hd path \<noteq> 0x2F then Some (0, s)
      else if vfs_root m = 0 then Some (0, s)
      else if tl path = [] then Some (vfs_root m, s)
      else
        let buf = (if length (tl path) < 255 then tl path else take 255 (tl path) @ stale)
        in resolve_from (vfs_root m) buf s)"

text \<open>No file system sets \<^verbatim>\<open>open\<close> or \<^verbatim>\<open>close\<close>, so opening is resolving.\<close>

definition vfs_open :: "name \<Rightarrow> vfs \<Rightarrow> name \<Rightarrow> fs \<Rightarrow> (nat \<times> fs) option" where
  "vfs_open stale m path s = resolve stale m path s"

definition vfs_close :: "nat \<Rightarrow> fs \<Rightarrow> fs" where
  "vfs_close n s = s"

definition vfs_read :: "nat \<Rightarrow> u64 \<Rightarrow> u32 \<Rightarrow> fs \<Rightarrow> (u8 list \<times> fs) option" where
  "vfs_read n off sz s =
     (if n = 0 then Some ([], s)
      else case n_read (nodes s n) of
        No_read \<Rightarrow> Some ([], s)
      | Tmpfs_read \<Rightarrow> Some (tmpfs_read n off sz s, s)
      | Fat32_read_file \<Rightarrow> fat32_read_file n off sz s)"

definition vfs_write :: "(nat \<Rightarrow> u8) \<Rightarrow> nat \<Rightarrow> u64 \<Rightarrow> u32 \<Rightarrow> u8 list \<Rightarrow> fs \<Rightarrow> (u32 \<times> fs) option" where
  "vfs_write junk n off sz buf s =
     (if n = 0 then Some (0, s)
      else case n_write (nodes s n) of
        No_write \<Rightarrow> Some (0, s)
      | Tmpfs_write \<Rightarrow> tmpfs_write junk n off sz buf s)"

definition vfs_readdir :: "nat \<Rightarrow> u32 \<Rightarrow> fs \<Rightarrow> (nat \<times> fs) option" where
  "vfs_readdir n idx s =
     (if n = 0 \<or> n_flags (nodes s n) AND VFS_DIR = 0 then Some (0, s) else call_readdir n idx s)"

definition vfs_finddir :: "nat \<Rightarrow> name \<Rightarrow> fs \<Rightarrow> (nat \<times> fs) option" where
  "vfs_finddir n nm s =
     (if n = 0 \<or> n_flags (nodes s n) AND VFS_DIR = 0 then Some (0, s) else call_finddir n nm s)"

section \<open>Paths as lists of components\<close>

text \<open>The walk over a list of components.\<close>

fun walk_path :: "nat \<Rightarrow> name list \<Rightarrow> fs \<Rightarrow> (nat \<times> fs) option" where
  "walk_path node [] s = Some (node, s)"
| "walk_path node (c # cs) s =
     (case call_finddir node c s of
        None \<Rightarrow> None
      | Some (n, s) \<Rightarrow> if n = 0 then Some (0, s) else walk_path n cs s)"

text \<open>The text of a relative path: its components with a slash between two of them.\<close>

fun path_text :: "name list \<Rightarrow> name" where
  "path_text [] = []"
| "path_text [c] = c"
| "path_text (c # cs) = c @ 0x2F # path_text cs"

lemma path_text_Cons: "cs \<noteq> [] \<Longrightarrow> path_text (c # cs) = c @ 0x2F # path_text cs"
  by (cases cs) auto

lemma path_text_empty: "path_text cs = [] \<Longrightarrow> cs = [] \<or> cs = [[]]"
  by (induction cs rule: path_text.induct) auto

lemma resolve_from_components:
  assumes "\<forall>c\<in>set cs. c \<noteq> [] \<and> 0x2F \<notin> set c"
  shows "resolve_from node (path_text cs) s = walk_path node cs s"
  using assms
proof (induction cs arbitrary: node s)
  case Nil
  then show ?case by (simp add: resolve_from.simps)
next
  case (Cons c cs)
  have c: "c \<noteq> []" "\<forall>x\<in>set c. x \<noteq> 0x2F" using Cons.prems by auto
  show ?case
  proof (cases "cs = []")
    case True
    have "takeWhile (\<lambda>x. x \<noteq> 0x2F) c = c" "dropWhile (\<lambda>x. x \<noteq> 0x2F) c = []" using c(2) by auto
    with True c show ?thesis
      by (subst resolve_from.simps)
         (simp add: Let_def del: takeWhile_eq_all_conv dropWhile_eq_Nil_conv split: option.splits)
  next
    case False
    have "takeWhile (\<lambda>x. x \<noteq> 0x2F) (c @ 0x2F # path_text cs) = c"
      "dropWhile (\<lambda>x. x \<noteq> 0x2F) (c @ 0x2F # path_text cs) = 0x2F # path_text cs"
      using c(2) by (simp_all add: takeWhile_append dropWhile_append)
    with Cons c show ?thesis
      by (subst resolve_from.simps) (simp add: path_text_Cons [OF False] Let_def split: option.splits)
  qed
qed

lemma vfs_open_single:
  assumes "c \<noteq> []" "0x2F \<notin> set c" "length c < 255" "vfs_root m \<noteq> 0" "n_finddir (nodes s (vfs_root m)) = Tmpfs_finddir"
  shows "vfs_open stale m (0x2F # c) s = Some (tmpfs_finddir (vfs_root m) c s, s)"
  using assms resolve_from_components [of "[c]" "vfs_root m" s]
  by (simp add: vfs_open_def resolve_def call_finddir_def)

lemma vfs_mount_root:
  assumes "path \<noteq> [0x2F] \<or> vfs_root m \<noteq> 0"
  shows "vfs_root (snd (vfs_mount path root m)) = vfs_root m"
  using assms by (auto simp: vfs_mount_def Let_def)

section \<open>Correctness\<close>

text \<open>C27: path resolution is a walk of directory lookups.  For an absolute path of non-empty
  components that fits the buffer, \<^verbatim>\<open>vfs_open\<close> looks each component up in turn, starting at the
  root, and gives the null node as soon as one is missing.\<close>

theorem vfs_open_walks:
  assumes "\<forall>c\<in>set cs. c \<noteq> [] \<and> 0x2F \<notin> set c" "length (path_text cs) < 255" "vfs_root m \<noteq> 0"
  shows "vfs_open stale m (0x2F # path_text cs) s = walk_path (vfs_root m) cs s"
proof (cases "path_text cs = []")
  case True
  then have "cs = []" using path_text_empty [OF True] assms(1) by auto
  with assms(3) show ?thesis by (simp add: vfs_open_def resolve_def)
next
  case False
  with assms show ?thesis by (simp add: vfs_open_def resolve_def resolve_from_components)
qed

definition sample_root :: fs where
  "sample_root = snd (tmpfs_create [0x72] empty_fs)"

lemma sample_root_simps:
  "fst (tmpfs_create [0x72] empty_fs) = 2" "tmpfs_inv sample_root" "brk sample_root = 3"
  "n_finddir (nodes sample_root 2) = Tmpfs_finddir" "tmpfs_entries sample_root 2 = []"
  using tmpfs_create_spec [OF empty_fs_inv, of "[0x72]"]
  by (simp_all add: sample_root_def tmpfs_entries_def) (simp_all add: empty_fs_def)

theorem vfs_open_walks_witness:
  "vfs_open [] \<lparr>mounts = [], vfs_root = 2\<rparr> [0x2F, 0x61, 0x2F, 0x62] sample_root = Some (0, sample_root)"
  using vfs_open_walks [of "[[0x61], [0x62]]" "\<lparr>mounts = [], vfs_root = 2\<rparr>" "[]" sample_root]
  by (simp add: call_finddir_def sample_root_simps tmpfs_finddir_def)

text \<open>Only the root mount has an effect.  A file system mounted anywhere else is entered in the
  table, but no path is ever resolved through it: every path opens what it opened before.\<close>

theorem vfs_mount_unreachable:
  assumes "path \<noteq> [0x2F]" "length (mounts m) < MAX_MOUNTS"
  shows "fst (vfs_mount path root m) \<and> mounts (snd (vfs_mount path root m)) = mounts m @ [(take 255 path, root)] \<and>
    vfs_open stale (snd (vfs_mount path root m)) p s = vfs_open stale m p s"
  using assms by (simp add: vfs_mount_def vfs_open_def resolve_def Let_def)

theorem vfs_mount_unreachable_witness:
  "vfs_open [] (snd (vfs_mount [0x2F, 0x64] 7 \<lparr>mounts = [], vfs_root = 0\<rparr>)) [0x2F, 0x64] empty_fs =
   vfs_open [] \<lparr>mounts = [], vfs_root = 0\<rparr> [0x2F, 0x64] empty_fs"
  using vfs_mount_unreachable [of "[0x2F, 0x64]" "\<lparr>mounts = [], vfs_root = 0\<rparr>" 7 "[]" "[0x2F, 0x64]" empty_fs]
  by (simp add: MAX_MOUNTS_def)

end
