(* ===== verification/TmpTree.thy ===== *)
theory TmpTree
  imports Vfs
begin

text \<open>
  Trees of the memory file system: what \<^verbatim>\<open>tmpfs_mkdir\<close> and \<^verbatim>\<open>tmpfs_mkfile\<close> change of a tree and what they keep, as one relation
  that both satisfy, and path lookup in the new tree.
\<close>

section \<open>One new entry\<close>

definition known :: "fs \<Rightarrow> nat \<Rightarrow> bool" where
  "known s d \<longleftrightarrow> 0 < d \<and> d < brk s \<and> fs_data (nodes s d) < brk s"

definition added :: "fs \<Rightarrow> nat \<Rightarrow> nat \<Rightarrow> fs \<Rightarrow> bool" where
  "added s parent n s' \<longleftrightarrow> tmpfs_inv s \<and> tmpfs_inv s' \<and> n = brk s + 1 \<and> brk s' = brk s + 2 \<and> fs_data (nodes s' n) = brk s \<and>
     (\<forall>m<brk s. nodes s' m = nodes s m) \<and>
     (\<forall>d. known s d \<longrightarrow> tmpfs_entries s' d = tmpfs_entries s d @ (if fs_data (nodes s d) = fs_data (nodes s parent) then [n] else [])) \<and>
     (\<forall>f. known s f \<longrightarrow> file_of s' f = file_of s f)"

lemma dir_add_added:
  assumes "tmpfs_inv s" "known s parent" "tmpfs_inv t" "brk t = brk s + 2" "fs_data (nodes t (brk s + 1)) = brk s"
    and "\<And>m. m < brk s \<Longrightarrow> nodes t m = nodes s m" "\<And>p. p < brk s \<Longrightarrow> tdirs t p = tdirs s p \<and> tfiles t p = tfiles s p"
  shows "added s parent (brk s + 1) (dir_add (fs_data (nodes t parent)) (brk s + 1) t)"
proof -
  have p: "nodes t parent = nodes s parent" "fs_data (nodes s parent) < brk s" using assms(2,6) by (simp_all add: known_def)
  have wf: "dir_wf (tdirs t (fs_data (nodes s parent)))" using assms(3) by (simp add: tmpfs_inv_def)
  have "tmpfs_inv (dir_add (fs_data (nodes s parent)) (brk s + 1) t)" using dir_add_inv [OF assms(3)] assms(4) by simp
  then show ?thesis
    using assms dir_add_entries(2) [OF wf] p
    by (auto simp: added_def frame_simps known_def tmpfs_entries_def file_of_def)
qed

lemma mkdir_added:
  assumes "tmpfs_inv s" "known s parent" "tmpfs_mkdir parent nm s = (n, s')"
  shows "added s parent n s'" "n_name (nodes s' n) = take 255 nm" "n_finddir (nodes s' n) = Tmpfs_finddir"
    "n_flags (nodes s' n) = VFS_DIR" "tmpfs_entries s' n = []"
proof -
  define t where "t = snd (tmpfs_create nm s)"
  note C = tmpfs_create_spec [OF assms(1), of nm, folded t_def]
  have r: "n = brk s + 1" "s' = dir_add (fs_data (nodes t parent)) n t"
    using assms(3) C(1) by (auto simp: tmpfs_mkdir_def t_def Let_def split: prod.splits)
  show "added s parent n s'"
    unfolding r by (rule dir_add_added [OF assms(1,2) C(6,2)]) (auto simp: C(3-5))
  show "n_name (nodes s' n) = take 255 nm" "n_finddir (nodes s' n) = Tmpfs_finddir" "n_flags (nodes s' n) = VFS_DIR"
    by (simp_all add: r frame_simps C(3))
  have "fs_data (nodes t parent) = fs_data (nodes s parent)" "fs_data (nodes s parent) < brk s"
    using assms(2) by (simp_all add: C(3) known_def)
  moreover have "dir_wf (tdirs t (fs_data (nodes t parent)))" using C(6) by (simp add: tmpfs_inv_def)
  ultimately show "tmpfs_entries s' n = []"
    using dir_add_entries(2) [of t "fs_data (nodes t parent)" n "brk s"] by (simp add: r frame_simps tmpfs_entries_def C(3,4))
qed

lemma mkfile_added:
  assumes "tmpfs_inv s" "known s parent" "length data = unat sz" "tmpfs_mkfile junk parent nm (Some data) sz s = (n, s')"
  shows "added s parent n s'" "n_name (nodes s' n) = take 255 nm" "n_read (nodes s' n) = Tmpfs_read"
    "n_flags (nodes s' n) = VFS_FILE" "file_of s' n = \<lparr>f_data = data, f_size = unat sz\<rparr>"
proof -
  define t where "t = s\<lparr>tfiles := (tfiles s)(brk s := \<lparr>f_data = data, f_size = unat sz\<rparr>), brk := brk s + 2,
    nodes := (nodes s)(brk s + 1 := zero_node\<lparr>n_name := take 255 nm, n_flags := VFS_FILE,
      n_size := ucast sz, fs_data := brk s, n_read := Tmpfs_read, n_write := Tmpfs_write\<rparr>)\<rparr>"
  have r: "n = brk s + 1" "s' = dir_add (fs_data (nodes t parent)) n t"
    using assms(3,4) by (auto simp: tmpfs_mkfile_def alloc_def Let_def t_def)
  have "file_wf \<lparr>f_data = data, f_size = unat sz\<rparr>" using assms(3) unat_bound [of sz] by (simp add: file_wf_def)
  then have t: "tmpfs_inv t" using assms(1) unfolding tmpfs_inv_def t_def by (auto intro!: less_SucI)
  show "added s parent n s'"
    unfolding r by (rule dir_add_added [OF assms(1,2) t]) (auto simp: t_def)
  show "n_name (nodes s' n) = take 255 nm" "n_read (nodes s' n) = Tmpfs_read" "n_flags (nodes s' n) = VFS_FILE"
    "file_of s' n = \<lparr>f_data = data, f_size = unat sz\<rparr>"
    by (simp_all add: r frame_simps t_def file_of_def)
qed

section \<open>Lookup afterwards\<close>

lemma added_known: "added s parent n s' \<Longrightarrow> known s d \<Longrightarrow> known s' d" "added s parent n s' \<Longrightarrow> known s' n"
  by (auto simp: added_def known_def)

lemma added_keeps:
  assumes "added s parent n s'" "known s d"
  shows "nodes s' d = nodes s d" "file_of s' d = file_of s d" "tmpfs_inv s" "tmpfs_inv s'"
  using assms by (simp_all add: added_def known_def)

lemma added_finddir:
  assumes "added s parent n s'" "known s d"
  shows "tmpfs_finddir d x s' = (if tmpfs_finddir d x s \<noteq> 0 then tmpfs_finddir d x s
    else if fs_data (nodes s d) = fs_data (nodes s parent) \<and> n_name (nodes s' n) = x then n else 0)"
proof -
  have inv: "tmpfs_inv s" "tmpfs_inv s'" using assms(1) by (simp_all add: added_def)
  have names: "n_name (nodes s' m) = n_name (nodes s m)" if "m \<in> set (tmpfs_entries s d)" for m
    using tmpfs_entries_pos(2) [OF inv(1) that] assms(1) by (simp add: added_def)
  show ?thesis
  proof (cases "fs_data (nodes s d) = fs_data (nodes s parent)")
    case True
    then have "tmpfs_entries s' d = tmpfs_entries s d @ [n]" using assms by (simp add: added_def)
    from tmp_dir.finddir_appended [OF inv this names] True show ?thesis by simp
  next
    case False
    then have "tmpfs_entries s' d = tmpfs_entries s d" using assms by (simp add: added_def)
    then have "tmpfs_finddir d x s' = tmpfs_finddir d x s"
      unfolding tmpfs_finddir_find using names by (simp cong: find_cong)
    with False show ?thesis by simp
  qed
qed

lemma added_new_data:
  assumes "added s parent n s'" "known s d"
  shows "fs_data (nodes s' n) \<noteq> fs_data (nodes s' d)" "n \<noteq> d" "n \<noteq> 0"
  using assms by (auto simp: added_def known_def)

text \<open>A path of two components.\<close>

lemma vfs_open_two:
  assumes "a \<noteq> []" "0x2F \<notin> set a" "c \<noteq> []" "0x2F \<notin> set c" "length a + length c < 254" "vfs_root m \<noteq> 0"
    and "n_finddir (nodes s (vfs_root m)) = Tmpfs_finddir" "tmpfs_finddir (vfs_root m) a s = d" "d \<noteq> 0"
    and "n_finddir (nodes s d) = Tmpfs_finddir"
  shows "vfs_open stale m (0x2F # a @ 0x2F # c) s = Some (tmpfs_finddir d c s, s)"
  using assms resolve_from_components [of "[a, c]" "vfs_root m" s]
  by (simp add: vfs_open_def resolve_def call_finddir_def)

end
