(* ===== verification/LineEdit.thy ===== *)
theory LineEdit
  imports Keyboard Console
begin

text \<open>
  Reading a line from the keyboard: \<^verbatim>\<open>readline\<close> of \<^verbatim>\<open>userspace/shell/shell.c\<close> and \<^verbatim>\<open>readln\<close> of \<^verbatim>\<open>userspace/setup/setup.c\<close> are the same loop with
  different sizes, echo and ways to wait.  While the loop waits other code and the interrupt
  handlers run: \<open>idle\<close> says what that does to the screen, the keyboard ring and the devices.
\<close>

section \<open>The loop\<close>

record line =
  l_buf :: "u8 list"
  l_len :: nat

text \<open>What one key does: the line, the character to echo, and whether the line is finished.\<close>

definition edit_key :: "nat \<Rightarrow> u8 \<Rightarrow> line \<Rightarrow> line \<times> u8 option \<times> bool" where
  "edit_key cap c l =
     (if c = 0x0A \<or> c = 0x0D then (l\<lparr>l_buf := (l_buf l)[l_len l := 0]\<rparr>, Some 0x0A, True)
      else if c = 0x08 \<and> l_len l > 0 then (l\<lparr>l_len := l_len l - 1\<rparr>, Some 0x08, False)
      else if c \<noteq> 0 \<and> l_len l < cap
      then (l\<lparr>l_buf := (l_buf l)[l_len l := c], l_len := l_len l + 1\<rparr>, Some c, False)
      else (l, None, False))"

definition echo_key :: "(u8 \<Rightarrow> vga \<Rightarrow> ('d, vga) io) \<Rightarrow> u8 option \<Rightarrow> vga \<Rightarrow> ('d, vga) io" where
  "echo_key putc e v = (case e of None \<Rightarrow> ret v | Some c \<Rightarrow> putc c v)"

partial_function (option) edit_loop ::
  "nat \<Rightarrow> (u8 \<Rightarrow> vga \<Rightarrow> ('d, vga) io) \<Rightarrow> (vga \<times> keyboard \<Rightarrow> 'd \<Rightarrow> (vga \<times> keyboard) \<times> 'd) \<Rightarrow>
   line \<Rightarrow> vga \<times> keyboard \<Rightarrow> ('d, line \<times> vga \<times> keyboard) io" where
  "edit_loop cap putc idle l s d =
     (case keyboard_poll (snd s) of
        (None, k) \<Rightarrow> (let (s, d) = idle (fst s, k) d in edit_loop cap putc idle l s d)
      | (Some e, k) \<Rightarrow>
          if \<not> pressed e then edit_loop cap putc idle l (fst s, k) d
          else
            let (l, c, fin) = edit_key cap (ascii e) l
            in case echo_key putc c (fst s) d of
                 None \<Rightarrow> None
               | Some (v, d) \<Rightarrow> if fin then Some ((l, v, k), d) else edit_loop cap putc idle l (v, k) d)"

definition CMD_BUF :: nat where "CMD_BUF = 256"

definition shell_putc :: "'d bus \<Rightarrow> u8 \<Rightarrow> vga \<Rightarrow> ('d, vga) io" where
  "shell_putc b c v = andthen (vga_putc b c v) (\<lambda>v. andthen (serial_putc b c) (\<lambda>_. ret v))"

text \<open>\<open>yield\<close> is \<^verbatim>\<open>sched_yield\<close>, \<open>hlt\<close> the wait for an interrupt.\<close>

definition readline ::
  "'d bus \<Rightarrow> (vga \<times> keyboard \<Rightarrow> 'd \<Rightarrow> (vga \<times> keyboard) \<times> 'd) \<Rightarrow> vga \<times> keyboard \<Rightarrow> ('d, line \<times> vga \<times> keyboard) io" where
  "readline b yield = edit_loop (CMD_BUF - 1) (shell_putc b) yield \<lparr>l_buf = replicate CMD_BUF 0, l_len = 0\<rparr>"

definition readln ::
  "'d bus \<Rightarrow> (vga \<times> keyboard \<Rightarrow> 'd \<Rightarrow> (vga \<times> keyboard) \<times> 'd) \<Rightarrow> vga \<times> keyboard \<Rightarrow> ('d, line \<times> vga \<times> keyboard) io" where
  "readln b hlt = edit_loop 63 (vga_putc b) hlt \<lparr>l_buf = replicate 64 0, l_len = 0\<rparr>"

section \<open>Reference: the line that was typed\<close>

text \<open>A character is added while there is room, a backspace takes the last character away; on an empty
  line a backspace is a character like any other.\<close>

definition type_char :: "nat \<Rightarrow> u8 \<Rightarrow> u8 list \<Rightarrow> u8 list" where
  "type_char cap c s =
     (if c = 0x08 \<and> s \<noteq> [] then butlast s else if c \<noteq> 0 \<and> length s < cap then s @ [c] else s)"

definition typed :: "nat \<Rightarrow> key_event list \<Rightarrow> u8 list \<Rightarrow> u8 list" where
  "typed cap es = fold (type_char cap) (map ascii (filter pressed es))"

definition line_end :: "key_event \<Rightarrow> bool" where
  "line_end e \<longleftrightarrow> pressed e \<and> (ascii e = 0x0A \<or> ascii e = 0x0D)"

definition line_repr :: "nat \<Rightarrow> line \<Rightarrow> u8 list \<Rightarrow> bool" where
  "line_repr cap l s \<longleftrightarrow> l_len l = length s \<and> length s \<le> cap \<and> length (l_buf l) = cap + 1 \<and> take (length s) (l_buf l) = s \<and> 0 \<notin> set s"

lemma edit_key_repr:
  assumes "line_repr cap l s" "c \<noteq> 0x0A" "c \<noteq> 0x0D"
  shows "\<exists>l' e. edit_key cap c l = (l', e, False) \<and> line_repr cap l' (type_char cap c s)"
proof -
  consider "c = 0x08" "s \<noteq> []" | "c \<noteq> 0" "length s < cap" "\<not> (c = 0x08 \<and> s \<noteq> [])" | "\<not> (c = 0x08 \<and> s \<noteq> [])" "\<not> (c \<noteq> 0 \<and> length s < cap)"
    by blast
  then show ?thesis
  proof cases
    case 1
    have "take (length s - 1) (l_buf l) = take (length s - 1) (take (length s) (l_buf l))" by (simp add: min_def)
    also have "\<dots> = butlast s" using assms(1) by (simp add: line_repr_def butlast_conv_take)
    finally have "take (length s - 1) (l_buf l) = butlast s" .
    with 1 assms show ?thesis by (auto simp: edit_key_def line_repr_def type_char_def dest: in_set_butlastD)
  next
    case 2
    have "take (Suc (length s)) ((l_buf l)[length s := c]) = s @ [c]"
      using 2 assms(1) by (auto simp: line_repr_def take_Suc_conv_app_nth)
    with 2 assms show ?thesis by (auto simp: edit_key_def line_repr_def type_char_def)
  next
    case 3
    with assms show ?thesis by (auto simp: edit_key_def line_repr_def type_char_def)
  qed
qed

section \<open>The loop reads the typed line\<close>

text \<open>
  What the loop relies on while it waits with an empty ring: keys arrive in the order they are
  typed, and after finitely many waits another one has arrived.  \<open>script d\<close> are the keys still to be
  typed, \<open>lull d\<close> bounds the waits before the next one.
\<close>

definition idle_laws ::
  "(vga \<times> keyboard \<Rightarrow> 'd \<Rightarrow> (vga \<times> keyboard) \<times> 'd) \<Rightarrow> ('d \<Rightarrow> key_event list) \<Rightarrow> ('d \<Rightarrow> nat) \<Rightarrow> bool" where
  "idle_laws idle script lull \<longleftrightarrow>
     (\<forall>v k d v' k' d'. kq k [] \<longrightarrow> script d \<noteq> [] \<longrightarrow> idle (v, k) d = ((v', k'), d') \<longrightarrow>
        (\<exists>n. kq k' (take n (script d)) \<and> script d' = drop n (script d) \<and> (n = 0 \<longrightarrow> lull d' < lull d)))"

definition echo_laws :: "(u8 \<Rightarrow> vga \<Rightarrow> ('d, vga) io) \<Rightarrow> ('d \<Rightarrow> key_event list) \<Rightarrow> bool" where
  "echo_laws putc script \<longleftrightarrow> (\<forall>c v d. \<exists>v' d'. putc c v d = Some (v', d') \<and> script d' = script d)"

lemma echo_key_runs:
  assumes "echo_laws putc script"
  shows "\<exists>v' d'. echo_key putc e v d = Some (v', d') \<and> script d' = script d"
  using assms by (cases e) (auto simp: echo_key_def echo_laws_def)

lemma edit_loop_empty:
  assumes "kq k []" "idle (v, k) d = (s', d')"
  shows "edit_loop cap putc idle l (v, k) d = edit_loop cap putc idle l s' d'"
  using assms keyboard_poll_empty [OF assms(1)] by (subst edit_loop.simps) simp

lemma edit_loop_key:
  assumes "kq k (e # q)"
  shows "\<exists>k'. kq k' q \<and> edit_loop cap putc idle l (v, k) d =
    (if \<not> pressed e then edit_loop cap putc idle l (v, k') d
     else case echo_key putc (fst (snd (edit_key cap (ascii e) l))) v d of
            None \<Rightarrow> None
          | Some (v', d') \<Rightarrow>
              if snd (snd (edit_key cap (ascii e) l)) then Some ((fst (edit_key cap (ascii e) l), v', k'), d')
              else edit_loop cap putc idle (fst (edit_key cap (ascii e) l)) (v', k') d')"
proof -
  from keyboard_poll_kq [OF assms] obtain k' where k': "keyboard_poll k = (Some e, k')" "kq k' q" by blast
  then show ?thesis
    by (intro exI [of _ k']) (subst edit_loop.simps, simp add: split_beta Let_def split: option.split)
qed

text \<open>With an empty ring the loop waits until keys have arrived.\<close>

lemma edit_loop_waits:
  assumes "idle_laws idle script lull" "kq k []" "script d \<noteq> []"
  shows "\<exists>v' k' d' q e. edit_loop cap putc idle l (v, k) d = edit_loop cap putc idle l (v', k') d' \<and>
    kq k' (e # q) \<and> e # q @ script d' = script d"
  using assms(2,3)
proof (induction "lull d" arbitrary: v k d rule: less_induct)
  case less
  obtain v1 k1 d1 where i: "idle (v, k) d = ((v1, k1), d1)" by (metis prod.collapse)
  with assms(1) less.prems obtain n where n: "kq k1 (take n (script d))" "script d1 = drop n (script d)" "n = 0 \<Longrightarrow> lull d1 < lull d"
    unfolding idle_laws_def by blast
  note step = edit_loop_empty [where idle = idle, OF less.prems(1) i, of cap putc l]
  show ?case
  proof (cases "n = 0")
    case True
    with less.hyps [of d1 k1 v1] n less.prems(2) show ?thesis unfolding step by auto
  next
    case False
    then obtain e q where q: "take n (script d) = e # q" using less.prems(2) by (cases "take n (script d)") auto
    have "e # q @ script d1 = script d" using q n(2) by (metis append_Cons append_take_drop_id)
    with n(1) q show ?thesis unfolding step by (metis)
  qed
qed

lemma edit_loop_next:
  assumes "idle_laws idle script lull" "kq k q" "q @ script d = x # st"
  shows "\<exists>v' k' d' q'. edit_loop cap putc idle l (v, k) d = edit_loop cap putc idle l (v', k') d' \<and>
    kq k' (x # q') \<and> q' @ script d' = st"
proof (cases q)
  case Nil
  with assms(2,3) have k: "kq k []" "script d \<noteq> []" by auto
  from edit_loop_waits [OF assms(1) k, of cap putc l v] obtain v' k' d' q' y where
    w: "edit_loop cap putc idle l (v, k) d = edit_loop cap putc idle l (v', k') d'" "kq k' (y # q')" "y # q' @ script d' = script d" by blast
  then have "y = x" "q' @ script d' = st" using assms(3) Nil by auto
  with w show ?thesis by blast
next
  case (Cons y q')
  with assms show ?thesis by auto
qed

lemma line_finished:
  assumes "line_repr cap l s"
  shows "takeWhile (\<lambda>c. c \<noteq> 0) ((l_buf l)[l_len l := 0]) = s"
proof -
  have n: "length s < length (l_buf l)" "l_len l = length s" "take (length s) (l_buf l) = s" "0 \<notin> set s"
    using assms by (simp_all add: line_repr_def)
  then have "(l_buf l)[l_len l := 0] = s @ 0 # drop (Suc (length s)) (l_buf l)" by (simp add: upd_conv_take_nth_drop)
  moreover have "takeWhile (\<lambda>c. c \<noteq> 0) (s @ 0 # ys) = s" for ys using n(4) by (simp add: takeWhile_append)
  ultimately show ?thesis by simp
qed

lemma edit_loop_reads:
  assumes "idle_laws idle script lull" "echo_laws putc script"
    and "kq k q" "q @ script d = es @ e # rest" "\<forall>x \<in> set es. \<not> line_end x" "line_end e" "line_repr cap l s"
  shows "\<exists>l' v' k' d' q'. edit_loop cap putc idle l (v, k) d = Some ((l', v', k'), d') \<and>
    kq k' q' \<and> q' @ script d' = rest \<and> l_len l' = length (typed cap es s) \<and>
    takeWhile (\<lambda>c. c \<noteq> 0) (l_buf l') = typed cap es s"
  using assms(3-5,7)
proof (induction es arbitrary: k q d v l s)
  case Nil
  from edit_loop_next [OF assms(1) Nil.prems(1), of d e rest cap putc l v] Nil.prems(2) obtain v1 k1 d1 q1 where
    n: "edit_loop cap putc idle l (v, k) d = edit_loop cap putc idle l (v1, k1) d1" "kq k1 (e # q1)" "q1 @ script d1 = rest" by auto
  have key: "edit_key cap (ascii e) l = (l\<lparr>l_buf := (l_buf l)[l_len l := 0]\<rparr>, Some 0x0A, True)" "pressed e"
    using assms(6) by (simp_all add: edit_key_def line_end_def)
  from echo_key_runs [OF assms(2)] obtain v2 d2 where "echo_key putc (Some 0x0A) v1 d1 = Some (v2, d2)" "script d2 = script d1" by blast
  with edit_loop_key [OF n(2), of cap putc idle l v1 d1] key n(1,3) line_finished [OF Nil.prems(4)] Nil.prems(4)
  show ?case by (auto simp: typed_def line_repr_def)
next
  case (Cons x es)
  from edit_loop_next [OF assms(1) Cons.prems(1), of d x "es @ e # rest" cap putc l v] Cons.prems(2) obtain v1 k1 d1 q1 where
    n: "edit_loop cap putc idle l (v, k) d = edit_loop cap putc idle l (v1, k1) d1" "kq k1 (x # q1)" "q1 @ script d1 = es @ e # rest" by auto
  from edit_loop_key [OF n(2), of cap putc idle l v1 d1] obtain k2 where
    k2: "kq k2 q1" and run: "edit_loop cap putc idle l (v1, k1) d1 =
      (if \<not> pressed x then edit_loop cap putc idle l (v1, k2) d1
       else case echo_key putc (fst (snd (edit_key cap (ascii x) l))) v1 d1 of
              None \<Rightarrow> None
            | Some (v', d') \<Rightarrow>
                if snd (snd (edit_key cap (ascii x) l)) then Some ((fst (edit_key cap (ascii x) l), v', k2), d')
                else edit_loop cap putc idle (fst (edit_key cap (ascii x) l)) (v', k2) d')" by blast
  show ?case
  proof (cases "pressed x")
    case False
    with Cons.IH [OF k2, of d1 l s v1] n run Cons.prems(3,4) show ?thesis by (simp add: typed_def)
  next
    case True
    with Cons.prems(3) have "ascii x \<noteq> 0x0A" "ascii x \<noteq> 0x0D" by (simp_all add: line_end_def)
    from edit_key_repr [OF Cons.prems(4) this] obtain l2 c where
      l2: "edit_key cap (ascii x) l = (l2, c, False)" "line_repr cap l2 (type_char cap (ascii x) s)" by blast
    from echo_key_runs [OF assms(2)] obtain v2 d2 where "echo_key putc c v1 d1 = Some (v2, d2)" "script d2 = script d1" by blast
    with Cons.IH [OF k2, of d2 l2 "type_char cap (ascii x) s" v2] n run l2 True Cons.prems(3) show ?thesis
      by (simp add: typed_def)
  qed
qed

section \<open>Echo\<close>

text \<open>The ports the echo uses do not type keys.\<close>

definition ports_keep :: "'d bus \<Rightarrow> ('d \<Rightarrow> 'x) \<Rightarrow> bool" where
  "ports_keep b f \<longleftrightarrow> (\<forall>d x. f (out8 b CRTC_ADDR x d) = f d \<and> f (out8 b CRTC_DATA x d) = f d \<and> f (out8 b COM1 x d) = f d \<and>
     f (snd (in8 b (COM1 + 5) d)) = f d)"

lemma vga_putc_keeps:
  assumes "ports_keep b f"
  shows "\<exists>d'. vga_putc b c v d = Some (putc_cells c v, d') \<and> f d' = f d"
proof -
  have "\<exists>d'. vga_putc b c v d = Some (putc_cells c v, d')" using returns_vga_putc [of b c v] unfolding returns_def by blast
  then show ?thesis using assms by (auto simp: vga_putc_def update_cursor_def Let_def ports_keep_def)
qed

lemma await_serial_keeps:
  assumes "uart_laws b busy sent" "ports_keep b f"
  shows "\<exists>d'. await_serial b d = Some ((), d') \<and> f d' = f d"
proof (induction "busy d" arbitrary: d rule: less_induct)
  case less
  obtain s d1 where r: "in8 b (COM1 + 5) d = (s, d1)" by fastforce
  with assms have law: "bit s 5 \<longleftrightarrow> busy d = 0" "busy d1 = busy d - 1" "f d1 = f d"
    by (auto simp: uart_laws_def ports_keep_def) (metis snd_conv)
  have bit: "s AND 0x20 = 0 \<longleftrightarrow> \<not> bit s 5" using and_power_iff_bit [of 5 s] by simp
  have ready: "serial_ready b d = Some (s AND 0x20, d1)" using r by (simp add: serial_ready_def)
  show ?case
  proof (cases "busy d = 0")
    case True
    with ready bit law show ?thesis by (subst await_serial.simps) simp
  next
    case False
    then have "busy d1 < busy d" using law by simp
    from less.hyps [OF this] ready bit law False show ?thesis by (subst await_serial.simps) simp
  qed
qed

lemma serial_putc_keeps:
  assumes "uart_laws b busy sent" "ports_keep b f"
  shows "\<exists>d'. serial_putc b c d = Some ((), d') \<and> f d' = f d"
proof -
  have out: "f (out8 b COM1 x d) = f d" for x d using assms(2) by (simp add: ports_keep_def)
  from await_serial_keeps [OF assms] obtain d1 where d1: "await_serial b d = Some ((), d1)" "f d1 = f d" by blast
  from await_serial_keeps [OF assms] obtain d2 where d2: "await_serial b (out8 b COM1 0x0D d1) = Some ((), d2)" "f d2 = f (out8 b COM1 0x0D d1)" by blast
  show ?thesis using d1 d2 out by (cases "c = 0x0A") (simp_all add: serial_putc_def)
qed

lemma shell_echo:
  assumes "uart_laws b busy sent" "ports_keep b script"
  shows "echo_laws (shell_putc b) script"
  unfolding echo_laws_def
proof (intro allI)
  fix c v d
  from vga_putc_keeps [OF assms(2)] obtain d1 where d1: "vga_putc b c v d = Some (putc_cells c v, d1)" "script d1 = script d" by blast
  from serial_putc_keeps [OF assms] obtain d2 where d2: "serial_putc b c d1 = Some ((), d2)" "script d2 = script d1" by blast
  show "\<exists>v' d'. shell_putc b c v d = Some (v', d') \<and> script d' = script d"
    using d1 d2 by (simp add: shell_putc_def)
qed

lemma setup_echo: "ports_keep b script \<Longrightarrow> echo_laws (vga_putc b) script"
  using vga_putc_keeps [of b script] unfolding echo_laws_def by blast

lemma new_line: "line_repr cap \<lparr>l_buf = replicate (cap + 1) 0, l_len = 0\<rparr> []"
  by (simp add: line_repr_def)

lemma readln_reads:
  assumes "idle_laws hlt script lull" "ports_keep b script"
    and "kq k q" "q @ script d = es @ e # rest" "\<forall>x \<in> set es. \<not> line_end x" "line_end e"
  shows "\<exists>l v' k' d' q'. readln b hlt (v, k) d = Some ((l, v', k'), d') \<and> kq k' q' \<and> q' @ script d' = rest \<and>
    l_len l = length (typed 63 es []) \<and> takeWhile (\<lambda>c. c \<noteq> 0) (l_buf l) = typed 63 es []"
  using edit_loop_reads [OF assms(1) setup_echo [OF assms(2)] assms(3-6) new_line [of 63]]
  by (simp add: readln_def)

section \<open>Properties\<close>


text \<open>A device that types one key whenever the loop waits, and records what is sent.\<close>

definition typist :: "vga \<times> keyboard \<Rightarrow> key_event list \<times> 'x \<Rightarrow> (vga \<times> keyboard) \<times> key_event list \<times> 'x" where
  "typist = (\<lambda>(v, k) (es, out). case es of [] \<Rightarrow> ((v, k), es, out) | e # es \<Rightarrow> ((v, snd (kbuf_push e k)), es, out))"

definition typist_bus :: "(key_event list \<times> u8 list) bus" where
  "typist_bus = byte_bus (\<lambda>p d. 0x20) (\<lambda>p x (es, out). (es, if p = COM1 then out @ [x] else out))"

definition key :: "u8 \<Rightarrow> key_event" where
  "key c = \<lparr>scancode = 0, ascii = c, ev_modifiers = 0, pressed = True\<rparr>"

definition empty_keyboard :: keyboard where
  "empty_keyboard = \<lparr>kbuf = replicate KEY_BUF_SIZE (key 0), khead = 0, ktail = 0, modifiers = 0, extended = False\<rparr>"

lemma empty_keyboard_kq: "kq empty_keyboard []"
  by (simp add: kq_def empty_keyboard_def KEY_BUF_SIZE_def)

lemma typist_idle: "idle_laws typist fst (\<lambda>_. 0)"
  unfolding idle_laws_def
proof (intro allI impI)
  fix v k d v' k' d'
  assume k: "kq k []" and d: "fst d \<noteq> []" and t: "typist (v, k) d = ((v', k'), d')"
  obtain e es out where e: "d = (e # es, out)" using d by (metis neq_Nil_conv prod.collapse)
  with t have "k' = snd (kbuf_push e k)" "d' = (es, out)" by (simp_all add: typist_def)
  with e kbuf_push_kq(2) [OF k, of e] show "\<exists>n. kq k' (take n (fst d)) \<and> fst d' = drop n (fst d) \<and> (n = 0 \<longrightarrow> 0 < (0 :: nat))"
    by (intro exI [of _ 1]) (simp add: KEY_BUF_SIZE_def)
qed

lemma typist_ports: "uart_laws typist_bus (\<lambda>_. 0) snd" "ports_keep typist_bus fst"
proof -
  have "bit (0x20 :: u8) 5" by simp
  then show "uart_laws typist_bus (\<lambda>_. 0) snd" by (auto simp: uart_laws_def typist_bus_def byte_bus_def)
  show "ports_keep typist_bus fst" by (auto simp: ports_keep_def typist_bus_def byte_bus_def split: prod.split)
qed


text \<open>A backspace at the start of a line becomes a character of the line.\<close>

theorem backspace_on_empty_line: "typed cap [key 0x08] [] = (if 0 < cap then [0x08] else [])"
  by (simp add: typed_def key_def type_char_def)


end
