(* ===== verification/Shell.thy ===== *)
theory Shell
  imports LineEdit
begin

text \<open>
  The command line of \<^verbatim>\<open>userspace/shell/shell.c\<close>: splitting the line buffer into arguments.  \<^verbatim>\<open>args\<close> points into the buffer, in
  which the end of every argument is overwritten with a zero; an argument is the offset of its
  first character.
\<close>

section \<open>Arguments\<close>

definition MAX_ARGS :: nat where "MAX_ARGS = 16"

text \<open>The two scans: \<^verbatim>\<open>while (*p == ' ') p++\<close> and \<^verbatim>\<open>while (*p && *p != ' ') p++\<close>.  The buffer always holds a zero,
  so they stop inside it.\<close>

function skip_spaces :: "u8 list \<Rightarrow> nat \<Rightarrow> nat" where
  "skip_spaces buf p = (if p < length buf \<and> buf ! p = 0x20 then skip_spaces buf (p + 1) else p)"
  by pat_completeness auto
termination by (relation "measure (\<lambda>(buf, p). length buf - p)") auto

function skip_word :: "u8 list \<Rightarrow> nat \<Rightarrow> nat" where
  "skip_word buf p = (if p < length buf \<and> buf ! p \<noteq> 0 \<and> buf ! p \<noteq> 0x20 then skip_word buf (p + 1) else p)"
  by pat_completeness auto
termination by (relation "measure (\<lambda>(buf, p). length buf - p)") auto

declare skip_spaces.simps [simp del] skip_word.simps [simp del]

function parse_from :: "u8 list \<Rightarrow> nat list \<Rightarrow> nat \<Rightarrow> u8 list \<times> nat list" where
  "parse_from buf args p =
     (if p < length buf \<and> buf ! p \<noteq> 0 \<and> length args < MAX_ARGS then
        let args = args @ [p];
            p = skip_word buf p
        in if p < length buf \<and> buf ! p \<noteq> 0 then
             let buf = buf[p := 0] in parse_from buf args (skip_spaces buf (p + 1))
           else parse_from buf args p
      else (buf, args))"
  by pat_completeness auto
termination by (relation "measure (\<lambda>(buf, args, p). MAX_ARGS - length args)") auto

declare parse_from.simps [simp del]

definition parse_args :: "u8 list \<Rightarrow> u8 list \<times> nat list" where
  "parse_args buf = parse_from buf [] (skip_spaces buf 0)"

definition arg_string :: "u8 list \<Rightarrow> nat \<Rightarrow> u8 list" where
  "arg_string buf p = takeWhile (\<lambda>c. c \<noteq> 0) (drop p buf)"

section \<open>Reference: the words of a line\<close>

function line_words :: "u8 list \<Rightarrow> u8 list list" where
  "line_words s =
     (let s = dropWhile (\<lambda>c. c = 0x20) s
      in if s = [] then [] else takeWhile (\<lambda>c. c \<noteq> 0x20) s # line_words (dropWhile (\<lambda>c. c \<noteq> 0x20) s))"
  by pat_completeness auto
termination
proof (relation "measure length")
  fix s x :: "u8 list"
  assume "x = dropWhile (\<lambda>c. c = 0x20) s" "x \<noteq> []"
  then have "hd x \<noteq> 0x20" using hd_dropWhile [of "\<lambda>c. c = 0x20" s] by simp
  then have "length (dropWhile (\<lambda>c. c \<noteq> 0x20) x) < length x"
    using \<open>x \<noteq> []\<close> by (cases x) (auto simp: length_dropWhile_le less_Suc_eq_le)
  also have "\<dots> \<le> length s" using \<open>x = _\<close> by (simp add: length_dropWhile_le)
  finally show "(dropWhile (\<lambda>c. c \<noteq> 0x20) x, s) \<in> measure length" by simp
qed simp

declare line_words.simps [simp del]

section \<open>The scans\<close>

lemma drop_ConsD:
  assumes "drop p xs = y # ys"
  shows "p < length xs" "xs ! p = y" "drop (Suc p) xs = ys"
proof -
  show p: "p < length xs" using assms by (cases "p < length xs") simp_all
  from Cons_nth_drop_Suc [OF this] assms show "xs ! p = y" "drop (Suc p) xs = ys" by simp_all
qed

text \<open>A scan over a buffer whose rest from \<open>p\<close> is a string and its terminating zero.\<close>

lemma scan_drop:
  assumes "\<And>p. f p = (if p < length buf \<and> P (buf ! p) then f (p + 1) else p)" "\<not> P 0"
    and "drop p buf = s @ 0 # rest"
  shows "f p = p + length (takeWhile P s)" "drop (f p) buf = dropWhile P s @ 0 # rest"
proof -
  have "f p = p + length (takeWhile P s) \<and> drop (f p) buf = dropWhile P s @ 0 # rest" using assms(3)
  proof (induction s arbitrary: p)
    case Nil
    then have "p < length buf" "buf ! p = 0" using drop_ConsD by fastforce+
    with Nil assms(1) [of p] assms(2) show ?case by simp
  next
    case (Cons c s)
    then have p: "p < length buf" "buf ! p = c" "drop (p + 1) buf = s @ 0 # rest" using drop_ConsD [of p buf c "s @ 0 # rest"] by simp_all
    show ?case
    proof (cases "P c")
      case True
      then have "f p = f (p + 1)" using assms(1) [of p] p by simp
      with Cons.IH [OF p(3)] True show ?thesis by auto
    next
      case False
      with assms(1) [of p] p Cons.prems show ?thesis by simp
    qed
  qed
  then show "f p = p + length (takeWhile P s)" "drop (f p) buf = dropWhile P s @ 0 # rest" by auto
qed

lemmas skip_spaces_drop = scan_drop [where P = "\<lambda>c. c = 0x20" and f = "skip_spaces buf" for buf, OF skip_spaces.simps]

lemma skip_word_drop:
  assumes "drop p buf = s @ 0 # rest" "0 \<notin> set s"
  shows "skip_word buf p = p + length (takeWhile (\<lambda>c. c \<noteq> 0x20) s)"
    "drop (skip_word buf p) buf = dropWhile (\<lambda>c. c \<noteq> 0x20) s @ 0 # rest"
proof -
  have "takeWhile (\<lambda>c. c \<noteq> 0 \<and> c \<noteq> 0x20) s = takeWhile (\<lambda>c. c \<noteq> 0x20) s" "dropWhile (\<lambda>c. c \<noteq> 0 \<and> c \<noteq> 0x20) s = dropWhile (\<lambda>c. c \<noteq> 0x20) s"
    using assms(2) by (intro takeWhile_cong dropWhile_cong; auto)+
  with scan_drop [of "skip_word buf" buf "\<lambda>c. c \<noteq> 0 \<and> c \<noteq> 0x20", OF skip_word.simps _ assms(1)]
  show "skip_word buf p = p + length (takeWhile (\<lambda>c. c \<noteq> 0x20) s)"
    "drop (skip_word buf p) buf = dropWhile (\<lambda>c. c \<noteq> 0x20) s @ 0 # rest" by simp_all
qed

lemma line_words_spaces: "line_words (dropWhile (\<lambda>c. c = 0x20) s) = line_words s"
proof -
  have "dropWhile P (dropWhile P s) = dropWhile P s" for P :: "u8 \<Rightarrow> bool" by (simp add: dropWhile_idem)
  then show ?thesis by (subst (1 2) line_words.simps) (simp only:)
qed

lemma takeWhile_update_after:
  assumes "j < i" "j < length xs" "\<not> P (xs ! j)"
  shows "takeWhile P (xs[i := v]) = takeWhile P xs"
  using assms
proof (induction xs arbitrary: i j)
  case (Cons x xs)
  then obtain k where i: "i = Suc k" by (cases i) auto
  show ?case
  proof (cases j)
    case 0
    with Cons.prems i show ?thesis by simp
  next
    case (Suc l)
    with Cons.prems i Cons.IH [of l k] show ?thesis by simp
  qed
qed simp

lemma arg_string_update:
  assumes "a \<le> z" "z < q" "z < length buf" "buf ! z = 0"
  shows "arg_string (buf[q := v]) a = arg_string buf a"
proof -
  have "takeWhile (\<lambda>c. c \<noteq> 0) ((drop a buf)[q - a := v]) = takeWhile (\<lambda>c. c \<noteq> 0) (drop a buf)"
    using assms by (intro takeWhile_update_after [of "z - a"]) auto
  with assms(1,2) show ?thesis by (simp add: arg_string_def drop_update_swap)
qed

lemma arg_string_drop:
  assumes "drop p buf = w @ 0 # rest" "0 \<notin> set w"
  shows "arg_string buf p = w"
  using assms by (simp add: arg_string_def takeWhile_append)

lemma line_words_Cons:
  assumes "s \<noteq> []" "hd s \<noteq> 0x20"
  shows "line_words s = takeWhile (\<lambda>c. c \<noteq> 0x20) s # line_words (dropWhile (\<lambda>c. c \<noteq> 0x20) s)"
proof -
  have "dropWhile (\<lambda>c. c = 0x20) s = s" using assms by (cases s) simp_all
  with assms(1) show ?thesis by (subst line_words.simps) (simp add: Let_def)
qed

text \<open>
  The invariant of the loop: the rest of the line is \<open>s\<close>, and the strings at the offsets found so far
  end before it.
\<close>

lemma parse_from_words:
  assumes "drop p buf = s @ 0 # rest" "0 \<notin> set s" "s = [] \<or> hd s \<noteq> 0x20"
    and "\<And>a. a \<in> set args \<Longrightarrow> \<exists>z<p. a \<le> z \<and> buf ! z = 0"
    and "parse_from buf args p = (buf', args')"
  shows "\<exists>new. args' = args @ new \<and> map (arg_string buf') new = take (MAX_ARGS - length args) (line_words s) \<and>
    (\<forall>a \<in> set args. arg_string buf' a = arg_string buf a)"
  using assms
proof (induction "MAX_ARGS - length args" arbitrary: buf args p s)
  case 0
  then show ?case by (subst (asm) parse_from.simps) simp
next
  case (Suc n)
  show ?case
  proof (cases "s = []")
    case True
    then have "buf ! p = 0" using Suc.prems(1) drop_ConsD [of p buf 0 rest] by simp
    with True Suc.prems(5) show ?thesis by (subst (asm) parse_from.simps) (simp add: line_words.simps [of "[]"])
  next
    case False
    let ?w = "takeWhile (\<lambda>c. c \<noteq> 0x20) s" and ?t = "dropWhile (\<lambda>c. c \<noteq> 0x20) s"
    note q = skip_word_drop [OF Suc.prems(1,2)]
    let ?q = "p + length ?w"
    obtain c s' where c: "s = c # s'" using False by (cases s) auto
    with Suc.prems(1,2) have p: "p < length buf" "buf ! p \<noteq> 0" using drop_ConsD [of p buf c "s' @ 0 # rest"] by auto
    have more: "length args < MAX_ARGS" "n = MAX_ARGS - length (args @ [p])" using Suc.hyps(2) by simp_all
    have words: "line_words s = ?w # line_words ?t" using line_words_Cons Suc.prems(3) False by blast
    have run: "parse_from buf args p =
        (if ?q < length buf \<and> buf ! ?q \<noteq> 0 then parse_from (buf[?q := 0]) (args @ [p]) (skip_spaces (buf[?q := 0]) (?q + 1))
         else parse_from buf (args @ [p]) ?q)"
      by (subst parse_from.simps) (simp add: p more(1) q(1) Let_def)
    show ?thesis
    proof (cases "?t = []")
      case True
      then have w: "?w = s" by (metis append_Nil2 takeWhile_dropWhile_id)
      have "drop ?q buf = 0 # rest" using q True by simp
      then have "buf ! ?q = 0" by (rule drop_ConsD)
      then have "buf' = buf" "args' = args @ [p]"
        using run Suc.prems(5) parse_from.simps [of buf "args @ [p]" ?q] by auto
      moreover have "arg_string buf p = s" using arg_string_drop Suc.prems(1,2) by blast
      ultimately show ?thesis using more words True w by (simp add: line_words.simps [of "[]"])
    next
      case False
      then obtain t' where t: "?t = 0x20 # t'" using hd_dropWhile [OF False] by (cases ?t) auto
      have d: "drop ?q buf = 0x20 # t' @ 0 # rest" using q t by simp
      note dq = drop_ConsD [OF d]
      let ?b = "buf[?q := 0]" and ?s = "dropWhile (\<lambda>c. c = 0x20) t'"
      have "drop (?q + 1) ?b = t' @ 0 # rest" using dq(3) by simp
      note sp = skip_spaces_drop [OF _ this]
      have t'0: "0 \<notin> set t'" using Suc.prems(2) t by (metis list.set_intros(2) set_dropWhileD)
      have beyond: "?q < skip_spaces ?b (?q + 1)" using sp(1) by simp
      have old: "\<exists>z<p. a \<le> z \<and> z < length buf \<and> buf ! z = 0" if "a \<in> set args" for a
        using Suc.prems(4) [OF that] p(1) by (meson order.strict_trans)
      have marks: "\<exists>z < skip_spaces ?b (?q + 1). a \<le> z \<and> ?b ! z = 0" if "a \<in> set (args @ [p])" for a
      proof (cases "a = p")
        case True
        then show ?thesis using dq(1) beyond by (intro exI [of _ ?q]) simp
      next
        case False
        with that obtain z where "z < p" "a \<le> z" "buf ! z = 0" using old by auto
        then show ?thesis using beyond by (intro exI [of _ z]) simp
      qed
      have rec: "parse_from ?b (args @ [p]) (skip_spaces ?b (?q + 1)) = (buf', args')" using run dq Suc.prems(5) by simp
      have s: "0 \<notin> set ?s" "?s = [] \<or> hd ?s \<noteq> 0x20" using t'0 hd_dropWhile [of "\<lambda>c. c = 0x20" t'] by (auto dest: set_dropWhileD)
      from Suc.hyps(1) [OF more(2) sp(2) s marks rec] obtain new where
        new: "args' = (args @ [p]) @ new" "map (arg_string buf') new = take (MAX_ARGS - length (args @ [p])) (line_words ?s)"
          "\<forall>a \<in> set (args @ [p]). arg_string buf' a = arg_string ?b a" by auto
      have "s = ?w @ 0x20 # t'" using t by (metis takeWhile_dropWhile_id)
      with Suc.prems(1) have "drop p buf = ?w @ 0x20 # t' @ 0 # rest" by (metis append.assoc append_Cons)
      then have "drop p ?b = ?w @ 0 # t' @ 0 # rest" by (simp add: drop_update_swap)
      moreover have "0 \<notin> set ?w" using Suc.prems(2) by (auto dest: set_takeWhileD)
      ultimately have "arg_string ?b p = ?w" using arg_string_drop by blast
      moreover have "arg_string ?b a = arg_string buf a" if "a \<in> set args" for a
        using old [OF that] arg_string_update [of a _ ?q buf 0] by (meson le_add1 order.strict_trans2)
      moreover have "line_words ?t = line_words ?s" using line_words_spaces [of "0x20 # t'"] by (simp add: t)
      moreover have "MAX_ARGS - length args = Suc (MAX_ARGS - length (args @ [p]))" using more(1) by simp
      ultimately show ?thesis using new words by (intro exI [of _ "p # new"]) simp
    qed
  qed
qed

section \<open>Properties\<close>

text \<open>
  C37: The arguments are the words of the line: for every line in the buffer, the strings \<^verbatim>\<open>args\<close> points to after
  \<^verbatim>\<open>parse_args\<close> are the first sixteen maximal runs of characters other than spaces, in order.
\<close>

theorem parse_args_words:
  assumes "buf = s @ 0 # rest" "0 \<notin> set s" "parse_args buf = (buf', args)"
  shows "map (arg_string buf') args = take MAX_ARGS (line_words s)"
proof -
  let ?s = "dropWhile (\<lambda>c. c = 0x20) s"
  have "drop 0 buf = s @ 0 # rest" using assms(1) by simp
  note sp = skip_spaces_drop [OF _ this]
  have s: "0 \<notin> set ?s" "?s = [] \<or> hd ?s \<noteq> 0x20"
    using assms(2) hd_dropWhile [of "\<lambda>c. c = 0x20" s] by (auto dest: set_dropWhileD)
  have "parse_from buf [] (skip_spaces buf 0) = (buf', args)" using assms(3) by (simp add: parse_args_def)
  from parse_from_words [OF sp(2) s _ this] show ?thesis by (simp add: line_words_spaces)
qed

theorem parse_args_words_witness:
  "\<exists>buf args. parse_args (c_string '' cat  /etc/hostname '' @ 0 # replicate 8 0) = (buf, args) \<and>
     map (arg_string buf) args = [c_string ''cat'', c_string ''/etc/hostname'']"
proof -
  obtain buf args where p: "parse_args (c_string '' cat  /etc/hostname '' @ 0 # replicate 8 0) = (buf, args)" by fastforce
  have "0 \<notin> set (c_string '' cat  /etc/hostname '')" by (simp add: c_string_def)
  from parse_args_words [OF refl this p]
  have "map (arg_string buf) args = take MAX_ARGS (line_words (c_string '' cat  /etc/hostname ''))" .
  also have "\<dots> = [c_string ''cat'', c_string ''/etc/hostname'']"
    by (simp add: MAX_ARGS_def c_string_def line_words.simps)
  finally show ?thesis using p by (intro exI [of _ buf] exI [of _ args] conjI)
qed


end
