(* ===== verification/Commands.thy ===== *)
theory Commands
  imports Shell Klog Vfs Net Sched Cpu
begin

text \<open>
  The commands of \<^verbatim>\<open>userspace/shell/shell.c\<close>.  What a command prints never decides what it does next, so a command is
  the list of the calls it makes, in order, together with the state of the file systems after it;
  \<open>perform\<close> makes the calls.  An unsigned argument of \<^verbatim>\<open>kprintf\<close> is passed as the value it has.
\<close>

section \<open>Calls\<close>

datatype action =
    Say "u8 list" "varg list"
  | Set_color u32 u32
  | Clear_screen
  | Out_byte u16 u8
  | Poll_net
  | Halt

definition VGA_BLACK :: u32 where "VGA_BLACK = 0"
definition VGA_LIGHT_GRAY :: u32 where "VGA_LIGHT_GRAY = 7"
definition VGA_LIGHT_BLUE :: u32 where "VGA_LIGHT_BLUE = 9"
definition VGA_LIGHT_GREEN :: u32 where "VGA_LIGHT_GREEN = 10"
definition VGA_WHITE :: u32 where "VGA_WHITE = 15"

definition say :: "string \<Rightarrow> varg list \<Rightarrow> action" where
  "say fmt ap = Say (c_string fmt) ap"

definition say_line :: "string \<Rightarrow> varg list \<Rightarrow> action" where
  "say_line fmt ap = Say (c_string fmt @ [0x0A]) ap"

record shell_env =
  e_vfs :: vfs
  e_pmm :: pmm
  e_pit :: pit
  e_sched :: sched
  e_net :: net

section \<open>Commands\<close>

definition cmd_help :: "action list" where
  "cmd_help = [say_line ''Commands: help ls cat echo clear ps mem uptime reboot ifconfig netpoll'' []]"

partial_function (option) ls_from :: "nat \<Rightarrow> u32 \<Rightarrow> action list \<Rightarrow> fs \<Rightarrow> (action list \<times> fs) option" where
  "ls_from dir i acts s =
     (case vfs_readdir dir i s of
        None \<Rightarrow> None
      | Some (e, s) \<Rightarrow>
          if e = 0 then Some (acts, s)
          else
            let isdir = n_flags (nodes s e) AND VFS_DIR \<noteq> 0
            in ls_from dir (i + 1)
                 (acts @ [Set_color (if isdir then VGA_LIGHT_BLUE else VGA_LIGHT_GRAY) VGA_BLACK,
                          say_line ''  %s%s'' [Str_arg (n_name (nodes s e)), Str_arg (if isdir then c_string ''/'' else [])]]) s)"

definition cmd_ls :: "name \<Rightarrow> vfs \<Rightarrow> name option \<Rightarrow> fs \<Rightarrow> (action list \<times> fs) option" where
  "cmd_ls stale m path s =
     (let path = (case path of None \<Rightarrow> c_string ''/'' | Some p \<Rightarrow> p)
      in case vfs_open stale m path s of
           None \<Rightarrow> None
         | Some (dir, s) \<Rightarrow>
             if dir = 0 then Some ([say_line ''ls: no such directory: %s'' [Str_arg path]], s)
             else case ls_from dir 0 [] s of
                    None \<Rightarrow> None
                  | Some (acts, s) \<Rightarrow> Some (acts @ [Set_color VGA_LIGHT_GRAY VGA_BLACK], vfs_close dir s))"

partial_function (option) cat_from :: "nat \<Rightarrow> u32 \<Rightarrow> action list \<Rightarrow> fs \<Rightarrow> (action list \<times> fs) option" where
  "cat_from f off acts s =
     (case vfs_read f (ucast off) 63 s of
        None \<Rightarrow> None
      | Some (chunk, s) \<Rightarrow>
          if chunk = [] then Some (acts, s)
          else cat_from f (off + of_nat (length chunk)) (acts @ [say ''%s'' [Str_arg (cstring chunk)]]) s)"

definition cmd_cat :: "name \<Rightarrow> vfs \<Rightarrow> name option \<Rightarrow> fs \<Rightarrow> (action list \<times> fs) option" where
  "cmd_cat stale m path s =
     (case path of
        None \<Rightarrow> Some ([say_line ''usage: cat <path>'' []], s)
      | Some path \<Rightarrow>
          (case vfs_open stale m path s of
             None \<Rightarrow> None
           | Some (f, s) \<Rightarrow>
               if f = 0 \<or> n_flags (nodes s f) AND VFS_FILE = 0
               then Some ([say_line ''cat: not found: %s'' [Str_arg path]], s)
               else case cat_from f 0 [] s of
                      None \<Rightarrow> None
                    | Some (acts, s) \<Rightarrow> Some (acts, vfs_close f s)))"

definition cmd_echo :: "u8 list list \<Rightarrow> action list" where
  "cmd_echo ws =
     map (\<lambda>i. say ''%s%s'' [Str_arg (ws ! i), Str_arg (if i < length ws - 1 then c_string '' '' else [])]) [0 ..< length ws]
     @ [say_line '''' []]"

definition cmd_ps :: "sched \<Rightarrow> action list" where
  "cmd_ps s =
     [say_line ''  ID  NAME             STATE'' [], say_line ''  --  ---------------  --------'' []] @
     (let cur = current_thread s
      in if cur \<noteq> 0
         then [say_line ''  %-3u %-16s RUNNING'' [Ulong_arg (unat (t_id (tcbs s cur))), Str_arg (c_string (t_name (tcbs s cur)))]]
         else []) @
     [say_line ''  (run-queue threads omitted in Phase 7)'' []]"

definition cmd_mem :: "pmm \<Rightarrow> action list" where
  "cmd_mem p =
     (let total_mib = (ucast (drop_bit 20 (pmm_total p)) :: u32);
          used_mib = (ucast (drop_bit 20 (pmm_used p)) :: u32);
          free_mib = (ucast (drop_bit 20 (pmm_available p)) :: u32)
      in [say_line ''  Total : %u MiB'' [Ulong_arg (unat total_mib)],
          say_line ''  Used  : %u MiB'' [Ulong_arg (unat used_mib)],
          say_line ''  Free  : %u MiB'' [Ulong_arg (unat free_mib)]])"

definition cmd_uptime :: "pit \<Rightarrow> action list" where
  "cmd_uptime p =
     (let secs = (ucast (pit_ticks p) :: u32) div 100
      in [say_line ''  Uptime: %u min %u sec'' [Ulong_arg (unat (secs div 60)), Ulong_arg (unat (secs mod 60))]])"

definition cmd_reboot :: "action list" where
  "cmd_reboot = [say_line ''Rebooting...'' [], Out_byte 0x64 0xFE, Halt]"

definition ip_args :: "u32 \<Rightarrow> varg list" where
  "ip_args ip = map (\<lambda>k. Ulong_arg (unat (drop_bit k ip AND 0xFF))) [24, 16, 8, 0]"

definition cmd_ifconfig :: "net \<Rightarrow> action list" where
  "cmd_ifconfig n =
     (if net_up n then
        [say_line ''  eth0  MAC: %02x:%02x:%02x:%02x:%02x:%02x'' (map (\<lambda>x. Ulong_arg (unat x)) (net_get_mac n)),
         say_line ''        IP:  %u.%u.%u.%u'' (ip_args (net_our_ip n))]
      else [say_line ''  No network interface'' []])"

definition arg1 :: "u8 list list \<Rightarrow> u8 list option" where
  "arg1 argv = (if length argv > 1 then Some (argv ! 1) else None)"

definition dispatch :: "name \<Rightarrow> shell_env \<Rightarrow> u8 list list \<Rightarrow> fs \<Rightarrow> (action list \<times> fs) option" where
  "dispatch stale e argv s =
     (if argv = [] then Some ([], s)
      else
        let cmd = hd argv
        in if cmd = c_string ''help'' then Some (cmd_help, s)
           else if cmd = c_string ''ls'' then cmd_ls stale (e_vfs e) (arg1 argv) s
           else if cmd = c_string ''cat'' then cmd_cat stale (e_vfs e) (arg1 argv) s
           else if cmd = c_string ''echo'' then Some (cmd_echo (tl argv), s)
           else if cmd = c_string ''clear'' then Some ([Clear_screen], s)
           else if cmd = c_string ''ps'' then Some (cmd_ps (e_sched e), s)
           else if cmd = c_string ''mem'' then Some (cmd_mem (e_pmm e), s)
           else if cmd = c_string ''uptime'' then Some (cmd_uptime (e_pit e), s)
           else if cmd = c_string ''reboot'' then Some (cmd_reboot, s)
           else if cmd = c_string ''ifconfig'' then Some (cmd_ifconfig (e_net e), s)
           else if cmd = c_string ''netpoll'' then Some ([Poll_net, say_line ''Network polled.'' []], s)
           else Some ([say_line ''%s: command not found'' [Str_arg cmd]], s))"

section \<open>Making the calls\<close>

text \<open>\<open>buf\<close> is where \<^verbatim>\<open>kprintf\<close> has its buffer; a \<^verbatim>\<open>hlt\<close> in an endless loop does not return.\<close>

fun perform ::
  "'d bus \<Rightarrow> 'd dma \<Rightarrow> packet_fn \<Rightarrow> nat \<Rightarrow> action \<Rightarrow> terminal \<times> netdev \<Rightarrow> ('d, terminal \<times> netdev) io" where
  "perform b mm process buf (Say fmt ap) s = andthen (kprintf b buf fmt ap (fst s)) (\<lambda>t. ret (t, snd s))"
| "perform b mm process buf (Set_color fg bg) s = ret ((fst s)\<lparr>t_vga := vga_set_color fg bg (t_vga (fst s))\<rparr>, snd s)"
| "perform b mm process buf Clear_screen s = andthen (vga_clear b (t_vga (fst s))) (\<lambda>v. ret ((fst s)\<lparr>t_vga := v\<rparr>, snd s))"
| "perform b mm process buf (Out_byte p v) s = andthen (outb b p v) (\<lambda>_. ret s)"
| "perform b mm process buf Poll_net s = andthen (net_poll b mm process (snd s)) (\<lambda>n. ret (fst s, n))"
| "perform b mm process buf Halt s = (\<lambda>_. None)"

record shell_state =
  s_term :: terminal
  s_dev :: netdev
  s_keys :: keyboard
  s_fs :: fs

text \<open>
  One round of the loop of \<^verbatim>\<open>shell_run\<close>: the prompt, a line, and the command on it.  \<open>env\<close> is the state of the
  components a command only reads, at the time of the command.
\<close>

definition prompt :: "action list" where
  "prompt = [Set_color VGA_LIGHT_GREEN VGA_BLACK, say ''aerogel> '' [], Set_color VGA_WHITE VGA_BLACK]"

definition perform_all ::
  "'d bus \<Rightarrow> 'd dma \<Rightarrow> packet_fn \<Rightarrow> nat \<Rightarrow> action list \<Rightarrow> terminal \<times> netdev \<Rightarrow> ('d, terminal \<times> netdev) io" where
  "perform_all b mm process buf acts = io_fold (perform b mm process buf) acts"

definition shell_round ::
  "'d bus \<Rightarrow> 'd dma \<Rightarrow> packet_fn \<Rightarrow> nat \<Rightarrow> (vga \<times> keyboard \<Rightarrow> 'd \<Rightarrow> (vga \<times> keyboard) \<times> 'd) \<Rightarrow> name \<Rightarrow>
   (shell_state \<Rightarrow> shell_env) \<Rightarrow> shell_state \<Rightarrow> ('d, shell_state) io" where
  "shell_round b mm process buf yield stale env s =
     andthen (perform_all b mm process buf prompt (s_term s, s_dev s)) (\<lambda>(t, n).
     andthen (readline b yield (t_vga t, s_keys s)) (\<lambda>(l, v, k).
     let t = t\<lparr>t_vga := vga_set_color VGA_LIGHT_GRAY VGA_BLACK v\<rparr>;
         (lbuf, args) = parse_args (l_buf l);
         s = s\<lparr>s_term := t, s_dev := n, s_keys := k\<rparr>
     in case dispatch stale (env s) (map (arg_string lbuf) args) (s_fs s) of
          None \<Rightarrow> (\<lambda>_. None)
        | Some (acts, f) \<Rightarrow>
            andthen (perform_all b mm process buf acts (t, n)) (\<lambda>(t, n). ret (s\<lparr>s_term := t, s_dev := n, s_fs := f\<rparr>))))"

text \<open>\<^verbatim>\<open>shell_run\<close> up to the end of its \<open>n\<close>th round; the loop has no end.\<close>

definition banner :: "action list" where
  "banner = [Set_color VGA_LIGHT_GRAY VGA_BLACK, Say ([0x0A] @ c_string ''Aerogel shell. Type '' @ [0x27] @ c_string ''help'' @ [0x27] @
     c_string '' for commands.'' @ [0x0A]) []]"

definition shell_run ::
  "nat \<Rightarrow> 'd bus \<Rightarrow> 'd dma \<Rightarrow> packet_fn \<Rightarrow> nat \<Rightarrow> (vga \<times> keyboard \<Rightarrow> 'd \<Rightarrow> (vga \<times> keyboard) \<times> 'd) \<Rightarrow> name \<Rightarrow>
   (shell_state \<Rightarrow> shell_env) \<Rightarrow> shell_state \<Rightarrow> ('d, shell_state) io" where
  "shell_run n b mm process buf yield stale env s =
     andthen (perform_all b mm process buf banner (s_term s, s_dev s)) (\<lambda>(t, d).
       io_fold (\<lambda>_. shell_round b mm process buf yield stale env) [0 ..< n] (s\<lparr>s_term := t, s_dev := d\<rparr>))"

section \<open>What commands print\<close>

definition text_of :: "action \<Rightarrow> u8 list" where
  "text_of a = (case a of Say fmt ap \<Rightarrow> (case format_text fmt ap of Some t \<Rightarrow> t | None \<Rightarrow> []) | _ \<Rightarrow> [])"

definition said :: "action list \<Rightarrow> u8 list" where
  "said acts = concat (map text_of acts)"

lemma said_append [simp]: "said (xs @ ys) = said xs @ said ys"
  by (simp add: said_def)

lemma text_of_string: "text_of (say ''%s'' [Str_arg s]) = s"
  by (simp add: text_of_def say_def c_string_def)

lemma cat_from_prints:
  assumes "tmpfs_inv s" "f \<noteq> 0" "n_read (nodes s f) = Tmpfs_read" "0 \<notin> set (f_data (file_of s f))"
    and "unat off \<le> length (f_data (file_of s f))"
  shows "\<exists>acts'. cat_from f off acts s = Some (acts', s) \<and> said acts' = said acts @ drop (unat off) (f_data (file_of s f))"
  using assms(5)
proof (induction "length (f_data (file_of s f)) - unat off" arbitrary: off acts rule: less_induct)
  case less
  let ?data = "f_data (file_of s f)"
  let ?chunk = "take 63 (drop (unat off) ?data)"
  have rd: "vfs_read f (ucast off) 63 s = Some (?chunk, s)"
    using assms(2,3) tmpfs_read_data [OF assms(1), of f "ucast off" 63] by (simp add: vfs_read_def unat_ucast_u64)
  show ?case
  proof (cases "?chunk = []")
    case True
    then have "drop (unat off) ?data = []" by simp
    with True rd show ?thesis by (subst cat_from.simps) simp
  next
    case False
    let ?off = "off + of_nat (length ?chunk)"
    have "length ?data < 2 ^ 32" using assms(1) by (simp add: tmpfs_inv_def file_of_def file_wf_def)
    moreover have "unat off + length ?chunk \<le> length ?data" using less.prems by simp
    ultimately have off: "unat ?off = unat off + length ?chunk" by (simp add: unat_word_ariths unat_of_nat)
    have "0 \<notin> set ?chunk" using assms(4) by (meson in_set_dropD in_set_takeD)
    then have c: "cstring ?chunk = ?chunk" by (auto simp: cstring_def takeWhile_eq_all_conv)
    have "length ?data - unat ?off < length ?data - unat off" using off False less.prems by auto
    moreover have "unat ?off \<le> length ?data" using off less.prems by simp
    ultimately obtain acts' where r: "cat_from f ?off (acts @ [say ''%s'' [Str_arg ?chunk]]) s = Some (acts', s)"
        "said acts' = said (acts @ [say ''%s'' [Str_arg ?chunk]]) @ drop (unat ?off) ?data"
      using less.hyps by blast
    have "?chunk @ drop (unat ?off) ?data = drop (unat off) ?data"
    proof -
      have "take n xs @ drop (length (take n xs)) xs = xs" for n and xs :: "u8 list" by (cases "n \<le> length xs") simp_all
      from this [of 63 "drop (unat off) ?data"] show ?thesis unfolding off by (simp add: add.commute)
    qed
    with r have "said acts' = said acts @ drop (unat off) ?data" by (simp add: said_def text_of_string)
    moreover have "cat_from f off acts s = Some (acts', s)" using rd r(1) False c by (subst cat_from.simps) simp
    ultimately show ?thesis by blast
  qed
qed


definition ls_line :: "fs \<Rightarrow> nat \<Rightarrow> u8 list" where
  "ls_line s e = c_string ''  '' @ n_name (nodes s e) @ (if n_flags (nodes s e) AND VFS_DIR \<noteq> 0 then c_string ''/'' else []) @ [0x0A]"

lemma text_of_entry:
  "text_of (say_line ''  %s%s'' [Str_arg a, Str_arg b]) = c_string ''  '' @ a @ b @ [0x0A]"
  by (simp add: text_of_def say_line_def c_string_def)

lemma ls_from_prints:
  assumes "tmpfs_inv s" "dir \<noteq> 0" "n_flags (nodes s dir) AND VFS_DIR \<noteq> 0" "n_readdir (nodes s dir) = Tmpfs_readdir"
    and "length (tmpfs_entries s dir) < 2 ^ 32 - 1" "unat i \<le> length (tmpfs_entries s dir)"
  shows "\<exists>acts'. ls_from dir i acts s = Some (acts', s) \<and>
    said acts' = said acts @ concat (map (ls_line s) (drop (unat i) (tmpfs_entries s dir)))"
  using assms(6)
proof (induction "length (tmpfs_entries s dir) - unat i" arbitrary: i acts rule: less_induct)
  case less
  let ?es = "tmpfs_entries s dir"
  let ?e = "?es ! unat i"
  have rd: "vfs_readdir dir i s = Some (if unat i < length ?es then ?e else 0, s)"
    using assms(1-4) by (simp add: vfs_readdir_def call_readdir_def tmp_dir.readdir_nth)
  show ?case
  proof (cases "unat i < length ?es")
    case False
    with rd less.prems show ?thesis by (subst ls_from.simps) simp
  next
    case True
    then have e: "?e \<noteq> 0" using tmpfs_entries_pos(1) [OF assms(1)] by (metis nth_mem less_irrefl)
    have i: "unat (i + 1) = unat i + 1" using True assms(5) by (simp add: unat_word_ariths)
    define line where "line = [Set_color (if n_flags (nodes s ?e) AND VFS_DIR \<noteq> 0 then VGA_LIGHT_BLUE else VGA_LIGHT_GRAY) VGA_BLACK,
      say_line ''  %s%s'' [Str_arg (n_name (nodes s ?e)), Str_arg (if n_flags (nodes s ?e) AND VFS_DIR \<noteq> 0 then c_string ''/'' else [])]]"
    have step: "ls_from dir i acts s = ls_from dir (i + 1) (acts @ line) s"
      using rd True e by (subst ls_from.simps) (simp add: line_def Let_def)
    have printed: "said line = ls_line s ?e"
      unfolding line_def said_def list.map concat.simps text_of_entry by (simp add: text_of_def ls_line_def)
    have "length ?es - unat (i + 1) < length ?es - unat i" "unat (i + 1) \<le> length ?es" using i True by simp_all
    from less.hyps [OF this] obtain acts' where "ls_from dir (i + 1) (acts @ line) s = Some (acts', s)"
        "said acts' = said (acts @ line) @ concat (map (ls_line s) (drop (unat (i + 1)) ?es))" by blast
    moreover have "drop (unat i) ?es = ?e # drop (unat (i + 1)) ?es" using i True by (simp add: Cons_nth_drop_Suc)
    ultimately show ?thesis using step printed by simp
  qed
qed

section \<open>Properties\<close>


text \<open>\<^verbatim>\<open>ls\<close> of a directory of the memory file system prints one line for every entry, in order, with a slash
  after the name of a directory.\<close>

theorem ls_lists_directory:
  assumes "tmpfs_inv s" "vfs_open stale m path s = Some (dir, s)" "dir \<noteq> 0" "n_flags (nodes s dir) AND VFS_DIR \<noteq> 0"
    and "n_readdir (nodes s dir) = Tmpfs_readdir" "length (tmpfs_entries s dir) < 2 ^ 32 - 1"
  shows "\<exists>acts. cmd_ls stale m (Some path) s = Some (acts, s) \<and> said acts = concat (map (ls_line s) (tmpfs_entries s dir))"
proof -
  from ls_from_prints [OF assms(1,3-6), of 0 "[]"] obtain acts where
    "ls_from dir 0 [] s = Some (acts, s)" "said acts = concat (map (ls_line s) (tmpfs_entries s dir))" by (auto simp: said_def)
  moreover have "said [Set_color VGA_LIGHT_GRAY VGA_BLACK] = []" by (simp add: said_def text_of_def)
  ultimately show ?thesis using assms(2,3) by (simp add: cmd_ls_def vfs_close_def)
qed

text \<open>\<^verbatim>\<open>kprintf\<close> knows no field widths: \<^verbatim>\<open>ifconfig\<close> prints the characters of the format in place of the hardware
  address, whatever the address is.\<close>

theorem ifconfig_hides_mac:
  assumes "net_up n"
  shows "text_of (hd (cmd_ifconfig n)) = c_string ''  eth0  MAC: ?2x:?2x:?2x:?2x:?2x:?2x'' @ [0x0A]"
  using assms by (simp add: cmd_ifconfig_def say_line_def text_of_def c_string_def)

theorem ifconfig_hides_mac_witness:
  "text_of (hd (cmd_ifconfig (snd sample_netdev))) = c_string ''  eth0  MAC: ?2x:?2x:?2x:?2x:?2x:?2x'' @ [0x0A]"
  using ifconfig_hides_mac [of "snd sample_netdev"] by (simp add: net_up_def sample_netdev_def)


text \<open>A root directory with one file \<^verbatim>\<open>v\<close> of three bytes.\<close>

definition sample_files :: fs where
  "sample_files = empty_fs\<lparr>
     nodes := (\<lambda>_. zero_node)(
       2 := zero_node\<lparr>n_flags := VFS_DIR, fs_data := 1, n_readdir := Tmpfs_readdir, n_finddir := Tmpfs_finddir\<rparr>,
       4 := zero_node\<lparr>n_name := [0x76], n_flags := VFS_FILE, n_size := 3, fs_data := 3, n_read := Tmpfs_read, n_write := Tmpfs_write\<rparr>),
     tdirs := (tdirs empty_fs)(1 := \<lparr>dir_entries = [4], dir_count = 1, dir_cap = 1\<rparr>),
     tfiles := (tfiles empty_fs)(3 := \<lparr>f_data = [0x61, 0x62, 0x0A], f_size = 3\<rparr>), brk := 5\<rparr>"

lemma sample_files_inv: "tmpfs_inv sample_files"
  by (auto simp: tmpfs_inv_def sample_files_def empty_fs_def dir_wf_def file_wf_def)

lemma sample_files_open:
  "vfs_open [] \<lparr>mounts = [], vfs_root = 2\<rparr> [0x2F, 0x76] sample_files = Some (4, sample_files)"
  "vfs_open [] \<lparr>mounts = [], vfs_root = 2\<rparr> [0x2F] sample_files = Some (2, sample_files)"
proof -
  have "n_finddir (nodes sample_files 2) = Tmpfs_finddir" "tmpfs_finddir 2 [0x76] sample_files = 4"
    by (simp_all add: sample_files_def tmpfs_finddir_def tmpfs_entries_def)
  then show "vfs_open [] \<lparr>mounts = [], vfs_root = 2\<rparr> [0x2F, 0x76] sample_files = Some (4, sample_files)"
    using vfs_open_single [of "[0x76]" "\<lparr>mounts = [], vfs_root = 2\<rparr>" sample_files "[]"] by simp
qed (simp add: vfs_open_def resolve_def)


theorem ls_lists_directory_witness:
  "\<exists>acts. cmd_ls [] \<lparr>mounts = [], vfs_root = 2\<rparr> (Some [0x2F]) sample_files = Some (acts, sample_files) \<and>
     said acts = c_string ''  v'' @ [0x0A]"
proof -
  have "tmpfs_entries sample_files 2 = [4]" "n_readdir (nodes sample_files 2) = Tmpfs_readdir"
    "n_flags (nodes sample_files 2) AND VFS_DIR \<noteq> 0" by (simp_all add: sample_files_def tmpfs_entries_def VFS_DIR_def)
  moreover have "ls_line sample_files 4 = c_string ''  v'' @ [0x0A]"
    by (simp add: ls_line_def sample_files_def VFS_FILE_def VFS_DIR_def c_string_def)
  ultimately show ?thesis using ls_lists_directory [OF sample_files_inv sample_files_open(2)] by simp
qed


end
