(* ===== verification/SetupFiles.thy ===== *)
theory SetupFiles
  imports TmpTree
begin

text \<open>
  The files that \<^verbatim>\<open>kernel/kmain.c\<close> makes at start-up, and those that the first-boot dialogue
  \<^verbatim>\<open>userspace/setup/setup.c\<close> asks for and makes.
\<close>

section \<open>Files at start-up\<close>

text \<open>\<open>junk\<close> is what fresh heap memory holds.\<close>

definition kmain_files :: "(nat \<Rightarrow> u8) \<Rightarrow> vfs \<times> fs \<Rightarrow> vfs \<times> fs" where
  "kmain_files junk = (\<lambda>(m, s).
     let m = vfs_init m;
         (root, s) = tmpfs_create (c_string ''root'') s;
         m = snd (vfs_mount (c_string ''/'') root m);
         (_, s) = tmpfs_mkdir root (c_string ''dev'') s;
         (_, s) = tmpfs_mkdir root (c_string ''tmp'') s;
         (_, s) = tmpfs_mkdir root (c_string ''etc'') s;
         (_, s) = tmpfs_mkdir root (c_string ''boot'') s;
         (_, s) = tmpfs_mkfile junk root (c_string ''version'') (Some (c_string ''Aerogel OS v0.1.0'' @ [0x0A])) 18 s
     in (m, s))"

section \<open>The files of the dialogue\<close>

definition setup_needed :: "name \<Rightarrow> vfs \<Rightarrow> fs \<Rightarrow> (bool \<times> fs) option" where
  "setup_needed stale m s =
     (case vfs_open stale m (c_string ''/etc/hostname'') s of
        None \<Rightarrow> None
      | Some (f, s) \<Rightarrow> if f \<noteq> 0 then Some (False, vfs_close f s) else Some (True, s))"

text \<open>
  The file part of \<^verbatim>\<open>setup_run\<close>.  The length 30 given for \<^verbatim>\<open>os-release\<close> counts the terminating zero of the literal.
\<close>

definition os_release :: "u8 list" where
  "os_release = c_string ''NAME=AerogelOS'' @ [0x0A] @ c_string ''VERSION=0.1.0'' @ [0x0A]"

definition setup_files :: "(nat \<Rightarrow> u8) \<Rightarrow> name \<Rightarrow> vfs \<Rightarrow> u8 list \<Rightarrow> fs \<Rightarrow> fs option" where
  "setup_files junk stale m hostname s =
     (case vfs_open stale m (c_string ''/'') s of
        None \<Rightarrow> None
      | Some (root_dir, s) \<Rightarrow>
          if root_dir = 0 then Some s
          else
            case vfs_finddir root_dir (c_string ''etc'') s of
              None \<Rightarrow> None
            | Some (etc, s) \<Rightarrow>
                let (etc, s) = (if etc = 0 then tmpfs_mkdir root_dir (c_string ''etc'') s else (etc, s));
                    (_, s) = tmpfs_mkdir root_dir (c_string ''home'') s;
                    (_, s) = tmpfs_mkdir root_dir (c_string ''proc'') s;
                    hn_len = (of_nat (length hostname) :: u32);
                    (_, s) = tmpfs_mkfile junk etc (c_string ''hostname'') (Some hostname) hn_len s;
                    (_, s) = tmpfs_mkfile junk etc (c_string ''os-release'') (Some (os_release @ [0])) 30 s
                in Some s)"


section \<open>The tree at start-up\<close>

definition is_dir :: "fs \<Rightarrow> nat \<Rightarrow> bool" where
  "is_dir s d \<longleftrightarrow> known s d \<and> n_finddir (nodes s d) = Tmpfs_finddir \<and> n_flags (nodes s d) = VFS_DIR"

text \<open>The root is a directory of the memory file system with a directory \<^verbatim>\<open>etc\<close>, which has its own entries.\<close>

definition boot_tree :: "vfs \<Rightarrow> nat \<Rightarrow> fs \<Rightarrow> bool" where
  "boot_tree m etc s \<longleftrightarrow> tmpfs_inv s \<and> is_dir s (vfs_root m) \<and> is_dir s etc \<and> tmpfs_finddir (vfs_root m) (c_string ''etc'') s = etc \<and>
     fs_data (nodes s etc) \<noteq> fs_data (nodes s (vfs_root m))"

lemma added_is_dir: "added s parent n s' \<Longrightarrow> is_dir s d \<Longrightarrow> is_dir s' d"
  by (auto simp: is_dir_def added_known added_keeps)

lemma added_boot_tree:
  assumes "added s parent n s'" "boot_tree m etc s"
  shows "boot_tree m etc s'"
proof -
  have k: "known s (vfs_root m)" "known s etc" using assms(2) by (simp_all add: boot_tree_def is_dir_def)
  then have "etc \<noteq> 0" by (simp add: known_def)
  with added_finddir [OF assms(1) k(1), of "c_string ''etc''"] assms(2)
  have "tmpfs_finddir (vfs_root m) (c_string ''etc'') s' = etc" by (simp add: boot_tree_def)
  with assms k show ?thesis
    by (simp add: boot_tree_def added_is_dir [OF assms(1)] added_keeps [OF assms(1)])
qed

lemma path_hostname: "c_string ''/etc/hostname'' = 0x2F # c_string ''etc'' @ 0x2F # c_string ''hostname''"
  by (simp add: c_string_def)

lemma boot_tree_open:
  assumes "boot_tree m etc s"
  shows "vfs_open stale m (c_string ''/etc/hostname'') s = Some (tmpfs_finddir etc (c_string ''hostname'') s, s)"
    "vfs_open stale m (c_string ''/'') s = Some (vfs_root m, s)" "vfs_root m \<noteq> 0" "etc \<noteq> 0"
    "vfs_finddir (vfs_root m) (c_string ''etc'') s = Some (etc, s)"
proof -
  show nz: "vfs_root m \<noteq> 0" "etc \<noteq> 0" using assms by (simp_all add: boot_tree_def is_dir_def known_def)
  show "vfs_open stale m (c_string ''/etc/hostname'') s = Some (tmpfs_finddir etc (c_string ''hostname'') s, s)"
    unfolding path_hostname using assms nz
    by (intro vfs_open_two) (simp_all add: boot_tree_def is_dir_def c_string_def)
  show "vfs_open stale m (c_string ''/'') s = Some (vfs_root m, s)"
    using nz by (simp add: vfs_open_def resolve_def c_string_def)
  have "n_flags (nodes s (vfs_root m)) AND VFS_DIR \<noteq> 0" using assms by (simp add: boot_tree_def is_dir_def VFS_DIR_def)
  with nz show "vfs_finddir (vfs_root m) (c_string ''etc'') s = Some (etc, s)"
    using assms by (simp add: boot_tree_def is_dir_def vfs_finddir_def call_finddir_def)
qed

section \<open>What set-up leaves\<close>

lemma setup_files_run:
  assumes "boot_tree m etc s" "tmpfs_finddir etc (c_string ''hostname'') s = 0" "length hostname \<le> 63"
  shows "\<exists>n s'. setup_files junk stale m hostname s = Some s' \<and> boot_tree m etc s' \<and> n \<noteq> 0 \<and>
    tmpfs_finddir etc (c_string ''hostname'') s' = n \<and> n_read (nodes s' n) = Tmpfs_read \<and> f_data (file_of s' n) = hostname"
proof -
  let ?r = "vfs_root m"
  have inv: "tmpfs_inv s" and known: "known s ?r" "known s etc" and sep: "fs_data (nodes s etc) \<noteq> fs_data (nodes s ?r)"
    using assms(1) by (simp_all add: boot_tree_def is_dir_def)
  obtain n1 s1 where 1: "tmpfs_mkdir ?r (c_string ''home'') s = (n1, s1)" by fastforce
  note A1 = mkdir_added(1) [OF inv known(1) 1]
  note K1 = added_known(1) [OF A1 known(1)] added_known(1) [OF A1 known(2)] and E1 = added_keeps [OF A1 known(1)] added_keeps(1) [OF A1 known(2)]
  obtain n2 s2 where 2: "tmpfs_mkdir ?r (c_string ''proc'') s1 = (n2, s2)" by fastforce
  note A2 = mkdir_added(1) [OF E1(4) K1(1) 2]
  note K2 = added_known(1) [OF A2 K1(1)] added_known(1) [OF A2 K1(2)] and E2 = added_keeps [OF A2 K1(1)] added_keeps(1) [OF A2 K1(2)]
  obtain n3 s3 where 3: "tmpfs_mkfile junk etc (c_string ''hostname'') (Some hostname) (of_nat (length hostname)) s2 = (n3, s3)" by fastforce
  have len: "length hostname = unat (of_nat (length hostname) :: u32)" using assms(3) by (simp add: unat_of_nat)
  note A3 = mkfile_added [OF E2(4) K2(2) len 3]
  note K3 = added_known(1) [OF A3(1) K2(2)] added_known(2) [OF A3(1)] and E3 = added_keeps [OF A3(1) K2(2)]
  obtain n4 s4 where 4: "tmpfs_mkfile junk etc (c_string ''os-release'') (Some (os_release @ [0])) 30 s3 = (n4, s4)" by fastforce
  have len4: "length (os_release @ [0]) = unat (30 :: u32)" by (simp add: os_release_def c_string_def)
  note A4 = mkfile_added [OF E3(4) K3(1) len4 4]
  have run: "setup_files junk stale m hostname s = Some s4"
    using boot_tree_open [OF assms(1)] 1 2 3 4 by (simp add: setup_files_def Let_def)
  have tree: "boot_tree m etc s4"
    using added_boot_tree [OF A4(1) added_boot_tree [OF A3(1) added_boot_tree [OF A2 added_boot_tree [OF A1 assms(1)]]]] .
  have "tmpfs_finddir etc (c_string ''hostname'') s1 = 0" using added_finddir [OF A1 known(2)] assms(2) sep by simp
  then have "tmpfs_finddir etc (c_string ''hostname'') s2 = 0" using added_finddir [OF A2 K1(2)] sep E1 by simp
  then have f3: "tmpfs_finddir etc (c_string ''hostname'') s3 = n3"
    using added_finddir [OF A3(1) K2(2)] A3(2) by (simp add: c_string_def)
  have nz: "n3 \<noteq> 0" using K3(2) by (simp add: known_def)
  have "tmpfs_finddir etc (c_string ''hostname'') s4 = n3" using added_finddir [OF A4(1) K3(1)] f3 nz by simp
  moreover have "n_read (nodes s4 n3) = Tmpfs_read" "f_data (file_of s4 n3) = hostname"
    using added_keeps(1,2) [OF A4(1) K3(2)] A3(3,5) by simp_all
  ultimately show ?thesis using run tree nz by blast
qed


text \<open>The file is then found under its path and has the name as its contents.\<close>

lemma setup_files_opens:
  assumes "boot_tree m etc s" "tmpfs_finddir etc (c_string ''hostname'') s = 0" "length hostname \<le> 63"
  shows "\<exists>n s'. setup_files junk stale m hostname s = Some s' \<and> setup_needed stale m s' = Some (False, s') \<and>
    vfs_open stale m (c_string ''/etc/hostname'') s' = Some (n, s') \<and> vfs_read n 0 63 s' = Some (hostname, s')"
proof -
  from setup_files_run [OF assms, of junk stale] obtain n s' where
    n: "setup_files junk stale m hostname s = Some s'" "boot_tree m etc s'" "n \<noteq> 0" "tmpfs_finddir etc (c_string ''hostname'') s' = n"
      "n_read (nodes s' n) = Tmpfs_read" "f_data (file_of s' n) = hostname" by blast
  have "tmpfs_inv s'" using n(2) by (simp add: boot_tree_def)
  then have "vfs_read n 0 63 s' = Some (hostname, s')"
    using n(3,5,6) tmpfs_read_data [of s' n 0 63] assms(3) by (simp add: vfs_read_def)
  moreover have "setup_needed stale m s' = Some (False, s')" "vfs_open stale m (c_string ''/etc/hostname'') s' = Some (n, s')"
    using n(2-4) by (simp_all add: setup_needed_def boot_tree_open vfs_close_def)
  ultimately show ?thesis using n(1) by blast
qed

lemma boot_tree_needed:
  assumes "boot_tree m etc s" "tmpfs_finddir etc (c_string ''hostname'') s = 0"
  shows "setup_needed stale m s = Some (True, s)"
  using assms by (simp add: setup_needed_def boot_tree_open)

text \<open>The directories of \<^verbatim>\<open>kmain\<close>: the root is new and empty, and every call adds one entry to it.\<close>

lemma kmain_files_tree:
  assumes "tmpfs_inv s0" "kmain_files junk (m0, s0) = (m, s)"
  shows "\<exists>etc. boot_tree m etc s \<and> tmpfs_finddir etc (c_string ''hostname'') s = 0"
proof -
  define r t where "r = fst (tmpfs_create (c_string ''root'') s0)" and "t = snd (tmpfs_create (c_string ''root'') s0)"
  note C = tmpfs_create_spec [OF assms(1), of "c_string ''root''", folded r_def t_def]
  have K0: "known t r" using assms(1) by (simp add: known_def C tmpfs_inv_def)
  have D0: "is_dir t r" using K0 by (simp add: is_dir_def C)
  have e0: "tmpfs_entries t r = []" by (simp add: tmpfs_entries_def C)
  then have F0: "tmpfs_finddir r x t = 0" for x by (simp add: tmpfs_finddir_def)
  obtain n1 s1 where 1: "tmpfs_mkdir r (c_string ''dev'') t = (n1, s1)" by fastforce
  note A1 = mkdir_added [OF C(6) K0 1] and K1 = added_known(1) [OF mkdir_added(1) [OF C(6) K0 1] K0]
  obtain n2 s2 where 2: "tmpfs_mkdir r (c_string ''tmp'') s1 = (n2, s2)" by fastforce
  note A2 = mkdir_added [OF added_keeps(4) [OF A1(1) K0] K1 2] and K2 = added_known(1) [OF mkdir_added(1) [OF added_keeps(4) [OF A1(1) K0] K1 2] K1]
  obtain n3 s3 where 3: "tmpfs_mkdir r (c_string ''etc'') s2 = (n3, s3)" by fastforce
  note A3 = mkdir_added [OF added_keeps(4) [OF A2(1) K1] K2 3]
  note K3 = added_known(1) [OF A3(1) K2] added_known(2) [OF A3(1)]
  obtain n4 s4 where 4: "tmpfs_mkdir r (c_string ''boot'') s3 = (n4, s4)" by fastforce
  note A4 = mkdir_added [OF added_keeps(4) [OF A3(1) K2] K3(1) 4]
  note K4 = added_known(1) [OF A4(1) K3(1)] added_known(1) [OF A4(1) K3(2)]
  obtain n5 s5 where 5: "tmpfs_mkfile junk r (c_string ''version'') (Some (c_string ''Aerogel OS v0.1.0'' @ [0x0A])) 18 s4 = (n5, s5)" by fastforce
  have len: "length (c_string ''Aerogel OS v0.1.0'' @ [0x0A]) = unat (18 :: u32)" by (simp add: c_string_def)
  note A5 = mkfile_added [OF added_keeps(4) [OF A4(1) K3(1)] K4(1) len 5]
  have r: "m = snd (vfs_mount (c_string ''/'') r (vfs_init m0))" "s = s5"
    using assms(2) 1 2 3 4 5 by (simp_all add: kmain_files_def Let_def r_def t_def split: prod.splits)
  have root: "vfs_root m = r" by (simp add: r vfs_mount_def vfs_init_def c_string_def MAX_MOUNTS_def Let_def)
  have "tmpfs_finddir r (c_string ''etc'') s1 = 0" using added_finddir [OF A1(1) K0] F0 A1(2) by (simp add: c_string_def)
  then have "tmpfs_finddir r (c_string ''etc'') s2 = 0" using added_finddir [OF A2(1) K1] A2(2) by (simp add: c_string_def)
  then have "tmpfs_finddir r (c_string ''etc'') s3 = n3" using added_finddir [OF A3(1) K2] A3(2) by (simp add: c_string_def)
  moreover have "is_dir s3 r" using added_is_dir [OF A3(1) added_is_dir [OF A2(1) added_is_dir [OF A1(1) D0]]] .
  moreover have "is_dir s3 n3" using A3(3,4) K3(2) by (simp add: is_dir_def)
  ultimately have T3: "boot_tree m n3 s3"
    using added_keeps(4) [OF A3(1) K2] added_new_data(1) [OF A3(1) K2] by (simp add: boot_tree_def root)
  have T: "boot_tree m n3 s" unfolding r(2) using added_boot_tree [OF A5(1) added_boot_tree [OF A4(1) T3]] .
  have sep: "fs_data (nodes s3 n3) \<noteq> fs_data (nodes s3 r)" "fs_data (nodes s4 n3) \<noteq> fs_data (nodes s4 r)"
    using T3 added_boot_tree [OF A4(1) T3] by (simp_all add: boot_tree_def root)
  have "tmpfs_finddir n3 (c_string ''hostname'') s3 = 0" using A3(5) by (simp add: tmpfs_finddir_def)
  then have "tmpfs_finddir n3 (c_string ''hostname'') s4 = 0" using added_finddir [OF A4(1) K3(2)] sep(1) by simp
  then have "tmpfs_finddir n3 (c_string ''hostname'') s = 0" unfolding r(2) using added_finddir [OF A5(1) K4(2)] sep(2) by simp
  with T show ?thesis by blast
qed

section \<open>Properties\<close>

text \<open>
  Set-up at start-up: after the files \<^verbatim>\<open>kmain\<close> makes, set-up is needed; after the files set-up makes it is not,
  and \<^verbatim>\<open>/etc/hostname\<close> opens and reads back as the host name.  As the memory file system is made anew at
  every start, set-up is needed at every start.
\<close>

theorem setup_creates_hostname:
  assumes "tmpfs_inv s0" "kmain_files junk (m0, s0) = (m, s)" "length hostname \<le> 63"
  shows "setup_needed stale m s = Some (True, s) \<and>
    (\<exists>n s'. setup_files junk stale m hostname s = Some s' \<and> setup_needed stale m s' = Some (False, s') \<and>
      vfs_open stale m (c_string ''/etc/hostname'') s' = Some (n, s') \<and> vfs_read n 0 63 s' = Some (hostname, s'))"
proof -
  from kmain_files_tree [OF assms(1,2)] obtain etc where T: "boot_tree m etc s" "tmpfs_finddir etc (c_string ''hostname'') s = 0" by blast
  from boot_tree_needed [OF this] setup_files_opens [OF this assms(3)] show ?thesis by blast
qed

theorem setup_creates_hostname_witness:
  "\<exists>m s n s'. kmain_files (\<lambda>_. 0) (\<lparr>mounts = [], vfs_root = 0\<rparr>, empty_fs) = (m, s) \<and>
     setup_files (\<lambda>_. 0) [] m (c_string ''box'') s = Some s' \<and>
     vfs_open [] m (c_string ''/etc/hostname'') s' = Some (n, s') \<and> vfs_read n 0 63 s' = Some (c_string ''box'', s')"
proof -
  obtain m s where k: "kmain_files (\<lambda>_. 0) (\<lparr>mounts = [], vfs_root = 0\<rparr>, empty_fs) = (m, s)" by fastforce
  have "length (c_string ''box'') \<le> 63" by (simp add: c_string_def)
  from setup_creates_hostname [OF empty_fs_inv k this, of "[]"] k show ?thesis by blast
qed


end
