(* ===== verification/Setup.thy ===== *)
theory Setup
  imports Commands SetupFiles
begin

text \<open>
  The first-boot dialogue \<^verbatim>\<open>userspace/setup/setup.c\<close>: what it prints, the lines it reads and the files it makes.
\<close>

section \<open>The dialogue\<close>

definition VGA_LIGHT_CYAN :: u32 where "VGA_LIGHT_CYAN = 11"
definition VGA_YELLOW :: u32 where "VGA_YELLOW = 14"

definition LOGO :: "string list" where
  "LOGO = ['' ___  ___  ___  ___  ___  ___  _    '',
           ''| . || __||  _|| . || __|| __|| |   '',
           ''|   || _| | |_ | | || _| | _| | |__'',
           ''|_|_||___||___||___||___||___||____|'',
           ''          Aerogel  OS  v0.1.0       '']"

definition setup_welcome :: "action list" where
  "setup_welcome =
     [Clear_screen, Set_color VGA_LIGHT_CYAN VGA_BLACK] @
     map (\<lambda>l. say_line ''%s'' [Str_arg (c_string l)]) LOGO @
     [Set_color VGA_WHITE VGA_BLACK,
      Say ([0x0A] @ c_string ''          Welcome to Aerogel OS '' @ [0xE2, 0x80, 0x94] @ c_string '' First Boot Setup'' @ [0x0A]) [],
      Set_color VGA_LIGHT_GRAY VGA_BLACK,
      Say (c_string ''--------------------------------------------------------'' @ [0x0A, 0x0A]) [],
      Set_color VGA_YELLOW VGA_BLACK, say ''Hostname: '' [], Set_color VGA_WHITE VGA_BLACK]"

definition setup_before :: "action list" where
  "setup_before = [Set_color VGA_LIGHT_GRAY VGA_BLACK, Say ([0x0A] @ c_string ''Setting up filesystem...'' @ [0x0A]) []]"

definition setup_after :: "u8 list \<Rightarrow> action list" where
  "setup_after hostname =
     [Set_color VGA_LIGHT_GREEN VGA_BLACK, Say ([0x0A] @ c_string ''Setup complete. Hostname: %s'' @ [0x0A]) [Str_arg hostname],
      Set_color VGA_LIGHT_GRAY VGA_BLACK, say_line ''Press Enter to continue...'' []]"

text \<open>The string that \<^verbatim>\<open>strncpy\<close> leaves in the 64 zero bytes of \<^verbatim>\<open>hostname\<close>.\<close>

definition choose_hostname :: "line \<Rightarrow> u8 list" where
  "choose_hostname l = (if l_len l > 0 then take 63 (takeWhile (\<lambda>c. c \<noteq> 0) (l_buf l)) else c_string ''aerogel'')"

definition setup_readln ::
  "'d bus \<Rightarrow> (vga \<times> keyboard \<Rightarrow> 'd \<Rightarrow> (vga \<times> keyboard) \<times> 'd) \<Rightarrow> shell_state \<Rightarrow> ('d, line \<times> shell_state) io" where
  "setup_readln b hlt s =
     andthen (readln b hlt (t_vga (s_term s), s_keys s)) (\<lambda>(l, v, k). ret (l, s\<lparr>s_term := (s_term s)\<lparr>t_vga := v\<rparr>, s_keys := k\<rparr>))"

definition setup_print ::
  "'d bus \<Rightarrow> 'd dma \<Rightarrow> packet_fn \<Rightarrow> nat \<Rightarrow> action list \<Rightarrow> shell_state \<Rightarrow> ('d, shell_state) io" where
  "setup_print b mm process buf acts s =
     andthen (perform_all b mm process buf acts (s_term s, s_dev s)) (\<lambda>(t, n). ret (s\<lparr>s_term := t, s_dev := n\<rparr>))"

definition setup_run ::
  "'d bus \<Rightarrow> 'd dma \<Rightarrow> packet_fn \<Rightarrow> nat \<Rightarrow> (vga \<times> keyboard \<Rightarrow> 'd \<Rightarrow> (vga \<times> keyboard) \<times> 'd) \<Rightarrow> (nat \<Rightarrow> u8) \<Rightarrow> name \<Rightarrow> vfs \<Rightarrow>
   shell_state \<Rightarrow> ('d, shell_state) io" where
  "setup_run b mm process buf hlt junk stale m s =
     andthen (setup_print b mm process buf setup_welcome s) (\<lambda>s.
     andthen (setup_readln b hlt s) (\<lambda>(l, s).
     let hostname = choose_hostname l
     in andthen (setup_print b mm process buf setup_before s) (\<lambda>s.
        case setup_files junk stale m hostname (s_fs s) of
          None \<Rightarrow> (\<lambda>_. None)
        | Some f \<Rightarrow>
            andthen (setup_print b mm process buf (setup_after hostname) (s\<lparr>s_fs := f\<rparr>)) (\<lambda>s.
            andthen (setup_readln b hlt s) (\<lambda>(_, s). setup_print b mm process buf [Clear_screen] s)))))"

section \<open>The dialogue returns\<close>

text \<open>Calls that print text which fits the buffer, or change the screen.\<close>

fun printable :: "action \<Rightarrow> bool" where
  "printable (Say fmt ap) = (case format_text fmt ap of None \<Rightarrow> False | Some s \<Rightarrow> length s < 1024 \<and> 0 \<notin> set s)"
| "printable (Set_color fg bg) = True"
| "printable Clear_screen = True"
| "printable (Out_byte p v) = False"
| "printable Poll_net = False"
| "printable Halt = False"

context still_bus
begin

lemma safe_setup_print:
  assumes "uart_laws b busy sent" "list_all printable acts"
  shows "safe Q (setup_print b mm process buf acts s)"
proof -
  have "safe Q (perform b mm process buf a x)" if "printable a" for a x
    using that by (cases a) (auto intro!: safe_kprintf [OF assms(1)] split: option.splits)
  note act = this
  have "safe Q (io_fold (perform b mm process buf) acts x)" for x
    using assms(2)
  proof (induction acts arbitrary: x)
    case (Cons a acts)
    then have "printable a" "safe Q (io_fold (perform b mm process buf) acts y)" for y by simp_all
    then show ?case by (simp add: safe_andthen act)
  qed simp
  then show ?thesis unfolding setup_print_def perform_all_def by (intro safe_andthen) (simp_all split: prod.split)
qed

end

lemma setup_print_keeps:
  assumes "setup_print b mm process buf acts s d = Some (s', d')" "list_all printable acts"
  shows "s_keys s' = s_keys s \<and> s_fs s' = s_fs s \<and> s_dev s' = s_dev s"
proof -
  have act: "snd x' = snd x" if "printable a" "perform b mm process buf a x d = Some (x', d')" for a x d x' d'
    using that by (cases a) (auto simp: andthen_eq_Some split: prod.splits)
  have "snd x' = snd x" if "io_fold (perform b mm process buf) acts x d = Some (x', d')" for x d x' d'
    using that assms(2)
  proof (induction acts arbitrary: x d)
    case (Cons a acts)
    then show ?case by (fastforce simp: andthen_eq_Some dest: act)
  qed simp
  with assms(1) show ?thesis by (fastforce simp: setup_print_def perform_all_def andthen_eq_Some)
qed

lemma typed_line: "0 \<notin> set s \<Longrightarrow> length s \<le> cap \<Longrightarrow> 0 \<notin> set (typed cap es s) \<and> length (typed cap es s) \<le> cap"
proof (induction es arbitrary: s)
  case (Cons e es)
  have "0 \<notin> set (type_char cap c s) \<and> length (type_char cap c s) \<le> cap" for c
    using Cons.prems by (auto simp: type_char_def dest: in_set_butlastD)
  with Cons show ?case by (simp add: typed_def)
qed (simp add: typed_def)

lemma setup_printable:
  "list_all printable setup_welcome" "list_all printable setup_before" "0 \<notin> set h \<Longrightarrow> length h \<le> 63 \<Longrightarrow> list_all printable (setup_after h)"
  by (simp_all add: setup_welcome_def setup_before_def setup_after_def LOGO_def say_def say_line_def c_string_def)

text \<open>
  The dialogue with its user: when two lines are typed, it returns, and the first of them, or a default when it is empty, is the
  contents of \<^verbatim>\<open>/etc/hostname\<close>.
\<close>

definition host_name :: "u8 list \<Rightarrow> u8 list" where
  "host_name h = (if h = [] then c_string ''aerogel'' else h)"

lemma host_name_ok: "0 \<notin> set h \<Longrightarrow> length h \<le> 63 \<Longrightarrow> 0 \<notin> set (host_name h) \<and> length (host_name h) \<le> 63"
  by (simp add: host_name_def c_string_def)

lemma quiet_ports_keep: "(\<And>x. still_bus b (\<lambda>d. script d = x)) \<Longrightarrow> ports_keep b script"
  using still_bus.quiet_out8 [of b] still_bus.quiet_in8 [of b] by (fastforce simp: ports_keep_def)

lemma setup_readln_reads:
  assumes "idle_laws hlt script lull" "ports_keep b script"
    and "kq (s_keys s) q" "q @ script d = es @ e # rest" "\<forall>x \<in> set es. \<not> line_end x" "line_end e"
  shows "\<exists>l s' d' q'. setup_readln b hlt s d = Some ((l, s'), d') \<and> kq (s_keys s') q' \<and> q' @ script d' = rest \<and>
    s_fs s' = s_fs s \<and> s_dev s' = s_dev s \<and> choose_hostname l = host_name (typed 63 es [])"
proof -
  from readln_reads [OF assms, of "t_vga (s_term s)"] obtain l v k d' q' where
    r: "readln b hlt (t_vga (s_term s), s_keys s) d = Some ((l, v, k), d')" "kq k q'" "q' @ script d' = rest"
    "l_len l = length (typed 63 es [])" "takeWhile (\<lambda>c. c \<noteq> 0) (l_buf l) = typed 63 es []" by blast
  have "length (typed 63 es []) \<le> 63" using typed_line [of "[]" 63 es] by simp
  with r(4,5) have "choose_hostname l = host_name (typed 63 es [])" by (simp add: choose_hostname_def host_name_def)
  with r show ?thesis by (auto simp: setup_readln_def)
qed

lemma setup_run_spec:
  assumes "\<And>x. still_bus b (\<lambda>d. script d = x)" "uart_laws b busy sent" "idle_laws hlt script lull"
    and "kq (s_keys s) q" "q @ script d = es @ e # es' @ e' # rest" "\<forall>x \<in> set es. \<not> line_end x" "line_end e"
      "\<forall>x \<in> set es'. \<not> line_end x" "line_end e'"
    and "boot_tree m etc (s_fs s)" "tmpfs_finddir etc (c_string ''hostname'') (s_fs s) = 0"
  shows "\<exists>s' d' f. setup_run b mm process buf hlt junk stale m s d = Some (s', d') \<and>
    setup_files junk stale m (host_name (typed 63 es [])) (s_fs s) = Some f \<and> s_fs s' = f \<and> s_dev s' = s_dev s"
proof -
  note keep = quiet_ports_keep [OF assms(1)]
  have print: "\<exists>s' d'. setup_print b mm process buf acts s d = Some (s', d') \<and> script d' = script d \<and>
      s_keys s' = s_keys s \<and> s_fs s' = s_fs s \<and> s_dev s' = s_dev s" if "list_all printable acts" for acts s d
    using safeD [OF still_bus.safe_setup_print [OF assms(1,2) that], of d "script d"] setup_print_keeps [OF _ that] by (metis (no_types, lifting))
  let ?h = "host_name (typed 63 es [])"
  have h: "0 \<notin> set ?h" "length ?h \<le> 63" using host_name_ok typed_line [of "[]" 63 es] by simp_all
  from print [OF setup_printable(1), of s d] obtain s1 d1 where
    1: "setup_print b mm process buf setup_welcome s d = Some (s1, d1)" "script d1 = script d" "s_keys s1 = s_keys s" "s_fs s1 = s_fs s" "s_dev s1 = s_dev s" by blast
  obtain l s2 d2 q2 where
    2: "setup_readln b hlt s1 d1 = Some ((l, s2), d2)" "kq (s_keys s2) q2" "q2 @ script d2 = es' @ e' # rest" "s_fs s2 = s_fs s1" "s_dev s2 = s_dev s1" "choose_hostname l = ?h"
    using setup_readln_reads [OF assms(3) keep, of s1 q d1 es e "es' @ e' # rest"] assms(4-7) 1(2,3) by auto
  from print [OF setup_printable(2), of s2 d2] obtain s3 d3 where
    3: "setup_print b mm process buf setup_before s2 d2 = Some (s3, d3)" "script d3 = script d2" "s_keys s3 = s_keys s2" "s_fs s3 = s_fs s2" "s_dev s3 = s_dev s2" by blast
  from setup_files_run [OF assms(10,11) h(2), of junk stale] obtain f where f: "setup_files junk stale m ?h (s_fs s) = Some f" by blast
  from print [OF setup_printable(3) [OF h], of "s3\<lparr>s_fs := f\<rparr>" d3] obtain s4 d4 where
    4: "setup_print b mm process buf (setup_after ?h) (s3\<lparr>s_fs := f\<rparr>) d3 = Some (s4, d4)" "script d4 = script d3" "s_keys s4 = s_keys s3" "s_fs s4 = f" "s_dev s4 = s_dev s3" by auto
  obtain l5 s5 d5 where 5: "setup_readln b hlt s4 d4 = Some ((l5, s5), d5)" "s_fs s5 = s_fs s4" "s_dev s5 = s_dev s4"
    using setup_readln_reads [OF assms(3) keep, of s4 q2 d4 es' e' rest] assms(8,9) 2(2,3) 3(2,3) 4(2,3) by auto
  from print [of "[Clear_screen]" s5 d5] obtain s6 d6 where
    6: "setup_print b mm process buf [Clear_screen] s5 d5 = Some (s6, d6)" "s_fs s6 = s_fs s5" "s_dev s6 = s_dev s5" by auto
  have fs: "s_fs s3 = s_fs s" using 1 2 3 by simp
  have "setup_run b mm process buf hlt junk stale m s d = Some (s6, d6)"
    by (simp add: setup_run_def 1 2 3 fs f Let_def) (simp add: 4 5 6)
  with f 1 2 3 4 5 6 show ?thesis by auto
qed

end
