(* ===== verification/Kmain.thy ===== *)
theory Kmain
  imports Setup Ata Fat32
begin

text \<open>
  The order in which \<^verbatim>\<open>kernel/kmain.c\<close> brings the components up, as far as other theories do not have it: the
  console, the disk, the display, and the threads, followed by the idle loop.
\<close>

section \<open>Start-up\<close>

definition kmain_console :: "'d bus \<Rightarrow> terminal \<Rightarrow> ('d, terminal) io" where
  "kmain_console b t =
     andthen (serial_init b) (\<lambda>_.
     andthen (vga_init b (t_vga t)) (\<lambda>v. ret (kprintf_set_backend Kprint_vga (t\<lparr>t_vga := v\<rparr>))))"

text \<open>\<open>read_fn\<close> is what the callback \<^verbatim>\<open>ata_read_cb\<close> does with a sector number and the buffer.\<close>

definition kmain_disk :: "'d bus \<Rightarrow> (u32 \<Rightarrow> u8 list \<Rightarrow> u8 list) \<Rightarrow> ata \<times> vfs \<times> fs \<Rightarrow> ('d, ata \<times> vfs \<times> fs) io" where
  "kmain_disk b read_fn = (\<lambda>(a, m, s).
     andthen (ata_init b a) (\<lambda>(n, a).
       if n > 0 then
         (let (node, s) = fat32_mount 2048 read_fn s
          in if node \<noteq> 0 then ret (a, snd (vfs_mount (c_string ''/data'') node m), s) else ret (a, m, s))
       else ret (a, m, s)))"

definition kmain_display :: "'d bus \<Rightarrow> nat \<Rightarrow> terminal \<Rightarrow> ('d, terminal) io" where
  "kmain_display b buf t =
     (let (active, fb) = fb_init (t_mem t) (t_fb t);
          t = t\<lparr>t_fb := fb, use_fb := active\<rparr>
      in if active then
           let (g, m) = gui_init fb (t_gui t, t_mem t);
               (win, g, m) = gui_create_window fb (c_string ''Terminal'') 20 30
                 (uint (fb_width fb) - 40) (uint (fb_height fb) - 80) (g, m);
               t = kprintf_set_backend Kprint_fb (t\<lparr>t_gui := g, t_mem := m, term_win := win\<rparr>)
           in kprintf b buf (c_string ''Aerogel OS v0.1.0'' @ [0x0A]) [] t
         else ret t)"

text \<open>
  The threads: \<open>idle\<close> and \<open>idle_stack\<close> are static objects, \<open>t\<close> and \<open>stack\<close> what \<^verbatim>\<open>kmalloc\<close> returns for the shell
  thread.  Control is then in the shell thread.
\<close>

definition kmain_threads :: "arch \<Rightarrow> nat \<Rightarrow> tptr \<Rightarrow> nat \<Rightarrow> tptr \<Rightarrow> nat \<Rightarrow> nat \<Rightarrow> sched \<Rightarrow> sched outcome" where
  "kmain_threads a trampoline idle idle_stack t stack shell_fn s =
     (let s = sched_init idle idle_stack s
      in case thread_create a trampoline t stack ''shell'' shell_fn 0 s of
           Panic e \<Rightarrow> Panic e
         | Done (shell, s) \<Rightarrow> Done (sched_yield (sched_add shell s)))"

text \<open>
  The endless loop at the end of \<^verbatim>\<open>kmain\<close>, from the view of the scheduler: \<^verbatim>\<open>net_poll\<close> leaves it alone, \<^verbatim>\<open>sti\<close> lets
  interrupts in, and the timer interrupt moves the clock and may run \<^verbatim>\<open>sched_tick\<close>.
\<close>

inductive idle_step :: "sched \<Rightarrow> sched \<Rightarrow> bool" where
  poll: "idle_step s s"
| sti: "idle_step s (s\<lparr>ints := True\<rparr>)"
| clock: "ints s \<Longrightarrow> idle_step s (s\<lparr>ticks := ticks s + 1\<rparr>)"
| tick: "ints s \<Longrightarrow> sched_tick s = Some s' \<Longrightarrow> idle_step s s'"

section \<open>The first switch\<close>

lemma sched_init_inv:
  assumes "idle \<noteq> 0"
  shows "sched_inv (sched_init idle idle_stack s) []" "current_thread (sched_init idle idle_stack s) = idle"
  using assms by (simp_all add: sched_init_def thread_init_idle_def sched_inv_def rq_def)

lemma stack_mem_frame [frame_simps]:
  "stack_mem (enqueue t s) = stack_mem s" "stack_mem (upd t f s) = stack_mem s"
  by (simp_all add: enqueue_def upd_def Let_def)

lemma stack_mem_yield: "stack_mem (sched_yield s) = stack_mem s"
  by (simp add: sched_yield_def dequeue_next_def unlink_def thread_set_current_def switch_context_def Let_def frame_simps)

text \<open>The state in which the shell thread starts, and what its first yield does.\<close>

lemma kmain_threads_exec:
  assumes "idle \<noteq> 0" "t \<noteq> 0" "t \<noteq> idle" "stack \<noteq> 0"
  obtains s' where "kmain_threads a trampoline idle idle_stack t stack shell_fn s = Done s'"
    "sched_inv s' [idle]" "current_thread s' = t" "\<not> ints s'"
    "thread_entry a (stack_mem s') (sp s') = (replicate (saved_regs a) 0, trampoline, shell_fn, 0, stack + THREAD_STACK_SIZE)"
proof -
  let ?s0 = "sched_init idle idle_stack s"
  note i = sched_init_inv [OF assms(1), of idle_stack s]
  obtain s1 where e: "thread_create a trampoline t stack ''shell'' shell_fn 0 ?s0 = Done (t, s1)"
    using assms(4) by (simp add: thread_create_def Let_def split_beta)
  have s1: "current_thread s1 = idle" "run_queue_head s1 = 0" "t_fresh (tcbs s1 t)"
    using e i assms(4) by (auto simp: thread_create_def Let_def split_beta sched_inv_def rq_def)
  note s1 = e s1
  note c = thread_create_entry [OF s1(1)]
  have r1: "rq s1 []" using s1(3) by (simp add: rq_def)
  then have r2: "rq (sched_add t s1) [t]" using enqueue_rq [OF r1 assms(2)] by (simp add: sched_add_def)
  have cur: "current_thread (sched_add t s1) = idle" using s1(2) by (simp add: sched_add_def frame_simps)
  have run: "state_of (sched_add t s1) idle = THREAD_RUNNING"
    using c i assms(3) by (simp add: sched_add_def frame_simps sched_inv_def)
  note y = yield_step [OF r2, unfolded cur, OF assms(1)]
  let ?s' = "sched_yield (sched_add t s1)"
  have "sched_inv ?s' [idle]"
    using y(1,2) y(3) [of t] y(3) [of idle] run assms(2,3) by (simp add: sched_inv_def)
  moreover have "thread_entry a (stack_mem ?s') (sp ?s') = (replicate (saved_regs a) 0, trampoline, shell_fn, 0, stack + THREAD_STACK_SIZE)"
    using c y(5) assms(3) by (simp add: stack_mem_yield sched_add_def frame_simps)
  moreover have "\<not> ints ?s'" using y(8) s1(4) assms(3) by (simp add: sched_add_def frame_simps)
  ultimately show thesis using that [of ?s'] y(2) s1(1) assms(3) by (simp add: kmain_threads_def Let_def)
qed

section \<open>The idle loop\<close>

text \<open>Thread \<open>c\<close> runs and the threads \<open>q\<close> are ready in the run queue.\<close>

definition idling :: "tptr \<Rightarrow> tptr list \<Rightarrow> sched \<Rightarrow> bool" where
  "idling c q s \<longleftrightarrow> c \<noteq> 0 \<and> current_thread s = c \<and> rq s q \<and> (\<forall>t\<in>set q. state_of s t = THREAD_READY)"

interpretation idling: invariant_of idle_step "idling c q" for c q
proof
  fix s s' assume step: "idle_step s s'" and i: "idling c q s"
  from step show "idling c q s'"
  proof cases
    case tick
    with sched_tick_exec [of s q] i show ?thesis by (auto simp: idling_def frame_simps)
  qed (use i in \<open>simp_all add: idling_def frame_simps\<close>)
qed

section \<open>Properties\<close>

text \<open>
  The volume on the disk is mounted at \<^verbatim>\<open>/data\<close> but paths are resolved without the mount table, so every path opens what it
  opened before the disk was mounted.
\<close>

theorem kmain_disk_unreachable:
  assumes "kmain_disk b read_fn (a, m, s) d = Some ((a', m', s'), d')" "length (mounts m) < MAX_MOUNTS"
  shows "vfs_open stale m' p f = vfs_open stale m p f"
proof -
  have ne: "c_string ''/data'' \<noteq> [0x2F]" by (simp add: c_string_def)
  have "m' = m \<or> (\<exists>n. m' = snd (vfs_mount (c_string ''/data'') n m))"
    using assms(1) by (auto simp: kmain_disk_def andthen_def ret_def Let_def split: option.splits if_splits prod.splits)
  with vfs_mount_unreachable [OF ne assms(2)] show ?thesis by auto
qed

text \<open>
  \<^verbatim>\<open>kmain\<close> hands the processor to the shell: after its \<^verbatim>\<open>sched_yield\<close> the shell thread is the running one, the idle
  thread waits in the run queue, and the stack pointer is at a frame that makes the switch enter \<^verbatim>\<open>shell_run\<close>
  with a null argument, with all saved registers 0.  Interrupts are still off at that moment.
\<close>

theorem kmain_starts_shell:
  assumes "idle \<noteq> 0" "t \<noteq> 0" "t \<noteq> idle" "stack \<noteq> 0"
  shows "\<exists>s'. kmain_threads a trampoline idle idle_stack t stack shell_fn s = Done s' \<and> sched_inv s' [idle] \<and>
    current_thread s' = t \<and> \<not> ints s' \<and>
    thread_entry a (stack_mem s') (sp s') = (replicate (saved_regs a) 0, trampoline, shell_fn, 0, stack + THREAD_STACK_SIZE)"
  by (rule kmain_threads_exec [OF assms, of a trampoline idle_stack shell_fn s]) blast

theorem kmain_starts_shell_witness:
  "\<exists>s'. kmain_threads X86_64 500 4 0x1000 2 0x8000 600 boot_sched = Done s' \<and> sched_inv s' [4] \<and> current_thread s' = 2 \<and> \<not> ints s' \<and>
     thread_entry X86_64 (stack_mem s') (sp s') = ([0, 0, 0, 0, 0, 0], 500, 600, 0, 0xC000)"
  using kmain_starts_shell [of 4 2 "0x8000" X86_64 500 "0x1000" 600 boot_sched]
  by (simp add: THREAD_STACK_SIZE_def saved_regs_words del: saved_regs.simps)

text \<open>
  C5: the shell runs once.  The first time it finds no key and yields, the idle thread resumes in the loop of
  \<^verbatim>\<open>kmain\<close>, which polls the network and halts but never yields; nothing the timer does switches threads.  From then on the
  idle thread is always the running one and the shell stays ready in the run queue for ever.
\<close>

theorem shell_starves:
  assumes "idle \<noteq> 0" "t \<noteq> 0" "t \<noteq> idle" "kmain_threads a trampoline idle idle_stack t stack shell_fn s = Done s1"
    and "idle_step\<^sup>*\<^sup>* (sched_yield s1) s2"
  shows "current_thread s2 = idle \<and> rq s2 [t] \<and> state_of s2 t = THREAD_READY"
proof -
  have "stack \<noteq> 0" using assms(4) by (cases "stack = 0") (simp_all add: kmain_threads_def thread_create_def)
  from kmain_threads_exec [OF assms(1-3) this, of a trampoline idle_stack shell_fn s] assms(4)
  have s1: "sched_inv s1 [idle]" "current_thread s1 = t" by auto
  from yield_inv [OF s1(1)] obtain q where q: "sched_inv (sched_yield s1) q"
    "current_thread (sched_yield s1) # q = rotate1 (current_thread s1 # [idle])" .
  then have "idling idle [t] (sched_yield s1)" using s1(2) by (simp add: idling_def sched_inv_def)
  from idling.reach [OF assms(5) this] show ?thesis by (simp add: idling_def)
qed

theorem shell_starves_witness:
  "\<exists>s1 s2. kmain_threads X86 500 4 0x1000 2 0x8000 600 boot_sched = Done s1 \<and> sched_tick ((sched_yield s1)\<lparr>ints := True\<rparr>) = Some s2 \<and>
     current_thread s2 = 4 \<and> state_of s2 2 = THREAD_READY"
proof -
  obtain s1 where s1: "kmain_threads X86 500 4 0x1000 2 0x8000 600 boot_sched = Done s1" "sched_inv s1 [4]" "current_thread s1 = 2"
    by (rule kmain_threads_exec [of 4 2 "0x8000" X86 500 "0x1000" 600 boot_sched]) auto
  let ?s = "(sched_yield s1)\<lparr>ints := True\<rparr>"
  have "rq ?s [2]" "current_thread ?s = 4"
    using yield_step(1,2) [of s1 4 "[]"] s1(2,3) by (auto simp: sched_inv_def frame_simps)
  with sched_tick_exec [of ?s] obtain s2 where s2: "sched_tick ?s = Some s2" by fastforce
  have "idle_step\<^sup>*\<^sup>* (sched_yield s1) s2"
    using idle_step.sti [of "sched_yield s1"] idle_step.tick [OF _ s2] by (simp add: converse_rtranclp_into_rtranclp r_into_rtranclp)
  with s1(1) s2 shell_starves [OF _ _ _ s1(1)] show ?thesis by auto
qed

end
