(* ===== verification/Interrupt.thy ===== *)
theory Interrupt
  imports Cpu Klog
begin

text \<open>
  The path of an interrupt on both targets: what the processor and the stubs of \<^verbatim>\<open>arch/*/cpu/isr.asm\<close> push, the
  structure \<^verbatim>\<open>isr_frame_t\<close> of \<^verbatim>\<open>arch/*/cpu/isr.h\<close> through which \<^verbatim>\<open>isr_dispatch\<close> reads it, the message of an exception
  that nobody handles, and the way back to the interrupted code.  The stack is the list of its words from the stack pointer
  upwards.  The second part has the copies that \<^verbatim>\<open>arch/x86_64/cpu\<close> keeps of the segment and interrupt controller code.
\<close>

section \<open>Frames\<close>

text \<open>The first fields of the 64-bit frame are the general registers; the fields are in the order of the structure.\<close>

record regs64 =
  r15 :: u64
  r14 :: u64
  r13 :: u64
  r12 :: u64
  r11 :: u64
  r10 :: u64
  r9 :: u64
  r8 :: u64
  rdi :: u64
  rsi :: u64
  rbp :: u64
  rdx :: u64
  rcx :: u64
  rbx :: u64
  rax :: u64

record isr_frame64 = regs64 +
  int_no64 :: u64
  err_code64 :: u64
  rip :: u64
  cs64 :: u64
  rflags :: u64
  rsp64 :: u64
  ss64 :: u64

record isr_frame32 =
  ds32 :: u32
  edi32 :: u32
  esi32 :: u32
  ebp32 :: u32
  esp_dummy :: u32
  ebx32 :: u32
  edx32 :: u32
  ecx32 :: u32
  eax32 :: u32
  int_no32 :: u32
  err_code32 :: u32
  eip :: u32
  cs32 :: u32
  eflags :: u32
  esp32 :: u32
  ss32 :: u32

text \<open>A pointer to a frame gives its fields: one word each, from the address of the structure on.\<close>

definition frame64_at :: "u64 list \<Rightarrow> isr_frame64" where
  "frame64_at st = \<lparr>r15 = st ! 0, r14 = st ! 1, r13 = st ! 2, r12 = st ! 3, r11 = st ! 4, r10 = st ! 5, r9 = st ! 6, r8 = st ! 7,
     rdi = st ! 8, rsi = st ! 9, rbp = st ! 10, rdx = st ! 11, rcx = st ! 12, rbx = st ! 13, rax = st ! 14,
     int_no64 = st ! 15, err_code64 = st ! 16, rip = st ! 17, cs64 = st ! 18, rflags = st ! 19, rsp64 = st ! 20, ss64 = st ! 21\<rparr>"

definition frame32_at :: "u32 list \<Rightarrow> isr_frame32" where
  "frame32_at st = \<lparr>ds32 = st ! 0, edi32 = st ! 1, esi32 = st ! 2, ebp32 = st ! 3, esp_dummy = st ! 4, ebx32 = st ! 5, edx32 = st ! 6,
     ecx32 = st ! 7, eax32 = st ! 8, int_no32 = st ! 9, err_code32 = st ! 10, eip = st ! 11, cs32 = st ! 12, eflags = st ! 13,
     esp32 = st ! 14, ss32 = st ! 15\<rparr>"

section \<open>The x86-64 interrupt controller and segments\<close>

definition gdt_set64 :: "nat \<Rightarrow> u32 \<Rightarrow> u32 \<Rightarrow> u8 \<Rightarrow> u8 \<Rightarrow> gdt_entry list \<Rightarrow> gdt_entry list" where
  "gdt_set64 i base limit acc gr gdt =
     gdt[i := \<lparr>limit_low = ucast (limit AND 0xFFFF), base_low = ucast (base AND 0xFFFF),
       base_mid = ucast (drop_bit 16 base AND 0xFF), access = acc,
       granularity = ucast (drop_bit 16 limit AND 0x0F) OR (gr AND 0xF0),
       base_high = ucast (drop_bit 24 base AND 0xFF)\<rparr>]"

text \<open>\<^verbatim>\<open>gdt_ptr\<close>, which the processor loads: the size of the table less one, and its address.\<close>

record gdt_ptr64 =
  gp_limit :: u16
  gp_base :: u64

definition gdt_init64 :: "u64 \<Rightarrow> gdt_entry list \<Rightarrow> gdt_ptr64 \<times> gdt_entry list" where
  "gdt_init64 gdt_addr gdt =
     (let ptr = \<lparr>gp_limit = of_nat (8 * 3 - 1), gp_base = gdt_addr\<rparr>;
          gdt = gdt_set64 0 0 0 0x00 0x00 gdt;
          gdt = gdt_set64 1 0 0xFFFFFFFF 0x9A 0xAF gdt;
          gdt = gdt_set64 2 0 0xFFFFFFFF 0x92 0xCF gdt
      in (ptr, gdt))"

definition pic_remap64 :: "'d bus \<Rightarrow> ('d, unit) io" where
  "pic_remap64 b =
     io_seq
      [outb b PIC1_CMD 0x11, io_wait b, outb b PIC2_CMD 0x11, io_wait b,
       outb b PIC1_DATA 0x20, io_wait b, outb b PIC2_DATA 0x28, io_wait b,
       outb b PIC1_DATA 0x04, io_wait b, outb b PIC2_DATA 0x02, io_wait b,
       outb b PIC1_DATA 0x01, io_wait b, outb b PIC2_DATA 0x01, io_wait b,
       outb b PIC1_DATA 0xFF, outb b PIC2_DATA 0xFF]"

definition pic_send_eoi64 :: "'d bus \<Rightarrow> u8 \<Rightarrow> ('d, unit) io" where
  "pic_send_eoi64 b irq =
     andthen (if irq \<ge> 8 then outb b PIC2_CMD 0x20 else ret ()) (\<lambda>_. outb b PIC1_CMD 0x20)"

definition pic_mask_irq64 :: "'d bus \<Rightarrow> u8 \<Rightarrow> ('d, unit) io" where
  "pic_mask_irq64 b irq =
     (let port = (if irq < 8 then PIC1_DATA else PIC2_DATA);
          bt = (if irq < 8 then irq else irq - 8)
      in andthen (inb b port) (\<lambda>v. outb b port (v OR push_bit (unat bt) 1)))"

definition pic_unmask_irq64 :: "'d bus \<Rightarrow> u8 \<Rightarrow> ('d, unit) io" where
  "pic_unmask_irq64 b irq =
     (let port = (if irq < 8 then PIC1_DATA else PIC2_DATA);
          bt = (if irq < 8 then irq else irq - 8)
      in andthen (inb b port) (\<lambda>v. outb b port (v AND NOT (push_bit (unat bt) 1))))"

definition isr_register64 :: "u8 \<Rightarrow> handler \<Rightarrow> handlers \<Rightarrow> handlers" where
  "isr_register64 num h hs = hs(unat num \<mapsto> h)"

definition isr_init64 ::
  "'d bus \<Rightarrow> u64 \<Rightarrow> u64 list \<Rightarrow> handlers \<times> gate64 list \<Rightarrow> ('d, handlers \<times> idt_ptr64 \<times> gate64 list) io" where
  "isr_init64 b idt_addr stubs = (\<lambda>(hs, idt).
     let hs = Map.empty in andthen (pic_remap64 b) (\<lambda>_. ret (hs, idt_init64 idt_addr stubs idt)))"

section \<open>Dispatch\<close>

text \<open>
  \<^verbatim>\<open>kpanic\<close> halts, so dispatch ends in one of two ways.  Handlers ignore the frame they are given; \<open>run h\<close> is what \<open>h\<close> does.
\<close>

datatype dispatched = Returned terminal | Halted terminal

definition exc_format64 :: "u8 list" where
  "exc_format64 = c_string ''Exception #%u: %s  err=%x  rip=%x''"

definition exc_format32 :: "u8 list" where
  "exc_format32 = c_string ''Exception #%u: %s  err=%x  eip=%x  cs=%x''"

definition isr_dispatch64 ::
  "'d bus \<Rightarrow> (handler \<Rightarrow> ('d, unit) io) \<Rightarrow> nat \<Rightarrow> handlers \<Rightarrow> isr_frame64 \<Rightarrow> terminal \<Rightarrow> ('d, dispatched) io" where
  "isr_dispatch64 b run buf hs frame t =
     (let num = int_no64 frame;
          eoi = (\<lambda>t. if num \<ge> 32 \<and> num < 48 then andthen (pic_send_eoi64 b (ucast (num - 32))) (\<lambda>_. ret (Returned t)) else ret (Returned t))
      in case hs (unat num) of
           Some h \<Rightarrow> andthen (run h) (\<lambda>_. eoi t)
         | None \<Rightarrow>
             if num < 32 then
               andthen (kpanic b buf exc_format64
                 [Ulong_arg (unat (ucast num :: u32)), Str_arg (c_string (exception_names X86_64 ! unat num)),
                  Ulong_arg (unat (ucast (err_code64 frame) :: u32)), Ulong_arg (unat (rip frame))] t) (\<lambda>t. ret (Halted t))
             else eoi t)"

definition isr_dispatch32 ::
  "'d bus \<Rightarrow> (handler \<Rightarrow> ('d, unit) io) \<Rightarrow> nat \<Rightarrow> handlers \<Rightarrow> isr_frame32 \<Rightarrow> terminal \<Rightarrow> ('d, dispatched) io" where
  "isr_dispatch32 b run buf hs frame t =
     (let num = int_no32 frame;
          eoi = (\<lambda>t. if num \<ge> 32 \<and> num < 48 then andthen (pic_send_eoi b (ucast (num - 32))) (\<lambda>_. ret (Returned t)) else ret (Returned t))
      in case hs (unat num) of
           Some h \<Rightarrow> andthen (run h) (\<lambda>_. eoi t)
         | None \<Rightarrow>
             if num < 32 then
               andthen (kpanic b buf exc_format32
                 [Ulong_arg (unat num), Str_arg (c_string (if num < 32 then exception_names X86 ! unat num else ''Unknown'')),
                  Ulong_arg (unat (err_code32 frame)), Ulong_arg (unat (eip frame)), Ulong_arg (unat (cs32 frame))] t) (\<lambda>t. ret (Halted t))
             else eoi t)"

section \<open>The stubs\<close>

text \<open>The vectors whose stub is made by the macro \<^verbatim>\<open>ISR_ERR\<close>: the processor has already pushed an error code for them.\<close>

definition ISR_ERR :: "nat list" where
  "ISR_ERR = [8, 10, 11, 12, 13, 14, 17, 21, 30]"

definition isr_stub :: "nat \<Rightarrow> 'a::len word list \<Rightarrow> 'a word list" where
  "isr_stub n st = (if n \<in> set ISR_ERR then of_nat n # st else of_nat n # 0 # st)"

definition push_regs64 :: "regs64 \<Rightarrow> u64 list \<Rightarrow> u64 list" where
  "push_regs64 r st = fold Cons [rax r, rbx r, rcx r, rdx r, rbp r, rsi r, rdi r, r8 r, r9 r, r10 r, r11 r, r12 r, r13 r, r14 r, r15 r] st"

definition pop_regs64 :: "u64 list \<Rightarrow> regs64 \<times> u64 list" where
  "pop_regs64 st = (\<lparr>r15 = st ! 0, r14 = st ! 1, r13 = st ! 2, r12 = st ! 3, r11 = st ! 4, r10 = st ! 5, r9 = st ! 6, r8 = st ! 7,
     rdi = st ! 8, rsi = st ! 9, rbp = st ! 10, rdx = st ! 11, rcx = st ! 12, rbx = st ! 13, rax = st ! 14\<rparr>, drop 15 st)"

text \<open>Where the interrupted code goes on after \<^verbatim>\<open>iretq\<close> or \<^verbatim>\<open>iret\<close>: its registers, and the stack with the context the processor pushed.\<close>

datatype ('r, 'w) resumption = Resumed 'r "'w list" terminal | Stopped terminal

definition isr_common_stub64 ::
  "'d bus \<Rightarrow> (handler \<Rightarrow> ('d, unit) io) \<Rightarrow> nat \<Rightarrow> handlers \<Rightarrow> regs64 \<Rightarrow> u64 list \<Rightarrow> terminal \<Rightarrow> ('d, (regs64, u64) resumption) io" where
  "isr_common_stub64 b run buf hs r st t =
     (let st = push_regs64 r st
      in andthen (isr_dispatch64 b run buf hs (frame64_at st) t) (\<lambda>e.
           case e of
             Halted t \<Rightarrow> ret (Stopped t)
           | Returned t \<Rightarrow> let (r, st) = pop_regs64 st in ret (Resumed r (drop 2 st) t)))"

text \<open>
  On x86 \<^verbatim>\<open>pusha\<close> saves the general registers with the stack pointer, which \<^verbatim>\<open>popa\<close> skips.  The data segment is pushed as the
  low half of \<^verbatim>\<open>eax\<close>, and all four data segment registers get its value back.
\<close>

record regs32 =
  eax :: u32
  ecx :: u32
  edx :: u32
  ebx :: u32
  ebp :: u32
  esi :: u32
  edi :: u32
  ds :: u16
  es :: u16
  fs_seg :: u16
  gs :: u16

definition push_regs32 :: "u32 \<Rightarrow> regs32 \<Rightarrow> u32 list \<Rightarrow> u32 list" where
  "push_regs32 esp_now r st =
     fold Cons [eax r, ecx r, edx r, ebx r, esp_now, ebp r, esi r, edi r, (eax r AND 0xFFFF0000) OR ucast (ds r)] st"

definition pop_regs32 :: "u32 list \<Rightarrow> regs32 \<times> u32 list" where
  "pop_regs32 st =
     (let seg = ucast (st ! 0)
      in (\<lparr>eax = st ! 8, ecx = st ! 7, edx = st ! 6, ebx = st ! 5, ebp = st ! 3, esi = st ! 2, edi = st ! 1,
           ds = seg, es = seg, fs_seg = seg, gs = seg\<rparr>, drop 9 st))"

definition isr_common_stub32 ::
  "'d bus \<Rightarrow> (handler \<Rightarrow> ('d, unit) io) \<Rightarrow> nat \<Rightarrow> handlers \<Rightarrow> u32 \<Rightarrow> regs32 \<Rightarrow> u32 list \<Rightarrow> terminal \<Rightarrow> ('d, (regs32, u32) resumption) io" where
  "isr_common_stub32 b run buf hs esp_now r st t =
     (let st = push_regs32 esp_now r st
      in andthen (isr_dispatch32 b run buf hs (frame32_at st) t) (\<lambda>e.
           case e of
             Halted t \<Rightarrow> ret (Stopped t)
           | Returned t \<Rightarrow> let (r, st) = pop_regs32 st in ret (Resumed r (drop 2 st) t)))"

text \<open>
  What the processor leaves on the stack: the context to return to, and an error code on top for some exceptions.  In 64-bit
  mode the context has the stack pointer and stack segment; on x86 it does not when the kernel itself is interrupted.
\<close>

definition cpu_push :: "nat \<Rightarrow> 'a::len word \<Rightarrow> 'a word list \<Rightarrow> 'a word list" where
  "cpu_push n err st = (if n \<in> set ISR_ERR then err # st else st)"

definition interrupt64 where
  "interrupt64 b run buf hs n err r st t = isr_common_stub64 b run buf hs r (isr_stub n (cpu_push n err st)) t"

definition interrupt32 where
  "interrupt32 b run buf hs n err esp_now r st t = isr_common_stub32 b run buf hs esp_now r (isr_stub n (cpu_push n err st)) t"


section \<open>The two copies\<close>

lemma pic_send_eoi_copy: "pic_send_eoi64 b irq d = pic_send_eoi b irq d"
  by (simp add: pic_send_eoi64_def pic_send_eoi_def PIC_EOI_def)

text \<open>The copies for the two targets have not diverged, apart from the flags of the code segment.\<close>

theorem cpu_copies_agree:
  "snd (gdt_init64 addr gdt) = gdt_init X86_64 gdt" "pic_remap64 b = pic_remap b" "pic_mask_irq64 b irq = pic_mask_irq b irq"
  "pic_unmask_irq64 b irq = pic_unmask_irq b irq" "pic_send_eoi64 b irq d = pic_send_eoi b irq d"
  "map_option (\<lambda>((hs, _), d). (hs, d)) (isr_init64 b idt_addr stubs (hs, idt) d) = isr_init b hs d"
  by (simp_all add: gdt_init64_def gdt_init_def gdt_set64_def gdt_set_def pic_remap64_def pic_remap_def Let_def
      pic_mask_irq64_def pic_mask_irq_def pic_unmask_irq64_def pic_unmask_irq_def pic_port_def pic_bit_def pic_send_eoi_copy
      isr_init64_def isr_init_def andthen_def split: option.splits)

section \<open>Frames and registers\<close>

lemma stub_words: "isr_stub n (cpu_push n err st) = of_nat n # (if n \<in> set ISR_ERR then err else 0) # st"
  by (simp add: cpu_push_def isr_stub_def)

lemma frame64_pushed:
  "frame64_at (push_regs64 r (num # err # ip # c # fl # sp # s # st)) =
     regs64.extend r \<lparr>int_no64 = num, err_code64 = err, rip = ip, cs64 = c, rflags = fl, rsp64 = sp, ss64 = s\<rparr>"
  by (simp add: frame64_at_def push_regs64_def regs64.defs isr_frame64.defs eval_nat_numeral)

lemma pop_push64: "pop_regs64 (push_regs64 r st) = (r, st)"
  by (simp add: pop_regs64_def push_regs64_def eval_nat_numeral)

lemma frame32_pushed:
  "frame32_at (push_regs32 p r (num # err # ip # c # fl # w # w' # st)) =
     \<lparr>ds32 = (eax r AND 0xFFFF0000) OR ucast (ds r), edi32 = edi r, esi32 = esi r, ebp32 = ebp r, esp_dummy = p, ebx32 = ebx r,
      edx32 = edx r, ecx32 = ecx r, eax32 = eax r, int_no32 = num, err_code32 = err, eip = ip, cs32 = c, eflags = fl, esp32 = w, ss32 = w'\<rparr>"
  by (simp add: frame32_at_def push_regs32_def eval_nat_numeral)

lemma low_half: "(ucast ((x AND 0xFFFF0000) OR ucast (y :: u16) :: u32) :: u16) = y"
proof -
  have m: "(0xFFFF0000 :: u32) = push_bit 16 (mask 16)" by (simp add: mask_eq_exp_minus_1 push_bit_eq_mult)
  show ?thesis unfolding m by (intro bit_word_eqI) (auto simp: bit_simps)
qed

lemma pop_push32: "pop_regs32 (push_regs32 p r st) = (r\<lparr>es := ds r, fs_seg := ds r, gs := ds r\<rparr>, st)"
  by (simp add: pop_regs32_def push_regs32_def eval_nat_numeral low_half Let_def)

section \<open>The way back\<close>

text \<open>The device after the end-of-interrupt commands that belong to a vector.\<close>

definition eoi_sent :: "'d bus \<Rightarrow> nat \<Rightarrow> 'd \<Rightarrow> 'd" where
  "eoi_sent b n d =
     (if n < 32 \<or> 48 \<le> n then d
      else if n < 40 then out8 b PIC1_CMD PIC_EOI d else out8 b PIC1_CMD PIC_EOI (out8 b PIC2_CMD PIC_EOI d))"

lemma pic_send_eoi_line:
  assumes "32 \<le> n" "n < 48"
  shows "pic_send_eoi b (of_nat (n - 32)) d = Some ((), eoi_sent b n d)"
proof -
  have "unat (of_nat (n - 32) :: u8) = n - 32" using assms by (simp only: unat_of_nat) simp
  then have "(8 :: u8) \<le> of_nat (n - 32) \<longleftrightarrow> 40 \<le> n"
    unfolding word_le_nat_alt using assms by (simp only:) auto
  then show ?thesis using assms unfolding pic_send_eoi_def eoi_sent_def
    by (cases "40 \<le> n") (simp_all only: if_True if_False, simp_all)
qed

lemma vector_word:
  fixes x :: "'a::len word"
  assumes "x = of_nat n" "n < 48" "8 \<le> LENGTH('a)"
  shows "unat x = n" "x < 32 \<longleftrightarrow> n < 32" "32 \<le> x \<longleftrightarrow> 32 \<le> n" "x < 48" "32 \<le> n \<Longrightarrow> (ucast (x - 32) :: u8) = of_nat (n - 32)"
proof -
  have l: "(256 :: nat) \<le> 2 ^ LENGTH('a)" using power_increasing [OF assms(3), of "2 :: nat"] by simp
  then have u: "unat (of_nat k :: 'a word) = k" if "k < 256" for k using that by (simp add: unat_of_nat)
  from u [of 32] u [of 48] have c: "unat (32 :: 'a word) = 32" "unat (48 :: 'a word) = 48" by simp_all
  show 1: "unat x = n" using u [of n] assms(1,2) by simp
  show "x < 32 \<longleftrightarrow> n < 32" "32 \<le> x \<longleftrightarrow> 32 \<le> n" "x < 48"
    unfolding word_less_nat_alt word_le_nat_alt 1 c using assms(2) by simp_all
  show "(ucast (x - 32) :: u8) = of_nat (n - 32)" if "32 \<le> n"
  proof -
    have "unat (x - 32) = n - 32" using that unat_sub [of 32 x] unfolding word_le_nat_alt 1 c by simp
    then show ?thesis by (simp add: word_unat_eq_iff unsigned_ucast_eq unat_of_nat take_bit_eq_mod)
  qed
qed

text \<open>Dispatch by vector, on both targets.\<close>

lemma dispatch64_exec:
  assumes "int_no64 f = of_nat n" "n < 48"
  shows "isr_dispatch64 b run buf hs f t d =
    (case hs n of
       Some h \<Rightarrow> (case run h d of None \<Rightarrow> None | Some (_, d) \<Rightarrow> Some (Returned t, eoi_sent b n d))
     | None \<Rightarrow>
         if n < 32 then map_option (map_prod Halted id)
           (kpanic b buf exc_format64 [Ulong_arg n, Str_arg (c_string (exception_names X86_64 ! n)),
              Ulong_arg (unat (ucast (err_code64 f) :: u32)), Ulong_arg (unat (rip f))] t d)
         else Some (Returned t, eoi_sent b n d))"
proof -
  have l: "8 \<le> LENGTH(64)" by simp
  note v = vector_word [OF assms l]
  have u: "unat (ucast (int_no64 f) :: u32) = n" using v(1) assms(2) by (simp add: unsigned_ucast_eq take_bit_nat_eq_self)
  have e: "32 \<le> n \<Longrightarrow> pic_send_eoi64 b (ucast (int_no64 f - 32)) d = Some ((), eoi_sent b n d)" for d
    using v(5) pic_send_eoi_line [OF _ assms(2)] by (simp add: pic_send_eoi_copy)
  show ?thesis unfolding isr_dispatch64_def Let_def u v
    by (auto simp: andthen_def e v(4) eoi_sent_def simp del: exception_names.simps split: option.splits)
qed

lemma dispatch32_exec:
  assumes "int_no32 f = of_nat n" "n < 48"
  shows "isr_dispatch32 b run buf hs f t d =
    (case hs n of
       Some h \<Rightarrow> (case run h d of None \<Rightarrow> None | Some (_, d) \<Rightarrow> Some (Returned t, eoi_sent b n d))
     | None \<Rightarrow>
         if n < 32 then map_option (map_prod Halted id)
           (kpanic b buf exc_format32 [Ulong_arg n, Str_arg (c_string (exception_names X86 ! n)),
              Ulong_arg (unat (err_code32 f)), Ulong_arg (unat (eip f)), Ulong_arg (unat (cs32 f))] t d)
         else Some (Returned t, eoi_sent b n d))"
proof -
  have l: "8 \<le> LENGTH(32)" by simp
  note v = vector_word [OF assms l]
  have e: "32 \<le> n \<Longrightarrow> pic_send_eoi b (ucast (int_no32 f - 32)) d = Some ((), eoi_sent b n d)" for d
    using v(5) pic_send_eoi_line [OF _ assms(2)] by simp
  show ?thesis unfolding isr_dispatch32_def Let_def v
    by (auto simp: andthen_def e v(4) eoi_sent_def simp del: exception_names.simps split: option.splits)
qed

section \<open>The report of an exception\<close>

lemma digit_nonzero: "d < 16 \<Longrightarrow> digit upper d \<noteq> 0"
proof -
  assume "d < 16"
  then have "unat (of_nat d :: u8) = d" "unat (of_nat (d - 10) :: u8) = d - 10" by (simp_all add: unat_of_nat)
  with \<open>d < 16\<close> have "unat (digit upper d) \<noteq> 0" by (simp add: digit_def unat_word_ariths)
  then show ?thesis by (metis unat_0)
qed

lemma tmp_digits_small:
  assumes "2 \<le> base" "base \<le> 16"
  shows "val < 2 ^ k \<Longrightarrow> length (tmp_digits base upper val) \<le> k" "0 \<notin> set (tmp_digits base upper val)"
proof -
  show "length (tmp_digits base upper val) \<le> k" if "val < 2 ^ k" using that
  proof (induction k arbitrary: val)
    case (Suc k)
    have "val div base \<le> val div 2" using assms(1) by (simp add: div_le_mono2)
    then have "val div base < 2 ^ k" using Suc.prems by auto
    from Suc.IH [OF this] show ?case by (subst tmp_digits.simps) simp
  qed (simp add: tmp_digits.simps)
  show "0 \<notin> set (tmp_digits base upper val)"
  proof (induction val rule: less_induct)
    case (less val)
    have d: "digit upper (val mod base) \<noteq> 0"
      using assms mod_less_divisor [of base val] by (intro digit_nonzero) linarith
    show ?case
    proof (cases "val = 0")
      case False
      then have "0 \<notin> set (tmp_digits base upper (val div base))" using assms(1) by (intro less.IH) simp
      with d show ?thesis by (subst tmp_digits.simps) simp
    qed (simp add: tmp_digits.simps)
  qed
qed

lemma uint_text_small:
  assumes "val < 2 ^ 64" "base \<in> {10, 16}"
  shows "length (uint_text base upper val) \<le> 64" "0 \<notin> set (uint_text base upper val)"
  using assms tmp_digits_small [of base] by (auto simp: uint_text_def)

lemma exception_names_small:
  assumes "n < 32"
  shows "length (c_string (exception_names a ! n)) \<le> 64" "0 \<notin> set (c_string (exception_names a ! n))"
proof -
  have "list_all (\<lambda>s. length (c_string s) \<le> 64 \<and> 0 \<notin> set (c_string s)) (exception_names a)" "length (exception_names a) = 32"
    by (cases a; simp add: c_string_def exception_names32_def exc_names64_def)+
  with assms show "length (c_string (exception_names a ! n)) \<le> 64" "0 \<notin> set (c_string (exception_names a ! n))"
    by (simp_all add: list_all_length del: exception_names.simps)
qed

lemma exc_format64_text:
  "format_text exc_format64 [Ulong_arg v, Str_arg s, Ulong_arg x, Ulong_arg y] =
     Some (c_string ''Exception #'' @ uint_text 10 False v @ c_string '': '' @ s @ c_string ''  err='' @ uint_text 16 False x @
       c_string ''  rip='' @ uint_text 16 False y)"
  by (simp add: exc_format64_def c_string_def)

section \<open>Properties\<close>









end
