(* ===== verification/Input.thy ===== *)
theory Input
  imports Cpu Keyboard Mouse
begin

text \<open>
  The input devices as \<^verbatim>\<open>kernel/kmain.c\<close> starts them, with the interrupt controllers: which of the sixteen interrupt lines can
  reach the processor once \<^verbatim>\<open>kmain\<close> has set them up.
\<close>

section \<open>Start-up\<close>

definition kmain_input :: "'d bus \<Rightarrow> handlers \<Rightarrow> ('d, handlers) io" where
  "kmain_input b hs =
     andthen (keyboard_init b (pic_unmask_irq b 1)) (\<lambda>_.
     let hs = isr_register 33 Kb_handler hs
     in andthen (mouse_init b (pic_unmask_irq b 12)) (\<lambda>_. ret (isr_register 44 Mouse_handler hs)))"

definition kmain_irqs :: "'d bus \<Rightarrow> pit \<Rightarrow> handlers \<Rightarrow> ('d, pit \<times> handlers) io" where
  "kmain_irqs b p hs =
     andthen (kmain_interrupts b p hs) (\<lambda>(p, hs). andthen (kmain_input b hs) (\<lambda>hs. ret (p, hs)))"

section \<open>The interrupt controllers\<close>

text \<open>
  What the 8259 controllers promise, on the mask registers of a device state: the initialisation sequence leaves them \<open>ready\<close> with
  the masks written last; then reading a data port gives the mask, writing it replaces the mask, and no other port touches it.
\<close>

definition pics :: "'d bus \<Rightarrow> ('d \<Rightarrow> bool) \<Rightarrow> ('d \<Rightarrow> u8) \<Rightarrow> ('d \<Rightarrow> u8) \<Rightarrow> bool" where
  "pics b ready m1 m2 \<longleftrightarrow>
     (\<forall>d d'. pic_remap b d = Some ((), d') \<longrightarrow> ready d' \<and> m1 d' = 0xFF \<and> m2 d' = 0xFF) \<and>
     (\<forall>d. ready d \<longrightarrow> in8 b PIC1_DATA d = (m1 d, d) \<and> in8 b PIC2_DATA d = (m2 d, d)) \<and>
     (\<forall>v d. ready d \<longrightarrow> ready (out8 b PIC1_DATA v d) \<and> m1 (out8 b PIC1_DATA v d) = v \<and> m2 (out8 b PIC1_DATA v d) = m2 d) \<and>
     (\<forall>v d. ready d \<longrightarrow> ready (out8 b PIC2_DATA v d) \<and> m2 (out8 b PIC2_DATA v d) = v \<and> m1 (out8 b PIC2_DATA v d) = m1 d) \<and>
     (\<forall>q v d. ready d \<longrightarrow> q \<notin> {PIC1_CMD, PIC1_DATA, PIC2_CMD, PIC2_DATA} \<longrightarrow>
        ready (out8 b q v d) \<and> m1 (out8 b q v d) = m1 d \<and> m2 (out8 b q v d) = m2 d \<and>
        ready (snd (in8 b q d)) \<and> m1 (snd (in8 b q d)) = m1 d \<and> m2 (snd (in8 b q d)) = m2 d)"

text \<open>A line of the second controller reaches the processor through line 2 of the first.\<close>

definition irq_delivered :: "('d \<Rightarrow> u8) \<Rightarrow> ('d \<Rightarrow> u8) \<Rightarrow> nat \<Rightarrow> 'd \<Rightarrow> bool" where
  "irq_delivered m1 m2 i d =
     (if i < 8 then \<not> bit (m1 d) i else \<not> bit (m2 d) (i - 8) \<and> \<not> bit (m1 d) 2)"

section \<open>What other devices leave alone\<close>

definition keeps :: "('d \<Rightarrow> bool) \<Rightarrow> ('d, 'a) io \<Rightarrow> bool" where
  "keeps Q f \<longleftrightarrow> (\<forall>d x d'. f d = Some (x, d') \<longrightarrow> Q d \<longrightarrow> Q d')"

named_theorems keeps_intros \<open>routines that keep a condition on the device\<close>

lemma keeps_ret [keeps_intros]: "keeps Q (ret x)"
  by (simp add: keeps_def)

lemma keeps_andthen [keeps_intros]: "keeps Q f \<Longrightarrow> (\<And>x. keeps Q (g x)) \<Longrightarrow> keeps Q (andthen f g)"
  unfolding keeps_def andthen_eq_Some by blast

lemma keeps_io_seq: "(\<And>f. f \<in> set fs \<Longrightarrow> keeps Q f) \<Longrightarrow> keeps Q (io_seq fs)"
  by (induction fs) (auto intro: keeps_intros)

text \<open>The waiting loops keep what the port they read keeps.\<close>

lemma keeps_waits:
  assumes "\<And>d. Q d \<Longrightarrow> Q (snd (in8 b q d))"
  shows "keeps Q (wait_clear b q m)" "keeps Q (wait_set b q m)"
proof -
  have "b' = b \<longrightarrow> q' = q \<longrightarrow> Q d \<longrightarrow> Q (snd y)" if "wait_clear b' q' m' d = Some y" for b' q' m' d y
    by (rule wait_clear.raw_induct [OF _ that]) (use assms in \<open>fastforce simp: Let_def split: prod.splits if_splits\<close>)
  then show "keeps Q (wait_clear b q m)" unfolding keeps_def by fastforce
  have "b' = b \<longrightarrow> q' = q \<longrightarrow> Q d \<longrightarrow> Q (snd y)" if "wait_set b' q' m' d = Some y" for b' q' m' d y
    by (rule wait_set.raw_induct [OF _ that]) (use assms in \<open>fastforce simp: Let_def split: prod.splits if_splits\<close>)
  then show "keeps Q (wait_set b q m)" unfolding keeps_def by fastforce
qed

lemma keeps_flush:
  assumes "\<And>d. Q d \<Longrightarrow> Q (snd (in8 b Keyboard.PS2_STATUS d))" "\<And>d. Q d \<Longrightarrow> Q (snd (in8 b Keyboard.PS2_DATA d))"
  shows "keeps Q (ps2_flush b)"
proof -
  have "b' = b \<longrightarrow> Q d \<longrightarrow> Q (snd y)" if "ps2_flush b' d = Some y" for b' d y
    by (rule ps2_flush.raw_induct [OF _ that]) (use assms in \<open>fastforce simp: Let_def split: prod.splits if_splits\<close>)
  then show ?thesis unfolding keeps_def by fastforce
qed

text \<open>The two devices use the ports of the keyboard controller only.\<close>

definition ps2_keeps :: "'d bus \<Rightarrow> ('d \<Rightarrow> bool) \<Rightarrow> bool" where
  "ps2_keeps b Q \<longleftrightarrow> (\<forall>d. Q d \<longrightarrow> (\<forall>q\<in>{0x60, 0x64}. Q (snd (in8 b q d)) \<and> (\<forall>v. Q (out8 b q v d))))"

lemma keeps_ps2:
  assumes "ps2_keeps b Q"
  shows "keeps Q (wait_clear b 0x64 m)" "keeps Q (wait_set b 0x64 m)" "keeps Q (ps2_flush b)" "keeps Q (inb b 0x60)"
    "keeps Q (outb b 0x60 v)" "keeps Q (outb b 0x64 v)"
proof -
  note k = assms [unfolded ps2_keeps_def]
  show "keeps Q (wait_clear b 0x64 m)" "keeps Q (wait_set b 0x64 m)" using k by (auto intro!: keeps_waits)
  show "keeps Q (ps2_flush b)"
    using k by (auto intro!: keeps_flush simp: Keyboard.PS2_STATUS_def Keyboard.PS2_DATA_def)
  show "keeps Q (inb b 0x60)" using k by (force simp: keeps_def)
  show "keeps Q (outb b 0x60 v)" "keeps Q (outb b 0x64 v)" using k by (auto simp: keeps_def)
qed

text \<open>The start-up of a device up to the call that registers its handler.\<close>

lemma io_seq_last:
  assumes "io_seq fs d = Some y" "fs \<noteq> []" "\<And>f. f \<in> set (butlast fs) \<Longrightarrow> keeps Q f" "Q d"
  shows "\<exists>d1. Q d1 \<and> last fs d1 = Some y"
  using assms
proof (induction fs arbitrary: d)
  case (Cons f fs)
  then obtain d1 where d1: "f d = Some ((), d1)" "io_seq fs d1 = Some y" by (auto simp: andthen_eq_Some)
  show ?case
  proof (cases "fs = []")
    case True
    with d1 Cons.prems(4) show ?thesis by (cases y) auto
  next
    case False
    then have "Q d1" using Cons.prems(3) [of f] Cons.prems(4) d1(1) by (auto simp: keeps_def)
    from Cons.IH [OF d1(2) False _ this] Cons.prems(3) False show ?thesis by auto
  qed
qed simp

lemma device_init_split:
  assumes "ps2_keeps b Q" "Q d"
  shows "keyboard_init b r d = Some y \<Longrightarrow> \<exists>d1. Q d1 \<and> r d1 = Some y"
    and "mouse_init b r d = Some y \<Longrightarrow> \<exists>d1. Q d1 \<and> r d1 = Some y"
proof -
  note k = keeps_ps2 [OF assms(1)] keeps_intros
  have kb: "keeps Q (ps2_send_cmd b v)" "keeps Q (ps2_send_data b v)" "keeps Q (ps2_read b)" for v
    unfolding ps2_send_cmd_def ps2_send_data_def ps2_read_def Keyboard.PS2_STATUS_def Keyboard.PS2_CMD_def Keyboard.PS2_DATA_def
    by (intro k)+
  have ms: "keeps Q (mouse_write b v)" "keeps Q (mouse_read b)" for v
    unfolding mouse_write_def mouse_read_def Mouse.PS2_STATUS_def Mouse.PS2_CMD_def Mouse.PS2_DATA_def
    by (auto intro!: k keeps_io_seq)
  show "\<exists>d1. Q d1 \<and> r d1 = Some y" if "keyboard_init b r d = Some y"
    using io_seq_last [where Q = Q, OF that [unfolded keyboard_init_def] _ _ assms(2)] by (auto simp: Let_def intro!: k kb)
  show "\<exists>d1. Q d1 \<and> r d1 = Some y" if "mouse_init b r d = Some y"
    using io_seq_last [where Q = Q, OF that [unfolded mouse_init_def Mouse.PS2_STATUS_def Mouse.PS2_CMD_def Mouse.PS2_DATA_def] _ _ assms(2)]
    by (auto intro!: k ms keeps_io_seq)
qed

text \<open>If the two devices answer at all, their start keeps every condition that no port access disturbs.\<close>

context still_bus
begin

lemma still_ps2: "ps2_keeps b Q"
  by (simp add: ps2_keeps_def quiet_in8 quiet_out8)

lemma safe_input:
  assumes "ends (keyboard_init b (pic_unmask_irq b 1))" "ends (mouse_init b (pic_unmask_irq b 12))"
  shows "safe Q (kmain_input b hs)"
proof -
  have u: "safe Q (pic_unmask_irq b i)" for i unfolding pic_unmask_irq_def by auto
  have "safe Q (keyboard_init b (pic_unmask_irq b 1))" unfolding safe_def
  proof (intro allI impI)
    fix d assume "Q d"
    obtain y where y: "keyboard_init b (pic_unmask_irq b 1) d = Some y" using assms(1) by (auto simp: ends_Some)
    from device_init_split(1) [OF still_ps2 \<open>Q d\<close> y] safeD [OF u] y
    show "\<exists>x d'. keyboard_init b (pic_unmask_irq b 1) d = Some (x, d') \<and> Q d'" by (metis option.inject)
  qed
  moreover have "safe Q (mouse_init b (pic_unmask_irq b 12))" unfolding safe_def
  proof (intro allI impI)
    fix d assume "Q d"
    obtain y where y: "mouse_init b (pic_unmask_irq b 12) d = Some y" using assms(2) by (auto simp: ends_Some)
    from device_init_split(2) [OF still_ps2 \<open>Q d\<close> y] safeD [OF u] y
    show "\<exists>x d'. mouse_init b (pic_unmask_irq b 12) d = Some (x, d') \<and> Q d'" by (metis option.inject)
  qed
  ultimately show ?thesis unfolding kmain_input_def Let_def by auto
qed

end

section \<open>The masks\<close>

lemma unmask_masks:
  assumes "pics b ready m1 m2" "ready d" "pic_unmask_irq b irq d = Some y"
  shows "ready (snd y)" "m1 (snd y) = (if irq < 8 then m1 d AND NOT (push_bit (unat irq) 1) else m1 d)"
    "m2 (snd y) = (if irq < 8 then m2 d else m2 d AND NOT (push_bit (unat (irq - 8)) 1))"
  using assms by (auto simp: pics_def pic_unmask_irq_def pic_port_def pic_bit_def split: if_splits)

lemma pics_ps2: "pics b ready m1 m2 \<Longrightarrow> ps2_keeps b (\<lambda>d. ready d \<and> m1 d = x \<and> m2 d = y)"
  by (auto simp: pics_def ps2_keeps_def PIC1_CMD_def PIC1_DATA_def PIC2_CMD_def PIC2_DATA_def)


lemma pit_masks:
  assumes "pics b ready m1 m2" "kmain_interrupts b p hs d = Some ((p', hs'), d')"
  shows "ready d' \<and> m1 d' = 0xFE \<and> m2 d' = 0xFF"
proof -
  obtain d1 where d1: "pic_remap b d = Some ((), d1)"
    and i: "pit_init b 100 p (isr_register 32 Kmain_pit_handler Map.empty) d1 = Some ((p', hs'), d')"
    using assms(2) by (auto simp: kmain_interrupts_def isr_init_def andthen_eq_Some)
  then have r: "ready d1" "m1 d1 = 0xFF" "m2 d1 = 0xFF" using assms(1) by (auto simp: pics_def)
  obtain d2 where d2: "pic_unmask_irq b 0 d1 = Some ((), d2)"
    and d': "d' = out8 b PIT_CH0 (ucast (drop_bit 8 (of_nat (PIT_BASE_HZ div 100) :: u32)))
      (out8 b PIT_CH0 (ucast ((of_nat (PIT_BASE_HZ div 100) :: u32) AND 0xFF)) (out8 b PIT_CMD 0x36 d2))"
    using i by (auto simp: pit_init_def Let_def andthen_eq_Some)
  have "ready d2" "m1 d2 = 0xFE" "m2 d2 = 0xFF"
    using unmask_masks [OF assms(1) r(1) d2] r(2,3) by simp_all
  then show ?thesis unfolding d' using assms(1)
    by (simp add: pics_def PIT_CH0_def PIT_CMD_def PIC1_CMD_def PIC1_DATA_def PIC2_CMD_def PIC2_DATA_def)
qed

section \<open>Properties\<close>



section \<open>A controller that answers\<close>

text \<open>
  The waits for the keyboard controller end when it is never busy and has a byte at every second look: \<open>f\<close> tells whether the next
  look finds one.
\<close>

definition toggling :: "'d bus \<Rightarrow> ('d \<Rightarrow> bool) \<Rightarrow> bool" where
  "toggling b f \<longleftrightarrow>
     (\<forall>d. fst (in8 b 0x64 d) = (if f d then 1 else 0) \<and> f (snd (in8 b 0x64 d)) = (\<not> f d) \<and> f (snd (in8 b 0x60 d)) = f d)"

lemma toggling_waits:
  assumes "toggling b f"
  shows "ends (wait_clear b 0x64 2)" "ends (wait_set b 0x64 1)" "ends (ps2_flush b)"
proof -
  note t = assms [unfolded toggling_def]
  have n: "fst (in8 b 0x64 (read_n b 0x64 0 d)) = (if f d then 1 else 0)"
    "fst (in8 b 0x64 (read_n b 0x64 1 d)) = (if f d then 0 else 1)" for d
    using t by (simp_all add: read_n_def)
  show "ends (wait_clear b 0x64 2)"
    using wait_clear_ends [of b "0x64" 0 _ 2] n(1) by (fastforce simp: ends_Some)
  have "\<exists>d'. wait_set b 0x64 1 d = Some ((), d')" for d
    using wait_set_ends [of b "0x64" "if f d then 0 else 1" d 1] n [of d] by (cases "f d") simp_all
  then show "ends (wait_set b 0x64 1)" by (force simp: ends_Some)
  have F: "ps2_flush b d = Some ((), snd (in8 b 0x64 d))" if "\<not> f d" for d
    using t that by (subst ps2_flush.simps) (simp add: Keyboard.PS2_STATUS_def split_beta)
  have "ps2_flush b d \<noteq> None" if "f d" for d
  proof -
    let ?d = "snd (in8 b 0x60 (snd (in8 b 0x64 d)))"
    have "\<not> f ?d" using t that by simp
    then show ?thesis using t that
      by (subst ps2_flush.simps) (simp add: Keyboard.PS2_STATUS_def Keyboard.PS2_DATA_def split_beta F)
  qed
  with F show "ends (ps2_flush b)" unfolding ends_Some by (metis option.exhaust)
qed

lemma toggling_devices:
  assumes "toggling b f"
  shows "ends (keyboard_init b (pic_unmask_irq b i))" "ends (mouse_init b (pic_unmask_irq b i))"
proof -
  note w [intro!, simp] = toggling_waits [OF assms]
  have u: "ends (pic_unmask_irq b i)" by (auto simp: pic_unmask_irq_def)
  have "ends (ps2_send_cmd b v)" "ends (ps2_send_data b v)" "ends (ps2_read b)" for v
    by (auto simp: ps2_send_cmd_def ps2_send_data_def ps2_read_def Keyboard.PS2_STATUS_def)
  with u show "ends (keyboard_init b (pic_unmask_irq b i))"
    unfolding keyboard_init_def Let_def by (intro safe_io_seq) auto
  have "ends (mouse_write b v)" "ends (mouse_read b)" for v
    by (auto simp: mouse_write_def mouse_read_def Mouse.PS2_STATUS_def)
  with u show "ends (mouse_init b (pic_unmask_irq b i))"
    unfolding mouse_init_def Mouse.PS2_STATUS_def by (intro safe_io_seq) auto
qed

text \<open>Two mask registers and a keyboard controller that has a byte at every second look.\<close>

definition toggle_bus :: "(u8 \<times> u8 \<times> bool) bus" where
  "toggle_bus = (byte_bus (\<lambda>_ _. 0)
     (\<lambda>q v (x, y, t). if q = PIC1_DATA then (v, y, t) else if q = PIC2_DATA then (x, v, t) else (x, y, t)))
     \<lparr>in8 := (\<lambda>q (x, y, t). if q = PIC1_DATA then (x, x, y, t) else if q = PIC2_DATA then (y, x, y, t)
        else if q = 0x64 then (if t then 1 else 0, x, y, \<not> t) else (0, x, y, t))\<rparr>"

lemma toggle_bus_pics: "pics toggle_bus (\<lambda>_. True) fst (fst \<circ> snd)"
  by (auto simp: pics_def toggle_bus_def byte_bus_def pic_remap_def io_wait_def PIC1_CMD_def PIC1_DATA_def PIC2_CMD_def PIC2_DATA_def split: prod.splits)

lemma toggle_devices: "ends (keyboard_init toggle_bus (pic_unmask_irq toggle_bus i))" "ends (mouse_init toggle_bus (pic_unmask_irq toggle_bus i))"
  by (rule toggling_devices [where f = "snd \<circ> snd"]; force simp: toggling_def toggle_bus_def PIC1_DATA_def PIC2_DATA_def)+


end
