(* ===== verification/DiskVolume.thy ===== *)
theory DiskVolume
  imports Ata Fat32
begin

text \<open>
  A FAT32 volume on an ATA disk: the callback that \<^verbatim>\<open>kmain\<close> hands to the file system runs the disk driver on the ports, while the
  file system of \<^verbatim>\<open>Fat32\<close> takes a function from sector numbers to contents.  The interface \<open>sector_source\<close> says when the two
  are the same, and the driver meets it.
\<close>

section \<open>The callback\<close>

text \<open>The buffer is 512 bytes of memory that the driver fills with little-endian words; a failed read leaves the rest of it.\<close>

definition word_bytes :: "u16 list \<Rightarrow> u8 list" where
  "word_bytes ws = concat (map (\<lambda>w. [ucast w, ucast (drop_bit 8 w)]) ws)"

definition sector_cb :: "'d bus \<Rightarrow> ata \<Rightarrow> u8 \<Rightarrow> u32 \<Rightarrow> u8 list \<Rightarrow> ('d, u8 list) io" where
  "sector_cb b a drv lba buf =
     andthen (ata_read_cb b a drv lba) (\<lambda>(_, ws). ret (word_bytes ws @ drop (2 * length ws) (take 512 buf)))"

text \<open>What the drive holds under a sector number: the command has 28 bits for it.\<close>

definition ata_sector :: "(nat \<Rightarrow> u16 list) \<Rightarrow> u32 \<Rightarrow> u8 list" where
  "ata_sector dk lba = word_bytes (dk (unat lba mod 2 ^ 28))"

section \<open>Sources of sectors\<close>

locale sector_source =
  fixes cb :: "u32 \<Rightarrow> u8 list \<Rightarrow> ('d, u8 list) io" and ready :: "'d \<Rightarrow> bool" and disk :: "u32 \<Rightarrow> u8 list"
  assumes cb_reads: "ready d \<Longrightarrow> \<exists>d'. cb lba buf d = Some (disk lba, d') \<and> ready d'"
    and sector_length: "ready d \<Longrightarrow> length (disk lba) = 512"
begin

text \<open>However many sectors are read, and in whatever order, each read gives the sector asked for.\<close>

lemma read_many: "ready d \<Longrightarrow> \<exists>d'. io_fold cb lbas buf d = Some (last (buf # map disk lbas), d') \<and> ready d'"
proof (induction lbas arbitrary: buf d)
  case (Cons lba lbas)
  from cb_reads [OF Cons.prems] obtain d1 where d1: "cb lba buf d = Some (disk lba, d1)" "ready d1" by blast
  with Cons.IH [OF d1(2), of "disk lba"] show ?case by auto
qed simp

text \<open>So the device state does not matter to the file system.\<close>

lemma answer_fixed: "ready d \<Longrightarrow> fst (the (cb lba buf d)) = disk lba"
  using cb_reads [of d lba buf] by auto

lemma volume_reads: "ready d \<Longrightarrow> read_sector v = (\<lambda>lba buf. fst (the (cb lba buf d))) \<Longrightarrow> reads_disk disk v"
  using sector_length by (simp add: reads_disk_def answer_fixed)

end

section \<open>The driver as a source\<close>

lemma length_word_bytes: "length (word_bytes ws) = 2 * length ws"
  by (induction ws) (simp_all add: word_bytes_def)

lemma setup_transfer_28: "setup_transfer b dr lba = setup_transfer b dr (take_bit 28 lba)"
proof -
  have m: "(0xFF :: u32) = mask 8" "(0x0F :: u32) = mask 4" by (simp_all add: mask_eq_exp_minus_1)
  have "lba AND 0xFF = take_bit 28 lba AND 0xFF" "drop_bit 8 lba AND 0xFF = drop_bit 8 (take_bit 28 lba) AND 0xFF"
    "drop_bit 16 lba AND 0xFF = drop_bit 16 (take_bit 28 lba) AND 0xFF" "drop_bit 24 lba AND 0x0F = drop_bit 24 (take_bit 28 lba) AND 0x0F"
    unfolding m by (rule bit_word_eqI; auto simp: bit_simps)+
  then show ?thesis by (simp only: setup_transfer_def fun_eq_iff simp_thms)
qed

lemma ata_read_28: "ata_read b s drv lba = ata_read b s drv (take_bit 28 lba)"
  unfolding ata_read_def fun_eq_iff by (subst setup_transfer_28) (rule allI refl)+

text \<open>A drive that obeys the laws, its record in the driver, and a device state in which it answers.\<close>

definition ata_ready :: "'d bus \<Rightarrow> ata \<Rightarrow> u8 \<Rightarrow> (bool \<Rightarrow> nat \<Rightarrow> u16 list) \<Rightarrow> nat \<Rightarrow> ('d \<Rightarrow> ata_view) \<Rightarrow> 'd \<Rightarrow> bool" where
  "ata_ready b a drv disk delay view d \<longleftrightarrow>
     unat drv < ATA_MAX_DRIVES \<and> d_present (drives a ! unat drv) \<and> d_slave (drives a ! unat drv) \<in> {0, 1} \<and>
     ata_laws b (d_base (drives a ! unat drv)) disk delay view \<and> v_busy (view d) < POLLS"

lemma ata_read_one:
  assumes "ata_ready b a drv disk delay view d" "unat lba < 2 ^ 28"
  shows "\<exists>d'. ata_read b a drv lba 1 d = Some ((0, disk (d_slave (drives a ! unat drv) = 1) (unat lba)), d') \<and>
    ata_ready b a drv disk delay view d'"
proof -
  define dr where "dr = drives a ! unat drv"
  note r = assms(1) [unfolded ata_ready_def dr_def [symmetric]]
  then have laws: "ata_laws b (d_base dr) disk delay view" and sl: "d_slave dr = 0 \<or> d_slave dr = 1" by auto
  from wait_busy_ready [OF laws, of d] r obtain d1 where
    d1: "wait_busy b (d_base dr) d = Some (0, d1)" "v_busy (view d1) = 0" by force
  let ?x = "disk (d_slave dr = 1) (unat lba)"
  from setup_transfer_view [OF laws d1(2), of lba 1] obtain d2 where
    d2: "setup_transfer b dr lba 1 ATA_CMD_READ_PIO d1 = Some ((), d2)" "v_busy (view d2) = delay" "v_data (view d2) = ?x"
    using sel_bits [OF assms(2) sl] lba_bytes [OF assms(2)]
    by (auto simp: Let_def cmd_lba_def cmd_count_def sectors_of_def)
  have x: "delay < POLLS" "length ?x = 256" using laws by (simp_all add: ata_laws_def)
  then have "?x \<noteq> []" by auto
  with wait_drq_ready [OF laws, of d2] d2 x obtain d3 where
    d3: "wait_drq b (d_base dr) d2 = Some (0, d3)" "v_busy (view d3) = 0" "v_data (view d3) = ?x" by force
  from read_words_sector [OF laws d3(2), of ?x "[]" "[]"] d3(3) x(2) obtain d4 where
    d4: "read_words b (d_base dr) [] d3 = Some (?x, d4)" "v_busy (view d4) = 0" by force
  have "ata_read b a drv lba 1 d = Some ((0, ?x), d4)"
    using d1 d2 d3 d4 r by (simp add: ata_read_def dr_def [symmetric] numeral_eq_Suc)
  moreover have "ata_ready b a drv disk delay view d4"
    using r d4(2) unfolding ata_ready_def dr_def [symmetric] by (simp add: POLLS_def)
  ultimately show ?thesis unfolding dr_def by blast
qed

interpretation ata_source: sector_source "sector_cb b a drv" "ata_ready b a drv disk delay view"
    "ata_sector (disk (d_slave (drives a ! unat drv) = 1))"
  for b a drv disk delay view
proof
  fix d lba buf assume r: "ata_ready b a drv disk delay view d"
  have u: "unat (take_bit 28 lba :: u32) = unat lba mod 2 ^ 28" by (simp only: unsigned_take_bit_eq take_bit_eq_mod [where 'a = nat])
  then have "unat (take_bit 28 lba :: u32) < 2 ^ 28" by simp
  from ata_read_one [OF r this] obtain d' where
    d': "ata_read b a drv lba 1 d = Some ((0, disk (d_slave (drives a ! unat drv) = 1) (unat lba mod 2 ^ 28)), d')" "ata_ready b a drv disk delay view d'"
    unfolding u ata_read_28 [of b a drv lba, symmetric] by blast
  have "length (disk sl k) = 256" for sl k using r by (simp add: ata_ready_def ata_laws_def)
  with d' r show "\<exists>d'. sector_cb b a drv lba buf d =
      Some (ata_sector (disk (d_slave (drives a ! unat drv) = 1)) lba, d') \<and>
      ata_ready b a drv disk delay view d'"
    by (auto simp: sector_cb_def ata_read_cb_def ata_sector_def)
next
  fix d lba assume "ata_ready b a drv disk delay view d"
  then show "length (ata_sector (disk (d_slave (drives a ! unat drv) = 1)) lba) = 512"
    by (auto simp: ata_sector_def length_word_bytes ata_ready_def ata_laws_def)
qed


section \<open>Properties\<close>

text \<open>
  Any sequence of sector reads through the callback returns, and the buffer then holds the last sector asked for, whatever the
  drive's delays; numbers beyond 28 bits wrap around.
\<close>

theorem sector_cb_reads:
  assumes "ata_ready b a drv disk delay view d" "lbas \<noteq> []"
  shows "\<exists>d'. io_fold (sector_cb b a drv) lbas buf d = Some (ata_sector (disk (d_slave (drives a ! unat drv) = 1)) (last lbas), d')"
  using ata_source.read_many [OF assms(1), of lbas buf] assms(2) by (auto simp: last_map)



text \<open>The sample drive, whose sector \<open>k\<close> holds \<open>k\<close> in every word, with a file of 100 bytes in cluster 3, that is sector 9.\<close>

definition sample_ata_vol :: fat32_vol where
  "sample_ata_vol = sample_vol\<lparr>read_sector := (\<lambda>lba buf. fst (the (sector_cb sample_drive sample_ata 0 lba buf sample_view)))\<rparr>"

definition sample_ata_fs :: fs where
  "sample_ata_fs = sample_fat_fs\<lparr>fvols := (\<lambda>_. sample_ata_vol), ffiles := (\<lambda>_. \<lparr>ff_vol = 1, start_cluster = 3, file_size = 100\<rparr>)\<rparr>"

lemma sample_ata_ready: "ata_ready sample_drive sample_ata 0 Ata.sample_disk 2 (\<lambda>v. v) sample_view"
  using sample_drive_laws by (simp add: ata_ready_def sample_ata_def ATA_MAX_DRIVES_def sample_view_def POLLS_def)

lemma sample_sector_9: "cluster_data (ata_sector (Ata.sample_disk False)) sample_ata_vol 3 = concat (replicate 256 [9, 0])"
  by (simp add: cluster_data_def run_data_def cluster_to_lba_def sample_ata_vol_def sample_vol_def ata_sector_def Ata.sample_disk_def word_bytes_def map_replicate_const)


end
