(* ===== verification/FatLayout.thy ===== *)
theory FatLayout
  imports EfiTables Fat32
begin

text \<open>
  The on-disk structures of \<^verbatim>\<open>kernel/fs/fat32.h\<close>, which the file system lays over its sector buffer.  They are packed: every field
  follows the one before without alignment.  The definitions of \<^verbatim>\<open>Fat32\<close> read the buffer at fixed offsets; here these offsets are
  derived from the declarations.
\<close>

definition u8_packed :: "string \<Rightarrow> nat \<Rightarrow> field" where "u8_packed x n = (x, n, 1)"
definition u16_packed :: "string \<Rightarrow> nat \<Rightarrow> field" where "u16_packed x n = (x, 2 * n, 1)"
definition u32_packed :: "string \<Rightarrow> nat \<Rightarrow> field" where "u32_packed x n = (x, 4 * n, 1)"

definition fat32_bpb_fields :: "field list" where
  "fat32_bpb_fields =
     [u8_packed ''jmp'' 3, u8_packed ''oem'' 8, u16_packed ''bytes_per_sector'' 1, u8_packed ''sectors_per_cluster'' 1,
      u16_packed ''reserved_sectors'' 1, u8_packed ''num_fats'' 1, u16_packed ''root_entry_count'' 1, u16_packed ''total_sectors_16'' 1,
      u8_packed ''media'' 1, u16_packed ''fat_size_16'' 1, u16_packed ''sectors_per_track'' 1, u16_packed ''num_heads'' 1,
      u32_packed ''hidden_sectors'' 1, u32_packed ''total_sectors_32'' 1, u32_packed ''fat_size_32'' 1, u16_packed ''ext_flags'' 1,
      u16_packed ''fs_version'' 1, u32_packed ''root_cluster'' 1, u16_packed ''fs_info'' 1, u16_packed ''backup_boot'' 1,
      u8_packed ''reserved'' 12, u8_packed ''drive_num'' 1, u8_packed ''reserved2'' 1, u8_packed ''boot_sig'' 1,
      u32_packed ''volume_id'' 1, u8_packed ''volume_label'' 11, u8_packed ''fs_type'' 8]"

definition fat32_dirent_fields :: "field list" where
  "fat32_dirent_fields =
     [u8_packed ''name'' 8, u8_packed ''ext'' 3, u8_packed ''attr'' 1, u8_packed ''reserved'' 1, u8_packed ''ctime_tenths'' 1,
      u16_packed ''ctime'' 1, u16_packed ''cdate'' 1, u16_packed ''adate'' 1, u16_packed ''cluster_hi'' 1, u16_packed ''mtime'' 1,
      u16_packed ''mdate'' 1, u16_packed ''cluster_lo'' 1, u32_packed ''size'' 1]"

definition fat32_lfn_fields :: "field list" where
  "fat32_lfn_fields =
     [u8_packed ''order'' 1, u16_packed ''name1'' 5, u8_packed ''attr'' 1, u8_packed ''type'' 1, u8_packed ''checksum'' 1,
      u16_packed ''name2'' 6, u16_packed ''first_cluster'' 1, u16_packed ''name3'' 2]"

definition struct_size :: "field list \<Rightarrow> nat" where
  "struct_size fs = sum_list (map (\<lambda>(_, n, _). n) fs)"

definition fld :: "field list \<Rightarrow> string \<Rightarrow> nat" where
  "fld fs x = the (offset_of fs x)"

text \<open>The code units of a field that is an array of 16-bit words.\<close>

definition le16s :: "u8 list \<Rightarrow> nat \<Rightarrow> nat \<Rightarrow> u16 list" where
  "le16s e i n = map (\<lambda>k. le16 e (i + 2 * k)) [0 ..< n]"

section \<open>Where the code reads\<close>

lemma dirent_offsets:
  "fld fat32_dirent_fields ''attr'' = 11" "fld fat32_dirent_fields ''cluster_hi'' = 20" "fld fat32_dirent_fields ''cluster_lo'' = 26"
  "fld fat32_dirent_fields ''size'' = 28" "fld fat32_dirent_fields ''ext'' = 8"
  by code_simp+

lemma lfn_offsets:
  "fld fat32_lfn_fields ''name1'' = 1" "fld fat32_lfn_fields ''name2'' = 14" "fld fat32_lfn_fields ''name3'' = 28"
  by code_simp+

lemma bpb_offsets:
  "fld fat32_bpb_fields ''bytes_per_sector'' = 11" "fld fat32_bpb_fields ''sectors_per_cluster'' = 13"
  "fld fat32_bpb_fields ''reserved_sectors'' = 14" "fld fat32_bpb_fields ''num_fats'' = 16" "fld fat32_bpb_fields ''fat_size_32'' = 36"
  "fld fat32_bpb_fields ''root_cluster'' = 44"
  by code_simp+

lemma le16s_upt: "[0 ..< 5] = [0, 1, 2, 3, 4 :: nat]" "[0 ..< 6] = [0, 1, 2, 3, 4, 5 :: nat]" "[0 ..< 2] = [0, 1 :: nat]"
  by (simp_all add: upt_rec)

lemma offsets_eval: "struct_size fat32_bpb_fields = 90" "struct_size fat32_dirent_fields = 32" "struct_size fat32_lfn_fields = 32"
  "fld fat32_lfn_fields ''attr'' = 11" "fld fat32_dirent_fields ''name'' = 0"
  by code_simp+

text \<open>
  The structures have the sizes of the FAT specification: 90 bytes of boot parameters, and 16 directory entries of either kind in a
  sector.  The name, attributes, cluster and size of an entry and the three runs of a long name are read from the fields declared
  for them, and the attributes of both kinds of entry, which tell them apart, are in the same place.
\<close>

theorem fat32_entry_layout:
  "struct_size fat32_bpb_fields = 90 \<and> 16 * struct_size fat32_dirent_fields = 512 \<and> 16 * struct_size fat32_lfn_fields = 512 \<and>
   fld fat32_lfn_fields ''attr'' = fld fat32_dirent_fields ''attr'' \<and>
   de_name e = take 8 (drop (fld fat32_dirent_fields ''name'') e) \<and> de_ext e = take 3 (drop (fld fat32_dirent_fields ''ext'') e) \<and>
   de_attr e = e ! fld fat32_dirent_fields ''attr'' \<and>
   de_cluster e = push_bit 16 (ucast (le16 e (fld fat32_dirent_fields ''cluster_hi''))) OR ucast (le16 e (fld fat32_dirent_fields ''cluster_lo'')) \<and>
   de_size e = le32 e (fld fat32_dirent_fields ''size'') \<and>
   lfn_entry e out = lfn_run (le16s e (fld fat32_lfn_fields ''name3'') 2)
     (lfn_run (le16s e (fld fat32_lfn_fields ''name2'') 6) (lfn_run (le16s e (fld fat32_lfn_fields ''name1'') 5) out))"
  unfolding offsets_eval dirent_offsets lfn_offsets
  by (simp add: de_name_def de_ext_def de_attr_def de_cluster_def de_size_def lfn_entry_def le16s_def le16s_upt)

text \<open>Mounting takes each parameter of the volume from its field of the boot sector.\<close>

theorem fat32_mount_layout:
  fixes lba :: u32 and read_fn
  defines "bpb \<equiv> read_fn lba (replicate 512 0)"
  assumes "le16 bpb (fld fat32_bpb_fields ''bytes_per_sector'') = 512" "fat32_mount lba read_fn s = (n, s')"
  shows "\<exists>v. fvols s' v = \<lparr>part_lba = lba, fat_lba = lba + ucast (le16 bpb (fld fat32_bpb_fields ''reserved_sectors'')),
      data_lba = lba + ucast (le16 bpb (fld fat32_bpb_fields ''reserved_sectors'')) +
        ucast (bpb ! fld fat32_bpb_fields ''num_fats'') * le32 bpb (fld fat32_bpb_fields ''fat_size_32''),
      root_cluster = le32 bpb (fld fat32_bpb_fields ''root_cluster''),
      sectors_per_cluster = ucast (bpb ! fld fat32_bpb_fields ''sectors_per_cluster''),
      bytes_per_cluster = ucast (bpb ! fld fat32_bpb_fields ''sectors_per_cluster'') * 512, read_sector = read_fn, sector_buf = bpb\<rparr>"
proof -
  obtain v t where a: "alloc s = (v, t)" by fastforce
  have "fvols (snd (make_dir_node w x c u)) = fvols u" for w x c u
    by (simp add: make_dir_node_def alloc_def Let_def split_beta)
  from this [of v] assms(2,3) show ?thesis unfolding bpb_offsets
    by (auto simp: fat32_mount_def a read_buf_def bpb_def Let_def intro!: exI [of _ v] dest!: arg_cong [of _ _ snd])
qed

end
