(* ===== verification/Devices.thy ===== *)
theory Devices
  imports Kmain Usb
begin

text \<open>
  The part of \<^verbatim>\<open>kernel/kmain.c\<close> that starts the buses and devices, from \<^verbatim>\<open>pci_init\<close> to the disk, over the state of all the
  components it touches: what the bus scan finds is what the drivers look at, and the controllers take their buffers from one
  frame allocator.
\<close>

record machine =
  m_pci :: pci
  m_xhci :: xhci
  m_bt :: bool
  m_net :: netdev
  m_frames :: pmm
  m_ata :: ata
  m_vfs :: vfs
  m_fs :: fs

definition kmain_devices ::
  "'w::len itself \<Rightarrow> 'd bus \<Rightarrow> 'd mmio \<Rightarrow> 'd dma \<Rightarrow> announce_fn \<Rightarrow> u8 list \<Rightarrow> (u32 \<Rightarrow> u8 list \<Rightarrow> u8 list) \<Rightarrow> machine \<Rightarrow> ('d, machine) io" where
  "kmain_devices w b io mm announce stack read_fn m =
     andthen (pci_init b (m_pci m)) (\<lambda>p.
     andthen (xhci_init w b io mm p (m_xhci m, m_frames m)) (\<lambda>(_, x, f).
     let bt = snd (bluetooth_detect p (m_bt m));
         n = net_init (snd (m_net m))
     in andthen (net_bring_up w b mm announce stack p ((fst (m_net m), n), f)) (\<lambda>(n, f).
        andthen (kmain_disk b read_fn (m_ata m, m_vfs m, m_fs m)) (\<lambda>(a, v, s).
          ret \<lparr>m_pci = p, m_xhci = x, m_bt = bt, m_net = n, m_frames = f, m_ata = a, m_vfs = v, m_fs = s\<rparr>))))"

section \<open>Every routine returns\<close>

context still_machine
begin

lemma safe_pci_init [intro!, simp]: "safe Q (pci_init b s)"
proof -
  have p: "safe Q (Pci.probe b x y z s)" for x y z s
    by (auto simp: Pci.probe_def pci_bars_def Let_def)
  have f: "safe Q (scan_fn b x y z s)" for x y z s using p by (auto simp: scan_fn_def)
  have "safe Q (scan_dev b x y s)" for x y s using p f by (auto simp: scan_dev_def Let_def)
  then show ?thesis unfolding pci_init_def by (intro safe_io_fold)
qed

lemma safe_rtl_regs [intro!, simp]:
  "safe Q (rtl_rb b s g)" "safe Q (rtl_wb b s g x)" "safe Q (rtl_ww b s g y)" "safe Q (rtl_wl b s g z)"
  by (simp_all add: rtl_rb_def rtl_wb_def rtl_ww_def rtl_wl_def)

lemma safe_rtl [intro!, simp]:
  fixes cb :: 'c
  shows "safe Q (rtl8139_init w b mm cb p s)" "safe Q (rtl8139_send b mm data len r)"
proof -
  have "safe Q (await_reset n b s)" for n and s :: "'c rtl" by (induction n) auto
  moreover have "safe Q (read_mac b s)" for s :: "'c rtl" unfolding read_mac_def by auto
  ultimately have "safe Q (rtl_reset b cb dev s)" for dev s by (auto simp: rtl_reset_def Let_def)
  moreover have "safe Q (alloc_tx w mm i s)" for i and s :: "'c rtl \<times> pmm"
    by (auto simp: alloc_tx_def Let_def split: prod.split)
  moreover have "safe Q (rtl_program b s)" for s :: "'c rtl" unfolding rtl_program_def by (intro safe_io_seq) auto
  ultimately show "safe Q (rtl8139_init w b mm cb p s)"
    by (auto simp: rtl8139_init_def rtl_buffers_def Let_def split: option.split prod.split)
  show "safe Q (rtl8139_send b mm data len r)" by (auto simp: rtl8139_send_def)
qed

lemma safe_net [intro!, simp]: "safe Q (net_bring_up w b mm announce stack p s)"
  by (auto simp: net_bring_up_def net_configure_def call_tx_def rtl_tx_def Let_def split: option.split prod.split net_tx.split)

lemma safe_disk [intro!, simp]: "safe Q (kmain_disk b read_fn s)"
  by (auto simp: kmain_disk_def Let_def split: prod.split)

lemma safe_devices [intro!, simp]: "safe Q (kmain_devices w b io mm announce stack read_fn m)"
  by (auto simp: kmain_devices_def Let_def split: prod.split)

end

section \<open>The card and its interface\<close>

lemma io_fold_keeps:
  assumes "\<And>x s d s' d'. f x s d = Some (s', d') \<Longrightarrow> g s' = g s"
  shows "io_fold f xs s d = Some (s', d') \<Longrightarrow> g s' = g s"
  by (induction xs arbitrary: s d) (auto simp: andthen_eq_Some dest: assms)

lemma rtl_reset_keeps_up: "rtl_reset b cb dev s d = Some (s', d') \<Longrightarrow> rtl_up s' = rtl_up s"
proof -
  have "rtl_up s' = rtl_up s" if "read_mac b s d = Some (s', d')" for s d s' d'
    using that unfolding read_mac_def by (rule io_fold_keeps [rotated]) (auto simp: andthen_eq_Some)
  then show "rtl_reset b cb dev s d = Some (s', d') \<Longrightarrow> rtl_up s' = rtl_up s"
    by (fastforce simp: rtl_reset_def Let_def andthen_eq_Some)
qed

lemma rtl8139_init_up:
  fixes w :: "'w::len itself"
  assumes "rtl8139_init w b mm cb p (s, f) d = Some ((found, s', f'), d')" "\<not> rtl_up s"
  shows "rtl_up s' = found"
proof -
  obtain x g where "(pmm_alloc_n (of_nat ((RX_BUF_SIZE + 4095) div 4096)) f :: 'w word \<times> pmm) = (x, g)" by fastforce
  with assms show ?thesis
    by (auto simp: rtl8139_init_def rtl_buffers_def Let_def andthen_eq_Some
        split: option.splits if_splits dest: rtl_reset_keeps_up)
qed

lemma call_tx_keeps:
  "call_tx b mm ann len (r, n) d = Some ((r', n'), d') \<Longrightarrow> rtl_up r' = rtl_up r \<and> rx_buf r' = rx_buf r \<and> n' = n"
  by (auto simp: call_tx_def rtl_tx_def rtl8139_send_def andthen_eq_Some split: option.splits net_tx.splits if_splits)

lemma net_bring_up_up:
  assumes "net_bring_up w b mm announce stack p ((r, n), f) d = Some (((r', n'), f'), d')" "\<not> rtl_up r" "\<not> iface_up n"
  shows "iface_up n' = rtl_up r'"
proof -
  obtain found r1 f1 d1 where i: "rtl8139_init w b mm Rtl_rx p (r, f) d = Some ((found, r1, f1), d1)"
    using assms(1) by (auto simp: net_bring_up_def andthen_eq_Some)
  note up = rtl8139_init_up [OF i assms(2)]
  show ?thesis
  proof (cases found)
    case True
    with i assms(1) up show ?thesis
      by (auto simp: net_bring_up_def net_configure_def net_set_interface_def andthen_eq_Some Let_def
          split: prod.splits if_splits dest!: call_tx_keeps)
  next
    case False
    with i assms(1,3) up show ?thesis by (auto simp: net_bring_up_def andthen_eq_Some)
  qed
qed

lemma kmain_devices_net:
  assumes "kmain_devices w b io mm announce stack read_fn m d = Some (m', d')" "\<not> rtl_up (fst (m_net m))"
  shows "iface_up (snd (m_net m')) \<longleftrightarrow> rtl_up (fst (m_net m'))"
  using assms net_bring_up_up [where r = "fst (m_net m)" and n = "net_init (snd (m_net m))"]
  by (fastforce simp: kmain_devices_def Let_def andthen_eq_Some net_init_def)

section \<open>The disk and the files\<close>

text \<open>Mounting a volume adds objects and leaves the trees of the memory file system alone.\<close>

definition fs_grown :: "fs \<Rightarrow> fs \<Rightarrow> bool" where
  "fs_grown s s' \<longleftrightarrow> brk s \<le> brk s' \<and> tdirs s' = tdirs s \<and> tfiles s' = tfiles s \<and> (\<forall>n<brk s. nodes s' n = nodes s n)"

lemma fat32_mount_grown: "fs_grown s (snd (fat32_mount lba read_fn s))"
  by (simp add: fs_grown_def fat32_mount_def make_dir_node_def alloc_def Let_def)

lemma mount_data_root: "vfs_root (snd (vfs_mount (c_string ''/data'') n m)) = vfs_root m"
  by (simp add: vfs_mount_def c_string_def Let_def)

lemma kmain_disk_grown:
  assumes "kmain_disk b read_fn (a, m, s) d = Some ((a', m', s'), d')"
  shows "fs_grown s s' \<and> vfs_root m' = vfs_root m"
proof -
  have "fs_grown s s" by (simp add: fs_grown_def)
  with assms fat32_mount_grown [of s 2048 read_fn] mount_data_root show ?thesis
    by (auto simp: kmain_disk_def andthen_eq_Some Let_def split: prod.splits if_splits)
qed

lemma fs_grown_entries:
  assumes "fs_grown s s'" "tmpfs_inv s" "known s d"
  shows "nodes s' d = nodes s d" "tmpfs_entries s' d = tmpfs_entries s d" "tmpfs_finddir d x s' = tmpfs_finddir d x s" "known s' d"
proof -
  show n: "nodes s' d = nodes s d" using assms by (simp add: fs_grown_def known_def)
  then show e: "tmpfs_entries s' d = tmpfs_entries s d" "known s' d"
    using assms(1,3) by (auto simp: tmpfs_entries_def fs_grown_def known_def)
  have "n_name (nodes s' m) = n_name (nodes s m)" if "m \<in> set (tmpfs_entries s d)" for m
    using tmpfs_entries_pos(2) [OF assms(2) that] assms(1) by (simp add: fs_grown_def)
  with e(1) show "tmpfs_finddir d x s' = tmpfs_finddir d x s" unfolding tmpfs_finddir_find by (simp cong: find_cong)
qed

lemma fs_grown_boot_tree:
  assumes "fs_grown s s'" "boot_tree m etc s" "vfs_root m' = vfs_root m"
  shows "boot_tree m' etc s'" "tmpfs_finddir etc x s' = tmpfs_finddir etc x s"
proof -
  have k: "tmpfs_inv s" "known s (vfs_root m)" "known s etc" using assms(2) by (simp_all add: boot_tree_def is_dir_def)
  note e = fs_grown_entries [OF assms(1) k(1)]
  have "tmpfs_inv s'" using assms(1) k(1) by (fastforce simp: fs_grown_def tmpfs_inv_def)
  with assms(2,3) k e show "boot_tree m' etc s'" by (simp add: boot_tree_def is_dir_def)
  show "tmpfs_finddir etc x s' = tmpfs_finddir etc x s" by (rule e(3) [OF k(3)])
qed

lemma kmain_devices_tree:
  assumes "kmain_devices w b io mm announce stack read_fn m d = Some (m', d')" "boot_tree (m_vfs m) etc (m_fs m)"
  shows "boot_tree (m_vfs m') etc (m_fs m')" "tmpfs_finddir etc x (m_fs m') = tmpfs_finddir etc x (m_fs m)"
proof -
  have "fs_grown (m_fs m) (m_fs m') \<and> vfs_root (m_vfs m') = vfs_root (m_vfs m)"
    using assms(1) by (auto simp: kmain_devices_def Let_def andthen_eq_Some dest!: kmain_disk_grown)
  then show "boot_tree (m_vfs m') etc (m_fs m')" "tmpfs_finddir etc x (m_fs m') = tmpfs_finddir etc x (m_fs m)"
    using fs_grown_boot_tree assms(2) by blast+
qed

section \<open>Properties\<close>


text \<open>A machine on which every port and register reads as all ones and no memory is free.\<close>

definition sample_machine :: machine where
  "sample_machine = \<lparr>m_pci = \<lparr>devices = [], ndevices = 0\<rparr>, m_xhci = \<lparr>x_found = False, x_mmio = 0, cap_len = 0, n_ports = 0\<rparr>, m_bt = False,
     m_net = (fst sample_netdev\<lparr>rtl_up := False\<rparr>, snd sample_netdev), m_frames = \<lparr>bitmap = [], total_bytes = 0, used_bytes = 0\<rparr>,
     m_ata = sample_ata, m_vfs = \<lparr>mounts = [], vfs_root = 0\<rparr>, m_fs = sample_fat_fs\<rparr>"


end
