(* ===== verification/DeviceMemory.thy ===== *)
theory DeviceMemory
  imports Devices BootMemory
begin

text \<open>
  The memory of the devices: which frames the controllers get for their buffers when \<^verbatim>\<open>kmain\<close> starts them after the memory managers.
\<close>

section \<open>The frames after start-up\<close>

text \<open>The frames below \<open>k\<close> are taken and those from \<open>k\<close> to 16 MiB are free.\<close>

definition taken_below :: "nat \<Rightarrow> pmm \<Rightarrow> bool" where
  "taken_below k f \<longleftrightarrow> pmm_inv f \<and> {..<k} \<subseteq> used_pages f \<and> {k ..< 0x1000} \<inter> used_pages f = {}"

lemma kmain_memory_frames:
  assumes "boot_ok mmap bss_end bm (pml4 m)" "kmain_memory mmap bss_end bm (m, h) = (m', h')"
  shows "taken_below (image_pages bss_end + 2052) (frames m')" "h' = heap_init X86_64 HEAP_START HEAP_SIZE h"
  using vmm_init_fills(2,3,5) [OF assms(1)] assms(2) by (auto simp: kmain_memory_def taken_below_def Let_def)

lemma taken_below_test:
  assumes "taken_below k f" "k \<le> 0x1000"
  shows "i < k \<Longrightarrow> test_page f i" "k \<le> i \<Longrightarrow> i < 0x1000 \<Longrightarrow> \<not> test_page f i"
proof -
  have lim: "0x1000 \<le> MAX_PAGES" by (simp add: MAX_PAGES_def)
  then show "i < k \<Longrightarrow> test_page f i" using assms by (auto simp: taken_below_def subset_iff mem_used_pages)
  show "k \<le> i \<Longrightarrow> i < 0x1000 \<Longrightarrow> \<not> test_page f i"
    using assms(1) lim by (auto simp: taken_below_def disjoint_iff mem_used_pages)
qed

lemma alloc_next_frames:
  assumes "taken_below k f" "1 \<le> k" "n \<noteq> 0" "k + unat n \<le> 0x1000" "pmm_alloc_n n f = (p :: u64, f')"
  shows "unat p = 4096 * k" "taken_below (k + unat n) f'"
proof -
  have inv: "pmm_inv f" using assms(1) by (simp add: taken_below_def)
  have n: "0 < unat n" using assms(3) by (simp add: unat_gt_0)
  have k: "k \<le> 0x1000" using assms(4) by simp
  note t = taken_below_test [OF assms(1) k]
  have run: "free_run f k (unat n)" using t(2) assms(4) by (simp add: free_run_def)
  have lim: "k + unat n \<le> MAX_PAGES" using assms(4) by (simp add: MAX_PAGES_def)
  obtain a where a: "1 \<le> a" "a + unat n \<le> MAX_PAGES" "free_run f a (unat n)" "\<forall>b. 1 \<le> b \<and> b < a \<longrightarrow> \<not> free_run f b (unat n)"
    "p = push_bit PAGE_SHIFT (of_nat a)" "f' = fold take_page [a ..< a + unat n] f"
    using pmm_alloc_n_from_cases [of 0 "unat n" 1 0 f, where 'w = 64] n assms(2,3,5) run lim by (auto simp: pmm_alloc_n_def)
  have "\<not> a < k" using t(1) [of a] a(3) n by (auto simp: free_run_def)
  moreover have "\<not> k < a" using a(4) run assms(2) by blast
  ultimately have a_k: "a = k" by simp
  show "unat p = 4096 * k" using unat_page_addr [of a, where 'w = 64] a(2,5) n a_k by simp
  show "taken_below (k + unat n) f'"
    using take_run_inv [OF inv a(2,3)] assms(1) unfolding a(6) a_k by (auto simp: taken_below_def disjoint_iff)
qed

lemma alloc_next_frame:
  assumes "taken_below k f" "1 \<le> k" "k < 0x1000" "pmm_alloc f = (p :: u64, f')"
  shows "taken_below (k + 1) f'"
proof -
  have inv: "pmm_inv f" using assms(1) by (simp add: taken_below_def)
  have lim: "0x1000 \<le> MAX_PAGES" by (simp add: MAX_PAGES_def)
  have "{..<k} \<subseteq> used_pages f" "k \<notin> used_pages f" using assms(1,3) by (auto simp: taken_below_def disjoint_iff)
  from next_frame [OF inv this assms(2)] assms(3,4) lim have p: "p = push_bit PAGE_SHIFT (of_nat k)" by auto
  then have u: "unat p = 4096 * k" using unat_page_addr [of k, where 'w = 64] assms(3) lim by simp
  then have nz: "p \<noteq> 0" using assms(2) by auto
  from pmm64.alloc_page [OF inv assms(4) nz] u assms(1) show ?thesis
    by (auto simp: taken_below_def lessThan_Suc disjoint_iff)
qed

section \<open>What the controllers take\<close>

lemma xhci_init_frames:
  assumes "xhci_init TYPE(64) b io mm p (x, f) d = Some ((r, x', f'), d')" "taken_below k f" "1 \<le> k" "k < 0x1000"
  shows "taken_below k f' \<or> taken_below (k + 1) f'"
proof -
  obtain q g where q: "pmm_alloc f = (q :: u64, g)" by fastforce
  have "h = g" if "xhci_contexts TYPE(64) io mm y f d = Some (h, d')" for y h d d'
    using that by (auto simp: xhci_contexts_def q Let_def andthen_eq_Some split: if_splits)
  then have "h = g" if "xhci_start TYPE(64) b io mm dev slots y f d = Some (h, d')" for dev slots y h d d'
    using that by (auto simp: xhci_start_def andthen_eq_Some)
  then have "f' = f \<or> f' = g"
    using assms(1) by (auto simp: xhci_init_def Let_def andthen_eq_Some split: option.splits if_splits)
  with alloc_next_frame [OF assms(2-4) q] assms(2) show ?thesis by auto
qed

lemma rtl8139_init_frames:
  assumes "rtl8139_init TYPE(64) b mm cb p (s, f) d = Some ((found, s', f'), d')" "taken_below k f" "1 \<le> k" "k + 3 \<le> 0x1000"
  shows "found \<longleftrightarrow> rtl_find p \<noteq> None" "found \<Longrightarrow> rx_buf s' = 4096 * k"
proof -
  obtain q g where q: "pmm_alloc_n 3 f = (q :: u64, g)" by fastforce
  have pages: "(RX_BUF_SIZE + 4095) div 4096 = 3" by (simp add: RX_BUF_SIZE_def)
  have u: "unat q = 4096 * k" using alloc_next_frames(1) [OF assms(2,3) _ _ q] assms(4) by simp
  then have nz: "q \<noteq> 0" using assms(3) by auto
  have tx: "rx_buf (fst r') = rx_buf (fst r)" if "io_fold (alloc_tx TYPE(64) mm) xs r d = Some (r', d')" for xs r r' d d'
    using that by (rule io_fold_keeps [rotated]) (auto simp: alloc_tx_def Let_def andthen_eq_Some split: prod.splits)
  show "found \<longleftrightarrow> rtl_find p \<noteq> None" "found \<Longrightarrow> rx_buf s' = 4096 * k"
    using assms(1) nz u by (auto simp: rtl8139_init_def rtl_buffers_def pages q Let_def andthen_eq_Some
        split: option.splits dest!: tx)
qed

lemma net_bring_up_frames:
  assumes "net_bring_up TYPE(64) b mm announce stack p ((r, n), f) d = Some (((r', n'), f'), d')" "\<not> rtl_up r"
    and "taken_below k f" "1 \<le> k" "k + 3 \<le> 0x1000"
  shows "rtl_up r' \<longleftrightarrow> rtl_find p \<noteq> None" "rtl_up r' \<Longrightarrow> rx_buf r' = 4096 * k"
proof -
  obtain found r1 f1 d1 where i: "rtl8139_init TYPE(64) b mm Rtl_rx p (r, f) d = Some ((found, r1, f1), d1)"
    using assms(1) by (auto simp: net_bring_up_def andthen_eq_Some)
  have "rtl_up r' = found \<and> (found \<longrightarrow> rx_buf r' = rx_buf r1)"
    using assms(1) i rtl8139_init_up [OF i assms(2)]
    by (auto simp: net_bring_up_def net_configure_def net_set_interface_def andthen_eq_Some Let_def
        split: prod.splits if_splits dest!: call_tx_keeps)
  with rtl8139_init_frames [OF i assms(3-5)] show "rtl_up r' \<longleftrightarrow> rtl_find p \<noteq> None" "rtl_up r' \<Longrightarrow> rx_buf r' = 4096 * k" by auto
qed

lemma kmain_devices_ring:
  assumes "kmain_devices TYPE(64) b io mm announce stack read_fn m d = Some (m', d')" "\<not> rtl_up (fst (m_net m))"
    and "taken_below k (m_frames m)" "1 \<le> k" "k + 4 \<le> 0x1000"
  shows "rtl_up (fst (m_net m')) \<longleftrightarrow> rtl_find (m_pci m') \<noteq> None"
    "rtl_up (fst (m_net m')) \<Longrightarrow> rx_buf (fst (m_net m')) \<in> {4096 * k, 4096 * (k + 1)}"
proof -
  let ?r = "fst (m_net m)" and ?n = "net_init (snd (m_net m))"
  obtain r x f d1 d2 f' d3 where
    x: "xhci_init TYPE(64) b io mm (m_pci m') (m_xhci m, m_frames m) d1 = Some ((r, x, f), d2)" and
    n: "net_bring_up TYPE(64) b mm announce stack (m_pci m') ((?r, ?n), f) d2 = Some ((m_net m', f'), d3)"
    using assms(1) by (fastforce simp: kmain_devices_def Let_def andthen_eq_Some)
  obtain j where j: "taken_below j f" "j \<in> {k, k + 1}" using xhci_init_frames [OF x assms(3)] assms(4,5) by auto
  obtain r' n' where e: "m_net m' = (r', n')" by fastforce
  from net_bring_up_frames [OF n [unfolded e] assms(2) j(1)] j(2) assms(4,5)
  show "rtl_up (fst (m_net m')) \<longleftrightarrow> rtl_find (m_pci m') \<noteq> None"
    "rtl_up (fst (m_net m')) \<Longrightarrow> rx_buf (fst (m_net m')) \<in> {4096 * k, 4096 * (k + 1)}" by (auto simp: e)
qed

section \<open>Properties\<close>



text \<open>A machine with the card in every slot, on which every other port reads as 0.\<close>

definition card_cfg :: "u32 \<Rightarrow> u32" where
  "card_cfg a = (let r = a AND 0xFC in if r = 0 then 0x813910EC else if r = 8 then 0x02000000 else if r = 0x10 then 1 else 0)"

definition card_machine :: machine where
  "card_machine = sample_machine\<lparr>m_pci := \<lparr>devices = replicate 64 (describe card_cfg (0, 0, 0)), ndevices = 0\<rparr>\<rparr>"

lemma pci_first_function:
  assumes "present cfg (0, 0, 0)"
  obtains fs where "pci_functions cfg = (0, 0, 0) # fs"
proof -
  have f: "[0 ..< 8] = 0 # [1 ..< 8]" by (simp add: upt_rec)
  have "[0 ..< 256] = 0 # [1 ..< 256]" "[0 ..< 32] = 0 # [1 ..< 32]" by (simp_all add: upt_conv_Cons)
  then have "pci_functions cfg = slot_functions cfg 0 0 @ concat (map (slot_functions cfg 0) [1 ..< 32]) @
      concat (map (\<lambda>bus. concat (map (slot_functions cfg bus) [0 ..< 32])) [1 ..< 256])"
    unfolding pci_functions_def by (simp only: list.map concat.simps append_assoc)
  moreover have "\<exists>fs. slot_functions cfg 0 0 = (0, 0, 0) # fs" unfolding slot_functions_def f using assms by simp
  ultimately show thesis using that by auto
qed

lemma card_found:
  assumes "pci_init (cfg_bus card_cfg) (m_pci card_machine) d = Some (p, d')"
  shows "rtl_find p \<noteq> None"
proof -
  let ?s = "m_pci card_machine"
  have s: "length (devices (?s\<lparr>ndevices := 0\<rparr>)) = PCI_MAX_DEVICES" "ndevices (?s\<lparr>ndevices := 0\<rparr>) \<le> PCI_MAX_DEVICES"
    by (simp_all add: card_machine_def PCI_MAX_DEVICES_def)
  have "present card_cfg (0, 0, 0)" by (simp add: present_def card_cfg_def pci_addr_def PCI_VENDOR_NONE_def)
  then obtain fs where fs: "pci_functions card_cfg = (0, 0, 0) # fs" by (rule pci_first_function)
  have p: "p = add_all card_cfg (pci_functions card_cfg) (?s\<lparr>ndevices := 0\<rparr>)"
    using assms returns_pci_init [OF cfg_bus_laws, of card_cfg ?s] by (auto simp: returns_def) (metis option.inject prod.inject)
  have t: "take (ndevices p) (devices p) = describe card_cfg (0, 0, 0) # take 63 (map (describe card_cfg) fs)"
    using add_all_table(3) [OF s, of card_cfg "pci_functions card_cfg"] by (simp add: p fs PCI_MAX_DEVICES_def)
  then have "devices p ! 0 = describe card_cfg (0, 0, 0)" by (cases "devices p"; cases "ndevices p") simp_all
  moreover have "pci_find_class 0x02 0x00 0xFF p = Some 0"
    unfolding pci_find_class_def t by (simp add: describe_def card_cfg_def pci_addr_def Let_def)
  ultimately show ?thesis
    by (simp add: rtl_find_def describe_def card_cfg_def pci_addr_def Let_def RTL_VENDOR_def RTL_DEVICE_def)
qed


end
