(* ===== verification/Kernel.thy ===== *)
theory Kernel
  imports DeviceMemory Interrupt Input Setup
begin

text \<open>
  The whole of \<^verbatim>\<open>kmain\<close> (\<^verbatim>\<open>kernel/kmain.c\<close>) for x86-64 over one state of the kernel, from the consoles to the first switch to the shell.
  The parts that other theories have are called in the order of the code, and what one component leaves is what the next one finds.
\<close>

section \<open>The state of the kernel\<close>

record kernel =
  k_term :: terminal
  k_gdt_ptr :: gdt_ptr64
  k_gdt :: "gdt_entry list"
  k_handlers :: handlers
  k_idt_ptr :: idt_ptr64
  k_idt :: "gate64 list"
  k_pit :: pit
  k_vmm :: vmm64
  k_heap :: heap
  k_keys :: keyboard
  k_machine :: machine
  k_sched :: sched

text \<open>
  What surrounds the code: the hardware (ports, device registers, memory shared with devices, what happens during a \<^verbatim>\<open>hlt\<close>), what the boot
  loader leaves, addresses that the linker gives, memory that was not written yet, and what \<^verbatim>\<open>kmalloc\<close> returns for the shell thread.
\<close>

record 'd board =
  e_bus :: "'d bus"
  e_regs :: "'d mmio"
  e_ram :: "'d dma"
  e_hlt :: "vga \<times> keyboard \<Rightarrow> 'd \<Rightarrow> (vga \<times> keyboard) \<times> 'd"
  e_sector :: "u32 \<Rightarrow> u8 list \<Rightarrow> u8 list"
  e820_map :: "e820_entry list"
  e_bss_end :: u64
  e_bitmap :: u64
  e_gdt :: u64
  e_idt :: u64
  e_stubs :: "u64 list"
  e_buf :: nat
  e_stack :: "u8 list"
  e_stale :: name
  e_junk :: "nat \<Rightarrow> u8"
  e_trampoline :: nat
  e_idle :: tptr
  e_idle_stack :: nat
  e_thread :: tptr
  e_thread_stack :: nat
  e_shell_run :: nat

section \<open>kmain\<close>

definition kmain_setup :: "'d board \<Rightarrow> vfs \<Rightarrow> shell_state \<Rightarrow> ('d, shell_state) io" where
  "kmain_setup e v x =
     (case setup_needed (e_stale e) v (s_fs x) of
        None \<Rightarrow> (\<lambda>_. None)
      | Some (needed, s) \<Rightarrow>
          if needed
          then setup_run (e_bus e) (e_ram e) net_process_packet (e_buf e) (e_hlt e) (e_junk e) (e_stale e) v (x\<lparr>s_fs := s\<rparr>)
          else ret (x\<lparr>s_fs := s\<rparr>))"

text \<open>
  The frame allocator is in the state of the page tables; the devices get it and give it back.  The calls that register a handler or
  open an interrupt line in \<open>kmain_input\<close> and \<open>pit_init\<close> are the same functions on both targets.
\<close>

definition kmain :: "'d board \<Rightarrow> kernel \<Rightarrow> ('d, kernel outcome) io" where
  "kmain e k =
     andthen (kmain_console (e_bus e) (k_term k)) (\<lambda>t.
     let (ptr, gdt) = gdt_init64 (e_gdt e) (k_gdt k)
     in andthen (isr_init64 (e_bus e) (e_idt e) (e_stubs e) (k_handlers k, k_idt k)) (\<lambda>(hs, iptr, idt).
     andthen (pit_init (e_bus e) 100 (k_pit k) (isr_register64 32 Kmain_pit_handler hs)) (\<lambda>(p, hs).
     let (vm, h) = kmain_memory (e820_map e) (e_bss_end e) (e_bitmap e) (k_vmm k, k_heap k)
     in andthen (kmain_input (e_bus e) hs) (\<lambda>hs.
     let (v, s) = kmain_files (e_junk e) (m_vfs (k_machine k), m_fs (k_machine k));
         m = (k_machine k)\<lparr>m_frames := frames vm, m_vfs := v, m_fs := s\<rparr>
     in andthen (kmain_devices TYPE(64) (e_bus e) (e_regs e) (e_ram e) net_arp_announce (e_stack e) (e_sector e) m) (\<lambda>m.
     andthen (kmain_display (e_bus e) (e_buf e) t) (\<lambda>t.
     let c = sched_init (e_idle e) (e_idle_stack e) (k_sched k)
     in andthen (kmain_setup e (m_vfs m) \<lparr>s_term = t, s_dev = m_net m, s_keys = k_keys k, s_fs = m_fs m\<rparr>) (\<lambda>x.
     ret (case thread_create X86_64 (e_trampoline e) (e_thread e) (e_thread_stack e) ''shell'' (e_shell_run e) 0 c of
       Panic msg \<Rightarrow> Panic msg
     | Done (shell, c) \<Rightarrow>
         Done \<lparr>k_term = s_term x, k_gdt_ptr = ptr, k_gdt = gdt, k_handlers = hs, k_idt_ptr = iptr, k_idt = idt, k_pit = p,
           k_vmm = vm\<lparr>frames := m_frames m\<rparr>, k_heap = h, k_keys = s_keys x,
           k_machine = m\<lparr>m_net := s_dev x, m_fs := s_fs x\<rparr>, k_sched = sched_yield (sched_add shell c)\<rparr>))))))))"

section \<open>The parts return\<close>

context still_machine
begin

lemma safe_console [intro!, simp]: "safe Q (kmain_console b t)"
  unfolding kmain_console_def by auto

lemma safe_isr_init64 [intro!, simp]: "safe Q (isr_init64 b idt_addr stubs s)"
  unfolding isr_init64_def pic_remap64_def Let_def by (cases s) auto

lemma safe_pit_init [intro!]: "hz \<noteq> 0 \<Longrightarrow> safe Q (pit_init b hz p hs)"
proof -
  have u: "safe Q (pic_unmask_irq b i)" for i unfolding pic_unmask_irq_def by auto
  assume "hz \<noteq> 0"
  then have "pit_init b hz p hs = andthen (io_seq
      [pic_unmask_irq b 0, outb b PIT_CMD 0x36,
       outb b PIT_CH0 (ucast ((of_nat (PIT_BASE_HZ div unat hz) :: u32) AND 0xFF)),
       outb b PIT_CH0 (ucast (drop_bit 8 (of_nat (PIT_BASE_HZ div unat hz) :: u32)))])
     (\<lambda>_. ret (if hz div 1000 = 0 then p\<lparr>ticks_per_ms := 1\<rparr> else p\<lparr>ticks_per_ms := hz div 1000\<rparr>, isr_register 32 Pit_handler hs))"
    by (auto simp: pit_init_def Let_def fun_eq_iff)
  with u show ?thesis by auto
qed

lemma safe_display:
  assumes "uart_laws b busy sent"
  shows "safe Q (kmain_display b buf t)"
proof -
  have "safe Q (kprintf b buf (c_string ''Aerogel OS v0.1.0'' @ [0x0A]) [] t)" for t
    by (rule safe_kprintf [OF assms, where s = "c_string ''Aerogel OS v0.1.0'' @ [0x0A]"]) (simp_all add: c_string_def)
  then show ?thesis unfolding kmain_display_def Let_def by (auto split: prod.split)
qed

end


section \<open>The kernel starts\<close>

text \<open>
  What start-up relies on: no access to a port, a register or shared memory types a key, the serial port becomes ready, the keyboard controller answers, and
  keys arrive while the processor halts.  The linker and the heap give objects that are not null.
\<close>

definition working :: "'d board \<Rightarrow> ('d \<Rightarrow> key_event list) \<Rightarrow> bool" where
  "working e script \<longleftrightarrow>
     (\<forall>x. still_machine (e_bus e) (\<lambda>d. script d = x) (e_ram e) (e_regs e)) \<and>
     (\<exists>busy sent. uart_laws (e_bus e) busy sent) \<and> (\<exists>lull. idle_laws (e_hlt e) script lull) \<and>
     ends (keyboard_init (e_bus e) (pic_unmask_irq (e_bus e) 1)) \<and> ends (mouse_init (e_bus e) (pic_unmask_irq (e_bus e) 12)) \<and>
     e_idle e \<noteq> 0 \<and> e_thread e \<noteq> 0 \<and> e_thread e \<noteq> e_idle e \<and> e_thread_stack e \<noteq> 0"

lemma kmain_registers:
  "isr_init64 b idt_addr stubs s d = Some ((hs, ip), d') \<Longrightarrow> hs = Map.empty \<and> ip = idt_init64 idt_addr stubs (snd s)"
  "pit_init b hz p hs d = Some ((p', hs'), d') \<Longrightarrow> hs' = hs(32 \<mapsto> Pit_handler)"
  "kmain_input b hs d = Some (hs', d') \<Longrightarrow> hs' = hs(33 \<mapsto> Kb_handler, 44 \<mapsto> Mouse_handler)"
  by (auto simp: isr_init64_def pit_init_def kmain_input_def isr_register_def Let_def andthen_eq_Some split: if_splits prod.splits)

text \<open>The consoles, the interrupts and the input devices.\<close>

lemma kmain_early:
  assumes "working e script"
  obtains t d1 hs iptr idt d2 p hs3 d3 hs5 d5 where
    "kmain_console (e_bus e) (k_term k) d = Some (t, d1)"
    "isr_init64 (e_bus e) (e_idt e) (e_stubs e) (k_handlers k, k_idt k) d1 = Some ((hs, iptr, idt), d2)"
    "pit_init (e_bus e) 100 (k_pit k) (isr_register64 32 Kmain_pit_handler hs) d2 = Some ((p, hs3), d3)"
    "kmain_input (e_bus e) hs3 d3 = Some (hs5, d5)" "script d5 = script d"
    "hs5 = [32 \<mapsto> Pit_handler, 33 \<mapsto> Kb_handler, 44 \<mapsto> Mouse_handler]"
    "(iptr, idt) = idt_init64 (e_idt e) (e_stubs e) (k_idt k)"
proof -
  from assms have w: "\<And>x. still_machine (e_bus e) (\<lambda>d. script d = x) (e_ram e) (e_regs e)"
    "ends (keyboard_init (e_bus e) (pic_unmask_irq (e_bus e) 1))" "ends (mouse_init (e_bus e) (pic_unmask_irq (e_bus e) 12))"
    by (simp_all add: working_def)
  obtain t d1 where 1: "kmain_console (e_bus e) (k_term k) d = Some (t, d1)" "script d1 = script d"
    using safeD [OF still_machine.safe_console [OF w(1)] refl] by blast
  obtain hs iptr idt d2 where 2: "isr_init64 (e_bus e) (e_idt e) (e_stubs e) (k_handlers k, k_idt k) d1 = Some ((hs, iptr, idt), d2)" "script d2 = script d1"
    using safeD [OF still_machine.safe_isr_init64 [OF w(1)] refl] by (metis surj_pair)
  have idt: "hs = Map.empty" "(iptr, idt) = idt_init64 (e_idt e) (e_stubs e) (k_idt k)" using kmain_registers(1) [OF 2(1)] by simp_all
  have hz: "(100 :: u32) \<noteq> 0" by simp
  obtain p hs3 d3 where 3: "pit_init (e_bus e) 100 (k_pit k) (isr_register64 32 Kmain_pit_handler hs) d2 = Some ((p, hs3), d3)" "script d3 = script d2"
    using safeD [OF still_machine.safe_pit_init [OF w(1) hz] refl] by (metis surj_pair)
  obtain hs5 d5 where 5: "kmain_input (e_bus e) hs3 d3 = Some (hs5, d5)" "script d5 = script d3"
    using safeD [OF still_bus.safe_input [OF still_machine.axioms(1) [OF w(1)] w(2,3)] refl] by blast
  have "hs5 = [32 \<mapsto> Pit_handler, 33 \<mapsto> Kb_handler, 44 \<mapsto> Mouse_handler]"
    using idt(1) kmain_registers(2) [OF 3(1)] kmain_registers(3) [OF 5(1)] by (simp add: isr_register64_def)
  with that 1 2 3 5 idt(2) show thesis by simp
qed

lemma kmain_setup_spec:
  assumes "working e script" "kq (s_keys x) q" "q @ script d = ks @ k1 # ks' @ k2 # rest" "\<forall>y \<in> set ks. \<not> line_end y" "line_end k1"
    "\<forall>y \<in> set ks'. \<not> line_end y" "line_end k2"
    and "boot_tree v etc (s_fs x)" "tmpfs_finddir etc (c_string ''hostname'') (s_fs x) = 0"
  shows "\<exists>x' d' n. kmain_setup e v x d = Some (x', d') \<and> s_dev x' = s_dev x \<and>
    vfs_open (e_stale e) v (c_string ''/etc/hostname'') (s_fs x') = Some (n, s_fs x') \<and>
    vfs_read n 0 63 (s_fs x') = Some (host_name (typed 63 ks []), s_fs x')"
proof -
  from assms(1) obtain busy sent lull where w: "\<And>x. still_bus (e_bus e) (\<lambda>d. script d = x)" "uart_laws (e_bus e) busy sent"
    "idle_laws (e_hlt e) script lull" by (auto simp: working_def still_machine_def)
  have "length (host_name (typed 63 ks [])) \<le> 63" using host_name_ok typed_line [of "[]" 63 ks] by simp
  from setup_files_opens [OF assms(8,9) this, of "e_junk e" "e_stale e"] obtain n f where
    n: "setup_files (e_junk e) (e_stale e) v (host_name (typed 63 ks [])) (s_fs x) = Some f"
    "vfs_open (e_stale e) v (c_string ''/etc/hostname'') f = Some (n, f)" "vfs_read n 0 63 f = Some (host_name (typed 63 ks []), f)" by blast
  from setup_run_spec [OF w assms(2-9), of "e_ram e" net_process_packet "e_buf e" "e_junk e" "e_stale e"] n(1) obtain x' d' where
    r: "setup_run (e_bus e) (e_ram e) net_process_packet (e_buf e) (e_hlt e) (e_junk e) (e_stale e) v x d = Some (x', d')" "s_fs x' = f" "s_dev x' = s_dev x" by auto
  then have "kmain_setup e v x d = Some (x', d')" by (simp add: kmain_setup_def boot_tree_needed [OF assms(8,9)])
  with r n show ?thesis by auto
qed

section \<open>Properties\<close>



text \<open>A board on which only the serial port and the keyboard controller answer, and a user who types two lines.\<close>

definition desk_bus :: "(key_event list \<times> u8 list \<times> bool) bus" where
  "desk_bus = (byte_bus (\<lambda>_ _. 0) (\<lambda>p v (ks, sent, t). (ks, if p = COM1 then sent @ [v] else sent, t)))
     \<lparr>in8 := (\<lambda>p (ks, sent, t). if p = 0x64 then (if t then 1 else 0, ks, sent, \<not> t) else if p = COM1 + 5 then (0x20, ks, sent, t) else (0, ks, sent, t))\<rparr>"

definition desk :: "(key_event list \<times> u8 list \<times> bool) board" where
  "desk = \<lparr>e_bus = desk_bus, e_regs = \<lparr>rd32 = (\<lambda>_ d. (0, d)), wr32 = (\<lambda>_ _ d. d)\<rparr>, e_ram = \<lparr>peek = (\<lambda>_ _. 0), poke = (\<lambda>_ _ d. d)\<rparr>,
     e_hlt = typist, e_sector = (\<lambda>_ buf. buf), e820_map = sample_map, e_bss_end = 0x300000, e_bitmap = 0x280000, e_gdt = 0x2F0000, e_idt = 0x2E0000,
     e_stubs = replicate 48 0x200000, e_buf = 0x310000, e_stack = replicate 42 0, e_stale = [], e_junk = (\<lambda>_. 0), e_trampoline = 0x200100,
     e_idle = 0x2F1000, e_idle_stack = 0x2F2000, e_thread = 0x400040, e_thread_stack = 0x401000, e_shell_run = 0x200200\<rparr>"

definition sample_kernel :: kernel where
  "sample_kernel = \<lparr>k_term = sample_terminal, k_gdt_ptr = \<lparr>gp_limit = 0, gp_base = 0\<rparr>, k_gdt = [], k_handlers = Map.empty, k_idt_ptr = \<lparr>ip64_limit = 0, ip64_base = 0\<rparr>,
     k_idt = replicate 256 (gate64_of 0 0 0),
     k_pit = \<lparr>tick_count = 0, ticks_per_ms = 0\<rparr>, k_vmm = sample_vmm64, k_heap = blank_heap, k_keys = empty_keyboard,
     k_machine = sample_machine\<lparr>m_fs := empty_fs\<rparr>, k_sched = boot_sched\<rparr>"

lemma desk_working: "working desk fst"
proof -
  have "still_machine desk_bus (\<lambda>d. fst d = x) (e_ram desk) (e_regs desk)" for x
    by unfold_locales (auto simp: desk_def desk_bus_def byte_bus_def split: prod.splits)
  moreover have "uart_laws desk_bus (\<lambda>_. 0) (fst \<circ> snd)"
    by (auto simp: uart_laws_def desk_bus_def byte_bus_def COM1_def split: prod.splits)
  moreover have "toggling desk_bus (snd \<circ> snd)"
    by (auto simp: toggling_def desk_bus_def COM1_def)
  ultimately show ?thesis
    using typist_idle toggling_devices [of desk_bus "snd \<circ> snd"] by (auto simp: working_def desk_def)
qed


end
