(* ===== verification/Spec2Isabelle.thy ===== *)
theory Spec2Isabelle
  imports Pmm Vmm32 Vmm64 Heap BootMemory EfiBoot EfiMain Sched Spinlock CString Printf Keyboard Mouse Cpu Pci Ata Usb
    Console Framebuffer Gui Klog Rtl8139 Net NetStack Vfs Fat32 TmpTree LineEdit Shell Commands SetupFiles Setup
    Kmain Interrupt Input DiskVolume FatLayout Devices Kernel
begin

text \<open>
  A verification development of the Aerogel kernel: a small operating system for x86 and x86-64 in C, with its network
  protocols in a Rust crate.  Paths below are relative to \<^verbatim>\<open>src\<close>.

  \<^bold>\<open>The program and its parts.\<close>  A boot loader (BIOS stages in assembly, or the UEFI loader \<^verbatim>\<open>arch/x86_64/boot/efi_main.c\<close>) puts the kernel
  and a memory map into memory and jumps to \<^verbatim>\<open>kmain\<close> (\<^verbatim>\<open>kernel/kmain.c\<close>).  \<^verbatim>\<open>kmain\<close> brings up, in this order, the consoles, the
  processor tables and interrupts, the timer, the memory managers and the heap, the input devices, the file systems, the buses and
  devices, the network, the disk, the display, and the threads; it then loops, polling the network.  The shell thread reads
  lines from the keyboard and runs commands on the file systems and the network.

  \<^bold>\<open>Conventions.\<close>  A theory models one component: a record for its static data, datatypes for its enumerations and function
  pointers, one definition per function, named as the function.  State is passed explicitly.  Integers are words where their width
  matters.  \<^verbatim>\<open>kpanic\<close> is the value \<^verbatim>\<open>Panic\<close> of an outcome type, a null pointer that is tested is \<^verbatim>\<open>None\<close> or 0.  Hardware is
  a parameter: a routine that uses ports is a function from device states to a result and a device state (theory \<^verbatim>\<open>Ports\<close>), and
  what it relies on of the device is a named predicate on that parameter (\<^verbatim>\<open>uart_laws\<close>, \<^verbatim>\<open>ata_laws\<close>, \<^verbatim>\<open>rtl_laws\<close>, \<^verbatim>\<open>map_laws\<close>) with a concrete
  device in the witness.  A loop that may run for ever is a \<^verbatim>\<open>partial_function\<close> into an option type, and the theorems about it say
  that it returns; a loop with a bound in the code is a recursion over that bound, with the code's own constant.  No fuel is used.
  Messages that drivers print about their own progress are left out of their models.

  \<^bold>\<open>Shared theories.\<close>  \<^verbatim>\<open>Prelude\<close>: integer types, outcomes, the rule collections \<^verbatim>\<open>frame_simps\<close>, \<^verbatim>\<open>repr_simps\<close> and \<^verbatim>\<open>inv_intros\<close>, the interface
  \<^verbatim>\<open>invariant_of\<close> (what every step keeps holds in every state reached), interpreted for the scheduler, the idle loop and the spin lock.  \<^verbatim>\<open>Fifo\<close>: the
  contract of a first-in first-out queue, interpreted on the run queue and on the keyboard ring.  \<^verbatim>\<open>Ports\<close>: port instructions, busy waiting, and
  \<^verbatim>\<open>safe\<close>, total correctness of a routine with a condition on the device as its invariant.  The interfaces \<^verbatim>\<open>still_bus\<close> and, with device registers and shared memory, \<^verbatim>\<open>still_machine\<close> (theory \<^verbatim>\<open>Usb\<close>)
  say that no access disturbs the condition; the drivers' routines are shown safe once in them.  Interpreted with the trivial condition they give that a
  routine returns on every machine, with the keys still to be typed that start-up loses none.

  \<^bold>\<open>Memory.\<close>
  \<^item> \<^verbatim>\<open>Pmm\<close> (\<^verbatim>\<open>kernel/mm/pmm.c\<close>): the frame bitmap for both targets; initialisation from the memory map establishes the allocator invariant,
    single and contiguous allocation are first fit, sound and complete.  The interface \<^verbatim>\<open>page_allocator\<close> is interpreted for both widths.
  \<^item> \<^verbatim>\<open>Vmm32\<close> (\<^verbatim>\<open>kernel/mm/vmm.c\<close>) and \<^verbatim>\<open>Vmm64\<close> (\<^verbatim>\<open>arch/x86_64/mm/vmm.c\<close>): two and four levels of tables in frames; mapping changes exactly
    one page, the identity maps, when mapping panics.
  \<^item> \<^verbatim>\<open>Heap\<close> (\<^verbatim>\<open>kernel/mm/heap.c\<close>): block headers in an address-indexed store; allocation gives disjoint payloads and keeps all others, release merges,
    reallocation moves the bytes, a second release panics.
  \<^item> \<^verbatim>\<open>BootMemory\<close>: the three together as \<^verbatim>\<open>kmain\<close> calls them; the heap area is not taken from the frame allocator.
    \<^verbatim>\<open>DeviceMemory\<close>: the frames that the controllers then get; the receive ring of the network card always lies inside the heap.

  \<^bold>\<open>Threads.\<close>
  \<^item> \<^verbatim>\<open>Sched\<close> (\<^verbatim>\<open>kernel/sched/sched.c\<close>, \<^verbatim>\<open>thread.c\<close>, \<^verbatim>\<open>switch.asm\<close>): the circular run queue refines a queue, yielding is round robin, the timer tick
    ends, the initial stack enters the thread; a sleeping thread is never woken.
  \<^item> \<^verbatim>\<open>Spinlock\<close> (\<^verbatim>\<open>libs/libk/spinlock.c\<close>): mutual exclusion and progress under every interleaving of the atomic operations.
  \<^item> \<^verbatim>\<open>Kmain\<close>: the console, disk, display and thread parts of \<^verbatim>\<open>kmain\<close> and its idle loop as a step relation; the shell is started and, after its
    first yield, never runs again.

  \<^bold>\<open>Processor, timer and devices.\<close>
  \<^item> \<^verbatim>\<open>Cpu\<close> (\<^verbatim>\<open>arch/*/cpu/gdt.c\<close>, \<^verbatim>\<open>idt.c\<close>, \<^verbatim>\<open>isr.c\<close>, \<^verbatim>\<open>drivers/timer/pit.c\<close>): descriptors, gates, interrupt controller, dispatch, ticks.
  \<^item> \<^verbatim>\<open>Interrupt\<close> (\<^verbatim>\<open>arch/*/cpu/isr.asm\<close>, \<^verbatim>\<open>isr.h\<close>, \<^verbatim>\<open>isr.c\<close>): the path of an interrupt on both targets; the frame is what was pushed, the
    interrupted code goes on unchanged, an exception without a handler is reported.  It also has the copies of the controller code for x86-64.
  \<^item> \<^verbatim>\<open>Input\<close>: the timer and input devices with the interrupt controllers as \<^verbatim>\<open>kmain\<close> starts them, and which interrupts can arrive.  \<^verbatim>\<open>Devices\<close>: the
    start of buses, network and disk over one state, which returns on every machine.
  \<^item> \<^verbatim>\<open>Kernel\<close>: the whole of \<^verbatim>\<open>kmain\<close> for x86-64 over one state of the kernel; with devices that answer and a user who types two lines it runs without a panic to the switch
    to the shell, and the tables, the network, the files and the threads are as the components promise.
  \<^item> \<^verbatim>\<open>Keyboard\<close>, \<^verbatim>\<open>Mouse\<close> (\<^verbatim>\<open>drivers/input\<close>): scan codes, modifiers, the event ring; packets.
  \<^item> \<^verbatim>\<open>Pci\<close> (\<^verbatim>\<open>drivers/bus/pci.c\<close>): the scan equals a reference enumeration.  \<^verbatim>\<open>Ata\<close> (\<^verbatim>\<open>drivers/storage/ata.c\<close>): reads return the sectors asked for,
    every routine returns.  \<^verbatim>\<open>Usb\<close> (\<^verbatim>\<open>drivers/usb\<close>): controller start-up with bounded polling always returns.
  \<^item> \<^verbatim>\<open>Console\<close> (\<^verbatim>\<open>drivers/display/vga_text.c\<close>, \<^verbatim>\<open>drivers/serial/serial.c\<close>): refines a terminal with one linear cursor.  \<^verbatim>\<open>Framebuffer\<close>
    (\<^verbatim>\<open>drivers/display/framebuffer.c\<close>): pixels, shapes, lines, the font.  \<^verbatim>\<open>Gui\<close> (\<^verbatim>\<open>kernel/gui/gui.c\<close>): windows; printing refines a page and stays inside it.
  \<^item> \<^verbatim>\<open>Klog\<close> (\<^verbatim>\<open>libs/libk/kprintf.c\<close>, \<^verbatim>\<open>kernel/panic.c\<close>, \<^verbatim>\<open>kernel/canary.c\<close>): what is formatted reaches the serial port and the screen.

  \<^bold>\<open>C library.\<close>  \<^verbatim>\<open>CString\<close> (\<^verbatim>\<open>libs/libc/src/string.c\<close>) on byte-addressed memory, \<^verbatim>\<open>Printf\<close> (\<^verbatim>\<open>printf.c\<close>, \<^verbatim>\<open>stdlib.c\<close>).

  \<^bold>\<open>Files.\<close>
  \<^item> \<^verbatim>\<open>VfsNode\<close>: nodes with their operation pointers, and the interface \<^verbatim>\<open>directory\<close> (what a lookup returns after an entry is added),
    interpreted by the two file systems.
  \<^item> \<^verbatim>\<open>Tmpfs\<close> (\<^verbatim>\<open>kernel/fs/tmpfs.c\<close>), \<^verbatim>\<open>Fat32\<close> (\<^verbatim>\<open>kernel/fs/fat32.c\<close>), \<^verbatim>\<open>Vfs\<close> (\<^verbatim>\<open>kernel/fs/vfs.c\<close>): reading and writing, cluster chains and directories,
    path resolution.  \<^verbatim>\<open>FatLayout\<close> (\<^verbatim>\<open>kernel/fs/fat32.h\<close>): the structures on disk and where the code reads them.  \<^verbatim>\<open>DiskVolume\<close>: the interface
    \<^verbatim>\<open>sector_source\<close>, interpreted by the disk driver behind the callback of \<^verbatim>\<open>kmain\<close>; a file on a disk is read through the whole stack.  \<^verbatim>\<open>TmpTree\<close>: lemmas on trees of the memory file system.  This theory: a file made is the file opened and read.

  \<^bold>\<open>Network.\<close>
  \<^item> \<^verbatim>\<open>Rtl8139\<close> (\<^verbatim>\<open>drivers/net/rtl8139.c\<close>): descriptors and the receive ring.  \<^verbatim>\<open>Net\<close> (\<^verbatim>\<open>kernel/net/net.c\<close>): the interface layer over the interface
    \<^verbatim>\<open>packet_handler\<close>, interpreted by the C fallback and by the Rust code.
  \<^item> \<^verbatim>\<open>Ipv4\<close>, \<^verbatim>\<open>NetStack\<close> (\<^verbatim>\<open>rust/crates/aerogel-core/src\<close>): Ethernet, ARP, IPv4, ICMP and UDP; the checksum is the one receivers accept, pings and
    ARP requests are answered and nothing else is, from the card to the wire.

  \<^bold>\<open>Shell and set-up.\<close>  \<^verbatim>\<open>LineEdit\<close> (the line readers), \<^verbatim>\<open>Shell\<close> (argument parsing), \<^verbatim>\<open>Commands\<close> (commands and main loop, round by round) of
  \<^verbatim>\<open>userspace/shell/shell.c\<close>; \<^verbatim>\<open>SetupFiles\<close>, \<^verbatim>\<open>Setup\<close> of \<^verbatim>\<open>userspace/setup/setup.c\<close>.

  \<^bold>\<open>UEFI loader.\<close>  \<^verbatim>\<open>EfiBoot\<close> (page tables, memory map), \<^verbatim>\<open>EfiTables\<close> (layout of the firmware's structures, against the specification), \<^verbatim>\<open>EfiMain\<close>
  (the whole of \<^verbatim>\<open>efi_main\<close> with the firmware as a parameter).

  \<^bold>\<open>Bounds.\<close>  Polling bounds (100000 status reads, 10000 reset polls), table sizes (64 PCI functions, 8 windows, 16 arguments, 128 memory map
  entries, 1514-byte frames) are the code's.  Addresses in byte memory are natural numbers; theorems whose code computes addresses in words say where
  no wrap-around happens.

  \<^bold>\<open>Not modelled.\<close>  The memory that the heap hands out is the heap's in \<^verbatim>\<open>Heap\<close> and a fresh address in \<^verbatim>\<open>Tmpfs\<close>, \<^verbatim>\<open>Fat32\<close> and \<^verbatim>\<open>Sched\<close>; \<^verbatim>\<open>Kernel\<close> has the heap as
  \<^verbatim>\<open>heap_init\<close> leaves it.  The disk callback gives the file system the contents of a sector; the state of the disk controller is not threaded through
  \<^verbatim>\<open>Fat32\<close>, and \<^verbatim>\<open>DiskVolume\<close> shows that the answers do not depend on it.  Interrupts arrive between operations, not inside them, and during start-up only while the
  set-up dialogue halts.  The start of the x86 target is in parts: \<^verbatim>\<open>Kernel\<close> composes the x86-64 one.  What is left of the C sources are prototypes, constants
  that no code uses and type names; the assembly of the boot sectors, the instructions that load processor registers, build scripts and host tools are not C and have no definitions here.
\<close>

section \<open>Files through the virtual file system\<close>

text \<open>C26: a file made with \<^verbatim>\<open>tmpfs_mkfile\<close> in the root directory under a fresh name is found by
  \<^verbatim>\<open>vfs_open\<close> under its path, and \<^verbatim>\<open>vfs_read\<close> of it returns the bytes it was made with: the memory
  file system, path resolution and dispatch fit together.\<close>

theorem mkfile_open_read:
  assumes "tmpfs_inv s" "vfs_root m \<noteq> 0" "vfs_root m < brk s"
    and "n_finddir (nodes s (vfs_root m)) = Tmpfs_finddir" "tmpfs_finddir (vfs_root m) nm s = 0"
    and "nm \<noteq> []" "0x2F \<notin> set nm" "length nm < 255" "length data = unat sz"
  shows "\<exists>n s'. tmpfs_mkfile junk (vfs_root m) nm (Some data) sz s = (n, s') \<and>
    vfs_open stale m (0x2F # nm) s' = Some (n, s') \<and> vfs_read n 0 sz s' = Some (data, s')"
proof -
  let ?r = "vfs_root m"
  obtain n s' where r: "tmpfs_mkfile junk ?r nm (Some data) sz s = (n, s')" by fastforce
  note x = tmpfs_mkfile_exec [OF assms(1) refl assms(3,9), where junk = junk and nm = nm, unfolded r fst_conv snd_conv]
  have "tmpfs_finddir ?r nm s' = n"
    using tmp_dir.finddir_appended [OF assms(1) x(2) x(4), of nm] x(5,8) assms(5,8)
      tmpfs_entries_pos(2) [OF assms(1), of _ ?r] by simp
  moreover have "n_finddir (nodes s' ?r) = Tmpfs_finddir" using x(8) assms(3,4) by simp
  ultimately have "vfs_open stale m (0x2F # nm) s' = Some (n, s')"
    using vfs_open_single [OF assms(6,7,8,2)] by simp
  moreover have "vfs_read n 0 sz s' = Some (data, s')"
    using x(1,3,6) assms(9) tmpfs_read_data [OF x(2), of n 0 sz] by (simp add: vfs_read_def)
  ultimately show ?thesis using r by blast
qed

theorem mkfile_open_read_witness:
  "\<exists>n s. tmpfs_mkfile (\<lambda>_. 0) 2 [0x76] (Some [1, 2, 3]) 3 sample_root = (n, s) \<and>
     vfs_open [] \<lparr>mounts = [], vfs_root = 2\<rparr> [0x2F, 0x76] s = Some (n, s) \<and> vfs_read n 0 3 s = Some ([1, 2, 3], s)"
  using mkfile_open_read [OF sample_root_simps(2), of "\<lparr>mounts = [], vfs_root = 2\<rparr>" "[0x76]" "[1, 2, 3]" 3 "\<lambda>_. 0" "[]"]
  by (simp add: sample_root_simps tmpfs_finddir_def)

end
